(* ===== verification/Honker_Base.thy ===== *)
theory Honker_Base
  imports Main "HOL-Library.Multiset" "HOL-Library.Product_Lexorder"
    "HOL-Library.List_Lexorder" "HOL-Library.Char_ord"
begin

text \<open>
  The prelude of the development: the collections the component proofs feed to the
  simplifier, the error values of the code, 64-bit arithmetic as Rust compiles it in a
  release build, and the list semantics of the SQL clauses the queries use
  (\<open>WHERE\<close>, \<open>ORDER BY\<close>, \<open>LIMIT\<close>, comparison with \<open>NULL\<close>).
\<close>

named_theorems sql_simps \<open>rewriting SQL clauses on tables\<close>
named_theorems tame_intros \<open>a database action keeps the transaction frames it found\<close>
named_theorems timely_intros \<open>a database action does not turn the clock back\<close>
named_theorems keeps_intros \<open>a database action keeps an invariant of the tables\<close>

section \<open>Errors\<close>

text \<open>The outcome codes of SQLite the code looks at; every other one is \<open>OtherCode\<close>.\<close>

datatype errcode = DatabaseBusy | DatabaseLocked | ConstraintViolation | OtherCode int

text \<open>
  What the schedule parser and calculator of \<^verbatim>\<open>cron.rs\<close> report. The source builds an
  English sentence; the constructor names the sentence and keeps its arguments.
\<close>

datatype cron_err =
    EveryMissing
  | EveryShape string
  | EveryNotInteger string
  | EveryNotPositive string
  | EveryUnit string
  | EveryTooLarge string
  | FieldCount nat string
  | StepNotInteger string
  | StepNotPositive string
  | FieldNotInteger string
  | FieldRange string nat nat
  | IntervalOverflow string
  | InvalidTimestamp int
  | NoMatchIn100Years
  | NoLocalMatchIn100Years int string

text \<open>Why \<^verbatim>\<open>real_to_i64\<close> refuses a floating-point argument.\<close>

datatype whole_err = ArgNan | ArgInfinite | ArgFraction | ArgRange

text \<open>
  The errors of the database layer: what SQLite reports, a column that does not decode,
  and the messages \<^verbatim>\<open>to_sql_err\<close> wraps. \<open>UndoFailed\<close> is the error of
  \<^verbatim>\<open>undo_savepoint\<close>: the cause, the savepoint and what went wrong while undoing.
\<close>

datatype sqlerr =
    SqliteFailure errcode string
  | ConversionError
  | MaxAttemptsError string int
  | MoveMismatch int int
  | TtlNotPositive
  | LimitNotPositive
  | CronError cron_err
  | InvalidParameterType nat
  | NotWhole nat whole_err
  | WrongArguments string
  | UserFunctionError sqlerr
  | UndoFailed sqlerr string "undo_failure list"
and undo_failure = RollbackToFailed string sqlerr | RollbackFailed sqlerr

text \<open>A Rust call returns a value, returns an error, or unwinds.\<close>

datatype 'a res = Ok 'a | Err sqlerr | Panicked

section \<open>Machine integers\<close>

text \<open>Two's complement wrap-around of \<^verbatim>\<open>i64\<close>, as \<open>+\<close> compiles without overflow checks.\<close>

definition i64_min :: int where "i64_min = - (2 ^ 63)"
definition i64_max :: int where "i64_max = 2 ^ 63 - 1"

definition in_i64 :: "int \<Rightarrow> bool" where
  "in_i64 x \<longleftrightarrow> i64_min \<le> x \<and> x \<le> i64_max"

definition wrap_i64 :: "int \<Rightarrow> int" where
  "wrap_i64 x = (x + 2 ^ 63) mod 2 ^ 64 - 2 ^ 63"

definition checked_i64 :: "int \<Rightarrow> int option" where
  "checked_i64 x = (if in_i64 x then Some x else None)"

definition saturating_i64 :: "int \<Rightarrow> int" where
  "saturating_i64 x = max i64_min (min i64_max x)"

lemma wrap_i64_id [simp]: "in_i64 x \<Longrightarrow> wrap_i64 x = x"
  by (simp add: wrap_i64_def in_i64_def i64_min_def i64_max_def)

lemma in_i64_wrap [simp]: "in_i64 (wrap_i64 x)"
proof -
  have "0 \<le> (x + 2 ^ 63) mod 2 ^ 64" and "(x + 2 ^ 63) mod 2 ^ 64 < 2 ^ 64"
    by simp_all
  then show ?thesis
    by (simp add: wrap_i64_def in_i64_def i64_min_def i64_max_def)
qed

lemma checked_i64_Some [simp]: "checked_i64 x = Some y \<longleftrightarrow> in_i64 x \<and> y = x"
  by (auto simp: checked_i64_def)

lemma in_i64_saturating [simp]: "in_i64 (saturating_i64 x)"
  by (simp add: saturating_i64_def in_i64_def i64_min_def i64_max_def)

section \<open>SQL clauses on tables\<close>

text \<open>
  A table is the list of its rows. \<open>UPDATE t SET f WHERE p\<close> and
  \<open>DELETE FROM t WHERE p\<close> act on every row that satisfies \<open>p\<close>; the count they
  return is \<open>rows_where p\<close>. A negative \<open>LIMIT\<close> is no limit.
\<close>

definition upd_where :: "('r \<Rightarrow> bool) \<Rightarrow> ('r \<Rightarrow> 'r) \<Rightarrow> 'r list \<Rightarrow> 'r list" where
  "upd_where p f rows = map (\<lambda>r. if p r then f r else r) rows"

definition del_where :: "('r \<Rightarrow> bool) \<Rightarrow> 'r list \<Rightarrow> 'r list" where
  "del_where p rows = filter (\<lambda>r. \<not> p r) rows"

definition count_where :: "('r \<Rightarrow> bool) \<Rightarrow> 'r list \<Rightarrow> int" where
  "count_where p rows = int (length (filter p rows))"

definition sql_limit :: "int \<Rightarrow> 'r list \<Rightarrow> 'r list" where
  "sql_limit n rows = (if n < 0 then rows else take (nat n) rows)"

definition order_by :: "('r \<Rightarrow> 'k::linorder) \<Rightarrow> 'r list \<Rightarrow> 'r list" where
  "order_by k rows = sort_key k rows"

text \<open>A comparison with \<open>NULL\<close> is \<open>NULL\<close>, which a \<open>WHERE\<close> clause rejects.\<close>

definition null_less :: "int option \<Rightarrow> int \<Rightarrow> bool" where
  "null_less v x = (case v of None \<Rightarrow> False | Some y \<Rightarrow> y < x)"

definition null_le :: "int option \<Rightarrow> int \<Rightarrow> bool" where
  "null_le v x = (case v of None \<Rightarrow> False | Some y \<Rightarrow> y \<le> x)"

definition null_ge :: "int option \<Rightarrow> int \<Rightarrow> bool" where
  "null_ge v x = (case v of None \<Rightarrow> False | Some y \<Rightarrow> x \<le> y)"

lemma null_cmp_simps [simp]:
  "null_less None x = False" "null_less (Some y) x = (y < x)"
  "null_le None x = False" "null_le (Some y) x = (y \<le> x)"
  "null_ge None x = False" "null_ge (Some y) x = (x \<le> y)"
  by (simp_all add: null_less_def null_le_def null_ge_def)

lemma upd_where_simps [simp]:
  "upd_where p f [] = []"
  "upd_where p f (r # rs) = (if p r then f r else r) # upd_where p f rs"
  "length (upd_where p f rs) = length rs"
  by (simp_all add: upd_where_def)

lemma del_where_simps [simp]:
  "del_where p [] = []"
  "del_where p (r # rs) = (if p r then del_where p rs else r # del_where p rs)"
  "set (del_where p rs) = {r \<in> set rs. \<not> p r}"
  by (auto simp: del_where_def)

lemma count_where_simps [simp]:
  "count_where p [] = 0"
  "count_where p (r # rs) = (if p r then 1 else 0) + count_where p rs"
  "0 \<le> count_where p rs"
  by (simp_all add: count_where_def)

lemma count_where_pos: "0 < count_where p rs \<longleftrightarrow> (\<exists>r\<in>set rs. p r)"
  by (simp add: count_where_def) (metis (mono_tags, lifting) empty_filter_conv)

lemma count_where_0: "count_where p rs = 0 \<longleftrightarrow> (\<forall>r\<in>set rs. \<not> p r)"
  by (simp add: count_where_def filter_empty_conv)

lemma upd_where_none: "(\<And>r. r \<in> set rs \<Longrightarrow> \<not> p r) \<Longrightarrow> upd_where p f rs = rs"
  by (simp add: upd_where_def map_idI)

lemma del_where_none: "(\<And>r. r \<in> set rs \<Longrightarrow> \<not> p r) \<Longrightarrow> del_where p rs = rs"
  by (simp add: del_where_def filter_id_conv)

lemma set_upd_where: "set (upd_where p f rs) = {f r |r. r \<in> set rs \<and> p r} \<union> {r \<in> set rs. \<not> p r}"
  by (auto simp: upd_where_def)

lemma map_upd_where [simp]: "(\<And>r. p r \<Longrightarrow> g (f r) = g r) \<Longrightarrow> map g (upd_where p f rs) = map g rs"
  by (induction rs) auto

lemma distinct_map_del_where [intro]: "distinct (map g rs) \<Longrightarrow> distinct (map g (del_where p rs))"
  by (simp add: del_where_def distinct_map_filter)

lemma mset_del_where: "mset rs = mset (del_where p rs) + mset (filter p rs)"
  by (induction rs) (auto simp: del_where_def)

lemma sql_limit_set: "set (sql_limit n rs) \<subseteq> set rs"
  by (auto simp: sql_limit_def dest: in_set_takeD)

lemma sql_limit_length: "0 \<le> n \<Longrightarrow> int (length (sql_limit n rs)) \<le> n"
  by (simp add: sql_limit_def)

lemma sql_limit_Nil [simp]: "sql_limit n [] = []"
  by (simp add: sql_limit_def)

lemma sql_limit_neg [simp]: "n < 0 \<Longrightarrow> sql_limit n rs = rs"
  by (simp add: sql_limit_def)

lemma set_order_by [simp]: "set (order_by k rs) = set rs"
  by (simp add: order_by_def)

lemma mset_order_by [simp]: "mset (order_by k rs) = mset rs"
  by (simp add: order_by_def)

lemma length_order_by [simp]: "length (order_by k rs) = length rs"
  by (simp add: order_by_def)

lemma sorted_order_by [simp]: "sorted (map k (order_by k rs))"
  by (simp add: order_by_def)

lemma distinct_order_by: "distinct (map g rs) \<Longrightarrow> distinct (map g (order_by k rs))"
  by (metis mset_order_by mset_map mset_eq_imp_distinct_iff)

lemma distinct_sql_limit: "distinct (map g rs) \<Longrightarrow> distinct (map g (sql_limit n rs))"
  by (simp add: sql_limit_def distinct_take flip: take_map)

lemma find_snoc: "find q (rows @ [r]) = (case find q rows of None \<Rightarrow> (if q r then Some r else None) | Some x \<Rightarrow> Some x)"
  by (induction rows) auto

text \<open>A condition that fixes the key of a row matches one row at most.\<close>

lemma filter_unique:
  assumes "distinct (map g rows)" and "\<And>x. p x \<Longrightarrow> g x = k" and "filter p rows = j # js"
  shows "js = []"
proof (rule ccontr)
  assume "js \<noteq> []"
  then obtain x xs where js: "js = x # xs" by (cases js) auto
  have "distinct (map g (filter p rows))" using assms(1) by (rule distinct_map_filter)
  then have "g j \<noteq> g x" unfolding assms(3) js by simp
  moreover have "j \<in> set (filter p rows)" "x \<in> set (filter p rows)" unfolding assms(3) js by simp_all
  ultimately show False using assms(2)[of j] assms(2)[of x] by simp
qed

section \<open>The first rows of an ordering\<close>

text \<open>
  Two lists with the same rows have the same ordering when the key tells rows apart, and a row
  behind \<open>n\<close> others does not change the first \<open>n\<close>: taking the first \<open>n\<close> of one
  part before merging it with another is sound.
\<close>

lemma order_by_mset_eq:
  assumes "mset xs = mset ys" and "inj_on k (set xs)"
  shows "order_by k xs = order_by k ys"
  unfolding order_by_def
  using assms by (intro sort_key_inj_key_eq) auto

lemma take_insort_behind:
  assumes "sorted (map k ys)" and "n \<le> length (filter (\<lambda>y. k y < k q) ys)"
  shows "take n (insort_key k q ys) = take n ys"
  using assms
proof (induction ys arbitrary: n)
  case Nil
  then show ?case by simp
next
  case (Cons y ys)
  show ?case
  proof (cases "k q \<le> k y")
    case True
    with Cons.prems have "filter (\<lambda>z. k z < k q) (y # ys) = []"
      by (auto simp: filter_empty_conv)
    with Cons.prems(2) have "n = 0" by simp
    then show ?thesis by simp
  next
    case False
    then have "k y < k q" by simp
    with Cons show ?thesis by (cases n) auto
  qed
qed

lemma length_filter_insort_mono:
  "length (filter p ys) \<le> length (filter p (insort_key k q ys))"
  by (induction ys) auto

lemma take_foldr_insort_behind:
  assumes "sorted (map k ys)" and "\<And>q. q \<in> set qs \<Longrightarrow> n \<le> length (filter (\<lambda>y. k y < k q) ys)"
  shows "take n (foldr (insort_key k) qs ys) = take n ys \<and> sorted (map k (foldr (insort_key k) qs ys))
    \<and> (\<forall>p. length (filter p ys) \<le> length (filter p (foldr (insort_key k) qs ys)))"
  using assms
proof (induction qs)
  case Nil
  then show ?case by simp
next
  case (Cons q qs)
  then have IH: "take n (foldr (insort_key k) qs ys) = take n ys"
      "sorted (map k (foldr (insort_key k) qs ys))"
      "\<And>p. length (filter p ys) \<le> length (filter p (foldr (insort_key k) qs ys))"
    by auto
  have "n \<le> length (filter (\<lambda>y. k y < k q) (foldr (insort_key k) qs ys))"
    using Cons.prems(2)[of q] IH(3)[of "\<lambda>y. k y < k q"] by simp
  with IH show ?case
    by (auto simp: take_insort_behind sorted_insort_key intro: order_trans[OF _ length_filter_insort_mono])
qed

lemma order_by_append: "order_by k (xs @ ys) = foldr (insort_key k) xs (order_by k ys)"
  by (simp add: order_by_def sort_key_def)

lemma length_filter_less_prefix:
  assumes "sorted (map k (P @ Q))" and "inj_on k (set (P @ Q))" and "distinct (P @ Q)" and "q \<in> set Q"
  shows "length (filter (\<lambda>y. k y < k q) P) = length P"
proof -
  have "k p < k q" if "p \<in> set P" for p
  proof -
    from assms(1,4) that have "k p \<le> k q" by (auto simp: sorted_append)
    moreover from assms(2-4) that have "k p \<noteq> k q" by (auto dest!: inj_onD[where x = p and y = q])
    ultimately show ?thesis by simp
  qed
  then show ?thesis by (metis filter_True)
qed

lemma first_rows_of_parts:
  assumes inj: "inj_on k (set A \<union> set B)" and dist: "distinct A"
  shows "sql_limit n (order_by k (sql_limit n (order_by k A) @ B)) = sql_limit n (order_by k (A @ B))"
proof (cases "n < 0 \<or> int (length A) \<le> n")
  case True
  then have "sql_limit n (order_by k A) = order_by k A" by (auto simp: sql_limit_def)
  moreover have "order_by k (order_by k A @ B) = order_by k (A @ B)"
    using inj by (intro order_by_mset_eq) auto
  ultimately show ?thesis by simp
next
  case False
  define P where "P = take (nat n) (order_by k A)"
  define Q where "Q = drop (nat n) (order_by k A)"
  have PQ: "order_by k A = P @ Q" by (simp add: P_def Q_def)
  have lenP: "length P = nat n" using False by (simp add: P_def) linarith
  have setPQ: "set (P @ Q) = set A" unfolding PQ[symmetric] by simp
  have "distinct (P @ Q)" using dist unfolding PQ[symmetric] by (metis mset_order_by mset_eq_imp_distinct_iff)
  moreover have "sorted (map k (P @ Q))" unfolding PQ[symmetric] by simp
  moreover have "inj_on k (set (P @ Q))" using inj setPQ by (auto intro: inj_on_subset)
  ultimately have lessP: "length (filter (\<lambda>y. k y < k q) P) = nat n" if "q \<in> set Q" for q
    using length_filter_less_prefix that lenP by metis
  have less: "nat n \<le> length (filter (\<lambda>y. k y < k q) (order_by k (P @ B)))" if "q \<in> set Q" for q
  proof -
    have "length (filter (\<lambda>y. k y < k q) (order_by k (P @ B)))
        = size (filter_mset (\<lambda>y. k y < k q) (mset (order_by k (P @ B))))"
      by (metis mset_filter size_mset)
    also have "\<dots> = length (filter (\<lambda>y. k y < k q) (P @ B))" by (metis mset_filter mset_order_by size_mset)
    finally show ?thesis using lessP[OF that] by simp
  qed
  have "order_by k (A @ B) = order_by k (Q @ P @ B)"
  proof (rule order_by_mset_eq)
    show "mset (A @ B) = mset (Q @ P @ B)"
      using PQ by (metis mset_append mset_order_by union_commute append_assoc)
    show "inj_on k (set (A @ B))" using inj by simp
  qed
  also have "take (nat n) \<dots> = take (nat n) (order_by k (P @ B))"
    using take_foldr_insort_behind[OF sorted_order_by less] by (simp add: order_by_append[of k Q])
  finally show ?thesis using False by (simp add: sql_limit_def P_def)
qed

end
