(* ===== verification/Sqlite_Conn.thy ===== *)
theory Sqlite_Conn
  imports Honker_Base
begin

text \<open>
  A SQLite connection as the code sees it: the state of the database inside the current
  transaction, the durable state other connections see, the open savepoints, the clock and
  what the environment will do to the next statements, and what was printed to stderr. A statement may fail at any point, a
  failure may roll the whole transaction back, Rust code around a statement may panic, and
  the clock may move between two statements: the \<open>script\<close> of a connection says so, one entry
  per statement, and every theorem of the development holds for every script.
\<close>

datatype fault = FaultErr sqlerr | FaultRollback sqlerr | FaultPanic

record env_step =
  tick :: int
  fault :: "fault option"

datatype txn = NoTx | Explicit | Implicit

record 'd conn =
  db :: 'd
  disk :: 'd
  frames :: "(string \<times> 'd) list"
  tx :: txn
  clock :: int
  script :: "env_step list"
  stderr :: "(string \<times> undo_failure list) list"

text \<open>An action on a connection: the way \<^verbatim>\<open>&Connection\<close> is threaded through the calls.\<close>

type_synonym ('d, 'a) action = "'d conn \<Rightarrow> 'a res \<times> 'd conn"

section \<open>Sequencing: the \<open>?\<close> of the source\<close>

definition sret :: "'a \<Rightarrow> ('d, 'a) action" where
  "sret a c = (Ok a, c)"

definition sfail :: "sqlerr \<Rightarrow> ('d, 'a) action" where
  "sfail e c = (Err e, c)"

definition sbind :: "('d, 'a) action \<Rightarrow> ('a \<Rightarrow> ('d, 'b) action) \<Rightarrow> ('d, 'b) action" where
  "sbind m k c = (case m c of
       (Ok a, c') \<Rightarrow> k a c'
     | (Err e, c') \<Rightarrow> (Err e, c')
     | (Panicked, c') \<Rightarrow> (Panicked, c'))"

section \<open>Statements\<close>

definition next_env :: "'d conn \<Rightarrow> fault option \<times> 'd conn" where
  "next_env c = (case script c of
       [] \<Rightarrow> (None, c)
     | e # es \<Rightarrow> (fault e, c\<lparr>script := es, clock := clock c + tick e\<rparr>))"

definition is_autocommit :: "'d conn \<Rightarrow> bool" where
  "is_autocommit c \<longleftrightarrow> tx c = NoTx"

text \<open>SQLite leaves the transaction: every uncommitted change and every savepoint is gone.\<close>

definition abort_tx :: "'d conn \<Rightarrow> 'd conn" where
  "abort_tx c = c\<lparr>db := disk c, frames := [], tx := NoTx\<rparr>"

text \<open>Outside a transaction a successful statement commits on its own.\<close>

definition put_db :: "'d \<Rightarrow> 'd conn \<Rightarrow> 'd conn" where
  "put_db d c = (if is_autocommit c then c\<lparr>db := d, disk := d\<rparr> else c\<lparr>db := d\<rparr>)"

text \<open>
  A data statement, from the clock reading and the database to an error or a value and the
  new database. A statement that fails changes nothing.
\<close>

definition exec :: "(int \<Rightarrow> 'd \<Rightarrow> sqlerr + 'a \<times> 'd) \<Rightarrow> ('d, 'a) action" where
  "exec stmt c = (case next_env c of (f, c1) \<Rightarrow>
     (case f of
        Some (FaultErr e) \<Rightarrow> (Err e, c1)
      | Some (FaultRollback e) \<Rightarrow> (Err e, abort_tx c1)
      | Some FaultPanic \<Rightarrow> (Panicked, c1)
      | None \<Rightarrow>
          (case stmt (clock c1) (db c1) of
             Inl e \<Rightarrow> (Err e, c1)
           | Inr (a, d) \<Rightarrow> (Ok a, put_db d c1))))"

text \<open>A \<open>SELECT\<close>, and decoding the columns of a returned row.\<close>

definition query :: "(int \<Rightarrow> 'd \<Rightarrow> sqlerr + 'a) \<Rightarrow> ('d, 'a) action" where
  "query q = exec (\<lambda>t d. case q t d of Inl e \<Rightarrow> Inl e | Inr a \<Rightarrow> Inr (a, d))"

definition decode :: "'a \<Rightarrow> ('d, 'a) action" where
  "decode a = exec (\<lambda>t d. Inr (a, d))"

definition now_unix :: "('d, int) action" where
  "now_unix = query (\<lambda>t d. Inr t)"

section \<open>Transaction control\<close>

text \<open>
  No Rust code runs inside \<open>BEGIN\<close>, \<open>SAVEPOINT\<close>, \<open>RELEASE\<close> or \<open>ROLLBACK\<close>, so
  they fail or succeed and never panic.
\<close>

definition control :: "('d conn \<Rightarrow> sqlerr + 'd conn) \<Rightarrow> 'd conn \<Rightarrow> (sqlerr + unit) \<times> 'd conn" where
  "control f c = (case next_env c of (ft, c1) \<Rightarrow>
     (case ft of
        Some (FaultErr e) \<Rightarrow> (Inl e, c1)
      | Some (FaultRollback e) \<Rightarrow> (Inl e, abort_tx c1)
      | _ \<Rightarrow> (case f c1 of Inl e \<Rightarrow> (Inl e, c1) | Inr c2 \<Rightarrow> (Inr (), c2))))"

definition sql_savepoint :: "string \<Rightarrow> 'd conn \<Rightarrow> (sqlerr + unit) \<times> 'd conn" where
  "sql_savepoint name = control (\<lambda>c. Inr (c\<lparr>frames := (name, db c) # frames c,
      tx := (if is_autocommit c then Implicit else tx c)\<rparr>))"

text \<open>
  \<open>RELEASE\<close> removes the newest frame of that name and the frames inside it. Releasing the
  outermost savepoint of a transaction a savepoint opened is the commit.
\<close>

definition commit_tx :: "'d conn \<Rightarrow> 'd conn" where
  "commit_tx c = c\<lparr>disk := db c, frames := [], tx := NoTx\<rparr>"

definition no_savepoint :: "string \<Rightarrow> sqlerr" where
  "no_savepoint name = SqliteFailure (OtherCode 1) (''no such savepoint: '' @ name)"

fun frames_from :: "string \<Rightarrow> (string \<times> 'd) list \<Rightarrow> (string \<times> 'd) list" where
  "frames_from name [] = []"
| "frames_from name ((n, d) # fs) = (if n = name then (n, d) # fs else frames_from name fs)"

definition sql_release :: "string \<Rightarrow> 'd conn \<Rightarrow> (sqlerr + unit) \<times> 'd conn" where
  "sql_release name = control (\<lambda>c.
     (case frames_from name (frames c) of
        [] \<Rightarrow> Inl (no_savepoint name)
      | _ # fs \<Rightarrow>
          Inr (if fs = [] \<and> tx c = Implicit then commit_tx c else c\<lparr>frames := fs\<rparr>)))"

definition sql_rollback_to :: "string \<Rightarrow> 'd conn \<Rightarrow> (sqlerr + unit) \<times> 'd conn" where
  "sql_rollback_to name = control (\<lambda>c.
     (case frames_from name (frames c) of
        [] \<Rightarrow> Inl (no_savepoint name)
      | (n, d) # fs \<Rightarrow> Inr (c\<lparr>db := d, frames := (n, d) # fs\<rparr>)))"

definition sql_rollback :: "'d conn \<Rightarrow> (sqlerr + unit) \<times> 'd conn" where
  "sql_rollback = control (\<lambda>c.
     (if is_autocommit c then Inl (SqliteFailure (OtherCode 1) ''cannot rollback - no transaction is active'')
      else Inr (abort_tx c)))"

definition sql_begin :: "'d conn \<Rightarrow> (sqlerr + unit) \<times> 'd conn" where
  "sql_begin = control (\<lambda>c.
     (if is_autocommit c then Inr (c\<lparr>tx := Explicit\<rparr>)
      else Inl (SqliteFailure (OtherCode 1) ''cannot start a transaction within a transaction'')))"

definition sql_commit :: "'d conn \<Rightarrow> (sqlerr + unit) \<times> 'd conn" where
  "sql_commit = control (\<lambda>c.
     (if is_autocommit c then Inl (SqliteFailure (OtherCode 1) ''cannot commit - no transaction is active'')
      else Inr (commit_tx c)))"

text \<open>A connection just opened on a database file.\<close>

definition fresh_conn :: "'d \<Rightarrow> int \<Rightarrow> env_step list \<Rightarrow> 'd conn" where
  "fresh_conn d t s = \<lparr>db = d, disk = d, frames = [], tx = NoTx, clock = t, script = s, stderr = []\<rparr>"

definition conn_ok :: "'d conn \<Rightarrow> bool" where
  "conn_ok c \<longleftrightarrow> (tx c = NoTx \<longrightarrow> db c = disk c \<and> frames c = [])
     \<and> (tx c = Implicit \<longrightarrow> frames c \<noteq> [])"

lemma fresh_conn_simps [simp]:
  "db (fresh_conn d t s) = d" "disk (fresh_conn d t s) = d" "frames (fresh_conn d t s) = []"
  "tx (fresh_conn d t s) = NoTx" "clock (fresh_conn d t s) = t" "script (fresh_conn d t s) = s"
  "stderr (fresh_conn d t s) = []"
  "conn_ok (fresh_conn d t s)"
  by (simp_all add: fresh_conn_def conn_ok_def)

section \<open>The clock and the script\<close>

lemma next_env_simps [simp]:
  "db (snd (next_env c)) = db c" "disk (snd (next_env c)) = disk c"
  "frames (snd (next_env c)) = frames c" "tx (snd (next_env c)) = tx c"
  "stderr (snd (next_env c)) = stderr c"
  by (simp_all add: next_env_def split: list.split)

lemma next_env_Pair:
  "next_env c = (f, c1) \<Longrightarrow>
     db c1 = db c \<and> disk c1 = disk c \<and> frames c1 = frames c \<and> tx c1 = tx c \<and> stderr c1 = stderr c"
  by (metis next_env_simps snd_conv)

lemma next_env_Nil [simp]: "script c = [] \<Longrightarrow> next_env c = (None, c)"
  by (simp add: next_env_def)

lemma next_env_Cons [simp]:
  "script c = e # es \<Longrightarrow> next_env c = (fault e, c\<lparr>script := es, clock := clock c + tick e\<rparr>)"
  by (simp add: next_env_def)

lemma abort_tx_simps [simp]:
  "db (abort_tx c) = disk c" "disk (abort_tx c) = disk c" "frames (abort_tx c) = []"
  "tx (abort_tx c) = NoTx" "clock (abort_tx c) = clock c" "script (abort_tx c) = script c"
  by (simp_all add: abort_tx_def)

lemma put_db_simps [simp]:
  "db (put_db d c) = d" "frames (put_db d c) = frames c" "tx (put_db d c) = tx c"
  "clock (put_db d c) = clock c" "script (put_db d c) = script c"
  "disk (put_db d c) = (if tx c = NoTx then d else disk c)"
  by (simp_all add: put_db_def is_autocommit_def)

lemma sbind_simps [simp]:
  "sbind (sret a) k = k a"
  "sbind (sfail e) k = sfail e"
  "m c = (Ok a, c') \<Longrightarrow> sbind m k c = k a c'"
  "m c = (Err e, c') \<Longrightarrow> sbind m k c = (Err e, c')"
  "m c = (Panicked, c') \<Longrightarrow> sbind m k c = (Panicked, c')"
  by (simp_all add: sbind_def sret_def sfail_def fun_eq_iff)

lemma sret_apply [simp]: "sret a c = (Ok a, c)"
  by (simp add: sret_def)

lemma sfail_apply [simp]: "sfail e c = (Err e, c)"
  by (simp add: sfail_def)

text \<open>The only way a sequence succeeds is that both halves do.\<close>

lemma sbind_Ok:
  assumes "sbind m k c = (Ok b, c')"
  obtains a c1 where "m c = (Ok a, c1)" "k a c1 = (Ok b, c')"
  using assms by (auto simp: sbind_def split: prod.splits res.splits)

lemma exec_Ok:
  assumes "exec stmt c = (Ok a, c')"
  obtains t d where "stmt t (db c) = Inr (a, d)" "db c' = d" "t = clock c'"
    "frames c' = frames c" "tx c' = tx c" "disk c' = (if tx c = NoTx then d else disk c)"
  using assms
  by (auto simp: exec_def next_env_def split: prod.splits option.splits fault.splits sum.splits list.splits)

text \<open>The same as a destruction rule, with the new database on the left.\<close>

lemma exec_OkD:
  "exec stmt c = (Ok a, c') \<Longrightarrow> Inr (a, db c') = stmt (clock c') (db c) \<and> frames c' = frames c \<and> tx c' = tx c"
  by (erule exec_Ok) simp

lemma query_Ok:
  assumes "query q c = (Ok a, c')"
  obtains t where "q t (db c) = Inr a" "db c' = db c" "t = clock c'"
    "frames c' = frames c" "tx c' = tx c" "disk c' = (if tx c = NoTx then db c else disk c)"
  using assms unfolding query_def by (auto elim!: exec_Ok split: sum.splits)

lemma decode_Ok:
  assumes "decode x c = (Ok a, c')"
  obtains "a = x" "db c' = db c" "frames c' = frames c" "tx c' = tx c"
    "disk c' = (if tx c = NoTx then db c else disk c)"
  using assms unfolding decode_def by (auto elim!: exec_Ok)

lemma now_unix_Ok:
  assumes "now_unix c = (Ok t, c')"
  obtains "t = clock c'" "db c' = db c" "frames c' = frames c" "tx c' = tx c"
    "disk c' = (if tx c = NoTx then db c else disk c)"
  using assms unfolding now_unix_def by (auto elim!: query_Ok)

text \<open>With an empty script a statement runs at the clock it finds and cannot fail by itself.\<close>

lemma exec_quiet [simp]:
  "script c = [] \<Longrightarrow> exec stmt c = (case stmt (clock c) (db c) of
     Inl e \<Rightarrow> (Err e, c) | Inr (a, d) \<Rightarrow> (Ok a, put_db d c))"
  by (simp add: exec_def)

lemma put_db_same: "conn_ok c \<Longrightarrow> put_db (db c) c = c"
  by (cases c) (auto simp: put_db_def conn_ok_def is_autocommit_def)

section \<open>Actions that keep the frames they found\<close>

text \<open>
  Inside a transaction an action that only runs statements leaves the savepoints and the
  durable state alone, or SQLite rolled the transaction back under it and it reports an error.
\<close>

definition same_tx :: "'d conn \<Rightarrow> 'd conn \<Rightarrow> bool" where
  "same_tx c c' \<longleftrightarrow> frames c' = frames c \<and> tx c' = tx c \<and> disk c' = disk c"

definition rolled_back :: "'d conn \<Rightarrow> 'd conn \<Rightarrow> bool" where
  "rolled_back c c' \<longleftrightarrow> frames c' = [] \<and> tx c' = NoTx \<and> disk c' = disk c \<and> db c' = disk c"

definition is_err :: "'a res \<Rightarrow> bool" where
  "is_err r = (case r of Err _ \<Rightarrow> True | _ \<Rightarrow> False)"

lemma is_err_simps [simp]: "is_err (Ok a) = False" "is_err (Err e) = True" "is_err Panicked = False"
  by (simp_all add: is_err_def)

definition tame :: "('d, 'a) action \<Rightarrow> bool" where
  "tame m \<longleftrightarrow> (\<forall>c r c'. tx c \<noteq> NoTx \<longrightarrow> m c = (r, c') \<longrightarrow>
      same_tx c c' \<or> (rolled_back c c' \<and> is_err r))"

lemma tameD: "tame m \<Longrightarrow> tx c \<noteq> NoTx \<Longrightarrow> m c = (r, c') \<Longrightarrow>
    same_tx c c' \<or> (rolled_back c c' \<and> is_err r)"
  by (auto simp: tame_def)

lemma same_tx_refl [simp]: "same_tx c c"
  by (simp add: same_tx_def)

lemma same_tx_trans: "same_tx a b \<Longrightarrow> same_tx b c \<Longrightarrow> same_tx a c"
  by (simp add: same_tx_def)

lemma same_tx_rolled_back: "same_tx a b \<Longrightarrow> rolled_back b c \<Longrightarrow> rolled_back a c"
  by (simp add: same_tx_def rolled_back_def)

lemma tame_sret [tame_intros]: "tame (sret a)"
  by (simp add: tame_def)

lemma tame_sfail [tame_intros]: "tame (sfail e)"
  by (simp add: tame_def)

lemma tame_exec [tame_intros]: "tame (exec stmt)"
  by (auto simp: tame_def exec_def same_tx_def rolled_back_def dest!: next_env_Pair
      split: prod.splits option.splits fault.splits sum.splits)

lemma tame_query [tame_intros]: "tame (query q)"
  by (simp add: query_def tame_exec)

lemma tame_decode [tame_intros]: "tame (decode a)"
  by (simp add: decode_def tame_exec)

lemma tame_now_unix [tame_intros]: "tame now_unix"
  by (simp add: now_unix_def tame_query)

lemma tame_sbind [tame_intros]:
  assumes m: "tame m" and k: "\<And>a. tame (k a)"
  shows "tame (sbind m k)"
  unfolding tame_def
proof (intro allI impI)
  fix c r c' assume tx: "tx c \<noteq> NoTx" and eq: "sbind m k c = (r, c')"
  obtain r1 c1 where m1: "m c = (r1, c1)" by fastforce
  from tameD[OF m tx m1] show "same_tx c c' \<or> rolled_back c c' \<and> is_err r"
  proof
    assume same: "same_tx c c1"
    show ?thesis
    proof (cases r1)
      case (Ok a)
      with eq m1 have k1: "k a c1 = (r, c')" by simp
      from same tx have "tx c1 \<noteq> NoTx" by (simp add: same_tx_def)
      from tameD[OF k this k1] same show ?thesis
        by (auto dest: same_tx_trans same_tx_rolled_back)
    qed (use eq m1 same in auto)
  next
    assume "rolled_back c c1 \<and> is_err r1"
    with eq m1 show ?thesis by (cases r1) auto
  qed
qed

lemma tame_if [tame_intros]: "tame a \<Longrightarrow> tame b \<Longrightarrow> tame (if p then a else b)"
  by simp

lemma tame_case_option [tame_intros]:
  "tame a \<Longrightarrow> (\<And>x. tame (b x)) \<Longrightarrow> tame (case v of None \<Rightarrow> a | Some x \<Rightarrow> b x)"
  by (cases v) auto

lemma tame_case_sum [tame_intros]:
  "(\<And>x. tame (a x)) \<Longrightarrow> (\<And>x. tame (b x)) \<Longrightarrow> tame (case v of Inl x \<Rightarrow> a x | Inr x \<Rightarrow> b x)"
  by (cases v) auto

lemma tame_case_prod [tame_intros]:
  "(\<And>x y. tame (a x y)) \<Longrightarrow> tame (case v of (x, y) \<Rightarrow> a x y)"
  by (cases v) auto

lemma exec_conn_ok: "conn_ok c \<Longrightarrow> conn_ok (snd (exec stmt c))"
  by (auto simp: exec_def conn_ok_def dest!: next_env_Pair
      split: prod.splits option.splits fault.splits sum.splits)

section \<open>Time\<close>

text \<open>A clock that does not run backwards, and the actions that respect it.\<close>

definition forward :: "'d conn \<Rightarrow> bool" where
  "forward c \<longleftrightarrow> (\<forall>e\<in>set (script c). 0 \<le> tick e)"

definition later :: "'d conn \<Rightarrow> 'd conn \<Rightarrow> bool" where
  "later c c' \<longleftrightarrow> clock c \<le> clock c' \<and> forward c'"

definition timely :: "('d conn \<Rightarrow> 'r \<times> 'd conn) \<Rightarrow> bool" where
  "timely m \<longleftrightarrow> (\<forall>c r c'. forward c \<longrightarrow> m c = (r, c') \<longrightarrow> later c c')"

lemma timelyD: "timely m \<Longrightarrow> forward c \<Longrightarrow> m c = (r, c') \<Longrightarrow> later c c'"
  by (auto simp: timely_def)

lemma forward_fresh [simp]: "forward (fresh_conn d t s) \<longleftrightarrow> (\<forall>e\<in>set s. 0 \<le> tick e)"
  by (simp add: forward_def)

lemma later_refl: "forward c \<Longrightarrow> later c c"
  by (simp add: later_def)

lemma later_trans: "later a b \<Longrightarrow> later b c \<Longrightarrow> later a c"
  by (auto simp: later_def)

lemma later_forward: "later c c' \<Longrightarrow> forward c'"
  by (simp add: later_def)

lemma next_env_later: "forward c \<Longrightarrow> next_env c = (f, c1) \<Longrightarrow> later c c1"
  by (auto simp: next_env_def later_def forward_def split: list.splits)

lemma later_same: "later c c1 \<Longrightarrow> clock c2 = clock c1 \<Longrightarrow> script c2 = script c1 \<Longrightarrow> later c c2"
  by (simp add: later_def forward_def)

lemma timely_sret [timely_intros]: "timely (sret a)"
  by (simp add: timely_def later_refl)

lemma timely_sfail [timely_intros]: "timely (sfail e)"
  by (simp add: timely_def later_refl)

lemma timely_exec [timely_intros]: "timely (exec stmt)"
  by (auto simp: timely_def exec_def split: prod.splits option.splits fault.splits sum.splits
      dest!: next_env_later intro: later_same)

lemma timely_query [timely_intros]: "timely (query q)"
  by (simp add: query_def timely_exec)

lemma timely_decode [timely_intros]: "timely (decode a)"
  by (simp add: decode_def timely_exec)

lemma timely_now_unix [timely_intros]: "timely now_unix"
  by (simp add: now_unix_def timely_query)

lemma timely_sbind [timely_intros]:
  assumes "timely m" "\<And>a. timely (k a)"
  shows "timely (sbind m k)"
  unfolding timely_def
proof (intro allI impI)
  fix c r c' assume fw: "forward c" and run: "sbind m k c = (r, c')"
  obtain r1 c1 where m1: "m c = (r1, c1)" by fastforce
  with fw assms(1) have l1: "later c c1" by (blast dest: timelyD)
  show "later c c'"
  proof (cases r1)
    case (Ok a)
    with run m1 have "k a c1 = (r, c')" by simp
    then show ?thesis using assms(2) l1 by (blast dest: timelyD later_forward intro: later_trans)
  qed (use run m1 l1 in auto)
qed

lemma timely_if [timely_intros]: "timely a \<Longrightarrow> timely b \<Longrightarrow> timely (if p then a else b)"
  by simp

lemma timely_case_option [timely_intros]:
  "timely a \<Longrightarrow> (\<And>x. timely (b x)) \<Longrightarrow> timely (case v of None \<Rightarrow> a | Some x \<Rightarrow> b x)"
  by (cases v) auto

lemma timely_control:
  assumes "\<And>c1 c2. f c1 = Inr c2 \<Longrightarrow> clock c2 = clock c1 \<and> script c2 = script c1"
  shows "timely (control f)"
  using assms
  by (auto simp: timely_def control_def split: prod.splits option.splits fault.splits sum.splits
      dest!: next_env_later intro: later_same)

lemma timely_savepoint [timely_intros]: "timely (sql_savepoint name)"
  unfolding sql_savepoint_def by (rule timely_control) auto

lemma timely_release [timely_intros]: "timely (sql_release name)"
  unfolding sql_release_def by (rule timely_control) (auto simp: commit_tx_def split: list.splits if_splits)

end
