(* ===== verification/Savepoint.thy ===== *)
theory Savepoint
  imports Sqlite_Conn
begin

text \<open>
  \<^verbatim>\<open>in_savepoint\<close> of \<^verbatim>\<open>honker_ops.rs\<close>: run a body inside \<open>SAVEPOINT name\<close>
  and undo it if anything fails, the savepoint, the body, the release or a panic of the body.
  The interface of a body is the locale \<open>savepoint_body\<close>; the guarantee is proved once there.
\<close>

section \<open>The code\<close>

text \<open>The hint \<^verbatim>\<open>in_savepoint\<close> adds when a write statement is still active.\<close>

definition savepoint_hint :: "string \<Rightarrow> sqlerr \<Rightarrow> sqlerr" where
  "savepoint_hint name e = (case e of
       SqliteFailure code message \<Rightarrow>
         (if code = DatabaseBusy \<and> message = ''cannot open savepoint - SQL statements in progress''
          then SqliteFailure code
            (message @ ''; honker: '' @ name @ '' requires a separate SELECT after you finish all ''
             @ ''write/RETURNING cursors; do not call it from a trigger or write statement. ''
             @ ''An explicit surrounding transaction is supported'')
          else e)
     | _ \<Rightarrow> e)"

text \<open>\<^verbatim>\<open>execute_batch("ROLLBACK TO SAVEPOINT name; RELEASE SAVEPOINT name")\<close>\<close>

definition rollback_and_release :: "string \<Rightarrow> 'd conn \<Rightarrow> (sqlerr + unit) \<times> 'd conn" where
  "rollback_and_release name c = (case sql_rollback_to name c of
       (Inl e, c1) \<Rightarrow> (Inl e, c1)
     | (Inr _, c1) \<Rightarrow> sql_release name c1)"

definition undo_savepoint_frame :: "string \<Rightarrow> bool \<Rightarrow> 'd conn \<Rightarrow> undo_failure list \<times> 'd conn" where
  "undo_savepoint_frame name owns_transaction c =
     (if is_autocommit c then ([], c)
      else (case rollback_and_release name c of (res, c1) \<Rightarrow>
        (let failures = (case res of Inl err \<Rightarrow> [RollbackToFailed name err] | Inr _ \<Rightarrow> []) in
         if owns_transaction \<and> \<not> is_autocommit c1 then
           (case sql_rollback c1 of
              (Inr _, c2) \<Rightarrow> ([], c2)
            | (Inl err, c2) \<Rightarrow> (failures @ [RollbackFailed err], c2))
         else (failures, c1))))"

definition undo_savepoint :: "string \<Rightarrow> bool \<Rightarrow> sqlerr \<Rightarrow> 'd conn \<Rightarrow> sqlerr \<times> 'd conn" where
  "undo_savepoint name owns_transaction cause c =
     (case undo_savepoint_frame name owns_transaction c of (failures, c1) \<Rightarrow>
        (if failures = [] then (cause, c1) else (UndoFailed cause name failures, c1)))"

text \<open>\<^verbatim>\<open>UnwindUndo::drop\<close> with the guard armed: the panic of the body is on its way out.\<close>

definition unwind_undo :: "string \<Rightarrow> bool \<Rightarrow> 'd conn \<Rightarrow> 'd conn" where
  "unwind_undo name owns_transaction c =
     (case undo_savepoint_frame name owns_transaction c of (failures, c1) \<Rightarrow>
        (if failures = [] then c1
         else c1\<lparr>stderr := stderr c1 @ [(name, failures)]\<rparr>))"

definition in_savepoint :: "string \<Rightarrow> ('d, 'a) action \<Rightarrow> ('d, 'a) action" where
  "in_savepoint name body c =
     (let owns_transaction = is_autocommit c in
      case sql_savepoint name c of
        (Inl err, c1) \<Rightarrow> (Err (savepoint_hint name err), c1)
      | (Inr _, c1) \<Rightarrow>
          (case body c1 of
             (Ok value, c2) \<Rightarrow>
               (case sql_release name c2 of
                  (Inr _, c3) \<Rightarrow> (Ok value, c3)
                | (Inl release_err, c3) \<Rightarrow>
                    (case undo_savepoint name owns_transaction release_err c3 of
                       (e, c4) \<Rightarrow> (Err e, c4)))
           | (Err body_err, c2) \<Rightarrow>
               (case undo_savepoint name owns_transaction body_err c2 of
                  (e, c3) \<Rightarrow> (Err e, c3))
           | (Panicked, c2) \<Rightarrow> (Panicked, unwind_undo name owns_transaction c2)))"

section \<open>What each control statement can do\<close>

lemma control_cases:
  assumes "control f c = (r, c')"
  obtains (fail) e where "r = Inl e" "db c' = db c" "disk c' = disk c" "frames c' = frames c" "tx c' = tx c"
  | (rolled) e where "r = Inl e" "rolled_back c c'"
  | (ok) c1 where "r = Inr ()" "f c1 = Inr c'" "db c1 = db c" "disk c1 = disk c"
      "frames c1 = frames c" "tx c1 = tx c" "stderr c1 = stderr c"
proof -
  obtain ft c1 where env: "next_env c = (ft, c1)" by fastforce
  from env have c1: "db c1 = db c" "disk c1 = disk c" "frames c1 = frames c" "tx c1 = tx c" "stderr c1 = stderr c"
    by (auto dest!: next_env_Pair)
  show thesis
    using assms env c1
    by (auto simp: control_def rolled_back_def split: option.splits fault.splits sum.splits
        intro: fail rolled ok)
qed

lemma savepoint_cases:
  assumes "sql_savepoint name c = (r, c')"
  obtains (fail) e where "r = Inl e" "db c' = db c" "same_tx c c'"
  | (rolled) e where "r = Inl e" "rolled_back c c'"
  | (ok) "r = Inr ()" "db c' = db c" "disk c' = disk c" "frames c' = (name, db c) # frames c"
      "tx c' = (if tx c = NoTx then Implicit else tx c)"
  using assms unfolding sql_savepoint_def
  by (elim control_cases) (auto simp: is_autocommit_def same_tx_def)

lemma release_cases:
  assumes "sql_release name c = (r, c')" and "frames c = (name, d) # fs"
  obtains (fail) e where "r = Inl e" "db c' = db c" "same_tx c c'"
  | (rolled) e where "r = Inl e" "rolled_back c c'"
  | (commit) "r = Inr ()" "fs = []" "tx c = Implicit" "db c' = db c" "disk c' = db c" "frames c' = []" "tx c' = NoTx"
  | (pop) "r = Inr ()" "\<not> (fs = [] \<and> tx c = Implicit)" "db c' = db c" "disk c' = disk c" "frames c' = fs" "tx c' = tx c"
  using assms unfolding sql_release_def
  by (elim control_cases) (auto simp: commit_tx_def same_tx_def split: if_splits)

lemma rollback_to_cases:
  assumes "sql_rollback_to name c = (r, c')" and "frames c = (name, d) # fs"
  obtains (fail) e where "r = Inl e" "db c' = db c" "same_tx c c'"
  | (rolled) e where "r = Inl e" "rolled_back c c'"
  | (ok) "r = Inr ()" "db c' = d" "same_tx c c'"
  using assms unfolding sql_rollback_to_def
  by (elim control_cases) (auto simp: same_tx_def)

lemma rollback_cases:
  assumes "sql_rollback c = (r, c')" and "tx c \<noteq> NoTx"
  obtains (fail) e where "r = Inl e" "db c' = db c" "same_tx c c'"
  | (rolled) "rolled_back c c'"
  using assms unfolding sql_rollback_def
  by (elim control_cases) (auto simp: same_tx_def is_autocommit_def rolled_back_def)

section \<open>The undo\<close>

text \<open>
  The connection is where it was before the savepoint. The transaction state counts: a caller
  that was not in a transaction is not in one afterwards.
\<close>

definition restored :: "'d conn \<Rightarrow> 'd conn \<Rightarrow> bool" where
  "restored c c' \<longleftrightarrow> db c' = db c \<and> frames c' = frames c \<and> tx c' = tx c \<and> disk c' = disk c"

definition loud :: "'a res \<Rightarrow> bool" where
  "loud r = (case r of Err (UndoFailed _ _ _) \<Rightarrow> True | _ \<Rightarrow> False)"

text \<open>The connection inside the frame that \<open>SAVEPOINT name\<close> pushed on \<open>c\<close>.\<close>

definition in_frame :: "string \<Rightarrow> 'd conn \<Rightarrow> 'd conn \<Rightarrow> bool" where
  "in_frame name c c1 \<longleftrightarrow> frames c1 = (name, db c) # frames c \<and> disk c1 = disk c
     \<and> tx c1 = (if tx c = NoTx then Implicit else tx c)"

lemma in_frame_same_tx: "in_frame name c c1 \<Longrightarrow> same_tx c1 c2 \<Longrightarrow> in_frame name c c2"
  by (simp add: in_frame_def same_tx_def)

lemma in_frame_tx: "in_frame name c c1 \<Longrightarrow> tx c1 \<noteq> NoTx"
  by (simp add: in_frame_def)

lemma in_frame_rolled_back: "in_frame name c c1 \<Longrightarrow> rolled_back c1 c2 \<Longrightarrow> rolled_back c c2"
  by (simp add: in_frame_def rolled_back_def)

lemma rolled_back_restored:
  "conn_ok c \<Longrightarrow> tx c = NoTx \<Longrightarrow> rolled_back c c' \<Longrightarrow> restored c c'"
  by (simp add: conn_ok_def rolled_back_def restored_def)

lemma restored_same: "same_tx c c' \<Longrightarrow> db c' = db c \<Longrightarrow> restored c c'"
  by (simp add: same_tx_def restored_def)

text \<open>Rolling back to the frame and releasing it either fails or restores the caller's state.\<close>

lemma rollback_and_release_cases:
  assumes cok: "conn_ok c" and fr: "in_frame name c c1"
    and rr: "rollback_and_release name c1 = (r, c2)"
  obtains (fail) e where "r = Inl e" "in_frame name c c2"
  | (rolled) e where "r = Inl e" "rolled_back c c2"
  | (ok) "r = Inr ()" "restored c c2"
proof -
  from fr have frames1: "frames c1 = (name, db c) # frames c" by (simp add: in_frame_def)
  obtain r1 c3 where to: "sql_rollback_to name c1 = (r1, c3)" by fastforce
  from to frames1 show thesis
  proof (cases rule: rollback_to_cases)
    case (fail e)
    with rr to that(1) fr show thesis
      by (auto simp: rollback_and_release_def intro: in_frame_same_tx)
  next
    case (rolled e)
    with rr to that(2) fr show thesis
      by (auto simp: rollback_and_release_def intro: in_frame_rolled_back)
  next
    case ok_to: ok
    with rr to have rel: "sql_release name c3 = (r, c2)"
      by (simp add: rollback_and_release_def)
    from ok_to fr have fr3: "in_frame name c c3" by (auto intro: in_frame_same_tx)
    then have frames3: "frames c3 = (name, db c) # frames c" by (simp add: in_frame_def)
    from rel frames3 show thesis
    proof (cases rule: release_cases)
      case (fail e) with fr3 that(1) show thesis by (auto intro: in_frame_same_tx)
    next
      case (rolled e) with fr3 that(2) show thesis by (auto intro: in_frame_rolled_back)
    next
      case commit with fr3 cok ok_to that(3) show thesis
        by (auto simp: in_frame_def restored_def conn_ok_def split: if_splits)
    next
      case pop with fr3 cok ok_to that(3) show thesis
        by (auto simp: in_frame_def restored_def conn_ok_def split: if_splits)
    qed
  qed
qed

lemma undo_savepoint_frame_ok:
  assumes cok: "conn_ok c" and fr: "in_frame name c c1 \<or> rolled_back c c1"
    and undo: "undo_savepoint_frame name (is_autocommit c) c1 = (failures, c2)"
  shows "disk c2 = disk c \<and> (failures = [] \<longrightarrow> restored c c2 \<or> rolled_back c c2)"
proof (cases "is_autocommit c1")
  case True
  with fr undo show ?thesis
    by (auto simp: undo_savepoint_frame_def is_autocommit_def in_frame_def rolled_back_def split: if_splits)
next
  case False
  with fr have fr1: "in_frame name c c1" by (auto simp: rolled_back_def is_autocommit_def)
  obtain r c3 where rr: "rollback_and_release name c1 = (r, c3)" by fastforce
  from cok fr1 rr show ?thesis
  proof (cases rule: rollback_and_release_cases)
    case (fail e)
    then have tx3: "tx c3 \<noteq> NoTx" by (simp add: in_frame_tx)
    show ?thesis
    proof (cases "is_autocommit c")
      case own: True
      obtain r2 c4 where rb: "sql_rollback c3 = (r2, c4)" by fastforce
      with undo False rr fail own tx3 have c4: "c2 = c4" "failures = [] \<longleftrightarrow> r2 = Inr ()"
        by (auto simp: undo_savepoint_frame_def is_autocommit_def split: sum.splits)
      from rb tx3 show ?thesis
      proof (cases rule: rollback_cases)
        case (fail e2)
        with c4 \<open>in_frame name c c3\<close> show ?thesis by (auto simp: in_frame_def same_tx_def)
      next
        case rolled
        with c4 \<open>in_frame name c c3\<close> show ?thesis
          by (auto dest: in_frame_rolled_back simp: rolled_back_def)
      qed
    qed (use undo False rr fail in \<open>auto simp: undo_savepoint_frame_def in_frame_def\<close>)
  next
    case (rolled e)
    with undo False rr show ?thesis
      by (auto simp: undo_savepoint_frame_def rolled_back_def is_autocommit_def)
  next
    case ok
    with undo False rr show ?thesis
      by (auto simp: undo_savepoint_frame_def restored_def is_autocommit_def split: sum.splits if_splits)
  qed
qed

section \<open>The interface of a body and the guarantee\<close>

locale savepoint_body =
  fixes body :: "('d, 'a) action"
  assumes body_tame: "tame body"
begin

lemma body_frame:
  assumes "sql_savepoint name c = (Inr u, c1)" and "body c1 = (r, c2)"
  shows "in_frame name c c1 \<and> (in_frame name c c2 \<or> (rolled_back c c2 \<and> is_err r))"
proof -
  from assms(1) have fr1: "in_frame name c c1"
    by (cases rule: savepoint_cases) (auto simp: in_frame_def)
  with tameD[OF body_tame in_frame_tx[OF fr1] assms(2)] show ?thesis
    by (auto intro: in_frame_same_tx in_frame_rolled_back)
qed

text \<open>
  Success means that the body ran in the frame and its state was kept, committed when the
  savepoint opened the transaction.
\<close>

lemma savepoint_Ok:
  assumes "conn_ok c" and "in_savepoint name body c = (Ok v, c')"
  obtains c1 c2 where "db c1 = db c" "in_frame name c c1" "body c1 = (Ok v, c2)" "db c' = db c2"
    "frames c' = frames c" "tx c' = tx c" "disk c' = (if tx c = NoTx then db c' else disk c)"
proof -
  from assms(2) obtain u c1 c2 u' where sp: "sql_savepoint name c = (Inr u, c1)"
    and bd: "body c1 = (Ok v, c2)" and rel: "sql_release name c2 = (Inr u', c')"
    by (auto simp: in_savepoint_def Let_def split: prod.splits sum.splits res.splits)
  from sp have db1: "db c1 = db c" by (cases rule: savepoint_cases) auto
  from body_frame[OF sp bd] have fr: "in_frame name c c1" "in_frame name c c2" by auto
  from fr(2) have "frames c2 = (name, db c) # frames c" by (simp add: in_frame_def)
  with rel show thesis
  proof (cases rule: release_cases)
    case commit
    with fr assms(1) show thesis
      by (intro that[OF db1 fr(1) bd]) (auto simp: in_frame_def conn_ok_def split: if_splits)
  next
    case pop
    with fr assms(1) show thesis
      by (intro that[OF db1 fr(1) bd]) (auto simp: in_frame_def conn_ok_def split: if_splits)
  qed auto
qed

text \<open>
  Anything else leaves no trace: the caller's state is back, or SQLite rolled the caller's
  transaction back, or the failure of the undo is reported. The durable state never changes.
\<close>

lemma savepoint_fail:
  assumes cok: "conn_ok c" and run: "in_savepoint name body c = (r, c')" and fail: "\<And>v. r \<noteq> Ok v"
  shows "disk c' = disk c \<and>
    (restored c c' \<or> rolled_back c c' \<or> loud r \<or> (r = Panicked \<and> stderr c' \<noteq> []))"
proof -
  obtain r1 c1 where sp: "sql_savepoint name c = (r1, c1)" by fastforce
  show ?thesis
  proof (cases r1)
    case (Inl e)
    with sp run have r: "c' = c1" by (simp add: in_savepoint_def)
    from sp show ?thesis
      by (cases rule: savepoint_cases)
        (use Inl r in \<open>auto simp: same_tx_def rolled_back_def intro: restored_same\<close>)
  next
    case (Inr u)
    obtain r2 c2 where bd: "body c1 = (r2, c2)" by fastforce
    from body_frame[OF sp[unfolded Inr] bd]
    have fr: "in_frame name c c2 \<or> (rolled_back c c2 \<and> is_err r2)" by auto
    show ?thesis
    proof (cases r2)
      case (Ok v)
      obtain r3 c3 where rel: "sql_release name c2 = (r3, c3)" by fastforce
      from Ok fr have fr2: "in_frame name c c2" by auto
      then have "frames c2 = (name, db c) # frames c" by (simp add: in_frame_def)
      with rel have fr3: "r3 = Inl e \<Longrightarrow> in_frame name c c3 \<or> rolled_back c c3" for e
        by (cases rule: release_cases) (use fr2 in \<open>auto intro: in_frame_same_tx in_frame_rolled_back\<close>)
      obtain e where r3: "r3 = Inl e"
        using run sp Inr bd Ok rel fail by (cases r3) (auto simp: in_savepoint_def Let_def)
      obtain fs c4 where undo: "undo_savepoint_frame name (is_autocommit c) c3 = (fs, c4)" by fastforce
      from undo_savepoint_frame_ok[OF cok fr3[OF r3] undo] run sp Inr bd Ok rel r3 undo show ?thesis
        by (auto simp: in_savepoint_def undo_savepoint_def loud_def split: if_splits)
    next
      case (Err e)
      obtain fs c4 where undo: "undo_savepoint_frame name (is_autocommit c) c2 = (fs, c4)" by fastforce
      from fr have "in_frame name c c2 \<or> rolled_back c c2" by auto
      from undo_savepoint_frame_ok[OF cok this undo] run sp Inr bd Err undo show ?thesis
        by (auto simp: in_savepoint_def undo_savepoint_def loud_def split: if_splits)
    next
      case Panicked
      obtain fs c4 where undo: "undo_savepoint_frame name (is_autocommit c) c2 = (fs, c4)" by fastforce
      from fr have "in_frame name c c2 \<or> rolled_back c c2" by auto
      from undo_savepoint_frame_ok[OF cok this undo] run sp Inr bd Panicked undo show ?thesis
        by (auto simp: in_savepoint_def unwind_undo_def restored_def rolled_back_def split: if_splits)
    qed
  qed
qed

end

text \<open>A block that succeeded ran its body between its first and its last clock reading.\<close>

lemma in_savepoint_time:
  assumes "in_savepoint name body c = (Ok v, c')" "forward c" "timely body"
  obtains c1 c2 where "body c1 = (Ok v, c2)" "db c1 = db c" "forward c1" "clock c \<le> clock c1"
    "clock c2 \<le> clock c'" "tx c1 \<noteq> NoTx" "tame body \<Longrightarrow> db c' = db c2"
proof -
  from assms(1) obtain u c1 c2 u' where sp: "sql_savepoint name c = (Inr u, c1)"
    and bd: "body c1 = (Ok v, c2)" and rel: "sql_release name c2 = (Inr u', c')"
    by (auto simp: in_savepoint_def Let_def split: prod.splits sum.splits res.splits)
  have l1: "later c c1" using timely_savepoint assms(2) sp by (rule timelyD)
  have l2: "later c1 c2" using assms(3) later_forward[OF l1] bd by (rule timelyD)
  have l3: "later c2 c'" using timely_release later_forward[OF l2] rel by (rule timelyD)
  have fr: "frames c1 = (name, db c) # frames c" "tx c1 \<noteq> NoTx" "db c1 = db c"
    using sp by (cases rule: savepoint_cases; simp)+
  have "db c' = db c2" if "tame body"
  proof -
    from tameD[OF that fr(2) bd] have "frames c2 = (name, db c) # frames c" by (auto simp: same_tx_def fr)
    with rel show ?thesis by (cases rule: release_cases) auto
  qed
  then show thesis using l1 l2 l3 fr bd by (intro that[of c1 c2]) (auto simp: later_def)
qed

section \<open>The interface of an operation\<close>

text \<open>
  What a caller may rely on: an operation that returns a value did what its relation says, in
  the caller's transaction or as a commit of its own; an operation that does not return one
  changed nothing durable, and nothing at all unless the failed undo is reported.
\<close>

definition undone :: "'a res \<Rightarrow> 'd conn \<Rightarrow> 'd conn \<Rightarrow> bool" where
  "undone r c c' \<longleftrightarrow> disk c' = disk c \<and>
     (restored c c' \<or> rolled_back c c' \<or> loud r \<or> (r = Panicked \<and> stderr c' \<noteq> []))"

definition kept :: "'d conn \<Rightarrow> 'd conn \<Rightarrow> bool" where
  "kept c c' \<longleftrightarrow> frames c' = frames c \<and> tx c' = tx c
     \<and> disk c' = (if tx c = NoTx then db c' else disk c)"

locale atomic_action =
  fixes act :: "('d, 'a) action" and R :: "'d \<Rightarrow> 'a \<Rightarrow> 'd \<Rightarrow> bool"
  assumes act_Ok: "conn_ok c \<Longrightarrow> act c = (Ok v, c') \<Longrightarrow> R (db c) v (db c') \<and> kept c c'"
    and act_fail: "conn_ok c \<Longrightarrow> act c = (r, c') \<Longrightarrow> (\<And>v. r \<noteq> Ok v) \<Longrightarrow> undone r c c'"
begin

text \<open>On a connection of its own the durable state moves by the relation or not at all.\<close>

lemma autocommit_step:
  assumes "act (fresh_conn d t s) = (r, c')"
  shows "(\<exists>v. r = Ok v \<and> R d v (disk c') \<and> db c' = disk c' \<and> tx c' = NoTx) \<or> disk c' = d"
proof (cases "\<exists>v. r = Ok v")
  case True
  then obtain v where "r = Ok v" by auto
  with act_Ok[of "fresh_conn d t s" v c'] assms show ?thesis by (simp add: kept_def)
next
  case False
  with act_fail[of "fresh_conn d t s" r c'] assms show ?thesis by (auto simp: undone_def)
qed

lemma keeps_durable:
  assumes "\<And>d v d'. I d \<Longrightarrow> R d v d' \<Longrightarrow> I d'"
    and "act (fresh_conn d t s) = (r, c')" and "I d"
  shows "I (disk c')"
  using autocommit_step[OF assms(2)] assms(1,3) by auto

end

lemma restored_refl [simp]: "restored c c"
  by (simp add: restored_def)

lemma exec_fail:
  assumes "conn_ok c" "exec stmt c = (r, c')" "\<And>v. r \<noteq> Ok v"
  shows "undone r c c'"
  using assms
  by (auto simp: exec_def undone_def restored_def rolled_back_def dest!: next_env_Pair
      split: prod.splits option.splits fault.splits sum.splits)

text \<open>One statement is atomic; so is a tame body in a savepoint.\<close>

lemma atomic_exec:
  "(\<And>t d v d'. stmt t d = Inr (v, d') \<Longrightarrow> R d v d') \<Longrightarrow> atomic_action (exec stmt) R"
  by unfold_locales (auto elim!: exec_Ok simp: kept_def intro: exec_fail)

lemma atomic_query:
  "(\<And>t d v. q t d = Inr v \<Longrightarrow> R d v d) \<Longrightarrow> atomic_action (query q) R"
  unfolding query_def by (rule atomic_exec) (auto split: sum.splits)

lemma atomic_in_savepoint:
  assumes "tame body"
    and "\<And>c v c'. tx c \<noteq> NoTx \<Longrightarrow> body c = (Ok v, c') \<Longrightarrow> R (db c) v (db c')"
  shows "atomic_action (in_savepoint name body) R"
proof
  from assms(1) have sb: "savepoint_body body" by unfold_locales
  show "R (db c) v (db c') \<and> kept c c'" if "conn_ok c" "in_savepoint name body c = (Ok v, c')" for c v c'
    using savepoint_body.savepoint_Ok[OF sb that] by (metis assms(2) in_frame_tx kept_def)
  show "undone r c c'" if "conn_ok c" "in_savepoint name body c = (r, c')" "\<And>v. r \<noteq> Ok v" for c r c'
    using savepoint_body.savepoint_fail[OF sb that] by (simp add: undone_def)
qed

lemma atomic_sret: "(\<And>d. R d v d) \<Longrightarrow> atomic_action (sret v) R"
  by unfold_locales (auto simp: kept_def conn_ok_def)

lemma atomic_sfail: "atomic_action (sfail e) R"
  by unfold_locales (auto simp: undone_def)

lemma atomic_decode: "(\<And>d. R d a d) \<Longrightarrow> atomic_action (decode a) R"
  unfolding decode_def by (rule atomic_exec) auto

lemma atomic_now_unix: "(\<And>t d. R d t d) \<Longrightarrow> atomic_action now_unix R"
  unfolding now_unix_def by (rule atomic_query) auto

lemma atomic_weaken:
  "atomic_action m R \<Longrightarrow> (\<And>d v d'. R d v d' \<Longrightarrow> R' d v d') \<Longrightarrow> atomic_action m R'"
  by (simp add: atomic_action_def)

lemma kept_restored: "conn_ok c \<Longrightarrow> kept c c' \<Longrightarrow> db c' = db c \<Longrightarrow> restored c c'"
  by (auto simp: kept_def restored_def conn_ok_def)

lemma restored_conn_ok: "conn_ok c \<Longrightarrow> restored c c' \<Longrightarrow> conn_ok c'"
  by (auto simp: restored_def conn_ok_def)

lemma undone_after_restored: "restored c c1 \<Longrightarrow> undone r c1 c' \<Longrightarrow> undone r c c'"
  by (auto simp: undone_def restored_def rolled_back_def)

text \<open>
  A sequence is atomic when what comes before its last writing step wrote nothing: after the
  first half either the rest only computes the result, or the first half left the database alone.
\<close>

lemma atomic_sbind:
  assumes m: "atomic_action m Rm"
    and k: "\<And>a. (\<exists>v. k a = sret v \<and> (\<forall>d d'. Rm d a d' \<longrightarrow> R d v d'))
      \<or> (\<exists>Rk. (\<forall>d d'. Rm d a d' \<longrightarrow> d' = d) \<and> atomic_action (k a) Rk
            \<and> (\<forall>d v d'. Rm d a d \<longrightarrow> Rk d v d' \<longrightarrow> R d v d'))"
  shows "atomic_action (sbind m k) R"
proof
  fix c v c' assume cok: "conn_ok c" and run: "sbind m k c = (Ok v, c')"
  from run obtain a c1 where m1: "m c = (Ok a, c1)" and k1: "k a c1 = (Ok v, c')" by (rule sbind_Ok)
  from atomic_action.act_Ok[OF m cok m1] have Rm: "Rm (db c) a (db c1)" and kept: "kept c c1" by auto
  from k[of a] show "R (db c) v (db c') \<and> kept c c'"
  proof
    assume "\<exists>v. k a = sret v \<and> (\<forall>d d'. Rm d a d' \<longrightarrow> R d v d')"
    with k1 Rm kept show ?thesis by auto
  next
    assume "\<exists>Rk. (\<forall>d d'. Rm d a d' \<longrightarrow> d' = d) \<and> atomic_action (k a) Rk
      \<and> (\<forall>d v d'. Rm d a d \<longrightarrow> Rk d v d' \<longrightarrow> R d v d')"
    then obtain Rk where same: "db c1 = db c" and ka: "atomic_action (k a) Rk"
      and R: "\<And>d v d'. Rm d a d \<Longrightarrow> Rk d v d' \<Longrightarrow> R d v d'" using Rm by blast
    have rest: "restored c c1" using cok kept same by (rule kept_restored)
    from atomic_action.act_Ok[OF ka restored_conn_ok[OF cok rest] k1] show ?thesis
      using R Rm same rest by (auto simp: kept_def restored_def)
  qed
next
  fix c r c' assume cok: "conn_ok c" and run: "sbind m k c = (r, c')" and nok: "\<And>v. r \<noteq> Ok v"
  obtain r1 c1 where m1: "m c = (r1, c1)" by fastforce
  show "undone r c c'"
  proof (cases "\<exists>a. r1 = Ok a")
    case False
    then have u: "undone r1 c c1" using atomic_action.act_fail[OF m cok m1] by blast
    with run m1 False show ?thesis
      by (cases r1) (auto simp: undone_def loud_def split: sqlerr.splits)
  next
    case True
    then obtain a where a: "r1 = Ok a" by auto
    with run m1 have k1: "k a c1 = (r, c')" by simp
    from atomic_action.act_Ok[OF m cok] m1 a have Rm: "Rm (db c) a (db c1)" and kept: "kept c c1" by auto
    have "k a \<noteq> sret v" for v using nok[of v] k1 by auto
    with k[of a] Rm obtain Rk where same: "db c1 = db c" and ka: "atomic_action (k a) Rk" by blast
    have rest: "restored c c1" using cok kept same by (rule kept_restored)
    from atomic_action.act_fail[OF ka restored_conn_ok[OF cok rest] k1 nok] rest show ?thesis
      by (rule undone_after_restored[rotated])
  qed
qed

text \<open>The common case: a read, then an operation that depends on what was read.\<close>

lemma atomic_read_then:
  assumes "atomic_action m (\<lambda>d a d'. d' = d \<and> P d a)"
    and "\<And>a. atomic_action (k a) (\<lambda>d v d'. P d a \<longrightarrow> R d v d')"
  shows "atomic_action (sbind m k) R"
  using assms(1)
proof (rule atomic_sbind)
  fix a
  show "(\<exists>v. k a = sret v \<and> (\<forall>d d'. d' = d \<and> P d a \<longrightarrow> R d v d'))
      \<or> (\<exists>Rk. (\<forall>d d'. d' = d \<and> P d a \<longrightarrow> d' = d) \<and> atomic_action (k a) Rk
            \<and> (\<forall>d v d'. d = d \<and> P d a \<longrightarrow> Rk d v d' \<longrightarrow> R d v d'))"
    using assms(2)[of a] by blast
qed

section \<open>The guarantee of \<^verbatim>\<open>in_savepoint\<close>\<close>

text \<open>
  C1. All or nothing: when \<^verbatim>\<open>in_savepoint\<close> returns a value, its body ran on the state of the
  caller and its result was kept, committed if the savepoint opened the transaction, with the
  transaction state as before. When it returns an error or unwinds, whichever of its statements
  failed, nothing durable changed, and either the caller's state and transaction are as before, or SQLite rolled
  the caller's transaction back, or the failed undo is reported (in the error, or on stderr for a panic).
\<close>

theorem in_savepoint_all_or_nothing:
  assumes "conn_ok c" "tame body" "in_savepoint name body c = (r, c')"
  shows "case r of
      Ok v \<Rightarrow> \<exists>c1 c2. db c1 = db c \<and> body c1 = (Ok v, c2) \<and> db c' = db c2
        \<and> frames c' = frames c \<and> tx c' = tx c \<and> disk c' = (if tx c = NoTx then db c' else disk c)
    | _ \<Rightarrow> disk c' = disk c
        \<and> (restored c c' \<or> rolled_back c c' \<or> loud r \<or> (r = Panicked \<and> stderr c' \<noteq> []))"
proof -
  have body: "savepoint_body body" using assms(2) by unfold_locales
  show ?thesis
  proof (cases r)
    case (Ok v)
    with savepoint_body.savepoint_Ok[OF body assms(1)] assms(3) show ?thesis by (simp, metis)
  qed (use savepoint_body.savepoint_fail[OF body assms(1,3)] in auto)
qed

text \<open>A body that writes, with the release failing and the undo succeeding.\<close>

definition demo_body :: "(nat, nat) action" where
  "demo_body = exec (\<lambda>t d. Inr (d, d + 1))"

definition release_fails :: "env_step list" where
  "release_fails = [\<lparr>tick = 0, fault = None\<rparr>, \<lparr>tick = 0, fault = None\<rparr>,
     \<lparr>tick = 0, fault = Some (FaultErr (SqliteFailure DatabaseBusy ''busy''))\<rparr>]"

theorem in_savepoint_all_or_nothing_witness:
  "fst (in_savepoint ''s'' demo_body (fresh_conn 5 0 release_fails)) = Err (SqliteFailure DatabaseBusy ''busy'')
   \<and> disk (snd (in_savepoint ''s'' demo_body (fresh_conn 5 0 release_fails))) = 5
   \<and> tx (snd (in_savepoint ''s'' demo_body (fresh_conn 5 0 release_fails))) = NoTx"
proof -
  let ?c = "fresh_conn 5 0 release_fails :: nat conn"
  let ?run = "in_savepoint ''s'' demo_body ?c"
  have r: "fst ?run = Err (SqliteFailure DatabaseBusy ''busy'')" by code_simp
  then have run: "?run = (Err (SqliteFailure DatabaseBusy ''busy''), snd ?run)" by (metis prod.collapse)
  have "tame demo_body" unfolding demo_body_def by (rule tame_exec)
  from in_savepoint_all_or_nothing[OF _ this run] r show ?thesis
    by (auto simp: restored_def rolled_back_def loud_def)
qed

end
