(* ===== verification/Schema.thy ===== *)
theory Schema
  imports Savepoint
begin

text \<open>
  The tables of \<^verbatim>\<open>BOOTSTRAP_HONKER_SQL\<close> and of \<^verbatim>\<open>attach_notify\<close> as lists of records,
  one field per column. An \<open>AUTOINCREMENT\<close> table carries the counter SQLite keeps for it
  in \<^verbatim>\<open>sqlite_sequence\<close>. A nullable column is an \<open>option\<close>.
\<close>

section \<open>Rows\<close>

text \<open>The \<open>state\<close> column is free text; the code writes three values of it.\<close>

datatype jstate = Pending | Scheduled | Processing | OtherState string

record job =
  j_id :: int
  j_queue :: string
  j_payload :: string
  j_state :: jstate
  j_priority :: int
  j_run_at :: int
  j_worker_id :: "string option"
  j_claim_expires_at :: "int option"
  j_attempts :: int
  j_max_attempts :: int
  j_created_at :: int
  j_expires_at :: "int option"
  j_claimed_at :: "int option"

record dead_job =
  d_id :: int
  d_queue :: string
  d_payload :: string
  d_priority :: int
  d_run_at :: int
  d_attempts :: int
  d_max_attempts :: int
  d_last_error :: "string option"
  d_created_at :: int
  d_died_at :: int

record lock_row =
  l_name :: string
  l_owner :: string
  l_expires_at :: int

record rate_row =
  r_name :: string
  r_window_start :: int
  r_count :: int

record task_row =
  t_name :: string
  t_queue :: string
  t_cron_expr :: string
  t_payload :: string
  t_priority :: int
  t_expires_s :: "int option"
  t_next_fire_at :: int
  t_enabled :: int
  t_max_attempts :: int

record result_row =
  res_job_id :: int
  res_value :: "string option"
  res_created_at :: int
  res_expires_at :: "int option"

record stream_row =
  e_offset :: int
  e_topic :: string
  e_key :: "string option"
  e_payload :: string
  e_created_at :: int

record consumer_row =
  c_name :: string
  c_topic :: string
  c_offset :: int

record notification_row =
  n_id :: int
  n_channel :: string
  n_payload :: string
  n_created_at :: int

section \<open>The database\<close>

record honker_db =
  live :: "job list"
  live_seq :: int
  dead :: "dead_job list"
  locks :: "lock_row list"
  rates :: "rate_row list"
  tasks :: "task_row list"
  results :: "result_row list"
  stream :: "stream_row list"
  stream_seq :: int
  consumers :: "consumer_row list"
  notifications :: "notification_row list"
  notif_seq :: int
  indexes :: "string list"

type_synonym hconn = "honker_db conn"
type_synonym 'a haction = "(honker_db, 'a) action"

text \<open>What \<^verbatim>\<open>bootstrap_honker_schema\<close> leaves on a new file: every table empty.\<close>

definition schema_indexes :: "string list" where
  "schema_indexes = [''_honker_live_ready'', ''_honker_live_scheduled'', ''_honker_live_expiry'',
     ''_honker_live_processing_deadline'', ''_honker_stream_topic'', ''_honker_notifications_recent'']"

definition empty_db :: honker_db where
  "empty_db = \<lparr>live = [], live_seq = 0, dead = [], locks = [], rates = [], tasks = [], results = [],
     stream = [], stream_seq = 0, consumers = [], notifications = [], notif_seq = 0,
     indexes = schema_indexes\<rparr>"

lemma empty_db_simps [simp]:
  "live empty_db = []" "live_seq empty_db = 0" "dead empty_db = []" "locks empty_db = []"
  "rates empty_db = []" "tasks empty_db = []" "results empty_db = []" "stream empty_db = []"
  "stream_seq empty_db = 0" "consumers empty_db = []" "notifications empty_db = []"
  "notif_seq empty_db = 0"
  by (simp_all add: empty_db_def)

section \<open>Dead rows\<close>

text \<open>The row \<open>_honker_dead\<close> gets for a live row, with its error and its time of death.\<close>

definition dead_of :: "string \<Rightarrow> int \<Rightarrow> job \<Rightarrow> dead_job" where
  "dead_of err died j = \<lparr>d_id = j_id j, d_queue = j_queue j, d_payload = j_payload j,
     d_priority = j_priority j, d_run_at = j_run_at j, d_attempts = j_attempts j,
     d_max_attempts = j_max_attempts j, d_last_error = Some err, d_created_at = j_created_at j,
     d_died_at = died\<rparr>"

lemma dead_of_simps [simp]:
  "d_id (dead_of e t j) = j_id j" "d_queue (dead_of e t j) = j_queue j"
  "d_payload (dead_of e t j) = j_payload j" "d_priority (dead_of e t j) = j_priority j"
  "d_run_at (dead_of e t j) = j_run_at j" "d_attempts (dead_of e t j) = j_attempts j"
  "d_max_attempts (dead_of e t j) = j_max_attempts j" "d_last_error (dead_of e t j) = Some e"
  "d_created_at (dead_of e t j) = j_created_at j" "d_died_at (dead_of e t j) = t"
  by (simp_all add: dead_of_def)

text \<open>
  \<open>INSERT INTO _honker_dead\<close>: the primary key refuses an id that is already there, or twice
  among the new rows.
\<close>

definition pk_violation :: sqlerr where
  "pk_violation = SqliteFailure ConstraintViolation ''UNIQUE constraint failed: _honker_dead.id''"

definition insert_dead_rows :: "dead_job list \<Rightarrow> honker_db \<Rightarrow> sqlerr + int \<times> honker_db" where
  "insert_dead_rows rows d =
     (if distinct (map d_id rows) \<and> set (map d_id rows) \<inter> set (map d_id (dead d)) = {}
      then Inr (int (length rows), d\<lparr>dead := dead d @ rows\<rparr>)
      else Inl pk_violation)"

lemma insert_dead_rows_Inr:
  "insert_dead_rows rows d = Inr (n, d') \<longleftrightarrow>
     distinct (map d_id rows) \<and> set (map d_id rows) \<inter> set (map d_id (dead d)) = {}
     \<and> n = int (length rows) \<and> d' = d\<lparr>dead := dead d @ rows\<rparr>"
  by (auto simp: insert_dead_rows_def)

section \<open>What a job is, wherever it is\<close>

text \<open>
  The identity of a job: the columns no operation of the library rewrites. A job is in the
  live table or in the dead table; the multiset of both is what must not lose or double a row.
\<close>

type_synonym job_core = "int \<times> string \<times> string \<times> int \<times> int \<times> int"

definition core :: "job \<Rightarrow> job_core" where
  "core j = (j_id j, j_queue j, j_payload j, j_priority j, j_max_attempts j, j_created_at j)"

definition dcore :: "dead_job \<Rightarrow> job_core" where
  "dcore r = (d_id r, d_queue r, d_payload r, d_priority r, d_max_attempts r, d_created_at r)"

definition all_jobs :: "honker_db \<Rightarrow> job_core multiset" where
  "all_jobs d = image_mset core (mset (live d)) + image_mset dcore (mset (dead d))"

lemma dcore_dead_of [simp]: "dcore (dead_of e t j) = core j"
  by (simp add: dcore_def core_def)

lemma core_id: "core j = core j' \<Longrightarrow> j_id j = j_id j'"
  by (simp add: core_def)

lemma fst_core [simp]: "fst (core j) = j_id j" "fst (dcore r) = d_id r"
  by (simp_all add: core_def dcore_def)

text \<open>The live rows a query names by id.\<close>

definition id_in :: "int list \<Rightarrow> job \<Rightarrow> bool" where
  "id_in ids j \<longleftrightarrow> j_id j \<in> set ids"

lemma id_in_Nil [simp]: "id_in [] = (\<lambda>_. False)"
  by (simp add: id_in_def fun_eq_iff)

end
