(* ===== verification/Json.thy ===== *)
theory Json
  imports Main
begin

text \<open>
  JSON values, as \<^verbatim>\<open>serde_json::Value\<close> holds them before \<^verbatim>\<open>to_string\<close> and as the SQL
  function \<^verbatim>\<open>json_each\<close> walks them. A number that is not an integer keeps its text.
\<close>

datatype json = JNull | JBool bool | JInt int | JReal string | JStr string
  | JArr "json list" | JObj "(string \<times> json) list"

definition jopt :: "('a \<Rightarrow> json) \<Rightarrow> 'a option \<Rightarrow> json" where
  "jopt f v = (case v of None \<Rightarrow> JNull | Some x \<Rightarrow> f x)"

fun jfield :: "string \<Rightarrow> json \<Rightarrow> json option" where
  "jfield k (JObj kvs) = map_of kvs k"
| "jfield k _ = None"

fun jelems :: "json \<Rightarrow> json list" where
  "jelems (JArr xs) = xs"
| "jelems _ = []"

end
