(* ===== verification/Queue_Claim.thy ===== *)
theory Queue_Claim
  imports Schema Json
begin

text \<open>
  Claiming jobs: the housekeeping of \<^verbatim>\<open>claim_batch\<close> (promotion, expiry, exhausted leases), the
  claim query with its two arms, and the move to \<open>_honker_dead\<close>.
\<close>

section \<open>The statements\<close>

definition CLAIM_HOUSEKEEPING_LIMIT :: int where
  "CLAIM_HOUSEKEEPING_LIMIT = 1000"

definition promote_ids :: "string \<Rightarrow> int \<Rightarrow> int \<Rightarrow> job list \<Rightarrow> int list" where
  "promote_ids queue now k rows = map j_id (sql_limit k (order_by (\<lambda>j. (j_run_at j, j_id j))
     (filter (\<lambda>j. j_queue j = queue \<and> j_state j = Scheduled \<and> j_run_at j \<le> now) rows)))"

definition promote_sql :: "string \<Rightarrow> int \<Rightarrow> int \<Rightarrow> honker_db \<Rightarrow> sqlerr + int \<times> honker_db" where
  "promote_sql queue now k d =
     (let p = id_in (promote_ids queue now k (live d)) in
      Inr (count_where p (live d), d\<lparr>live := upd_where p (\<lambda>j. j\<lparr>j_state := Pending\<rparr>) (live d)\<rparr>))"

text \<open>Expired rows nobody holds a valid lease on.\<close>

definition expirable :: "string \<Rightarrow> int \<Rightarrow> job \<Rightarrow> bool" where
  "expirable queue now j \<longleftrightarrow> j_queue j = queue \<and> null_le (j_expires_at j) now
     \<and> (j_state j \<in> {Pending, Scheduled}
        \<or> (j_state j = Processing \<and> null_less (j_claim_expires_at j) now))"

text \<open>An ordering key over a nullable column: SQLite sorts \<open>NULL\<close> first.\<close>

definition null_key :: "int option \<Rightarrow> bool \<times> int" where
  "null_key v = (case v of None \<Rightarrow> (False, 0) | Some x \<Rightarrow> (True, x))"

definition expire_ids :: "string \<Rightarrow> int \<Rightarrow> int \<Rightarrow> job list \<Rightarrow> int list" where
  "expire_ids queue now lim rows = map j_id (sql_limit lim
     (order_by (\<lambda>j. (null_key (j_expires_at j), j_id j)) (filter (expirable queue now) rows)))"

text \<open>Lapsed leases that used their attempt budget.\<close>

definition exhausted :: "string \<Rightarrow> int \<Rightarrow> job \<Rightarrow> bool" where
  "exhausted queue now j \<longleftrightarrow> j_queue j = queue \<and> j_state j = Processing
     \<and> null_less (j_claim_expires_at j) now \<and> j_attempts j \<ge> j_max_attempts j"

definition exhausted_ids :: "string \<Rightarrow> int \<Rightarrow> int \<Rightarrow> job list \<Rightarrow> int list" where
  "exhausted_ids queue now lim rows = map j_id (sql_limit lim
     (order_by (\<lambda>j. (null_key (j_claim_expires_at j), j_id j)) (filter (exhausted queue now) rows)))"

text \<open>The two arms of \<^verbatim>\<open>CLAIM_SQL\<close>: due pending rows, and lapsed leases with attempts left.\<close>

definition unexpired :: "int \<Rightarrow> job \<Rightarrow> bool" where
  "unexpired now j \<longleftrightarrow> j_expires_at j = None \<or> \<not> null_le (j_expires_at j) now"

definition due_pending :: "string \<Rightarrow> int \<Rightarrow> job \<Rightarrow> bool" where
  "due_pending queue now j \<longleftrightarrow> j_queue j = queue \<and> j_state j = Pending \<and> j_run_at j \<le> now
     \<and> j_attempts j < j_max_attempts j \<and> unexpired now j"

definition lapsed :: "string \<Rightarrow> int \<Rightarrow> job \<Rightarrow> bool" where
  "lapsed queue now j \<longleftrightarrow> j_queue j = queue \<and> j_state j = Processing
     \<and> null_less (j_claim_expires_at j) now \<and> j_attempts j < j_max_attempts j \<and> unexpired now j"

definition claim_key :: "job \<Rightarrow> int \<times> int \<times> int" where
  "claim_key j = (- j_priority j, j_run_at j, j_id j)"

definition claim_ids :: "string \<Rightarrow> int \<Rightarrow> int \<Rightarrow> job list \<Rightarrow> int list" where
  "claim_ids queue n now rows = map j_id (sql_limit n (order_by claim_key
     (sql_limit n (order_by claim_key (filter (due_pending queue now) rows))
      @ filter (lapsed queue now) rows)))"

definition claim_row :: "string \<Rightarrow> int \<Rightarrow> int \<Rightarrow> job \<Rightarrow> job" where
  "claim_row worker_id timeout_s now j = j\<lparr>j_state := Processing, j_worker_id := Some worker_id,
     j_claim_expires_at := Some (now + timeout_s), j_claimed_at := Some now,
     j_attempts := j_attempts j + 1\<rparr>"

definition claim_sql ::
  "string \<Rightarrow> string \<Rightarrow> int \<Rightarrow> int \<Rightarrow> int \<Rightarrow> honker_db \<Rightarrow> sqlerr + job list \<times> honker_db" where
  "claim_sql worker_id queue n timeout_s now d =
     (let p = id_in (claim_ids queue n now (live d)); f = claim_row worker_id timeout_s now in
      Inr (map f (filter p (live d)), d\<lparr>live := upd_where p f (live d)\<rparr>))"

section \<open>The move to the dead table\<close>

definition copy_to_dead ::
  "(job list \<Rightarrow> int list) \<Rightarrow> int \<Rightarrow> string \<Rightarrow> honker_db \<Rightarrow> sqlerr + int \<times> honker_db" where
  "copy_to_dead ids now err d =
     insert_dead_rows (map (dead_of err now) (filter (id_in (ids (live d))) (live d))) d"

definition delete_live :: "(job list \<Rightarrow> int list) \<Rightarrow> honker_db \<Rightarrow> sqlerr + int \<times> honker_db" where
  "delete_live ids d = (let p = id_in (ids (live d)) in
     Inr (count_where p (live d), d\<lparr>live := del_where p (live d)\<rparr>))"

definition move_to_dead ::
  "(string \<Rightarrow> int \<Rightarrow> int \<Rightarrow> job list \<Rightarrow> int list) \<Rightarrow> string \<Rightarrow> int \<Rightarrow> int \<Rightarrow> string \<Rightarrow> int haction" where
  "move_to_dead ids_sql queue now limit err =
     sbind (exec (\<lambda>_. copy_to_dead (ids_sql queue now limit) now err)) (\<lambda>copied.
       if copied = 0 then sret 0
       else sbind (exec (\<lambda>_. delete_live (ids_sql queue now limit))) (\<lambda>deleted.
         if deleted \<noteq> copied then sfail (MoveMismatch copied deleted) else sret copied))"

section \<open>Claim\<close>

definition claim_json :: "job \<Rightarrow> json" where
  "claim_json j = JObj [(''id'', JInt (j_id j)), (''queue'', JStr (j_queue j)),
     (''payload'', JStr (j_payload j)), (''worker_id'', jopt JStr (j_worker_id j)),
     (''attempts'', JInt (j_attempts j)), (''claim_expires_at'', jopt JInt (j_claim_expires_at j)),
     (''claimed_at'', jopt JInt (j_claimed_at j))]"

definition claim_batch_inner :: "string \<Rightarrow> string \<Rightarrow> int \<Rightarrow> int \<Rightarrow> json haction" where
  "claim_batch_inner queue worker_id n timeout_s =
     sbind now_unix (\<lambda>now.
     sbind (exec (\<lambda>_. promote_sql queue now CLAIM_HOUSEKEEPING_LIMIT)) (\<lambda>_.
     sbind (move_to_dead expire_ids queue now CLAIM_HOUSEKEEPING_LIMIT ''expired'') (\<lambda>_.
     sbind (move_to_dead exhausted_ids queue now CLAIM_HOUSEKEEPING_LIMIT ''max attempts exceeded'') (\<lambda>_.
     sbind (exec (\<lambda>_. claim_sql worker_id queue n timeout_s now)) (\<lambda>rows.
     sbind (decode rows) (\<lambda>rows. sret (JArr (map claim_json rows))))))))"

definition claim_batch :: "string \<Rightarrow> string \<Rightarrow> int \<Rightarrow> int \<Rightarrow> json haction" where
  "claim_batch queue worker_id n timeout_s =
     in_savepoint ''honker_claim_batch'' (claim_batch_inner queue worker_id n timeout_s)"

definition sweep_expired :: "string \<Rightarrow> int haction" where
  "sweep_expired queue = in_savepoint ''honker_sweep_expired''
     (sbind now_unix (\<lambda>now. move_to_dead expire_ids queue now (-1) ''expired''))"

section \<open>The move as one step\<close>

definition move_rows :: "int list \<Rightarrow> int \<Rightarrow> string \<Rightarrow> honker_db \<Rightarrow> honker_db" where
  "move_rows ids now err d = d\<lparr>dead := dead d @ map (dead_of err now) (filter (id_in ids) (live d)),
     live := del_where (id_in ids) (live d)\<rparr>"

lemma move_rows_simps [simp]:
  "live (move_rows ids now err d) = del_where (id_in ids) (live d)"
  "dead (move_rows ids now err d) = dead d @ map (dead_of err now) (filter (id_in ids) (live d))"
  "live_seq (move_rows ids now err d) = live_seq d"
  by (simp_all add: move_rows_def)

text \<open>
  Both statements of the move see the same live rows, so they pick the same ids: the count
  comparison of the source can never fail.
\<close>

lemma move_to_dead_Ok:
  assumes "move_to_dead ids queue now lim err c = (Ok n, c')"
  shows "db c' = move_rows (ids queue now lim (live (db c))) now err (db c)
    \<and> n = count_where (id_in (ids queue now lim (live (db c)))) (live (db c))"
proof -
  let ?p = "id_in (ids queue now lim (live (db c)))"
  from assms obtain k c1 where copy: "exec (\<lambda>_. copy_to_dead (ids queue now lim) now err) c = (Ok k, c1)"
    and rest: "(if k = 0 then sret 0
       else sbind (exec (\<lambda>_. delete_live (ids queue now lim))) (\<lambda>deleted.
         if deleted \<noteq> k then sfail (MoveMismatch k deleted) else sret k)) c1 = (Ok n, c')"
    unfolding move_to_dead_def by (elim sbind_Ok)
  from copy have k: "k = count_where ?p (live (db c))"
    and db1: "db c1 = (db c)\<lparr>dead := dead (db c) @ map (dead_of err now) (filter ?p (live (db c)))\<rparr>"
    by (auto elim!: exec_Ok simp: copy_to_dead_def insert_dead_rows_Inr count_where_def)
  show ?thesis
  proof (cases "k = 0")
    case True
    with k have none: "filter ?p (live (db c)) = []" "del_where ?p (live (db c)) = live (db c)"
      by (auto simp: count_where_0 intro: del_where_none)
    with rest True db1 k show ?thesis by (auto simp: move_rows_def)
  next
    case False
    with rest k db1 show ?thesis
      by (auto elim!: sbind_Ok exec_Ok simp: delete_live_def Let_def move_rows_def split: if_splits)
  qed
qed


section \<open>The claim query against its meaning\<close>

text \<open>A job can be claimed when it has attempts left, has not expired, and is due or held under a lease that is over.\<close>

definition claimable :: "string \<Rightarrow> int \<Rightarrow> job \<Rightarrow> bool" where
  "claimable queue now j \<longleftrightarrow> j_queue j = queue \<and> j_attempts j < j_max_attempts j
     \<and> (case j_expires_at j of None \<Rightarrow> True | Some e \<Rightarrow> now < e)
     \<and> (case j_state j of
          Pending \<Rightarrow> j_run_at j \<le> now
        | Processing \<Rightarrow> (case j_claim_expires_at j of None \<Rightarrow> False | Some l \<Rightarrow> l < now)
        | _ \<Rightarrow> False)"

lemma claimable_arms: "claimable queue now j \<longleftrightarrow> due_pending queue now j \<or> lapsed queue now j"
  by (cases "j_state j"; cases "j_expires_at j"; cases "j_claim_expires_at j")
    (auto simp: claimable_def due_pending_def lapsed_def unexpired_def)

text \<open>The meaning of the claim: the first \<open>n\<close> claimable rows by priority, due time and id.\<close>

definition claim_pick :: "string \<Rightarrow> int \<Rightarrow> int \<Rightarrow> job list \<Rightarrow> job list" where
  "claim_pick queue n now rows = sql_limit n (order_by claim_key (filter (claimable queue now) rows))"

lemma inj_claim_key: "distinct (map j_id rows) \<Longrightarrow> inj_on claim_key (set rows)"
  by (auto simp: inj_on_def claim_key_def distinct_map)

lemma claim_ids_pick:
  assumes "distinct (map j_id rows)"
  shows "claim_ids queue n now rows = map j_id (claim_pick queue n now rows)"
proof -
  let ?A = "filter (due_pending queue now) rows" and ?B = "filter (lapsed queue now) rows"
  have inj: "inj_on claim_key (set ?A \<union> set ?B)"
    using inj_claim_key[OF assms] by (rule inj_on_subset) auto
  have dist: "distinct ?A" using assms by (metis distinct_filter distinct_map)
  have "mset (?A @ ?B) = mset (filter (claimable queue now) rows)"
    by (induction rows) (auto simp: claimable_arms due_pending_def lapsed_def)
  moreover have "inj_on claim_key (set (?A @ ?B))" using inj by simp
  ultimately have "order_by claim_key (?A @ ?B) = order_by claim_key (filter (claimable queue now) rows)"
    by (rule order_by_mset_eq)
  with first_rows_of_parts[OF inj dist, of n] show ?thesis
    by (simp add: claim_ids_def claim_pick_def)
qed

lemma claim_pick_subset: "set (claim_pick queue n now rows) \<subseteq> {j \<in> set rows. claimable queue now j}"
  using sql_limit_set[of n "order_by claim_key (filter (claimable queue now) rows)"]
  by (auto simp: claim_pick_def)

lemma claim_pick_length: "0 \<le> n \<Longrightarrow> int (length (claim_pick queue n now rows)) \<le> n"
  by (simp add: claim_pick_def sql_limit_length)

text \<open>The housekeeping of one claim, and the claim, as functions of the clock reading.\<close>

definition housekeep :: "string \<Rightarrow> int \<Rightarrow> honker_db \<Rightarrow> honker_db" where
  "housekeep queue now d =
     (let k = CLAIM_HOUSEKEEPING_LIMIT;
          d1 = d\<lparr>live := upd_where (id_in (promote_ids queue now k (live d)))
                  (\<lambda>j. j\<lparr>j_state := Pending\<rparr>) (live d)\<rparr>;
          d2 = move_rows (expire_ids queue now k (live d1)) now ''expired'' d1
      in move_rows (exhausted_ids queue now k (live d2)) now ''max attempts exceeded'' d2)"

definition claimed_rows :: "string \<Rightarrow> string \<Rightarrow> int \<Rightarrow> int \<Rightarrow> int \<Rightarrow> honker_db \<Rightarrow> job list" where
  "claimed_rows queue worker_id n timeout_s now d =
     map (claim_row worker_id timeout_s now) (filter (id_in (claim_ids queue n now (live d))) (live d))"

definition claim_upd :: "string \<Rightarrow> string \<Rightarrow> int \<Rightarrow> int \<Rightarrow> int \<Rightarrow> honker_db \<Rightarrow> honker_db" where
  "claim_upd queue worker_id n timeout_s now d =
     d\<lparr>live := upd_where (id_in (claim_ids queue n now (live d))) (claim_row worker_id timeout_s now) (live d)\<rparr>"

definition claim_at :: "string \<Rightarrow> string \<Rightarrow> int \<Rightarrow> int \<Rightarrow> int \<Rightarrow> honker_db \<Rightarrow> json \<Rightarrow> honker_db \<Rightarrow> bool" where
  "claim_at queue worker_id n timeout_s now d out d' \<longleftrightarrow>
     (let h = housekeep queue now d in
      out = JArr (map claim_json (claimed_rows queue worker_id n timeout_s now h))
      \<and> d' = claim_upd queue worker_id n timeout_s now h)"

definition claim_rel :: "string \<Rightarrow> string \<Rightarrow> int \<Rightarrow> int \<Rightarrow> honker_db \<Rightarrow> json \<Rightarrow> honker_db \<Rightarrow> bool" where
  "claim_rel queue worker_id n timeout_s d out d' \<longleftrightarrow> (\<exists>now. claim_at queue worker_id n timeout_s now d out d')"

lemma tame_move_to_dead [tame_intros]: "tame (move_to_dead ids queue now lim err)"
  unfolding move_to_dead_def by (intro tame_intros)

lemma tame_claim_batch_inner: "tame (claim_batch_inner queue worker_id n timeout_s)"
  unfolding claim_batch_inner_def by (intro tame_intros)

lemma timely_move_to_dead [timely_intros]: "timely (move_to_dead ids queue now lim err)"
  unfolding move_to_dead_def by (intro timely_intros)

lemma timely_claim_batch_inner: "timely (claim_batch_inner queue worker_id n timeout_s)"
  unfolding claim_batch_inner_def by (intro timely_intros)

text \<open>The one clock reading of the claim is the reading all its statements use.\<close>

lemma claim_batch_inner_at:
  assumes "claim_batch_inner queue worker_id n timeout_s c = (Ok out, c')"
  obtains now where "claim_at queue worker_id n timeout_s now (db c) out (db c')"
    "forward c \<longrightarrow> clock c \<le> now \<and> now \<le> clock c'"
proof -
  from assms obtain now c1 where nu: "now_unix c = (Ok now, c1)"
    and rest: "sbind (exec (\<lambda>_. promote_sql queue now CLAIM_HOUSEKEEPING_LIMIT)) (\<lambda>_.
     sbind (move_to_dead expire_ids queue now CLAIM_HOUSEKEEPING_LIMIT ''expired'') (\<lambda>_.
     sbind (move_to_dead exhausted_ids queue now CLAIM_HOUSEKEEPING_LIMIT ''max attempts exceeded'') (\<lambda>_.
     sbind (exec (\<lambda>_. claim_sql worker_id queue n timeout_s now)) (\<lambda>rows.
     sbind (decode rows) (\<lambda>rows. sret (JArr (map claim_json rows))))))) c1 = (Ok out, c')"
    unfolding claim_batch_inner_def by (rule sbind_Ok)
  from nu have c1: "now = clock c1" "db c1 = db c" by (auto elim!: now_unix_Ok)
  from rest have "claim_at queue worker_id n timeout_s now (db c) out (db c')"
    by (elim sbind_Ok exec_Ok decode_Ok)
      (auto dest!: move_to_dead_Ok simp: c1
        claim_at_def housekeep_def Let_def promote_sql_def claim_sql_def claimed_rows_def claim_upd_def)
  moreover have "clock c \<le> now \<and> now \<le> clock c'" if "forward c"
  proof -
    from timelyD[OF timely_now_unix that nu] have l1: "later c c1" .
    have "later c1 c'" using later_forward[OF l1] rest by (rule timelyD[rotated]) (intro timely_intros)
    with l1 c1 show ?thesis by (simp add: later_def)
  qed
  ultimately show thesis by (intro that) auto
qed

lemma claim_batch_inner_Ok:
  "claim_batch_inner queue worker_id n timeout_s c = (Ok out, c')
    \<Longrightarrow> claim_rel queue worker_id n timeout_s (db c) out (db c')"
  by (erule claim_batch_inner_at) (auto simp: claim_rel_def)

interpretation claim_body: savepoint_body "claim_batch_inner queue worker_id n timeout_s"
  for queue worker_id n timeout_s
  by unfold_locales (rule tame_claim_batch_inner)

interpretation claim_op: atomic_action "claim_batch queue worker_id n timeout_s"
    "claim_rel queue worker_id n timeout_s" for queue worker_id n timeout_s
  unfolding claim_batch_def
  by (rule atomic_in_savepoint) (auto intro: tame_claim_batch_inner claim_batch_inner_Ok)

lemma claim_batch_at:
  assumes "claim_batch queue worker_id n timeout_s c = (Ok out, c')" "forward c"
  obtains now where "claim_at queue worker_id n timeout_s now (db c) out (db c')" "clock c \<le> now" "now \<le> clock c'"
proof -
  from assms obtain c1 c2 where body: "claim_batch_inner queue worker_id n timeout_s c1 = (Ok out, c2)"
    and c12: "db c1 = db c" "forward c1" "clock c \<le> clock c1" "clock c2 \<le> clock c'" "db c' = db c2"
    unfolding claim_batch_def
    by (elim in_savepoint_time) (auto simp: timely_claim_batch_inner tame_claim_batch_inner)
  from body obtain now where "claim_at queue worker_id n timeout_s now (db c1) out (db c2)"
    "forward c1 \<longrightarrow> clock c1 \<le> now \<and> now \<le> clock c2" by (rule claim_batch_inner_at)
  with c12 show thesis by (intro that[of now]) auto
qed

definition sweep_rel :: "string \<Rightarrow> honker_db \<Rightarrow> int \<Rightarrow> honker_db \<Rightarrow> bool" where
  "sweep_rel queue d n d' \<longleftrightarrow> (\<exists>now. let ids = expire_ids queue now (-1) (live d) in
     n = count_where (id_in ids) (live d) \<and> d' = move_rows ids now ''expired'' d)"

interpretation sweep_op: atomic_action "sweep_expired queue" "sweep_rel queue" for queue
  unfolding sweep_expired_def
  by (rule atomic_in_savepoint, intro tame_intros, elim sbind_Ok now_unix_Ok)
    (auto dest!: move_to_dead_Ok simp: sweep_rel_def Let_def)

end
