(* ===== verification/Queue_Ops.thy ===== *)
theory Queue_Ops
  imports Queue_Claim
begin

text \<open>
  Enqueue and the operations on one job: ack, retry, fail, heartbeat with their fenced forms,
  cancel, the batch ack, the job lookup and the wake-up time of a queue. Each is the statement
  sequence of the function of the same name in \<^verbatim>\<open>honker_ops.rs\<close>.
\<close>

section \<open>Enqueue\<close>

definition check_max_attempts :: "string \<Rightarrow> int \<Rightarrow> unit haction" where
  "check_max_attempts func max_attempts =
     (if max_attempts < 1 then sfail (MaxAttemptsError func max_attempts) else sret ())"

text \<open>An \<open>AUTOINCREMENT\<close> id is one above every id the table ever had.\<close>

definition db_full :: sqlerr where
  "db_full = SqliteFailure (OtherCode 13) ''database or disk is full''"

definition insert_job :: "(int \<Rightarrow> job) \<Rightarrow> honker_db \<Rightarrow> sqlerr + int \<times> honker_db" where
  "insert_job mk d =
     (if live_seq d \<ge> i64_max then Inl db_full
      else Inr (live_seq d + 1, d\<lparr>live := live d @ [mk (live_seq d + 1)], live_seq := live_seq d + 1\<rparr>))"

definition enqueue_run_at :: "int \<Rightarrow> int option \<Rightarrow> int option \<Rightarrow> int" where
  "enqueue_run_at now run_at delay = (case (delay, run_at) of
       (Some d, _) \<Rightarrow> wrap_i64 (now + d)
     | (None, Some r) \<Rightarrow> r
     | (None, None) \<Rightarrow> now)"

definition new_job ::
  "int \<Rightarrow> int \<Rightarrow> string \<Rightarrow> string \<Rightarrow> int \<Rightarrow> int \<Rightarrow> int \<Rightarrow> int option \<Rightarrow> int \<Rightarrow> job" where
  "new_job now created queue payload run_at priority max_attempts expires_at jid =
     \<lparr>j_id = jid, j_queue = queue, j_payload = payload,
      j_state = (if run_at > now then Scheduled else Pending), j_priority = priority,
      j_run_at = run_at, j_worker_id = None, j_claim_expires_at = None, j_attempts = 0,
      j_max_attempts = max_attempts, j_created_at = created, j_expires_at = expires_at,
      j_claimed_at = None\<rparr>"

definition enqueue_at ::
  "int \<Rightarrow> string \<Rightarrow> string \<Rightarrow> int option \<Rightarrow> int option \<Rightarrow> int \<Rightarrow> int \<Rightarrow> int option \<Rightarrow> int haction" where
  "enqueue_at now queue payload run_at delay priority max_attempts expires =
     exec (\<lambda>t. insert_job (new_job now t queue payload (enqueue_run_at now run_at delay) priority
       max_attempts (map_option (\<lambda>e. wrap_i64 (now + e)) expires)))"

definition enqueue ::
  "string \<Rightarrow> string \<Rightarrow> int option \<Rightarrow> int option \<Rightarrow> int \<Rightarrow> int \<Rightarrow> int option \<Rightarrow> int haction" where
  "enqueue queue payload run_at delay priority max_attempts expires =
     sbind (check_max_attempts ''honker_enqueue'' max_attempts) (\<lambda>_.
     sbind now_unix (\<lambda>now.
       enqueue_at now queue payload run_at delay priority max_attempts expires))"

section \<open>Guards\<close>

text \<open>
  The unfenced guard reads the lease; the fenced one reads the attempt token the claim
  returned. \<open>t\<close> is the clock reading of the statement.
\<close>

definition holds_lease :: "int \<Rightarrow> int \<Rightarrow> string \<Rightarrow> job \<Rightarrow> bool" where
  "holds_lease t job_id worker_id j \<longleftrightarrow>
     j_id j = job_id \<and> j_worker_id j = Some worker_id \<and> null_ge (j_claim_expires_at j) t"

definition holds_token :: "int \<Rightarrow> string \<Rightarrow> int \<Rightarrow> job \<Rightarrow> bool" where
  "holds_token job_id worker_id attempt j \<longleftrightarrow> j_id j = job_id \<and> j_worker_id j = Some worker_id
     \<and> j_attempts j = attempt \<and> j_state j = Processing"

definition retry_guard :: "int \<Rightarrow> int \<Rightarrow> string \<Rightarrow> int option \<Rightarrow> job \<Rightarrow> bool" where
  "retry_guard t job_id worker_id attempt j = (case attempt of
       None \<Rightarrow> holds_lease t job_id worker_id j \<and> j_state j = Processing
     | Some a \<Rightarrow> holds_token job_id worker_id a j)"

definition fail_guard :: "int \<Rightarrow> int \<Rightarrow> string \<Rightarrow> int option \<Rightarrow> job \<Rightarrow> bool" where
  "fail_guard t job_id worker_id attempt j = (case attempt of
       None \<Rightarrow> holds_lease t job_id worker_id j
     | Some a \<Rightarrow> holds_token job_id worker_id a j)"

section \<open>Ack\<close>

definition delete_jobs :: "(job \<Rightarrow> bool) \<Rightarrow> honker_db \<Rightarrow> sqlerr + int \<times> honker_db" where
  "delete_jobs p d = Inr (count_where p (live d), d\<lparr>live := del_where p (live d)\<rparr>)"

definition update_jobs :: "(job \<Rightarrow> bool) \<Rightarrow> (job \<Rightarrow> job) \<Rightarrow> honker_db \<Rightarrow> sqlerr + int \<times> honker_db" where
  "update_jobs p f d = Inr (count_where p (live d), d\<lparr>live := upd_where p f (live d)\<rparr>)"

definition ack :: "int \<Rightarrow> string \<Rightarrow> int haction" where
  "ack job_id worker_id = exec (\<lambda>t. delete_jobs (holds_lease t job_id worker_id))"

definition ack_fenced :: "int \<Rightarrow> string \<Rightarrow> int \<Rightarrow> int haction" where
  "ack_fenced job_id worker_id attempt = exec (\<lambda>t. delete_jobs (holds_token job_id worker_id attempt))"

text \<open>
  \<^verbatim>\<open>json_each\<close> yields the elements of an array, the values of an object and a scalar itself.
  Comparing a JSON value with an integer column applies numeric affinity: \<open>num\<close> stands for
  what SQLite makes of a text or of the text of a real.
\<close>

fun json_each :: "json \<Rightarrow> json list" where
  "json_each (JArr xs) = xs"
| "json_each (JObj kvs) = map snd kvs"
| "json_each x = [x]"

fun is_jarr :: "json \<Rightarrow> bool" where
  "is_jarr (JArr _) = True"
| "is_jarr _ = False"

fun jint :: "(string \<Rightarrow> int option) \<Rightarrow> json \<Rightarrow> int option" where
  "jint num (JInt n) = Some n"
| "jint num (JBool b) = Some (if b then 1 else 0)"
| "jint num (JReal s) = num s"
| "jint num (JStr s) = num s"
| "jint num _ = None"

definition jnth :: "(string \<Rightarrow> int option) \<Rightarrow> nat \<Rightarrow> json \<Rightarrow> int option" where
  "jnth num i x = (if i < length (jelems x) then jint num (jelems x ! i) else None)"

definition ack_id :: "(string \<Rightarrow> int option) \<Rightarrow> json \<Rightarrow> int option" where
  "ack_id num x = (if is_jarr x then jnth num 0 x else jint num x)"

definition batch_guard :: "(string \<Rightarrow> int option) \<Rightarrow> json list \<Rightarrow> int \<Rightarrow> string \<Rightarrow> job \<Rightarrow> bool" where
  "batch_guard num items t worker_id j \<longleftrightarrow>
     Some (j_id j) \<in> set (map (ack_id num) items)
     \<and> j_worker_id j = Some worker_id
     \<and> ((null_ge (j_claim_expires_at j) t
          \<and> Some (j_id j) \<in> set (map (jint num) (filter (\<lambda>x. \<not> is_jarr x) items)))
        \<or> (j_state j = Processing
          \<and> list_ex (\<lambda>x. is_jarr x \<and> jnth num 0 x = Some (j_id j) \<and> jnth num 1 x = Some (j_attempts j)) items))"

text \<open>\<open>parse\<close> stands for SQLite's JSON parser; text that is not JSON is an error.\<close>

definition malformed_json :: sqlerr where
  "malformed_json = SqliteFailure (OtherCode 1) ''malformed JSON''"

definition ack_batch ::
  "(string \<Rightarrow> json option) \<Rightarrow> (string \<Rightarrow> int option) \<Rightarrow> string \<Rightarrow> string \<Rightarrow> int haction" where
  "ack_batch parse num ids_json worker_id = exec (\<lambda>t d.
     (case parse ids_json of
        None \<Rightarrow> Inl malformed_json
      | Some v \<Rightarrow> delete_jobs (batch_guard num (json_each v) t worker_id) d))"

section \<open>Retry and fail\<close>

definition requeue :: "int \<Rightarrow> int \<Rightarrow> job \<Rightarrow> job" where
  "requeue t delay_s j = j\<lparr>j_state := (if delay_s > 0 then Scheduled else Pending),
     j_run_at := t + delay_s, j_worker_id := None, j_claim_expires_at := None,
     j_claimed_at := None\<rparr>"

text \<open>\<open>DELETE ... RETURNING\<close>: the first row the statement removed, if any.\<close>

definition delete_returning :: "(job \<Rightarrow> bool) \<Rightarrow> honker_db \<Rightarrow> sqlerr + job option \<times> honker_db" where
  "delete_returning p d = Inr
     ((case filter p (live d) of [] \<Rightarrow> None | j # _ \<Rightarrow> Some j), d\<lparr>live := del_where p (live d)\<rparr>)"

text \<open>\<^verbatim>\<open>DeadRow::insert_dead\<close>: \<open>died_at\<close> is the column default, the clock of the insert.\<close>

definition insert_dead :: "string \<Rightarrow> job \<Rightarrow> int haction" where
  "insert_dead err j = exec (\<lambda>t. insert_dead_rows [dead_of err t j])"

definition bury :: "(int \<Rightarrow> job \<Rightarrow> bool) \<Rightarrow> string \<Rightarrow> int haction" where
  "bury p err =
     sbind (exec (\<lambda>t. delete_returning (p t))) (\<lambda>row.
       case row of
         None \<Rightarrow> sret 0
       | Some j \<Rightarrow> sbind (decode j) (\<lambda>j. sbind (insert_dead err j) (\<lambda>_. sret 1)))"

text \<open>
  The three texts of the retry, each in its unfenced and its fenced form: put the row back, look
  whether a row with a spent budget is there, bury it.
\<close>

definition retry_pending :: "int \<Rightarrow> string \<Rightarrow> int option \<Rightarrow> int \<Rightarrow> int haction" where
  "retry_pending job_id worker_id attempt delay_s = exec (\<lambda>t. update_jobs
     (\<lambda>j. retry_guard t job_id worker_id attempt j \<and> j_attempts j < j_max_attempts j)
     (requeue t delay_s))"

definition retry_exhausted :: "int \<Rightarrow> string \<Rightarrow> int option \<Rightarrow> bool haction" where
  "retry_exhausted job_id worker_id attempt = query (\<lambda>t d. Inr (list_ex
     (\<lambda>j. retry_guard t job_id worker_id attempt j \<and> j_attempts j \<ge> j_max_attempts j) (live d)))"

definition retry_dead :: "int \<Rightarrow> string \<Rightarrow> int option \<Rightarrow> string \<Rightarrow> int haction" where
  "retry_dead job_id worker_id attempt err = in_savepoint ''honker_retry'' (bury
     (\<lambda>t j. retry_guard t job_id worker_id attempt j \<and> j_attempts j \<ge> j_max_attempts j) err)"

definition retry_with :: "int \<Rightarrow> string \<Rightarrow> int \<Rightarrow> string \<Rightarrow> int option \<Rightarrow> int haction" where
  "retry_with job_id worker_id delay_s err attempt =
     sbind (retry_pending job_id worker_id attempt delay_s) (\<lambda>updated.
     if updated > 0 then sret 1
     else sbind (retry_exhausted job_id worker_id attempt) (\<lambda>is_exhausted.
     if \<not> is_exhausted then sret 0
     else retry_dead job_id worker_id attempt err))"

definition retry :: "int \<Rightarrow> string \<Rightarrow> int \<Rightarrow> string \<Rightarrow> int haction" where
  "retry job_id worker_id delay_s err = retry_with job_id worker_id delay_s err None"

definition retry_fenced :: "int \<Rightarrow> string \<Rightarrow> int \<Rightarrow> string \<Rightarrow> int \<Rightarrow> int haction" where
  "retry_fenced job_id worker_id delay_s err attempt =
     retry_with job_id worker_id delay_s err (Some attempt)"

definition fail_inner :: "int \<Rightarrow> string \<Rightarrow> string \<Rightarrow> int option \<Rightarrow> int haction" where
  "fail_inner job_id worker_id err attempt = bury (\<lambda>t. fail_guard t job_id worker_id attempt) err"

definition fail :: "int \<Rightarrow> string \<Rightarrow> string \<Rightarrow> int haction" where
  "fail job_id worker_id err = in_savepoint ''honker_fail'' (fail_inner job_id worker_id err None)"

definition fail_fenced :: "int \<Rightarrow> string \<Rightarrow> string \<Rightarrow> int \<Rightarrow> int haction" where
  "fail_fenced job_id worker_id err attempt =
     in_savepoint ''honker_fail'' (fail_inner job_id worker_id err (Some attempt))"

section \<open>Cancel, heartbeat, lookup\<close>

definition cancellable :: "job \<Rightarrow> bool" where
  "cancellable j \<longleftrightarrow> j_state j \<in> {Pending, Scheduled, Processing}"

definition cancel :: "int \<Rightarrow> int haction" where
  "cancel job_id = exec (\<lambda>t. delete_jobs (\<lambda>j. j_id j = job_id \<and> cancellable j))"

definition cancel_in_queue :: "string \<Rightarrow> int \<Rightarrow> int haction" where
  "cancel_in_queue queue job_id =
     exec (\<lambda>t. delete_jobs (\<lambda>j. j_queue j = queue \<and> j_id j = job_id \<and> cancellable j))"

definition heartbeat :: "int \<Rightarrow> string \<Rightarrow> int \<Rightarrow> int haction" where
  "heartbeat job_id worker_id extend_s = exec (\<lambda>t. update_jobs
     (\<lambda>j. holds_lease t job_id worker_id j \<and> j_state j = Processing)
     (\<lambda>j. j\<lparr>j_claim_expires_at := Some (t + extend_s)\<rparr>))"

definition heartbeat_fenced :: "int \<Rightarrow> string \<Rightarrow> int \<Rightarrow> int \<Rightarrow> int haction" where
  "heartbeat_fenced job_id worker_id extend_s attempt = exec (\<lambda>t. update_jobs
     (holds_token job_id worker_id attempt)
     (\<lambda>j. j\<lparr>j_claim_expires_at := Some (t + extend_s)\<rparr>))"

fun state_text :: "jstate \<Rightarrow> string" where
  "state_text Pending = ''pending''"
| "state_text Scheduled = ''scheduled''"
| "state_text Processing = ''processing''"
| "state_text (OtherState s) = s"

definition job_json :: "job \<Rightarrow> json" where
  "job_json j = JObj [(''id'', JInt (j_id j)), (''queue'', JStr (j_queue j)),
     (''payload'', JStr (j_payload j)), (''state'', JStr (state_text (j_state j))),
     (''priority'', JInt (j_priority j)), (''run_at'', JInt (j_run_at j)),
     (''worker_id'', jopt JStr (j_worker_id j)),
     (''claim_expires_at'', jopt JInt (j_claim_expires_at j)),
     (''attempts'', JInt (j_attempts j)), (''max_attempts'', JInt (j_max_attempts j)),
     (''created_at'', JInt (j_created_at j)), (''expires_at'', jopt JInt (j_expires_at j)),
     (''claimed_at'', jopt JInt (j_claimed_at j))]"

text \<open>\<open>None\<close> is the empty string the function returns on a miss.\<close>

definition get_job :: "int \<Rightarrow> json option haction" where
  "get_job job_id = query (\<lambda>t d.
     Inr (map_option job_json (find (\<lambda>j. j_id j = job_id) (live d))))"

section \<open>The next wake-up time of a queue\<close>

definition opt_hd :: "'a list \<Rightarrow> 'a option" where
  "opt_hd xs = (case xs of [] \<Rightarrow> None | x # _ \<Rightarrow> Some x)"

definition next_scheduled :: "string \<Rightarrow> int \<Rightarrow> job list \<Rightarrow> int option" where
  "next_scheduled queue now rows = opt_hd (map j_run_at (order_by j_run_at (filter
     (\<lambda>j. j_queue j = queue \<and> j_state j = Scheduled \<and> j_attempts j < j_max_attempts j
        \<and> unexpired now j) rows)))"

definition next_lease :: "string \<Rightarrow> int \<Rightarrow> job list \<Rightarrow> int option" where
  "next_lease queue now rows = map_option (\<lambda>x. x + 1) (opt_hd (map (the \<circ> j_claim_expires_at)
     (order_by (null_key \<circ> j_claim_expires_at) (filter
       (\<lambda>j. j_queue j = queue \<and> j_state j = Processing \<and> null_ge (j_claim_expires_at j) now
          \<and> j_attempts j < j_max_attempts j \<and> unexpired now j) rows))))"

definition next_claim_of :: "string \<Rightarrow> int \<Rightarrow> job list \<Rightarrow> int" where
  "next_claim_of queue now rows =
     (if list_ex (due_pending queue now) rows then now
      else (case (next_scheduled queue now rows, next_lease queue now rows) of
              (None, None) \<Rightarrow> 0
            | (Some a, None) \<Rightarrow> max a now
            | (None, Some b) \<Rightarrow> max b now
            | (Some a, Some b) \<Rightarrow> max (min a b) now))"

definition queue_next_claim_at :: "string \<Rightarrow> int haction" where
  "queue_next_claim_at queue =
     sbind now_unix (\<lambda>now. query (\<lambda>t d. Inr (next_claim_of queue now (live d))))"

section \<open>What the operations do to the tables\<close>

text \<open>
  The effect of a guarded \<open>DELETE\<close> and of a guarded \<open>UPDATE\<close> at some clock reading, and of
  burying a row: the relations the operations satisfy as atomic actions.
\<close>

definition del_rel :: "(int \<Rightarrow> job \<Rightarrow> bool) \<Rightarrow> honker_db \<Rightarrow> int \<Rightarrow> honker_db \<Rightarrow> bool" where
  "del_rel p d n d' \<longleftrightarrow> (\<exists>t. n = count_where (p t) (live d) \<and> d' = d\<lparr>live := del_where (p t) (live d)\<rparr>)"

definition upd_rel ::
  "(int \<Rightarrow> job \<Rightarrow> bool) \<Rightarrow> (int \<Rightarrow> job \<Rightarrow> job) \<Rightarrow> honker_db \<Rightarrow> int \<Rightarrow> honker_db \<Rightarrow> bool" where
  "upd_rel p f d n d' \<longleftrightarrow> (\<exists>t. n = count_where (p t) (live d)
     \<and> d' = d\<lparr>live := upd_where (p t) (f t) (live d)\<rparr>)"

definition bury_rel :: "(int \<Rightarrow> job \<Rightarrow> bool) \<Rightarrow> string \<Rightarrow> honker_db \<Rightarrow> int \<Rightarrow> honker_db \<Rightarrow> bool" where
  "bury_rel p err d n d' \<longleftrightarrow> (\<exists>t died. case filter (p t) (live d) of
       [] \<Rightarrow> n = 0 \<and> d' = d
     | j # _ \<Rightarrow> n = 1 \<and> j_id j \<notin> set (map d_id (dead d))
         \<and> d' = d\<lparr>live := del_where (p t) (live d), dead := dead d @ [dead_of err died j]\<rparr>)"

definition enqueue_rel ::
  "string \<Rightarrow> string \<Rightarrow> int option \<Rightarrow> int option \<Rightarrow> int \<Rightarrow> int \<Rightarrow> int option
   \<Rightarrow> honker_db \<Rightarrow> int \<Rightarrow> honker_db \<Rightarrow> bool" where
  "enqueue_rel queue payload run_at delay priority max_attempts expires d jid d' \<longleftrightarrow>
     1 \<le> max_attempts \<and> (\<exists>now t. jid = live_seq d + 1 \<and> live_seq d < i64_max
       \<and> d' = d\<lparr>live := live d @ [new_job now t queue payload (enqueue_run_at now run_at delay)
                   priority max_attempts (map_option (\<lambda>e. wrap_i64 (now + e)) expires) jid],
               live_seq := jid\<rparr>)"

lemma atomic_delete: "atomic_action (exec (\<lambda>t. delete_jobs (p t))) (del_rel p)"
  by (rule atomic_exec) (auto simp: delete_jobs_def del_rel_def)

lemma atomic_update: "atomic_action (exec (\<lambda>t. update_jobs (p t) (f t))) (upd_rel p f)"
  by (rule atomic_exec) (auto simp: update_jobs_def upd_rel_def)

lemma tame_bury [tame_intros]: "tame (bury p err)"
  unfolding bury_def insert_dead_def by (intro tame_intros)

lemma bury_Ok:
  assumes "bury p err c = (Ok n, c')"
  shows "bury_rel p err (db c) n (db c')"
proof -
  from assms obtain row c1 where del: "exec (\<lambda>t. delete_returning (p t)) c = (Ok row, c1)"
    and rest: "(case row of None \<Rightarrow> sret 0
       | Some j \<Rightarrow> sbind (decode j) (\<lambda>j. sbind (insert_dead err j) (\<lambda>_. sret 1))) c1 = (Ok n, c')"
    unfolding bury_def by (elim sbind_Ok)
  from del obtain t where db1: "db c1 = (db c)\<lparr>live := del_where (p t) (live (db c))\<rparr>"
    and row: "row = (case filter (p t) (live (db c)) of [] \<Rightarrow> None | j # _ \<Rightarrow> Some j)"
    by (elim exec_Ok) (auto simp: delete_returning_def)
  show ?thesis
  proof (cases "filter (p t) (live (db c))")
    case Nil
    then have "del_where (p t) (live (db c)) = live (db c)"
      by (auto simp: filter_empty_conv intro: del_where_none)
    with Nil row rest db1 show ?thesis by (auto simp: bury_rel_def intro!: exI[of _ t])
  next
    case (Cons j js)
    with row rest have "sbind (decode j) (\<lambda>j. sbind (insert_dead err j) (\<lambda>_. sret 1)) c1 = (Ok n, c')"
      by simp
    then have "n = 1 \<and> j_id j \<notin> set (map d_id (dead (db c)))
        \<and> db c' = (db c)\<lparr>live := del_where (p t) (live (db c)),
             dead := dead (db c) @ [dead_of err (clock c') j]\<rparr>"
      using db1 by (auto elim!: sbind_Ok decode_Ok exec_Ok simp: insert_dead_def insert_dead_rows_Inr)
    with Cons show ?thesis
      unfolding bury_rel_def by (intro exI[of _ t] exI[of _ "clock c'"]) simp
  qed
qed

lemma atomic_bury: "atomic_action (in_savepoint name (bury p err)) (bury_rel p err)"
  by (rule atomic_in_savepoint) (auto intro: tame_bury bury_Ok)

lemma insert_job_Inr: "insert_job mk d = Inr (v, d') \<longleftrightarrow> live_seq d < i64_max \<and> v = live_seq d + 1
    \<and> d' = d\<lparr>live := live d @ [mk (live_seq d + 1)], live_seq := live_seq d + 1\<rparr>"
  by (auto simp: insert_job_def)

interpretation enqueue_at_op: atomic_action
  "enqueue_at now queue payload run_at delay priority max_attempts expires"
  "\<lambda>d jid d'. 1 \<le> max_attempts \<longrightarrow> enqueue_rel queue payload run_at delay priority max_attempts expires d jid d'"
  for now queue payload run_at delay priority max_attempts expires
  unfolding enqueue_at_def by (rule atomic_exec) (auto simp: enqueue_rel_def insert_job_Inr)

interpretation enqueue_op: atomic_action
  "enqueue queue payload run_at delay priority max_attempts expires"
  "enqueue_rel queue payload run_at delay priority max_attempts expires"
  for queue payload run_at delay priority max_attempts expires
proof -
  let ?R = "enqueue_rel queue payload run_at delay priority max_attempts expires"
  have chk: "atomic_action (check_max_attempts f m) (\<lambda>d a d'. d' = d \<and> 1 \<le> m)" for f m
    unfolding check_max_attempts_def by (auto intro: atomic_sret atomic_sfail)
  have "atomic_action (sbind now_unix (\<lambda>now. enqueue_at now queue payload run_at delay priority
      max_attempts expires)) (\<lambda>d v d'. 1 \<le> max_attempts \<longrightarrow> ?R d v d')"
    by (rule atomic_read_then[where P = "\<lambda>_ _. True"])
      (auto intro: atomic_now_unix atomic_weaken[OF enqueue_at_op.atomic_action_axioms])
  then show "atomic_action (enqueue queue payload run_at delay priority max_attempts expires) ?R"
    unfolding enqueue_def by (intro atomic_read_then[OF chk])
qed

interpretation ack_op: atomic_action "ack job_id worker_id"
  "del_rel (\<lambda>t. holds_lease t job_id worker_id)" for job_id worker_id
  unfolding ack_def by (rule atomic_delete)

interpretation ack_fenced_op: atomic_action "ack_fenced job_id worker_id attempt"
  "del_rel (\<lambda>t. holds_token job_id worker_id attempt)" for job_id worker_id attempt
  unfolding ack_fenced_def by (rule atomic_delete)

interpretation cancel_op: atomic_action "cancel job_id"
  "del_rel (\<lambda>t j. j_id j = job_id \<and> cancellable j)" for job_id
  unfolding cancel_def by (rule atomic_delete)

interpretation cancel_in_queue_op: atomic_action "cancel_in_queue queue job_id"
  "del_rel (\<lambda>t j. j_queue j = queue \<and> j_id j = job_id \<and> cancellable j)" for queue job_id
  unfolding cancel_in_queue_def by (rule atomic_delete)

definition ack_batch_rel ::
  "(string \<Rightarrow> json option) \<Rightarrow> (string \<Rightarrow> int option) \<Rightarrow> string \<Rightarrow> string \<Rightarrow> honker_db \<Rightarrow> int \<Rightarrow> honker_db \<Rightarrow> bool" where
  "ack_batch_rel parse num ids_json worker_id d n d' \<longleftrightarrow> (\<exists>v. parse ids_json = Some v
     \<and> del_rel (\<lambda>t. batch_guard num (json_each v) t worker_id) d n d')"

interpretation ack_batch_op: atomic_action "ack_batch parse num ids_json worker_id"
  "ack_batch_rel parse num ids_json worker_id" for parse num ids_json worker_id
  unfolding ack_batch_def
  by (rule atomic_exec) (auto simp: ack_batch_rel_def delete_jobs_def del_rel_def split: option.splits)

definition extend_lease :: "int \<Rightarrow> int \<Rightarrow> job \<Rightarrow> job" where
  "extend_lease extend_s t j = j\<lparr>j_claim_expires_at := Some (t + extend_s)\<rparr>"

interpretation heartbeat_op: atomic_action "heartbeat job_id worker_id extend_s"
  "upd_rel (\<lambda>t j. holds_lease t job_id worker_id j \<and> j_state j = Processing) (extend_lease extend_s)"
  for job_id worker_id extend_s
  unfolding heartbeat_def extend_lease_def by (rule atomic_update)

interpretation heartbeat_fenced_op: atomic_action "heartbeat_fenced job_id worker_id extend_s attempt"
  "upd_rel (\<lambda>t. holds_token job_id worker_id attempt) (extend_lease extend_s)"
  for job_id worker_id extend_s attempt
  unfolding heartbeat_fenced_def extend_lease_def by (rule atomic_update)

interpretation retry_pending_op: atomic_action "retry_pending job_id worker_id attempt delay_s"
  "upd_rel (\<lambda>t j. retry_guard t job_id worker_id attempt j \<and> j_attempts j < j_max_attempts j)
     (\<lambda>t. requeue t delay_s)" for job_id worker_id attempt delay_s
  unfolding retry_pending_def by (rule atomic_update)

interpretation retry_dead_op: atomic_action "retry_dead job_id worker_id attempt err"
  "bury_rel (\<lambda>t j. retry_guard t job_id worker_id attempt j \<and> j_attempts j \<ge> j_max_attempts j) err"
  for job_id worker_id attempt err
  unfolding retry_dead_def by (rule atomic_bury)

interpretation fail_op: atomic_action "fail job_id worker_id err"
  "bury_rel (\<lambda>t. fail_guard t job_id worker_id None) err" for job_id worker_id err
  unfolding fail_def fail_inner_def by (rule atomic_bury)

interpretation fail_fenced_op: atomic_action "fail_fenced job_id worker_id err attempt"
  "bury_rel (\<lambda>t. fail_guard t job_id worker_id (Some attempt)) err" for job_id worker_id err attempt
  unfolding fail_fenced_def fail_inner_def by (rule atomic_bury)

text \<open>A retry puts the row back or buries it, or finds nothing of the caller's and does nothing.\<close>

definition retry_rel ::
  "int \<Rightarrow> string \<Rightarrow> int \<Rightarrow> string \<Rightarrow> int option \<Rightarrow> honker_db \<Rightarrow> int \<Rightarrow> honker_db \<Rightarrow> bool" where
  "retry_rel job_id worker_id delay_s err attempt d n d' \<longleftrightarrow>
     (n = 1 \<and> (\<exists>k > 0. upd_rel (\<lambda>t j. retry_guard t job_id worker_id attempt j \<and> j_attempts j < j_max_attempts j)
        (\<lambda>t. requeue t delay_s) d k d'))
     \<or> (n = 0 \<and> d' = d)
     \<or> bury_rel (\<lambda>t j. retry_guard t job_id worker_id attempt j \<and> j_attempts j \<ge> j_max_attempts j) err d n d'"

lemma upd_rel_0: "upd_rel p f d n d' \<Longrightarrow> n \<le> 0 \<Longrightarrow> d' = d"
  by (auto simp: upd_rel_def count_where_def filter_empty_conv upd_where_none)

interpretation retry_op: atomic_action "retry_with job_id worker_id delay_s err attempt"
  "retry_rel job_id worker_id delay_s err attempt" for job_id worker_id delay_s err attempt
proof -
  have ex: "atomic_action (retry_exhausted job_id worker_id attempt) (\<lambda>d a d'. d' = d \<and> True)"
    unfolding retry_exhausted_def by (rule atomic_query) simp
  have rest: "atomic_action (sbind (retry_exhausted job_id worker_id attempt) (\<lambda>is_exhausted.
      if \<not> is_exhausted then sret 0 else retry_dead job_id worker_id attempt err))
      (retry_rel job_id worker_id delay_s err attempt)"
    using ex by (rule atomic_read_then)
      (auto simp: retry_rel_def intro: atomic_sret atomic_weaken[OF retry_dead_op.atomic_action_axioms])
  show "atomic_action (retry_with job_id worker_id delay_s err attempt)
      (retry_rel job_id worker_id delay_s err attempt)"
    unfolding retry_with_def using retry_pending_op.atomic_action_axioms
  proof (rule atomic_sbind, goal_cases)
    case (1 updated)
    then show ?case
      using rest by (cases "updated > 0") (auto simp: retry_rel_def dest: upd_rel_0)
  qed
qed

end
