(* ===== verification/Queue_Inv.thy ===== *)
theory Queue_Inv
  imports Queue_Ops
begin

text \<open>
  The life of a job as a state machine on its row, the interface of a property that survives
  every move of it (locale \<open>queue_property\<close>), and its instances: the well-formedness of the
  queue tables, the bookkeeping of handed-out claim tokens, and what never changes about a job.
\<close>

section \<open>The state machine of a row\<close>

inductive row_step :: "job \<Rightarrow> job \<Rightarrow> bool" where
  promote: "j_state j = Scheduled \<Longrightarrow> row_step j (j\<lparr>j_state := Pending\<rparr>)"
| claim: "j_state j = Pending \<or> j_state j = Processing \<Longrightarrow> j_attempts j < j_max_attempts j
    \<Longrightarrow> row_step j (claim_row worker_id timeout_s now j)"
| requeue: "j_state j = Processing \<Longrightarrow> j_attempts j < j_max_attempts j
    \<Longrightarrow> row_step j (requeue t delay_s j)"
| extend: "j_state j = Processing \<Longrightarrow> row_step j (extend_lease extend_s t j)"

inductive_cases row_stepE: "row_step j j'"

text \<open>A row as \<^verbatim>\<open>enqueue\<close> writes it.\<close>

definition fresh_row :: "job \<Rightarrow> bool" where
  "fresh_row j \<longleftrightarrow> j_state j \<in> {Pending, Scheduled} \<and> j_attempts j = 0 \<and> 1 \<le> j_max_attempts j
     \<and> j_worker_id j = None \<and> j_claim_expires_at j = None \<and> j_claimed_at j = None"

lemma fresh_new_job:
  "1 \<le> m \<Longrightarrow> fresh_row (new_job now t queue payload run_at priority m expires_at jid)"
  by (simp add: fresh_row_def new_job_def)

lemma j_id_new_job [simp]: "j_id (new_job now t q p r pr m e jid) = jid"
  by (simp add: new_job_def)

lemma row_fields [simp]:
  "j_id (claim_row w to now j) = j_id j" "j_id (Queue_Ops.requeue t ds j) = j_id j"
  "j_id (extend_lease e t j) = j_id j"
  "core (claim_row w to now j) = core j" "core (Queue_Ops.requeue t ds j) = core j"
  "core (extend_lease e t j) = core j" "core (j\<lparr>j_state := s\<rparr>) = core j"
  "j_attempts (claim_row w to now j) = j_attempts j + 1" "j_state (claim_row w to now j) = Processing"
  "j_worker_id (claim_row w to now j) = Some w" "j_claimed_at (claim_row w to now j) = Some now"
  "j_claim_expires_at (claim_row w to now j) = Some (now + to)"
  "j_max_attempts (claim_row w to now j) = j_max_attempts j"
  "j_expires_at (claim_row w to now j) = j_expires_at j"
  by (simp_all add: claim_row_def requeue_def extend_lease_def core_def)

lemma row_step_core: "row_step j j' \<Longrightarrow> core j' = core j"
  by (cases rule: row_step.cases) auto

lemma row_step_id: "row_step j j' \<Longrightarrow> j_id j' = j_id j"
  by (auto dest: row_step_core core_id)

lemma row_step_attempts: "row_step j j' \<Longrightarrow> j_attempts j \<le> j_attempts j'"
  by (cases rule: row_step.cases) (auto simp: claim_row_def requeue_def extend_lease_def)

section \<open>Properties every operation keeps\<close>

text \<open>
  What a property of the queue has to survive: a write to another table, a fresh row, moves of
  the state machine on any set of rows, and the transfer of any set of rows to the dead table;
  in \<open>queue_property\<close> also the removal of any set of rows.
\<close>

locale queue_moves =
  fixes I :: "honker_db \<Rightarrow> bool"
  assumes distinct_ids: "I d \<Longrightarrow> distinct (map j_id (live d))"
    and other_tables: "I d \<Longrightarrow> live d' = live d \<Longrightarrow> dead d' = dead d \<Longrightarrow> live_seq d' = live_seq d \<Longrightarrow> I d'"
    and insert_row: "I d \<Longrightarrow> fresh_row j \<Longrightarrow> j_id j = live_seq d + 1
      \<Longrightarrow> I (d\<lparr>live := live d @ [j], live_seq := live_seq d + 1\<rparr>)"
    and update_rows: "I d \<Longrightarrow> (\<And>j. j \<in> set (live d) \<Longrightarrow> p j \<Longrightarrow> row_step j (f j))
      \<Longrightarrow> I (d\<lparr>live := upd_where p f (live d)\<rparr>)"
    and move_dead: "I d \<Longrightarrow> I (d\<lparr>dead := dead d @ map (dead_of err t) (filter p (live d)),
        live := del_where p (live d)\<rparr>)"
begin

lemma keep_move_rows: "I d \<Longrightarrow> I (move_rows ids now err d)"
  using move_dead[where d = d and p = "id_in ids" and err = err and t = now] by (simp add: move_rows_def)

lemma keep_housekeep:
  assumes "I d"
  shows "I (housekeep queue now d)"
proof -
  let ?ids = "promote_ids queue now CLAIM_HOUSEKEEPING_LIMIT (live d)"
  have "j_state j = Scheduled" if "j \<in> set (live d)" "id_in ?ids j" for j
  proof -
    from that(2) obtain j' where "j' \<in> set (live d)" "j_id j' = j_id j" "j_state j' = Scheduled"
      unfolding id_in_def promote_ids_def using sql_limit_set by fastforce
    with that distinct_ids[OF assms] show ?thesis by (auto simp: distinct_map dest: inj_onD)
  qed
  then have "I (d\<lparr>live := upd_where (id_in ?ids) (\<lambda>j. j\<lparr>j_state := Pending\<rparr>) (live d)\<rparr>)"
    by (intro update_rows[OF assms] row_step.promote)
  then show ?thesis by (simp add: housekeep_def Let_def keep_move_rows)
qed

lemma claim_ids_claimable:
  assumes "I d" "j \<in> set (live d)" "id_in (claim_ids queue n now (live d)) j"
  shows "claimable queue now j"
proof -
  from assms(1) have dist: "distinct (map j_id (live d))" by (rule distinct_ids)
  with assms(3) obtain j' where "j' \<in> set (live d)" "j_id j' = j_id j" "claimable queue now j'"
    using claim_pick_subset by (fastforce simp: id_in_def claim_ids_pick)
  with assms(2) dist show ?thesis by (auto simp: distinct_map dest: inj_onD)
qed

lemma keep_claim:
  assumes "I d" "claim_rel queue worker_id n timeout_s d out d'"
  shows "I d'"
proof -
  from assms(2) obtain now where d': "d' = claim_upd queue worker_id n timeout_s now (housekeep queue now d)"
    by (auto simp: claim_rel_def claim_at_def Let_def)
  have h: "I (housekeep queue now d)" using assms(1) by (rule keep_housekeep)
  show ?thesis
    unfolding d' claim_upd_def using h
    by (rule update_rows, intro row_step.claim)
      (auto dest!: claim_ids_claimable[OF h] simp: claimable_arms due_pending_def lapsed_def)
qed

lemma keep_sweep: "I d \<Longrightarrow> sweep_rel queue d n d' \<Longrightarrow> I d'"
  by (auto simp: sweep_rel_def Let_def keep_move_rows)

lemma keep_extend:
  "I d \<Longrightarrow> upd_rel p (extend_lease e) d n d' \<Longrightarrow> (\<And>t j. p t j \<Longrightarrow> j_state j = Processing) \<Longrightarrow> I d'"
  by (auto simp: upd_rel_def intro!: update_rows row_step.extend)

lemma keep_requeue:
  "I d \<Longrightarrow> upd_rel p (\<lambda>t. Queue_Ops.requeue t delay_s) d n d'
    \<Longrightarrow> (\<And>t j. p t j \<Longrightarrow> j_state j = Processing \<and> j_attempts j < j_max_attempts j) \<Longrightarrow> I d'"
  by (auto simp: upd_rel_def intro!: update_rows row_step.requeue)

text \<open>A guard that names a job id matches one row, so burying it is a move of the rows it matches.\<close>

lemma keep_bury:
  assumes "I d" "bury_rel p err d n d'" "\<And>t j. p t j \<Longrightarrow> j_id j = jid"
  shows "I d'"
proof -
  from assms(2) obtain t died where b: "case filter (p t) (live d) of
       [] \<Rightarrow> n = 0 \<and> d' = d
     | j # _ \<Rightarrow> n = 1 \<and> j_id j \<notin> set (map d_id (dead d))
         \<and> d' = d\<lparr>live := del_where (p t) (live d), dead := dead d @ [dead_of err died j]\<rparr>"
    by (auto simp: bury_rel_def)
  show ?thesis
  proof (cases "filter (p t) (live d)")
    case Nil
    with b assms(1) show ?thesis by simp
  next
    case (Cons j js)
    have "js = []" using distinct_ids[OF assms(1)] assms(3) Cons by (rule filter_unique)
    with b Cons have "d' = d\<lparr>dead := dead d @ map (dead_of err died) (filter (p t) (live d)),
        live := del_where (p t) (live d)\<rparr>" by simp
    then show ?thesis using assms(1) by (simp only: move_dead)
  qed
qed

lemma keep_retry_pending:
  "I d \<Longrightarrow> upd_rel (\<lambda>t j. retry_guard t job_id worker_id attempt j \<and> j_attempts j < j_max_attempts j)
     (\<lambda>t. Queue_Ops.requeue t delay_s) d n d' \<Longrightarrow> I d'"
  by (erule (1) keep_requeue) (auto simp: retry_guard_def holds_token_def split: option.splits)

lemma keep_retry_dead:
  "I d \<Longrightarrow> bury_rel (\<lambda>t j. retry_guard t job_id worker_id attempt j \<and> j_attempts j \<ge> j_max_attempts j) err d n d'
    \<Longrightarrow> I d'"
  by (erule (1) keep_bury[where jid = job_id])
    (auto simp: retry_guard_def holds_lease_def holds_token_def split: option.splits)

lemma keep_retry: "I d \<Longrightarrow> retry_rel job_id worker_id delay_s err attempt d n d' \<Longrightarrow> I d'"
  unfolding retry_rel_def by (auto intro: keep_retry_pending keep_retry_dead)

lemma keep_fail: "I d \<Longrightarrow> bury_rel (\<lambda>t. fail_guard t job_id worker_id attempt) err d n d' \<Longrightarrow> I d'"
  by (erule (1) keep_bury[where jid = job_id])
    (auto simp: fail_guard_def holds_lease_def holds_token_def split: option.splits)

lemma keep_enqueue: "I d \<Longrightarrow> enqueue_rel q p r dl pr m e d jid d' \<Longrightarrow> I d'"
  using insert_row[OF _ fresh_new_job] by (auto simp: enqueue_rel_def)

end

locale queue_property = queue_moves +
  assumes delete_rows: "I d \<Longrightarrow> I (d\<lparr>live := del_where p (live d)\<rparr>)"
begin

lemma keep_del: "I d \<Longrightarrow> del_rel p d n d' \<Longrightarrow> I d'"
  by (auto simp: del_rel_def delete_rows)

lemma keep_ack_batch: "I d \<Longrightarrow> ack_batch_rel parse num js w d n d' \<Longrightarrow> I d'"
  by (auto simp: ack_batch_rel_def keep_del)

end

section \<open>Well-formed queue tables\<close>

definition job_ok :: "job \<Rightarrow> bool" where
  "job_ok j \<longleftrightarrow> 0 \<le> j_attempts j \<and> j_attempts j \<le> j_max_attempts j \<and> 1 \<le> j_max_attempts j
     \<and> (case j_state j of
          Processing \<Rightarrow> 1 \<le> j_attempts j \<and> j_worker_id j \<noteq> None \<and> j_claim_expires_at j \<noteq> None
            \<and> j_claimed_at j \<noteq> None
        | OtherState _ \<Rightarrow> False
        | _ \<Rightarrow> j_attempts j < j_max_attempts j \<and> j_worker_id j = None \<and> j_claim_expires_at j = None
            \<and> j_claimed_at j = None)"

definition dead_ok :: "dead_job \<Rightarrow> bool" where
  "dead_ok r \<longleftrightarrow> 0 \<le> d_attempts r \<and> d_attempts r \<le> d_max_attempts r \<and> 1 \<le> d_max_attempts r"

text \<open>Every id is in one table, once, and the id counter is above them all.\<close>

definition queue_ids :: "honker_db \<Rightarrow> int list" where
  "queue_ids d = map j_id (live d) @ map d_id (dead d)"

definition queue_wf :: "honker_db \<Rightarrow> bool" where
  "queue_wf d \<longleftrightarrow> distinct (queue_ids d) \<and> (\<forall>i\<in>set (queue_ids d). 1 \<le> i \<and> i \<le> live_seq d)
     \<and> 0 \<le> live_seq d \<and> list_all job_ok (live d) \<and> list_all dead_ok (dead d)"

lemma job_ok_step: "job_ok j \<Longrightarrow> row_step j j' \<Longrightarrow> job_ok j'"
  by (erule row_stepE) (auto simp: job_ok_def claim_row_def requeue_def extend_lease_def split: jstate.splits)

lemma job_ok_dead: "job_ok j \<Longrightarrow> dead_ok (dead_of err t j)"
  by (simp add: job_ok_def dead_ok_def)

lemma job_ok_fresh: "fresh_row j \<Longrightarrow> job_ok j"
  by (auto simp: fresh_row_def job_ok_def)

lemma job_ok_worker: "job_ok j \<Longrightarrow> j_worker_id j = Some w \<Longrightarrow> j_state j = Processing"
  by (auto simp: job_ok_def split: jstate.splits)

lemma queue_ids_simps [simp]:
  "queue_ids (d\<lparr>live := rs\<rparr>) = map j_id rs @ map d_id (dead d)"
  "queue_ids (d\<lparr>live := rs, live_seq := n\<rparr>) = map j_id rs @ map d_id (dead d)"
  by (simp_all add: queue_ids_def)

lemma map_id_upd_where:
  "(\<And>j. j \<in> set rs \<Longrightarrow> p j \<Longrightarrow> g (f j) = g j) \<Longrightarrow> map g (upd_where p f rs) = map g rs"
  by (induction rs) auto

lemma queue_wf_empty: "queue_wf empty_db"
  by (simp add: queue_wf_def queue_ids_def)

lemma queue_wf_distinct: "queue_wf d \<Longrightarrow> distinct (map j_id (live d))"
  by (simp add: queue_wf_def queue_ids_def)

lemma queue_wf_move:
  assumes "queue_wf d"
  shows "queue_wf (d\<lparr>dead := dead d @ map (dead_of err t) (filter p (live d)), live := del_where p (live d)\<rparr>)"
proof -
  let ?d' = "d\<lparr>dead := dead d @ map (dead_of err t) (filter p (live d)), live := del_where p (live d)\<rparr>"
  have "mset (queue_ids ?d') = mset (queue_ids d)"
    using mset_del_where[of "live d" p] by (simp add: queue_ids_def comp_def)
      (metis (no_types, lifting) image_mset_union union_assoc union_commute)
  then have "distinct (queue_ids ?d') = distinct (queue_ids d)" "set (queue_ids ?d') = set (queue_ids d)"
    by (rule mset_eq_imp_distinct_iff, rule mset_eq_setD)
  with assms show ?thesis
    by (auto simp: queue_wf_def list_all_iff job_ok_dead simp del: queue_ids_simps)
qed

interpretation wf: queue_property queue_wf
proof
  show "queue_wf d'" if "queue_wf d" "live d' = live d" "dead d' = dead d" "live_seq d' = live_seq d" for d d'
    using that by (simp add: queue_wf_def queue_ids_def)
  show "queue_wf (d\<lparr>live := live d @ [j], live_seq := live_seq d + 1\<rparr>)"
    if "queue_wf d" "fresh_row j" "j_id j = live_seq d + 1" for d j
  proof -
    have "live_seq d + 1 \<notin> set (queue_ids d)" using that(1) by (auto simp: queue_wf_def)
    moreover have "\<forall>i\<in>set (queue_ids d). 1 \<le> i \<and> i \<le> live_seq d + 1"
      using that(1) by (force simp: queue_wf_def)
    ultimately show ?thesis using that by (auto simp: queue_wf_def queue_ids_def job_ok_fresh)
  qed
  show "queue_wf (d\<lparr>live := upd_where p f (live d)\<rparr>)"
    if "queue_wf d" "\<And>j. j \<in> set (live d) \<Longrightarrow> p j \<Longrightarrow> row_step j (f j)" for d p f
  proof -
    have "map j_id (upd_where p f (live d)) = map j_id (live d)"
      using that(2) by (intro map_id_upd_where row_step_id)
    with that show ?thesis
      by (auto simp: queue_wf_def queue_ids_def list_all_iff set_upd_where intro: job_ok_step)
  qed
  show "queue_wf (d\<lparr>live := del_where p (live d)\<rparr>)" if "queue_wf d" for d p
    using that by (auto simp: queue_wf_def queue_ids_def list_all_iff)
qed (auto intro: queue_wf_move queue_wf_distinct)

section \<open>Claim tokens\<close>

text \<open>
  A token is the pair of job id and attempt number that a claim returned. It is spent once the
  job's attempt counter, if the job is still live, has reached it.
\<close>

type_synonym token = "int \<times> int"

definition spent :: "token \<Rightarrow> honker_db \<Rightarrow> bool" where
  "spent tok d \<longleftrightarrow> fst tok \<le> live_seq d
     \<and> (\<forall>j\<in>set (live d). j_id j = fst tok \<longrightarrow> snd tok \<le> j_attempts j)"

interpretation tok: queue_property "\<lambda>d. queue_wf d \<and> spent tok d" for tok
proof
  show "queue_wf d' \<and> spent tok d'" if "queue_wf d \<and> spent tok d"
    "live d' = live d" "dead d' = dead d" "live_seq d' = live_seq d" for d d'
    using that wf.other_tables[of d d'] by (simp add: spent_def)
  show "queue_wf (d\<lparr>live := upd_where p f (live d)\<rparr>) \<and> spent tok (d\<lparr>live := upd_where p f (live d)\<rparr>)"
    if "queue_wf d \<and> spent tok d" "\<And>j. j \<in> set (live d) \<Longrightarrow> p j \<Longrightarrow> row_step j (f j)" for d p f
    using that wf.update_rows[of d p f]
    by (fastforce simp: spent_def set_upd_where dest: row_step_attempts row_step_id)
qed (auto simp: spent_def queue_wf_distinct wf.insert_row wf.delete_rows wf.move_dead)

section \<open>What never changes\<close>

text \<open>
  Seen from a database \<open>d0\<close>, a later one has every dead row of \<open>d0\<close>; each of its live rows is a
  row of \<open>d0\<close> with the same identity and no fewer attempts, or has an id \<open>d0\<close> never used; each
  new dead row was a live job of \<open>d0\<close> or has such an id.
\<close>

definition descends :: "honker_db \<Rightarrow> honker_db \<Rightarrow> bool" where
  "descends d0 d \<longleftrightarrow> live_seq d0 \<le> live_seq d \<and> set (dead d0) \<subseteq> set (dead d)
     \<and> (\<forall>j\<in>set (live d). live_seq d0 < j_id j
          \<or> (\<exists>j0\<in>set (live d0). core j0 = core j \<and> j_attempts j0 \<le> j_attempts j))
     \<and> (\<forall>r\<in>set (dead d). r \<in> set (dead d0) \<or> live_seq d0 < d_id r
          \<or> (\<exists>j0\<in>set (live d0). core j0 = dcore r \<and> j_attempts j0 \<le> d_attempts r))"

lemma descends_refl [simp]: "descends d d"
  by (auto simp: descends_def)

interpretation desc: queue_property "\<lambda>d. queue_wf d \<and> descends d0 d" for d0
proof
  show "queue_wf d' \<and> descends d0 d'" if "queue_wf d \<and> descends d0 d"
    "live d' = live d" "dead d' = dead d" "live_seq d' = live_seq d" for d d'
    using that wf.other_tables[of d d'] by (simp add: descends_def)
  show "queue_wf (d\<lparr>live := upd_where p f (live d)\<rparr>) \<and> descends d0 (d\<lparr>live := upd_where p f (live d)\<rparr>)"
    if wf: "queue_wf d \<and> descends d0 d" and step: "\<And>j. j \<in> set (live d) \<Longrightarrow> p j \<Longrightarrow> row_step j (f j)" for d p f
  proof -
    have "live_seq d0 < j_id (f j) \<or> (\<exists>j0\<in>set (live d0). core j0 = core (f j) \<and> j_attempts j0 \<le> j_attempts (f j))"
      if "j \<in> set (live d)" "p j" for j
      using wf that row_step_core[OF step[OF that]] row_step_id[OF step[OF that]]
        row_step_attempts[OF step[OF that]] by (fastforce simp: descends_def)
    with wf wf.update_rows[OF _ step] show ?thesis by (auto simp: descends_def set_upd_where)
  qed
  show "queue_wf (d\<lparr>dead := dead d @ map (dead_of err t) (filter p (live d)), live := del_where p (live d)\<rparr>)
      \<and> descends d0 (d\<lparr>dead := dead d @ map (dead_of err t) (filter p (live d)), live := del_where p (live d)\<rparr>)"
    if "queue_wf d \<and> descends d0 d" for d err t p
    using that by (fastforce simp: queue_wf_move descends_def)
qed (auto simp: descends_def queue_wf_distinct wf.insert_row wf.delete_rows)

end
