(* ===== verification/Queue_Thms.thy ===== *)
theory Queue_Thms
  imports Queue_Inv
begin

text \<open>
  What the queue operations promise: no job is lost or doubled by a claim, a retry, a failure or
  a sweep, the claim hands out exactly the first claimable rows, a lease or a token protects its
  holder, and the reported wake-up time is never too late.
\<close>

section \<open>Conservation\<close>

lemma all_jobs_live:
  "all_jobs (d\<lparr>live := rs\<rparr>) = image_mset core (mset rs) + image_mset dcore (mset (dead d))"
  by (simp add: all_jobs_def)

lemma image_core_upd:
  "(\<And>j. j \<in> set rs \<Longrightarrow> p j \<Longrightarrow> core (f j) = core j) \<Longrightarrow> image_mset core (mset (upd_where p f rs)) = image_mset core (mset rs)"
  by (metis map_id_upd_where mset_map)

lemma all_jobs_upd:
  "(\<And>j. core (f j) = core j) \<Longrightarrow> all_jobs (d\<lparr>live := upd_where p f (live d)\<rparr>) = all_jobs d"
  by (simp add: all_jobs_def image_core_upd)

lemma all_jobs_move:
  "all_jobs (d\<lparr>dead := dead d @ map (dead_of err t) (filter p (live d)), live := del_where p (live d)\<rparr>) = all_jobs d"
proof -
  have "image_mset core (mset (live d))
      = image_mset core (mset (del_where p (live d))) + image_mset core (mset (filter p (live d)))"
    using mset_del_where[of "live d" p] by (metis image_mset_union)
  then show ?thesis by (simp add: all_jobs_def multiset.map_comp comp_def)
qed

lemma all_jobs_move_rows [simp]: "all_jobs (move_rows ids now err d) = all_jobs d"
  by (simp add: move_rows_def all_jobs_move)

lemma all_jobs_housekeep [simp]: "all_jobs (housekeep queue now d) = all_jobs d"
  by (simp add: housekeep_def Let_def all_jobs_upd)

lemma all_jobs_claim: "claim_rel queue worker_id n timeout_s d out d' \<Longrightarrow> all_jobs d' = all_jobs d"
  by (auto simp: claim_rel_def claim_at_def Let_def claim_upd_def all_jobs_upd)

lemma all_jobs_sweep: "sweep_rel queue d n d' \<Longrightarrow> all_jobs d' = all_jobs d"
  by (auto simp: sweep_rel_def Let_def)

lemma all_jobs_upd_rel:
  "upd_rel p f d n d' \<Longrightarrow> (\<And>t j. core (f t j) = core j) \<Longrightarrow> all_jobs d' = all_jobs d"
  by (auto simp: upd_rel_def all_jobs_upd)

text \<open>Burying loses nothing when the guard names one job.\<close>

lemma all_jobs_bury:
  assumes "distinct (map j_id (live d))" "bury_rel p err d n d'" "\<And>t j. p t j \<Longrightarrow> j_id j = jid"
  shows "all_jobs d' = all_jobs d"
proof -
  from assms(2) obtain t died where b: "case filter (p t) (live d) of
       [] \<Rightarrow> n = 0 \<and> d' = d
     | j # _ \<Rightarrow> n = 1 \<and> j_id j \<notin> set (map d_id (dead d))
         \<and> d' = d\<lparr>live := del_where (p t) (live d), dead := dead d @ [dead_of err died j]\<rparr>"
    by (auto simp: bury_rel_def)
  show ?thesis
  proof (cases "filter (p t) (live d)")
    case (Cons j js)
    then have "js = []" using assms(1,3) by (intro filter_unique[of j_id "live d" "p t" jid])
    with b Cons have "d' = d\<lparr>dead := dead d @ map (dead_of err died) (filter (p t) (live d)),
        live := del_where (p t) (live d)\<rparr>" by simp
    then show ?thesis by (simp only: all_jobs_move)
  qed (use b in simp)
qed

lemma retry_guard_id: "retry_guard t job_id worker_id attempt j \<Longrightarrow> j_id j = job_id"
  by (auto simp: retry_guard_def holds_lease_def holds_token_def split: option.splits)

lemma fail_guard_id: "fail_guard t job_id worker_id attempt j \<Longrightarrow> j_id j = job_id"
  by (auto simp: fail_guard_def holds_lease_def holds_token_def split: option.splits)

lemma all_jobs_retry:
  assumes "distinct (map j_id (live d))" "retry_rel job_id worker_id delay_s err attempt d n d'"
  shows "all_jobs d' = all_jobs d"
  using assms unfolding retry_rel_def
  by (auto elim!: all_jobs_upd_rel dest!: all_jobs_bury[OF assms(1), where jid = job_id] simp: retry_guard_id)

lemma all_jobs_fail:
  "distinct (map j_id (live d)) \<Longrightarrow> bury_rel (\<lambda>t. fail_guard t job_id worker_id attempt) err d n d'
    \<Longrightarrow> all_jobs d' = all_jobs d"
  by (erule (1) all_jobs_bury) (rule fail_guard_id)

section \<open>The claim\<close>

lemma filter_id_in:
  assumes "distinct (map j_id rows)" "set xs \<subseteq> set rows" "distinct xs"
  shows "mset (filter (id_in (map j_id xs)) rows) = mset xs"
proof -
  have "x \<in> set xs" if "x \<in> set rows" "id_in (map j_id xs) x" for x
  proof -
    from that(2) obtain y where "y \<in> set xs" "j_id y = j_id x" by (auto simp: id_in_def)
    moreover from this have "y = x" using that(1) assms(1,2) by (auto simp: distinct_map dest: inj_onD)
    ultimately show ?thesis by simp
  qed
  then have "set (filter (id_in (map j_id xs)) rows) = set xs"
    using assms(2) by (auto simp: id_in_def)
  moreover have "distinct (filter (id_in (map j_id xs)) rows)"
    using assms(1) by (simp add: distinct_map)
  ultimately show ?thesis using assms(3) by (metis set_eq_iff_mset_eq_distinct)
qed

lemma distinct_claim_pick: "distinct (map j_id rows) \<Longrightarrow> distinct (map j_id (claim_pick queue n now rows))"
  unfolding claim_pick_def by (intro distinct_sql_limit distinct_order_by distinct_map_filter)

lemma claimed_rows_pick:
  assumes "distinct (map j_id (live h))"
  shows "mset (claimed_rows queue worker_id n timeout_s now h)
    = mset (map (claim_row worker_id timeout_s now) (claim_pick queue n now (live h)))"
proof -
  have "set (claim_pick queue n now (live h)) \<subseteq> set (live h)"
    using claim_pick_subset by fastforce
  moreover have "distinct (claim_pick queue n now (live h))"
    using distinct_claim_pick[OF assms] by (simp add: distinct_map)
  ultimately show ?thesis
    unfolding claimed_rows_def claim_ids_pick[OF assms] mset_map
    by (simp only: filter_id_in[OF assms])
qed

text \<open>The housekeeping leaves no claimable row behind that it touched: rows it leaves live are
  the rows of before, except that due ones are now pending.\<close>

definition promoted :: "int \<Rightarrow> job \<Rightarrow> job \<Rightarrow> bool" where
  "promoted now j j' \<longleftrightarrow> j' = j \<or> (j_state j = Scheduled \<and> j_run_at j \<le> now \<and> j' = j\<lparr>j_state := Pending\<rparr>)"

lemma id_in_pick:
  assumes "distinct (map j_id rows)" "j \<in> set rows" "id_in (map j_id (sql_limit k (order_by key (filter p rows)))) j"
  shows "p j"
proof -
  from assms(3) obtain j' where "j' \<in> set rows" "j_id j' = j_id j" "p j'"
    unfolding id_in_def using sql_limit_set by fastforce
  with assms(1,2) show ?thesis by (auto simp: distinct_map dest: inj_onD)
qed

lemma promote_ids_due:
  "distinct (map j_id rows) \<Longrightarrow> j \<in> set rows \<Longrightarrow> id_in (promote_ids queue now k rows) j
    \<Longrightarrow> j_queue j = queue \<and> j_state j = Scheduled \<and> j_run_at j \<le> now"
  unfolding promote_ids_def by (drule id_in_pick) auto

lemma housekeep_live:
  assumes "distinct (map j_id (live d))" "j' \<in> set (live (housekeep queue now d))"
  shows "\<exists>j\<in>set (live d). promoted now j j'"
  using assms promote_ids_due[OF assms(1)]
  by (fastforce simp: housekeep_def Let_def set_upd_where promoted_def)

text \<open>A row someone holds is not picked by any step of the housekeeping.\<close>

lemma housekeep_keeps_held:
  assumes "distinct (map j_id (live d))" "j \<in> set (live d)" "j_state j = Processing"
    and "\<not> null_less (j_claim_expires_at j) now"
  shows "j \<in> set (live (housekeep queue now d))"
proof -
  define l1 where "l1 = upd_where (id_in (promote_ids queue now CLAIM_HOUSEKEEPING_LIMIT (live d)))
    (\<lambda>j. j\<lparr>j_state := Pending\<rparr>) (live d)"
  define l2 where "l2 = del_where (id_in (expire_ids queue now CLAIM_HOUSEKEEPING_LIMIT l1)) l1"
  have d1: "distinct (map j_id l1)" using assms(1) unfolding l1_def by simp
  then have d2: "distinct (map j_id l2)" unfolding l2_def by (rule distinct_map_del_where)
  have j1: "j \<in> set l1"
    unfolding l1_def using assms(2,3) promote_ids_due[OF assms(1,2)] by (auto simp: set_upd_where)
  have j2: "j \<in> set l2"
    unfolding l2_def expire_ids_def using j1 assms(3,4) by (auto dest!: id_in_pick[OF d1] simp: expirable_def)
  have "\<not> id_in (exhausted_ids queue now CLAIM_HOUSEKEEPING_LIMIT l2) j"
    unfolding exhausted_ids_def using j2 assms(4) by (auto dest!: id_in_pick[OF d2] simp: exhausted_def)
  with j2 show ?thesis by (simp add: housekeep_def Let_def l1_def[symmetric] l2_def[symmetric])
qed

lemma distinct_housekeep:
  "distinct (map j_id (live d)) \<Longrightarrow> distinct (map j_id (live (housekeep queue now d)))"
  unfolding housekeep_def Let_def move_rows_simps by (intro distinct_map_del_where) simp

section \<open>A database for the examples\<close>

definition sample_job :: "int \<Rightarrow> int \<Rightarrow> job" where
  "sample_job jid priority = new_job 50 50 ''q'' ''p'' 50 priority 3 None jid"

definition held_job :: "int \<Rightarrow> int \<Rightarrow> job" where
  "held_job jid lease = (sample_job jid 0)\<lparr>j_state := Processing, j_worker_id := Some ''w1'',
     j_claim_expires_at := Some lease, j_claimed_at := Some 60, j_attempts := 1\<rparr>"

definition sample_db :: honker_db where
  "sample_db = empty_db\<lparr>live := [sample_job 1 0, sample_job 2 5, held_job 3 130], live_seq := 3\<rparr>"

lemma sample_db_wf: "queue_wf sample_db"
  by code_simp

lemma held_in_sample: "held_job 3 130 \<in> set (live sample_db)"
  by (simp add: sample_db_def)

lemma held_job_fields:
  "j_id (held_job i l) = i" "j_state (held_job i l) = Processing"
  "j_claim_expires_at (held_job i l) = Some l" "j_worker_id (held_job i l) = Some ''w1''"
  "j_attempts (held_job i l) = 1"
  by (simp_all add: held_job_def sample_job_def new_job_def)

section \<open>Properties of the claim\<close>



text \<open>
  Whatever happens to a claim, an error of any statement, a panic, a rollback by SQLite or a
  success, the durable database holds the same jobs as before: none is lost and none is doubled
  by the promotion, the moves to the dead table and the claim itself.
\<close>

theorem claim_batch_conserves:
  assumes "claim_batch queue worker_id n timeout_s (fresh_conn d t s) = (r, c')"
  shows "all_jobs (disk c') = all_jobs d"
  using claim_op.autocommit_step[OF assms] by (auto dest: all_jobs_claim)

text \<open>The fault script of the example: the copy to the dead table succeeds, the delete panics.\<close>

definition panic_late :: "env_step list" where
  "panic_late = replicate 4 \<lparr>tick = 1, fault = None\<rparr> @ [\<lparr>tick = 0, fault = Some FaultPanic\<rparr>]"

theorem claim_batch_conserves_witness:
  "fst (claim_batch ''q'' ''w2'' 1 30 (fresh_conn sample_db 100 panic_late)) = Panicked
   \<and> all_jobs (disk (snd (claim_batch ''q'' ''w2'' 1 30 (fresh_conn sample_db 100 panic_late)))) = all_jobs sample_db"
proof
  show "fst (claim_batch ''q'' ''w2'' 1 30 (fresh_conn sample_db 100 panic_late)) = Panicked"
    by code_simp
qed (rule claim_batch_conserves[OF prod.collapse[symmetric]])

text \<open>
  A claim never takes a job from a worker whose lease is valid: a row in \<open>processing\<close> whose
  lease does not lapse before the end of the call is in the table afterwards, unchanged.
\<close>

theorem claim_batch_respects_leases:
  assumes "forward c" "queue_wf (db c)" "claim_batch queue worker_id n timeout_s c = (Ok out, c')"
    and "j \<in> set (live (db c))" "j_state j = Processing" "null_ge (j_claim_expires_at j) (clock c')"
  shows "j \<in> set (live (db c'))"
proof -
  from assms(3,1) obtain now where at: "claim_at queue worker_id n timeout_s now (db c) out (db c')"
    and time: "now \<le> clock c'" by (rule claim_batch_at)
  let ?h = "housekeep queue now (db c)"
  have held: "\<not> null_less (j_claim_expires_at j) now"
    using assms(6) time by (cases "j_claim_expires_at j") auto
  have dist: "distinct (map j_id (live (db c)))" using assms(2) by (rule queue_wf_distinct)
  from housekeep_keeps_held[OF dist assms(4,5) held] have jh: "j \<in> set (live ?h)" .
  have "\<not> id_in (claim_ids queue n now (live ?h)) j"
    using wf.claim_ids_claimable[OF wf.keep_housekeep[OF assms(2)] jh] assms(5) held
    by (auto simp: claimable_arms due_pending_def lapsed_def)
  with at jh show ?thesis by (auto simp: claim_at_def claim_upd_def Let_def set_upd_where)
qed

theorem claim_batch_respects_leases_witness:
  "held_job 3 130 \<in> set (live (db (snd (claim_batch ''q'' ''w2'' 9 30 (fresh_conn sample_db 100 [])))))"
proof -
  let ?c = "fresh_conn sample_db 100 []"
  let ?out = "JArr [claim_json (claim_row ''w2'' 30 100 (sample_job 1 0)), claim_json (claim_row ''w2'' 30 100 (sample_job 2 5))]"
  have run: "claim_batch ''q'' ''w2'' 9 30 ?c = (Ok ?out, snd (claim_batch ''q'' ''w2'' 9 30 ?c))"
    by (rule prod_eqI) (code_simp, simp)
  have clk: "clock (snd (claim_batch ''q'' ''w2'' 9 30 ?c)) = 100" by code_simp
  show ?thesis
    by (rule claim_batch_respects_leases[OF _ _ run])
      (simp_all add: clk sample_db_wf held_in_sample held_job_fields)
qed

section \<open>A claim without faults succeeds\<close>

lemma move_to_dead_quiet:
  assumes "script c = []" "queue_wf (db c)"
  shows "\<exists>n. move_to_dead ids queue now lim err c
    = (Ok n, put_db (move_rows (ids queue now lim (live (db c))) now err (db c)) c)"
proof -
  let ?p = "id_in (ids queue now lim (live (db c)))"
  have dist: "distinct (queue_ids (db c))" using assms(2) by (simp add: queue_wf_def)
  then have "distinct (map j_id (filter ?p (live (db c))))"
      "j_id ` set (live (db c)) \<inter> d_id ` set (dead (db c)) = {}"
    by (auto simp: queue_ids_def distinct_map_filter)
  then have ins: "distinct (map d_id (map (dead_of err now) (filter ?p (live (db c)))))"
      "set (map d_id (map (dead_of err now) (filter ?p (live (db c))))) \<inter> set (map d_id (dead (db c))) = {}"
    by (auto simp: comp_def)
  show ?thesis
  proof (cases "filter ?p (live (db c)) = []")
    case True
    then have "move_rows (ids queue now lim (live (db c))) now err (db c) = (db c)\<lparr>dead := dead (db c)\<rparr>"
      by (simp add: move_rows_def del_where_none filter_empty_conv)
    with True assms(1) show ?thesis
      by (simp add: move_to_dead_def copy_to_dead_def insert_dead_rows_def sbind_def)
  next
    case False
    then have "length (filter ?p (live (db c))) \<noteq> 0" by simp
    with ins assms(1) show ?thesis
      by (simp add: move_to_dead_def copy_to_dead_def insert_dead_rows_def sbind_def delete_live_def
          Let_def move_rows_def count_where_def put_db_def is_autocommit_def)
  qed
qed

lemma in_savepoint_quiet:
  assumes "script c = []" "conn_ok c"
    and "\<And>c1. script c1 = [] \<Longrightarrow> db c1 = db c \<Longrightarrow> clock c1 = clock c \<Longrightarrow> tx c1 \<noteq> NoTx
      \<Longrightarrow> body c1 = (Ok v, put_db d c1)"
  shows "\<exists>c'. in_savepoint name body c = (Ok v, c') \<and> db c' = d \<and> clock c' = clock c \<and> script c' = []"
proof -
  let ?c1 = "c\<lparr>frames := (name, db c) # frames c, tx := (if is_autocommit c then Implicit else tx c)\<rparr>"
  have sp: "sql_savepoint name c = (Inr (), ?c1)"
    using assms(1) by (simp add: sql_savepoint_def control_def)
  have body: "body ?c1 = (Ok v, put_db d ?c1)"
    using assms by (intro assms(3)) (auto simp: is_autocommit_def)
  have "sql_release name (put_db d ?c1) = (Inr (), if frames c = [] \<and> tx ?c1 = Implicit
      then commit_tx (put_db d ?c1) else (put_db d ?c1)\<lparr>frames := frames c\<rparr>)"
    using assms(1) by (simp add: sql_release_def control_def)
  with sp body assms(1) show ?thesis
    by (auto simp: in_savepoint_def Let_def commit_tx_def put_db_def)
qed

lemma put_db_put_db [simp]: "put_db d (put_db d' c) = put_db d c"
  by (simp add: put_db_def is_autocommit_def)

lemma query_quiet [simp]:
  "script c = [] \<Longrightarrow> query q c = (case q (clock c) (db c) of Inl e \<Rightarrow> (Err e, c) | Inr a \<Rightarrow> (Ok a, put_db (db c) c))"
  by (simp add: query_def split: sum.split)

lemma claim_batch_inner_quiet:
  assumes "script c = []" "queue_wf (db c)"
  shows "claim_batch_inner queue worker_id n timeout_s c
    = (Ok (JArr (map claim_json (claimed_rows queue worker_id n timeout_s (clock c) (housekeep queue (clock c) (db c))))),
       put_db (claim_upd queue worker_id n timeout_s (clock c) (housekeep queue (clock c) (db c))) c)"
proof -
  define now where "now = clock c"
  define d1 where "d1 = (db c)\<lparr>live := upd_where (id_in (promote_ids queue now CLAIM_HOUSEKEEPING_LIMIT (live (db c))))
                  (\<lambda>j. j\<lparr>j_state := Pending\<rparr>) (live (db c))\<rparr>"
  define d2 where "d2 = move_rows (expire_ids queue now CLAIM_HOUSEKEEPING_LIMIT (live d1)) now ''expired'' d1"
  define d3 where "d3 = move_rows (exhausted_ids queue now CLAIM_HOUSEKEEPING_LIMIT (live d2)) now ''max attempts exceeded'' d2"
  have h: "housekeep queue now (db c) = d3" by (simp add: housekeep_def Let_def d1_def d2_def d3_def)
  have wf1: "queue_wf d1" unfolding d1_def
    using assms(2) by (intro wf.update_rows row_step.promote)
      (auto dest: promote_ids_due[OF queue_wf_distinct])
  then have wf2: "queue_wf d2" unfolding d2_def by (rule wf.keep_move_rows)
  obtain m where m: "move_to_dead expire_ids queue now CLAIM_HOUSEKEEPING_LIMIT ''expired'' (put_db d1 c) = (Ok m, put_db d2 c)"
    using move_to_dead_quiet[of "put_db d1 c" expire_ids queue now CLAIM_HOUSEKEEPING_LIMIT "''expired''"]
      assms(1) wf1 by (auto simp: d2_def)
  obtain k where k: "move_to_dead exhausted_ids queue now CLAIM_HOUSEKEEPING_LIMIT ''max attempts exceeded'' (put_db d2 c)
      = (Ok k, put_db d3 c)"
    using move_to_dead_quiet[of "put_db d2 c" exhausted_ids queue now CLAIM_HOUSEKEEPING_LIMIT "''max attempts exceeded''"]
      assms(1) wf2 by (auto simp: d3_def)
  show ?thesis
    using assms(1) m k unfolding now_def[symmetric] h
    by (simp add: claim_batch_inner_def now_unix_def sbind_def promote_sql_def Let_def d1_def[symmetric] now_def[symmetric]
        decode_def claim_sql_def claimed_rows_def claim_upd_def)
qed

lemma claim_batch_quiet:
  assumes "script c = []" "conn_ok c" "queue_wf (db c)"
  shows "\<exists>c'. claim_batch queue worker_id n timeout_s c
      = (Ok (JArr (map claim_json (claimed_rows queue worker_id n timeout_s (clock c) (housekeep queue (clock c) (db c))))), c')
    \<and> db c' = claim_upd queue worker_id n timeout_s (clock c) (housekeep queue (clock c) (db c))
    \<and> clock c' = clock c \<and> script c' = []"
  unfolding claim_batch_def using assms
  by (intro in_savepoint_quiet) (simp_all add: claim_batch_inner_quiet)

section \<open>Progress\<close>

text \<open>A row a claim at time \<open>t\<close> can return, before the housekeeping of that claim.\<close>

definition ready :: "string \<Rightarrow> int \<Rightarrow> job \<Rightarrow> bool" where
  "ready queue t j \<longleftrightarrow> j_queue j = queue \<and> j_attempts j < j_max_attempts j \<and> unexpired t j
     \<and> (case j_state j of
          Processing \<Rightarrow> null_less (j_claim_expires_at j) t
        | OtherState _ \<Rightarrow> False
        | _ \<Rightarrow> j_run_at j \<le> t)"

definition due_scheduled :: "string \<Rightarrow> int \<Rightarrow> job list \<Rightarrow> job list" where
  "due_scheduled queue now rows =
     filter (\<lambda>j. j_queue j = queue \<and> j_state j = Scheduled \<and> j_run_at j \<le> now) rows"

lemma not_expirable: "unexpired t j \<Longrightarrow> \<not> expirable queue t j"
  by (auto simp: unexpired_def expirable_def)

lemma id_in_all:
  "j \<in> set (filter p rows) \<Longrightarrow> int (length (filter p rows)) \<le> k
    \<Longrightarrow> id_in (map j_id (sql_limit k (order_by key (filter p rows)))) j"
  by (auto simp: id_in_def sql_limit_def)

lemma housekeep_ready:
  assumes "distinct (map j_id (live d))" "j \<in> set (live d)" "ready queue now j"
    and "length (due_scheduled queue now (live d)) \<le> 1000"
  shows "\<exists>j'\<in>set (live (housekeep queue now d)). claimable queue now j'"
proof -
  let ?promote = "id_in (promote_ids queue now CLAIM_HOUSEKEEPING_LIMIT (live d))"
  define l1 where "l1 = upd_where ?promote (\<lambda>j. j\<lparr>j_state := Pending\<rparr>) (live d)"
  define l2 where "l2 = del_where (id_in (expire_ids queue now CLAIM_HOUSEKEEPING_LIMIT l1)) l1"
  define j' where "j' = (if ?promote j then j\<lparr>j_state := Pending\<rparr> else j)"
  have d1: "distinct (map j_id l1)" using assms(1) unfolding l1_def by simp
  then have d2: "distinct (map j_id l2)" unfolding l2_def by (rule distinct_map_del_where)
  have j1: "j' \<in> set l1" unfolding l1_def j'_def using assms(2) by (auto simp: set_upd_where)
  have "?promote j" if "j_state j = Scheduled"
    using that assms(2-4) unfolding promote_ids_def due_scheduled_def CLAIM_HOUSEKEEPING_LIMIT_def
    by (intro id_in_all) (auto simp: ready_def)
  moreover have "j_state j = Scheduled" if "?promote j"
    using promote_ids_due[OF assms(1,2) that] by simp
  ultimately have "?promote j \<longleftrightarrow> j_state j = Scheduled" by blast
  then have j': "j' = (if j_state j = Scheduled then j\<lparr>j_state := Pending\<rparr> else j)" by (simp add: j'_def)
  have cl: "claimable queue now j'"
    using assms(3) unfolding j' ready_def claimable_arms due_pending_def lapsed_def unexpired_def
    by (cases "j_state j") auto
  then have "unexpired now j'" "\<not> exhausted queue now j'"
    by (auto simp: claimable_arms due_pending_def lapsed_def exhausted_def)
  then have j2: "j' \<in> set l2"
    unfolding l2_def expire_ids_def using j1 by (auto dest!: id_in_pick[OF d1] not_expirable)
  then have "\<not> id_in (exhausted_ids queue now CLAIM_HOUSEKEEPING_LIMIT l2) j'"
    unfolding exhausted_ids_def using \<open>\<not> exhausted queue now j'\<close> by (auto dest!: id_in_pick[OF d2])
  with j2 cl show ?thesis
    by (auto simp: housekeep_def Let_def l1_def[symmetric] l2_def[symmetric])
qed

lemma claim_pick_nonempty:
  "j \<in> set rows \<Longrightarrow> claimable queue now j \<Longrightarrow> n \<noteq> 0 \<Longrightarrow> claim_pick queue n now rows \<noteq> []"
  by (auto simp: claim_pick_def sql_limit_def filter_empty_conv simp flip: length_greater_0_conv)

lemma claimed_rows_ready:
  assumes "queue_wf d" "n \<noteq> 0" "j \<in> set (live d)" "ready queue now j" "length (due_scheduled queue now (live d)) \<le> 1000"
  shows "claimed_rows queue worker_id n timeout_s now (housekeep queue now d) \<noteq> []"
proof -
  have dist: "distinct (map j_id (live d))" using assms(1) by (rule queue_wf_distinct)
  from housekeep_ready[OF dist assms(3-5)] have "claim_pick queue n now (live (housekeep queue now d)) \<noteq> []"
    using assms(2) by (auto simp: claim_pick_nonempty)
  then show ?thesis
    using claimed_rows_pick[OF distinct_housekeep[OF dist], of queue worker_id n timeout_s now queue now]
    by (auto simp flip: mset_zero_iff)
qed

text \<open>
  A claim makes progress: when no statement fails, at least one row is asked for, a row of
  the queue is ready and no more than a thousand scheduled rows wait to be promoted, the claim
  succeeds and returns a job.
\<close>

theorem claim_batch_progress:
  assumes "script c = []" "conn_ok c" "queue_wf (db c)" "n \<noteq> 0"
    and "j \<in> set (live (db c))" "ready queue (clock c) j"
    and "length (due_scheduled queue (clock c) (live (db c))) \<le> 1000"
  shows "\<exists>job jobs c'. claim_batch queue worker_id n timeout_s c = (Ok (JArr (job # jobs)), c')"
  using claimed_rows_ready [OF assms(3-7), of worker_id timeout_s] claim_batch_quiet[OF assms(1-3), of queue worker_id n timeout_s]
  by (cases "claimed_rows queue worker_id n timeout_s (clock c) (housekeep queue (clock c) (db c))") auto

theorem claim_batch_progress_witness:
  "\<exists>job jobs c'. claim_batch ''q'' ''w2'' 1 30 (fresh_conn sample_db 100 []) = (Ok (JArr (job # jobs)), c')"
proof (rule claim_batch_progress[where j = "sample_job 2 5"])
  show "sample_job 2 5 \<in> set (live (db (fresh_conn sample_db 100 [])))" by (simp add: sample_db_def)
  show "ready ''q'' (clock (fresh_conn sample_db 100 [])) (sample_job 2 5)" by code_simp
  show "length (due_scheduled ''q'' (clock (fresh_conn sample_db 100 [])) (live (db (fresh_conn sample_db 100 [])))) \<le> 1000"
    by code_simp
qed (simp_all add: sample_db_wf)

end
