(* ===== verification/Job_Thms.thy ===== *)
theory Job_Thms
  imports Queue_Thms
begin

text \<open>
  The operations on one job: each does what it says exactly when the caller holds the job, does
  nothing otherwise, and reports which; the batch form is the union of the single ones; what was
  enqueued is what a lookup returns; the wake-up time is never too late while leases are valid.
\<close>

section \<open>The row a guard selects\<close>

lemma holds_token_id: "holds_token job_id worker_id attempt j \<Longrightarrow> j_id j = job_id"
  by (simp add: holds_token_def)

lemma fail_guard_token: "fail_guard t job_id worker_id (Some attempt) = holds_token job_id worker_id attempt"
  by (simp add: fun_eq_iff fail_guard_def)

lemma filter_one:
  assumes "distinct (map j_id rows)" "\<And>j. p j \<Longrightarrow> j_id j = jid" "j \<in> set rows" "p j"
  shows "filter p rows = [j]"
proof -
  from assms(3,4) have mem: "j \<in> set (filter p rows)" by simp
  then obtain x xs where xs: "filter p rows = x # xs" by (cases "filter p rows") auto
  with filter_unique[OF assms(1,2) xs] mem show ?thesis by auto
qed

lemma filter_one_mem:
  assumes "filter p rows = [j]"
  shows "j \<in> set rows \<and> p j"
proof -
  have "j \<in> set (filter p rows)" unfolding assms by simp
  then show ?thesis by simp
qed

lemma find_filter: "find p rows = (case filter p rows of [] \<Rightarrow> None | j # _ \<Rightarrow> Some j)"
  by (induction rows) auto

lemma where_one:
  assumes "distinct (map j_id rows)" "\<And>j. p j \<Longrightarrow> j_id j = jid" "j \<in> set rows" "p j"
  shows "upd_where p f rows = upd_where (\<lambda>x. x = j) f rows" "del_where p rows = del_where (\<lambda>x. x = j) rows"
    "count_where p rows = 1"
proof -
  have one: "filter p rows = [j]" using assms by (rule filter_one)
  have "{x \<in> set rows. p x} = {j}" using arg_cong[OF one, of set] by simp
  then have "p x \<longleftrightarrow> x = j" if "x \<in> set rows" for x
    using that by blast
  then show "upd_where p f rows = upd_where (\<lambda>x. x = j) f rows" "del_where p rows = del_where (\<lambda>x. x = j) rows"
    by (auto simp: upd_where_def del_where_def intro!: map_cong filter_cong)
  show "count_where p rows = 1" by (simp add: count_where_def one)
qed

lemma where_no:
  "\<not> list_ex p rows \<Longrightarrow> upd_where p f rows = rows \<and> del_where p rows = rows \<and> count_where p rows = 0
    \<and> filter p rows = []"
  by (auto simp: list_ex_iff count_where_0 filter_empty_conv intro: upd_where_none del_where_none)

text \<open>A guard that names a job either matches no row, or acts as the equality with one row.\<close>

lemma guarded_rows:
  assumes "distinct (map j_id rows)" "\<And>j. p j \<Longrightarrow> j_id j = jid"
  shows "case find p rows of
      None \<Rightarrow> count_where p rows = 0 \<and> del_where p rows = rows \<and> (\<forall>f. upd_where p f rows = rows)
    | Some j \<Rightarrow> count_where p rows = 1 \<and> del_where p rows = del_where (\<lambda>x. x = j) rows
        \<and> (\<forall>f. upd_where p f rows = upd_where (\<lambda>x. x = j) f rows)"
proof (cases "find p rows")
  case None
  then have "\<not> list_ex p rows" by (auto simp: find_None_iff list_ex_iff)
  with None where_no[of p rows] show ?thesis by simp
next
  case (Some j)
  then have "j \<in> set rows" "p j" by (auto simp: find_Some_iff)
  with Some where_one[where p = p and j = j, OF assms] show ?thesis by simp
qed

section \<open>The fenced calls\<close>

text \<open>The fenced retry, statement by statement, on the row its token names.\<close>

lemma retry_exhausted_Ok:
  assumes "retry_exhausted job_id worker_id (Some attempt) c = (Ok b, c')"
  shows "b = list_ex (\<lambda>j. holds_token job_id worker_id attempt j \<and> j_attempts j \<ge> j_max_attempts j) (live (db c))
    \<and> db c' = db c"
  using assms unfolding retry_exhausted_def by (elim query_Ok) (simp add: retry_guard_def)

lemma retry_pending_Ok:
  assumes "retry_pending job_id worker_id (Some attempt) delay_s c = (Ok n, c')"
  shows "n = count_where (\<lambda>j. holds_token job_id worker_id attempt j \<and> j_attempts j < j_max_attempts j) (live (db c))
    \<and> db c' = (db c)\<lparr>live := upd_where (\<lambda>j. holds_token job_id worker_id attempt j \<and> j_attempts j < j_max_attempts j)
         (requeue (clock c') delay_s) (live (db c))\<rparr>"
  using assms unfolding retry_pending_def by (elim exec_Ok) (auto simp: update_jobs_def retry_guard_def)

lemma retry_dead_Ok:
  assumes "conn_ok c" "retry_dead job_id worker_id (Some attempt) err c = (Ok n, c')"
  shows "bury_rel (\<lambda>t j. holds_token job_id worker_id attempt j \<and> j_attempts j \<ge> j_max_attempts j) err (db c) n (db c')"
  using retry_dead_op.act_Ok[OF assms] by (simp add: retry_guard_def)

lemma query_conn_ok: "conn_ok c \<Longrightarrow> query q c = (r, c') \<Longrightarrow> conn_ok c'"
  unfolding query_def using exec_conn_ok[of c] by (metis snd_conv)

lemma bury_one:
  assumes "bury_rel (\<lambda>t. p) err d n d'" "filter p (live d) = [j]"
  shows "n = 1 \<and> (\<exists>died. d' = d\<lparr>live := del_where p (live d), dead := dead d @ [dead_of err died j]\<rparr>)"
  using assms by (auto simp: bury_rel_def)

text \<open>The second half of the retry, when no row with the token has attempts left.\<close>

lemma retry_bury_Ok:
  assumes "conn_ok c" "distinct (map j_id (live (db c)))"
    and no_more: "\<And>j. j \<in> set (live (db c)) \<Longrightarrow> holds_token job_id worker_id attempt j \<Longrightarrow> j_max_attempts j \<le> j_attempts j"
    and run: "sbind (retry_exhausted job_id worker_id (Some attempt)) (\<lambda>is_exhausted.
      if \<not> is_exhausted then sret 0 else retry_dead job_id worker_id (Some attempt) err) c = (Ok n, c')"
  shows "case find (holds_token job_id worker_id attempt) (live (db c)) of
      None \<Rightarrow> n = 0 \<and> db c' = db c
    | Some j \<Rightarrow> n = 1 \<and> j_max_attempts j \<le> j_attempts j
        \<and> (\<exists>t. db c' = (db c)\<lparr>live := del_where (\<lambda>x. x = j) (live (db c)),
                                dead := dead (db c) @ [dead_of err t j]\<rparr>)"
proof -
  let ?tok = "holds_token job_id worker_id attempt"
  let ?none = "\<lambda>j. ?tok j \<and> j_attempts j \<ge> j_max_attempts j"
  from run obtain b c2 where ex: "retry_exhausted job_id worker_id (Some attempt) c = (Ok b, c2)"
    and rest: "(if \<not> b then sret 0 else retry_dead job_id worker_id (Some attempt) err) c2 = (Ok n, c')"
    by (auto elim!: sbind_Ok)
  from retry_exhausted_Ok[OF ex] have b: "b = list_ex ?none (live (db c))" and db2: "db c2 = db c" by simp_all
  show ?thesis
  proof (cases b)
    case False
    then have "filter ?tok (live (db c)) = []" using b no_more by (auto simp: list_ex_iff filter_empty_conv)
    with False rest db2 show ?thesis by (simp add: find_filter)
  next
    case True
    then obtain j where j: "j \<in> set (live (db c))" "?none j" using b by (auto simp: list_ex_iff)
    have one: "filter ?none (live (db c)) = [j]"
      by (rule filter_one[OF assms(2) _ j(1)]) (use j(2) in \<open>auto simp: holds_token_id\<close>)
    have ftok: "filter ?tok (live (db c)) = [j]"
      by (rule filter_one[OF assms(2) _ j(1)]) (use j(2) in \<open>auto simp: holds_token_id\<close>)
    have del: "del_where ?none (live (db c)) = del_where (\<lambda>x. x = j) (live (db c))"
      by (rule where_one(2)[OF assms(2) _ j(1)]) (use j(2) in \<open>auto simp: holds_token_id\<close>)
    have ok2: "conn_ok c2"
      using ex unfolding retry_exhausted_def by (rule query_conn_ok[OF assms(1)])
    from True rest have "retry_dead job_id worker_id (Some attempt) err c2 = (Ok n, c')" by simp
    from bury_one[OF retry_dead_Ok[OF ok2 this]] one del db2 ftok j(2) show ?thesis
      by (simp add: find_filter)
  qed
qed

text \<open>
  C28. A fenced retry is exact. When the caller's token is current it returns 1 and, while the
  attempt budget lasts, puts that row back with its lease cleared and its new due time, or
  else moves that row to the dead table with the error. When no row carries the token it returns 0 and changes nothing.
\<close>

theorem retry_fenced_exact:
  assumes "conn_ok c" "queue_wf (db c)"
    and "retry_fenced job_id worker_id delay_s err attempt c = (Ok n, c')"
  shows "case find (holds_token job_id worker_id attempt) (live (db c)) of
      None \<Rightarrow> n = 0 \<and> db c' = db c
    | Some j \<Rightarrow> n = 1 \<and>
        (if j_attempts j < j_max_attempts j
         then \<exists>t. db c' = (db c)\<lparr>live := upd_where (\<lambda>x. x = j) (requeue t delay_s) (live (db c))\<rparr>
         else \<exists>t. db c' = (db c)\<lparr>live := del_where (\<lambda>x. x = j) (live (db c)),
                                dead := dead (db c) @ [dead_of err t j]\<rparr>)"
proof -
  let ?tok = "holds_token job_id worker_id attempt"
  let ?more = "\<lambda>j. ?tok j \<and> j_attempts j < j_max_attempts j" and ?none = "\<lambda>j. ?tok j \<and> j_attempts j \<ge> j_max_attempts j"
  have dist: "distinct (map j_id (live (db c)))" using assms(2) by (rule queue_wf_distinct)
  from assms(3) obtain u c1 where pend: "retry_pending job_id worker_id (Some attempt) delay_s c = (Ok u, c1)"
    and rest: "(if u > 0 then sret 1 else sbind (retry_exhausted job_id worker_id (Some attempt)) (\<lambda>is_exhausted.
      if \<not> is_exhausted then sret 0 else retry_dead job_id worker_id (Some attempt) err)) c1 = (Ok n, c')"
    unfolding retry_fenced_def retry_with_def by (rule sbind_Ok)
  from retry_pending_Ok[OF pend] have u: "u = count_where ?more (live (db c))"
    and db1: "db c1 = (db c)\<lparr>live := upd_where ?more (requeue (clock c1) delay_s) (live (db c))\<rparr>" by auto
  have kept: "kept c c1" using retry_pending_op.act_Ok[OF assms(1) pend] by simp
  show ?thesis
  proof (cases "u > 0")
    case True
    then obtain j where j: "j \<in> set (live (db c))" "?more j" using u by (auto simp: count_where_pos)
    have "find ?tok (live (db c)) = Some j"
      using filter_one[of "live (db c)" ?tok job_id j] dist j by (simp add: find_filter holds_token_id)
    moreover have "upd_where ?more (requeue (clock c1) delay_s) (live (db c))
        = upd_where (\<lambda>x. x = j) (requeue (clock c1) delay_s) (live (db c))"
      by (rule where_one(1)[OF dist _ j(1)]) (use j(2) in \<open>auto simp: holds_token_id\<close>)
    ultimately show ?thesis using j(2) rest True db1 by auto
  next
    case False
    then have none: "\<not> list_ex ?more (live (db c))" using u by (auto simp: list_ex_iff count_where_pos)
    then have db1': "db c1 = db c" using db1 where_no[of ?more "live (db c)"] by simp
    have ok1: "conn_ok c1" using assms(1) kept db1' by (blast intro: restored_conn_ok kept_restored)
    have "case find ?tok (live (db c1)) of None \<Rightarrow> n = 0 \<and> db c' = db c1
      | Some j \<Rightarrow> n = 1 \<and> j_max_attempts j \<le> j_attempts j \<and> (\<exists>t. db c' = (db c1)\<lparr>live := del_where (\<lambda>x. x = j) (live (db c1)),
          dead := dead (db c1) @ [dead_of err t j]\<rparr>)"
      by (rule retry_bury_Ok[OF ok1]) (use none dist rest False in \<open>auto simp: db1' list_ex_iff\<close>)
    then show ?thesis unfolding db1' by (auto split: option.splits)
  qed
qed

theorem retry_fenced_exact_witness:
  "\<exists>t. db (snd (retry_fenced 3 ''w1'' 10 ''boom'' 1 (fresh_conn sample_db 200 [])))
     = sample_db\<lparr>live := upd_where (\<lambda>x. x = held_job 3 130) (requeue t 10) (live sample_db)\<rparr>"
proof -
  let ?c = "fresh_conn sample_db 200 []"
  have run: "retry_fenced 3 ''w1'' 10 ''boom'' 1 ?c = (Ok 1, snd (retry_fenced 3 ''w1'' 10 ''boom'' 1 ?c))"
    by (rule prod_eqI) (code_simp, simp)
  have "find (holds_token 3 ''w1'' 1) (live sample_db) = Some (held_job 3 130)" by code_simp
  moreover have "j_attempts (held_job 3 130) < j_max_attempts (held_job 3 130)" by code_simp
  ultimately show ?thesis
    using retry_fenced_exact[OF _ _ run] sample_db_wf by simp
qed

text \<open>
  A fenced failure is exact: with a current token it returns 1 and the row is in the dead
  table with the error and in the live table no more; without one it returns 0 and changes nothing.
\<close>

theorem fail_fenced_exact:
  assumes "conn_ok c" "queue_wf (db c)"
    and "fail_fenced job_id worker_id err attempt c = (Ok n, c')"
  shows "case find (holds_token job_id worker_id attempt) (live (db c)) of
      None \<Rightarrow> n = 0 \<and> db c' = db c
    | Some j \<Rightarrow> n = 1 \<and> (\<exists>t. db c' = (db c)\<lparr>live := del_where (\<lambda>x. x = j) (live (db c)),
                                            dead := dead (db c) @ [dead_of err t j]\<rparr>)"
proof -
  let ?tok = "holds_token job_id worker_id attempt"
  have dist: "distinct (map j_id (live (db c)))" using assms(2) by (rule queue_wf_distinct)
  have rel: "bury_rel (\<lambda>t. ?tok) err (db c) n (db c')"
    using fail_fenced_op.act_Ok[OF assms(1,3)] by (simp add: fail_guard_token)
  show ?thesis
  proof (cases "filter ?tok (live (db c))")
    case Nil
    with rel show ?thesis by (auto simp: find_filter bury_rel_def)
  next
    case (Cons j js)
    then have "js = []" using dist holds_token_id by (intro filter_unique)
    with Cons have one: "filter ?tok (live (db c)) = [j]" by simp
    from filter_one_mem[OF this] have j: "j \<in> set (live (db c))" "?tok j" by auto
    have "del_where ?tok (live (db c)) = del_where (\<lambda>x. x = j) (live (db c))"
      by (rule where_one(2)[where p = ?tok and jid = job_id, OF dist _ j]) (rule holds_token_id)
    with bury_one[OF rel one] one show ?thesis by (simp add: find_filter)
  qed
qed

theorem fail_fenced_exact_witness:
  "\<exists>t. db (snd (fail_fenced 3 ''w1'' ''boom'' 1 (fresh_conn sample_db 200 [])))
     = sample_db\<lparr>live := del_where (\<lambda>x. x = held_job 3 130) (live sample_db),
                 dead := dead sample_db @ [dead_of ''boom'' t (held_job 3 130)]\<rparr>"
proof -
  let ?c = "fresh_conn sample_db 200 []"
  have run: "fail_fenced 3 ''w1'' ''boom'' 1 ?c = (Ok 1, snd (fail_fenced 3 ''w1'' ''boom'' 1 ?c))"
    by (rule prod_eqI) (code_simp, simp)
  have "find (holds_token 3 ''w1'' 1) (live sample_db) = Some (held_job 3 130)" by code_simp
  then show ?thesis using fail_fenced_exact[OF _ _ run] sample_db_wf by simp
qed

section \<open>The lease-guarded calls\<close>

text \<open>
  An unfenced ack or heartbeat touches a row only while the caller's lease on it is
  valid at the clock of its statement: otherwise it returns 0 and the database is unchanged. A
  successful ack removes that row and nothing else; a heartbeat moves the lease end of that row
  and nothing else.
\<close>

theorem lease_guards:
  assumes "conn_ok c" "queue_wf (db c)"
  shows "(ack job_id worker_id c = (Ok n, c') \<longrightarrow>
       (case find (holds_lease (clock c') job_id worker_id) (live (db c)) of
          None \<Rightarrow> n = 0 \<and> db c' = db c
        | Some j \<Rightarrow> n = 1 \<and> db c' = (db c)\<lparr>live := del_where (\<lambda>x. x = j) (live (db c))\<rparr>))
    \<and> (heartbeat job_id worker_id extend_s c = (Ok n, c') \<longrightarrow>
       (case find (holds_lease (clock c') job_id worker_id) (live (db c)) of
          None \<Rightarrow> n = 0 \<and> db c' = db c
        | Some j \<Rightarrow> n = 1 \<and> db c' = (db c)\<lparr>live := upd_where (\<lambda>x. x = j)
            (\<lambda>x. x\<lparr>j_claim_expires_at := Some (clock c' + extend_s)\<rparr>) (live (db c))\<rparr>))"
proof (intro conjI impI)
  have dist: "distinct (map j_id (live (db c)))" using assms(2) by (rule queue_wf_distinct)
  let ?held = "holds_lease (clock c') job_id worker_id"
  have lid: "\<And>j. ?held j \<Longrightarrow> j_id j = job_id" by (simp add: holds_lease_def)
  have proc: "\<And>j. j \<in> set (live (db c)) \<Longrightarrow> ?held j \<Longrightarrow> j_state j = Processing"
    using assms(2) by (auto simp: queue_wf_def list_all_iff holds_lease_def dest: job_ok_worker)
  show "case find ?held (live (db c)) of None \<Rightarrow> n = 0 \<and> db c' = db c
      | Some j \<Rightarrow> n = 1 \<and> db c' = (db c)\<lparr>live := del_where (\<lambda>x. x = j) (live (db c))\<rparr>"
    if "ack job_id worker_id c = (Ok n, c')"
  proof -
    have db': "n = count_where ?held (live (db c)) \<and> db c' = (db c)\<lparr>live := del_where ?held (live (db c))\<rparr>"
      using that unfolding ack_def by (elim exec_Ok) (simp add: delete_jobs_def)
    show ?thesis
      using guarded_rows[where p = ?held, OF dist lid] db' by (auto split: option.splits)
  qed
  show "case find ?held (live (db c)) of None \<Rightarrow> n = 0 \<and> db c' = db c
      | Some j \<Rightarrow> n = 1 \<and> db c' = (db c)\<lparr>live := upd_where (\<lambda>x. x = j)
          (\<lambda>x. x\<lparr>j_claim_expires_at := Some (clock c' + extend_s)\<rparr>) (live (db c))\<rparr>"
    if "heartbeat job_id worker_id extend_s c = (Ok n, c')"
  proof -
    let ?g = "\<lambda>j. ?held j \<and> j_state j = Processing"
    have "n = count_where ?g (live (db c)) \<and> db c' = (db c)\<lparr>live := upd_where ?g
        (\<lambda>x. x\<lparr>j_claim_expires_at := Some (clock c' + extend_s)\<rparr>) (live (db c))\<rparr>"
      using that unfolding heartbeat_def by (elim exec_Ok) (simp add: update_jobs_def)
    moreover have "count_where ?g (live (db c)) = count_where ?held (live (db c))"
        "upd_where ?g f (live (db c)) = upd_where ?held f (live (db c))" for f
      using proc by (auto simp: count_where_def upd_where_def intro!: arg_cong[where f = length] filter_cong map_cong)
    ultimately show ?thesis
      using guarded_rows[where p = ?held, OF dist lid] by (auto split: option.splits)
  qed
qed

theorem lease_guards_witness:
  "db (snd (ack 3 ''w1'' (fresh_conn sample_db 130 [])))
     = sample_db\<lparr>live := del_where (\<lambda>x. x = held_job 3 130) (live sample_db)\<rparr>
   \<and> db (snd (ack 3 ''w1'' (fresh_conn sample_db 131 []))) = sample_db"
proof -
  have run: "ack 3 ''w1'' (fresh_conn sample_db 130 []) = (Ok 1, snd (ack 3 ''w1'' (fresh_conn sample_db 130 [])))"
    "ack 3 ''w1'' (fresh_conn sample_db 131 []) = (Ok 0, snd (ack 3 ''w1'' (fresh_conn sample_db 131 [])))"
    by (rule prod_eqI, code_simp, simp)+
  have clk: "clock (snd (ack 3 ''w1'' (fresh_conn sample_db 130 []))) = 130"
    "clock (snd (ack 3 ''w1'' (fresh_conn sample_db 131 []))) = 131" by code_simp+
  have "find (holds_lease 130 3 ''w1'') (live sample_db) = Some (held_job 3 130)"
    "find (holds_lease 131 3 ''w1'') (live sample_db) = None" by code_simp+
  then show ?thesis
    using lease_guards[THEN conjunct1, THEN mp, OF _ _ run(1)] lease_guards[THEN conjunct1, THEN mp, OF _ _ run(2)]
    by (simp add: sample_db_wf clk)
qed

section \<open>The batch ack\<close>

text \<open>The single call an element of the batch stands for.\<close>

definition item_acks :: "(string \<Rightarrow> int option) \<Rightarrow> int \<Rightarrow> string \<Rightarrow> job \<Rightarrow> json \<Rightarrow> bool" where
  "item_acks num t worker_id j item =
     (if is_jarr item
      then (case (jnth num 0 item, jnth num 1 item) of
              (Some job_id, Some attempt) \<Rightarrow> holds_token job_id worker_id attempt j
            | _ \<Rightarrow> False)
      else (case jint num item of
              Some job_id \<Rightarrow> holds_lease t job_id worker_id j
            | None \<Rightarrow> False))"

lemma batch_guard_item_acks: "batch_guard num items t worker_id = (\<lambda>j. list_ex (item_acks num t worker_id j) items)"
proof (intro ext iffI)
  fix j
  assume g: "batch_guard num items t worker_id j"
  then have w: "j_worker_id j = Some worker_id" by (simp add: batch_guard_def)
  from g consider (plain) x where "x \<in> set items" "\<not> is_jarr x" "jint num x = Some (j_id j)" "null_ge (j_claim_expires_at j) t"
    | (pair) x where "x \<in> set items" "is_jarr x" "jnth num 0 x = Some (j_id j)" "jnth num 1 x = Some (j_attempts j)"
        "j_state j = Processing"
    by (fastforce simp: batch_guard_def list_ex_iff)
  then show "list_ex (item_acks num t worker_id j) items"
    by cases (auto simp: list_ex_iff item_acks_def holds_lease_def holds_token_def w intro!: bexI)
next
  fix j
  assume "list_ex (item_acks num t worker_id j) items"
  then obtain x where x: "x \<in> set items" "item_acks num t worker_id j x" by (auto simp: list_ex_iff)
  then have "ack_id num x = Some (j_id j)" "j_worker_id j = Some worker_id"
    by (auto simp: item_acks_def ack_id_def holds_lease_def holds_token_def split: if_splits option.splits)
  then show "batch_guard num items t worker_id j"
    using x unfolding batch_guard_def list_ex_iff
    by (force simp: item_acks_def holds_lease_def holds_token_def split: if_splits option.splits)
qed

text \<open>
  C29. The batch ack is the union of the single acks: it removes exactly the rows that the ack or
  the fenced ack of one of its elements would remove at the same clock, and returns how many;
  text that is not JSON is an error and removes nothing.
\<close>

theorem ack_batch_is_single_acks:
  assumes "ack_batch parse num ids_json worker_id c = (Ok n, c')"
  shows "\<exists>v. parse ids_json = Some v
    \<and> db c' = (db c)\<lparr>live := filter (\<lambda>j. \<not> list_ex (item_acks num (clock c') worker_id j) (json_each v)) (live (db c))\<rparr>
    \<and> n = int (length (filter (\<lambda>j. list_ex (item_acks num (clock c') worker_id j) (json_each v)) (live (db c))))"
  using assms unfolding ack_batch_def
  by (elim exec_Ok) (auto simp: delete_jobs_def del_where_def count_where_def batch_guard_item_acks split: option.splits)

definition demo_parse :: "string \<Rightarrow> json option" where
  "demo_parse s = (if s = ''[3,[3,1]]'' then Some (JArr [JInt 3, JArr [JInt 3, JInt 1]]) else None)"

theorem ack_batch_is_single_acks_witness:
  "\<exists>v. demo_parse ''[3,[3,1]]'' = Some v
    \<and> db (snd (ack_batch demo_parse (\<lambda>_. None) ''[3,[3,1]]'' ''w1'' (fresh_conn sample_db 200 [])))
      = sample_db\<lparr>live := filter (\<lambda>j. \<not> list_ex (item_acks (\<lambda>_. None) 200 ''w1'' j) (json_each v)) (live sample_db)\<rparr>
    \<and> (1::int) = int (length (filter (\<lambda>j. list_ex (item_acks (\<lambda>_. None) 200 ''w1'' j) (json_each v)) (live sample_db)))"
proof -
  let ?c = "fresh_conn sample_db 200 []"
  let ?run = "ack_batch demo_parse (\<lambda>_. None) ''[3,[3,1]]'' ''w1'' ?c"
  have run: "?run = (Ok 1, snd ?run)" by (rule prod_eqI) (code_simp, simp)
  have clk: "clock (snd ?run) = 200" by code_simp
  show ?thesis using ack_batch_is_single_acks[OF run] unfolding clk by simp
qed

section \<open>Expiry sweep\<close>

lemma sweep_expired_at:
  assumes "sweep_expired queue c = (Ok n, c')" "forward c"
  obtains now where "clock c \<le> now" "now \<le> clock c'"
    "n = count_where (id_in (expire_ids queue now (-1) (live (db c)))) (live (db c))"
    "db c' = move_rows (expire_ids queue now (-1) (live (db c))) now ''expired'' (db c)"
proof -
  let ?body = "sbind now_unix (\<lambda>now. move_to_dead expire_ids queue now (-1) ''expired'')"
  have body_t: "timely ?body" "tame ?body" by (intro timely_intros tame_intros)+
  from assms obtain c1 c2 where body: "?body c1 = (Ok n, c2)"
    and c12: "db c1 = db c" "forward c1" "clock c \<le> clock c1" "clock c2 \<le> clock c'" "db c' = db c2"
    unfolding sweep_expired_def by (elim in_savepoint_time) (auto simp: body_t)
  from body obtain now c3 where nu: "now_unix c1 = (Ok now, c3)"
    and mv: "move_to_dead expire_ids queue now (-1) ''expired'' c3 = (Ok n, c2)" by (rule sbind_Ok)
  from nu have c3: "now = clock c3" "db c3 = db c1" by (auto elim!: now_unix_Ok)
  have "later c1 c3" using timely_now_unix c12(2) nu by (rule timelyD)
  moreover from this have "later c3 c2" using timely_move_to_dead mv by (blast dest: timelyD later_forward)
  ultimately show thesis
    using move_to_dead_Ok[OF mv] c3 c12 by (intro that[of now]) (auto simp: later_def)
qed

lemma expire_ids_all:
  assumes "distinct (map j_id rows)" "j \<in> set rows"
  shows "id_in (expire_ids queue now (-1) rows) j \<longleftrightarrow> expirable queue now j"
  using id_in_pick[OF assms, of "-1" _ "expirable queue now"] assms(2)
  unfolding expire_ids_def by (auto simp: id_in_def)

text \<open>
  The sweep moves every row of the queue that is expired and not held by a valid lease to the
  dead table with the error \<open>expired\<close>, at one clock reading within the call, keeps every other
  row, and returns how many it moved.
\<close>

theorem sweep_expired_exact:
  assumes "forward c" "queue_wf (db c)" "sweep_expired queue c = (Ok n, c')"
  shows "\<exists>now. clock c \<le> now \<and> now \<le> clock c'
    \<and> live (db c') = filter (\<lambda>j. \<not> expirable queue now j) (live (db c))
    \<and> dead (db c') = dead (db c) @ map (dead_of ''expired'' now) (filter (expirable queue now) (live (db c)))
    \<and> n = int (length (filter (expirable queue now) (live (db c))))"
proof -
  from assms(3,1) obtain now where t: "clock c \<le> now" "now \<le> clock c'"
    and n: "n = count_where (id_in (expire_ids queue now (-1) (live (db c)))) (live (db c))"
    and d': "db c' = move_rows (expire_ids queue now (-1) (live (db c))) now ''expired'' (db c)"
    by (rule sweep_expired_at)
  have eq: "id_in (expire_ids queue now (-1) (live (db c))) j \<longleftrightarrow> expirable queue now j" if "j \<in> set (live (db c))" for j
    using queue_wf_distinct[OF assms(2)] that by (rule expire_ids_all)
  have "filter (id_in (expire_ids queue now (-1) (live (db c)))) (live (db c)) = filter (expirable queue now) (live (db c))"
    "del_where (id_in (expire_ids queue now (-1) (live (db c)))) (live (db c)) = filter (\<lambda>j. \<not> expirable queue now j) (live (db c))"
    unfolding del_where_def using eq by (auto intro: filter_cong)
  with t n d' show ?thesis by (intro exI[of _ now]) (simp add: count_where_def)
qed

definition expiring_db :: honker_db where
  "expiring_db = empty_db\<lparr>live := [(sample_job 1 0)\<lparr>j_expires_at := Some 90\<rparr>, (held_job 2 80)\<lparr>j_expires_at := Some 90\<rparr>,
     (held_job 3 130)\<lparr>j_expires_at := Some 90\<rparr>, sample_job 4 0], live_seq := 4\<rparr>"

theorem sweep_expired_exact_witness:
  "\<exists>now. 100 \<le> now \<and> now \<le> 100
    \<and> live (db (snd (sweep_expired ''q'' (fresh_conn expiring_db 100 [])))) = filter (\<lambda>j. \<not> expirable ''q'' now j) (live expiring_db)
    \<and> dead (db (snd (sweep_expired ''q'' (fresh_conn expiring_db 100 []))))
        = dead expiring_db @ map (dead_of ''expired'' now) (filter (expirable ''q'' now) (live expiring_db))
    \<and> (2::int) = int (length (filter (expirable ''q'' now) (live expiring_db)))"
proof -
  let ?run = "sweep_expired ''q'' (fresh_conn expiring_db 100 [])"
  have run: "?run = (Ok 2, snd ?run)" by (rule prod_eqI) (code_simp, simp)
  have clk: "clock (snd ?run) = 100" by code_simp
  have "queue_wf expiring_db" by code_simp
  with sweep_expired_exact[OF _ _ run] show ?thesis unfolding clk by simp
qed

end
