(* ===== verification/Wake_Thms.thy ===== *)
theory Wake_Thms
  imports Job_Thms
begin

text \<open>
  Enqueue and lookup, and the time a queue reports for its next claim: it is never later than
  the first claim that can return a job, provided no lease has already lapsed.
\<close>

section \<open>Enqueue and lookup\<close>

lemma enqueue_Ok:
  assumes "enqueue queue payload run_at delay priority max_attempts expires c = (Ok jid, c')"
  obtains now t where "1 \<le> max_attempts" "forward c \<longrightarrow> clock c \<le> now \<and> now \<le> t \<and> t \<le> clock c'"
    "jid = live_seq (db c) + 1"
    "db c' = (db c)\<lparr>live := live (db c) @ [new_job now t queue payload (enqueue_run_at now run_at delay)
       priority max_attempts (map_option (\<lambda>e. wrap_i64 (now + e)) expires) jid], live_seq := jid\<rparr>"
proof -
  from assms obtain now c1 where m: "1 \<le> max_attempts" and nu: "now_unix c = (Ok now, c1)"
    and ins: "enqueue_at now queue payload run_at delay priority max_attempts expires c1 = (Ok jid, c')"
    unfolding enqueue_def check_max_attempts_def by (auto elim!: sbind_Ok split: if_splits)
  from nu have c1: "now = clock c1" "db c1 = db c" by (auto elim!: now_unix_Ok)
  from ins have db': "jid = live_seq (db c) + 1"
    "db c' = (db c)\<lparr>live := live (db c) @ [new_job now (clock c') queue payload (enqueue_run_at now run_at delay)
       priority max_attempts (map_option (\<lambda>e. wrap_i64 (now + e)) expires) jid], live_seq := jid\<rparr>"
    unfolding enqueue_at_def by (elim exec_Ok; simp add: insert_job_Inr c1)+
  have "clock c \<le> now \<and> now \<le> clock c'" if fw: "forward c"
  proof -
    have l: "later c c1" using timely_now_unix fw nu by (rule timelyD)
    have "later c1 c'" using later_forward[OF l] ins unfolding enqueue_at_def by (rule timelyD[OF timely_exec])
    with l c1 show ?thesis by (simp add: later_def)
  qed
  with m db' show thesis by (intro that[of now "clock c'"]) auto
qed

text \<open>
  C31. Round trip of enqueue and lookup: after a successful enqueue, a lookup of the returned id
  gives the job as it was passed in, pending when it is due at once and scheduled when its time
  is in the future, with no attempts used and no holder; the delay wins over an absolute time,
  and sums that leave 64 bits wrap.
\<close>

theorem enqueue_get_job:
  assumes "queue_wf (db c)" "enqueue queue payload run_at delay priority max_attempts expires c = (Ok jid, c1)"
    and "get_job jid c1 = (Ok out, c2)" "forward c"
  shows "\<exists>now t. clock c \<le> now \<and> now \<le> t \<and> t \<le> clock c1
    \<and> out = Some (job_json \<lparr>j_id = jid, j_queue = queue, j_payload = payload,
        j_state = (if enqueue_run_at now run_at delay > now then Scheduled else Pending),
        j_priority = priority, j_run_at = enqueue_run_at now run_at delay, j_worker_id = None,
        j_claim_expires_at = None, j_attempts = 0, j_max_attempts = max_attempts, j_created_at = t,
        j_expires_at = map_option (\<lambda>e. wrap_i64 (now + e)) expires, j_claimed_at = None\<rparr>)"
proof -
  from assms(2) obtain now t where t: "forward c \<longrightarrow> clock c \<le> now \<and> now \<le> t \<and> t \<le> clock c1"
    and jid: "jid = live_seq (db c) + 1"
    and db1: "db c1 = (db c)\<lparr>live := live (db c) @ [new_job now t queue payload (enqueue_run_at now run_at delay)
       priority max_attempts (map_option (\<lambda>e. wrap_i64 (now + e)) expires) jid], live_seq := jid\<rparr>"
    by (rule enqueue_Ok)
  have old: "\<forall>j\<in>set (live (db c)). j_id j \<noteq> jid"
    using assms(1) jid by (force simp: queue_wf_def queue_ids_def)
  have "filter (\<lambda>j. j_id j = jid) (live (db c)) = []" using old by (auto simp: filter_empty_conv)
  then have "find (\<lambda>j. j_id j = jid) (live (db c1)) = Some (new_job now t queue payload (enqueue_run_at now run_at delay)
       priority max_attempts (map_option (\<lambda>e. wrap_i64 (now + e)) expires) jid)"
    by (simp add: db1 find_filter)
  with assms(3) have "out = Some (job_json (new_job now t queue payload (enqueue_run_at now run_at delay)
       priority max_attempts (map_option (\<lambda>e. wrap_i64 (now + e)) expires) jid))"
    unfolding get_job_def by (elim query_Ok) simp
  with t assms(4) show ?thesis by (auto simp: new_job_def)
qed

definition find_json :: "json option res \<Rightarrow> json option" where
  "find_json r = (case r of Ok v \<Rightarrow> v | _ \<Rightarrow> None)"

theorem enqueue_get_job_witness:
  "\<exists>now t. 100 \<le> now \<and> now \<le> t \<and> t \<le> 100
    \<and> fst (get_job 4 (snd (enqueue ''q'' ''x'' (Some 7) (Some 60) 2 3 None (fresh_conn sample_db 100 []))))
      = Ok (Some (job_json \<lparr>j_id = 4, j_queue = ''q'', j_payload = ''x'',
        j_state = (if enqueue_run_at now (Some 7) (Some 60) > now then Scheduled else Pending),
        j_priority = 2, j_run_at = enqueue_run_at now (Some 7) (Some 60), j_worker_id = None,
        j_claim_expires_at = None, j_attempts = 0, j_max_attempts = 3, j_created_at = t,
        j_expires_at = map_option (\<lambda>e. wrap_i64 (now + e)) None, j_claimed_at = None\<rparr>))"
proof -
  let ?enq = "enqueue ''q'' ''x'' (Some 7) (Some 60) 2 3 None (fresh_conn sample_db 100 [])"
  have enq: "?enq = (Ok 4, snd ?enq)" by (rule prod_eqI) (code_simp, simp)
  have get: "get_job 4 (snd ?enq) = (Ok (find_json (fst (get_job 4 (snd ?enq)))), snd (get_job 4 (snd ?enq)))"
    by (rule prod_eqI) (code_simp, simp)
  have clk: "clock (snd ?enq) = 100" by code_simp
  from enqueue_get_job[OF _ enq get] obtain now t where "100 \<le> now \<and> now \<le> t \<and> t \<le> 100"
    and out: "find_json (fst (get_job 4 (snd ?enq))) = Some (job_json \<lparr>j_id = 4, j_queue = ''q'', j_payload = ''x'',
        j_state = (if enqueue_run_at now (Some 7) (Some 60) > now then Scheduled else Pending),
        j_priority = 2, j_run_at = enqueue_run_at now (Some 7) (Some 60), j_worker_id = None,
        j_claim_expires_at = None, j_attempts = 0, j_max_attempts = 3, j_created_at = t,
        j_expires_at = map_option (\<lambda>e. wrap_i64 (now + e)) None, j_claimed_at = None\<rparr>)"
    unfolding clk using sample_db_wf by auto
  then show ?thesis using arg_cong[OF get, of fst] by auto
qed

section \<open>The wake-up time\<close>

lemma opt_hd_order_by:
  assumes "x \<in> set rows"
  obtains y where "y \<in> set rows" "opt_hd (order_by k rows) = Some y" "k y \<le> k x"
proof -
  obtain y ys where ys: "order_by k rows = y # ys"
    using assms by (metis empty_iff empty_set neq_Nil_conv set_order_by)
  have "x \<in> set (y # ys)" "y \<in> set rows" using assms ys set_order_by[of k rows] by auto
  moreover have "sorted (map k (y # ys))" using sorted_order_by[of k rows] by (simp add: ys)
  ultimately show thesis using ys by (intro that[of y]) (auto simp: opt_hd_def)
qed

lemma opt_hd_map: "opt_hd (map f xs) = map_option f (opt_hd xs)"
  by (cases xs) (simp_all add: opt_hd_def)

text \<open>No row of the queue is a lapsed lease, and none is pending before its time.\<close>

definition settled :: "string \<Rightarrow> int \<Rightarrow> job list \<Rightarrow> bool" where
  "settled queue now rows \<longleftrightarrow> (\<forall>j\<in>set rows. j_queue j = queue \<longrightarrow>
     (j_state j = Processing \<longrightarrow> null_ge (j_claim_expires_at j) now)
     \<and> (j_state j = Pending \<longrightarrow> j_run_at j \<le> now))"

lemma unexpired_mono: "unexpired t j \<Longrightarrow> now \<le> t \<Longrightarrow> unexpired now j"
  by (cases "j_expires_at j") (auto simp: unexpired_def)

lemma next_scheduled_le:
  assumes "j \<in> set rows" "j_queue j = queue" "j_state j = Scheduled" "j_attempts j < j_max_attempts j" "unexpired now j"
  obtains a where "next_scheduled queue now rows = Some a" "a \<le> j_run_at j"
proof -
  let ?p = "\<lambda>j. j_queue j = queue \<and> j_state j = Scheduled \<and> j_attempts j < j_max_attempts j \<and> unexpired now j"
  have "j \<in> set (filter ?p rows)" using assms by simp
  then obtain y where "opt_hd (order_by j_run_at (filter ?p rows)) = Some y" "j_run_at y \<le> j_run_at j"
    by (rule opt_hd_order_by)
  then show thesis by (intro that[of "j_run_at y"]) (simp_all add: next_scheduled_def opt_hd_map)
qed

lemma next_lease_le:
  assumes "j \<in> set rows" "j_queue j = queue" "j_state j = Processing" "j_attempts j < j_max_attempts j" "unexpired now j"
    and "j_claim_expires_at j = Some e" "now \<le> e"
  obtains b where "next_lease queue now rows = Some b" "b \<le> e + 1"
proof -
  let ?p = "\<lambda>j. j_queue j = queue \<and> j_state j = Processing \<and> null_ge (j_claim_expires_at j) now
     \<and> j_attempts j < j_max_attempts j \<and> unexpired now j"
  have "j \<in> set (filter ?p rows)" using assms by simp
  then obtain y where y: "y \<in> set (filter ?p rows)" "(null_key \<circ> j_claim_expires_at) y \<le> (null_key \<circ> j_claim_expires_at) j"
      "opt_hd (order_by (null_key \<circ> j_claim_expires_at) (filter ?p rows)) = Some y"
    by (rule opt_hd_order_by)
  then obtain e' where "j_claim_expires_at y = Some e'" by (cases "j_claim_expires_at y") auto
  with y assms(6) show thesis
    by (intro that[of "e' + 1"]) (simp_all add: next_lease_def opt_hd_map null_key_def)
qed

lemma next_claim_in_time:
  assumes "settled queue now rows" "now \<le> t" "j \<in> set rows" "ready queue t j"
  shows "now \<le> next_claim_of queue now rows \<and> next_claim_of queue now rows \<le> t"
proof -
  from assms(4) have j: "j_queue j = queue" "j_attempts j < j_max_attempts j" "unexpired now j"
    using assms(2) by (auto simp: ready_def intro: unexpired_mono)
  have minmax: ?thesis if "next_scheduled queue now rows = Some a \<and> a \<le> t \<or> next_lease queue now rows = Some a \<and> a \<le> t" for a
    using that assms(2) unfolding next_claim_of_def by (auto split: option.splits)
  show ?thesis
  proof (cases "j_state j")
    case Pending
    with assms j have "list_ex (due_pending queue now) rows"
      by (auto simp: list_ex_iff settled_def due_pending_def)
    with assms(2) show ?thesis by (simp add: next_claim_of_def)
  next
    case Scheduled
    with assms(4) have "j_run_at j \<le> t" by (simp add: ready_def)
    moreover obtain a where "next_scheduled queue now rows = Some a" "a \<le> j_run_at j"
      using assms(3) j(1) Scheduled j(2,3) by (rule next_scheduled_le)
    ultimately show ?thesis using minmax[of a] by simp
  next
    case Processing
    with assms(4) obtain e where e: "j_claim_expires_at j = Some e" "e < t"
      by (cases "j_claim_expires_at j") (auto simp: ready_def)
    with assms(1,3) j(1) Processing have "now \<le> e" by (force simp: settled_def)
    with assms(3) j Processing e(1) obtain b where "next_lease queue now rows = Some b" "b \<le> e + 1"
      by (metis next_lease_le)
    with e(2) show ?thesis using minmax[of b] by simp
  qed (use assms(4) in \<open>simp add: ready_def\<close>)
qed

lemma claimable_was_ready:
  assumes "distinct (map j_id (live d))" "j' \<in> set (live (housekeep queue t d))" "claimable queue t j'"
  shows "\<exists>j\<in>set (live d). ready queue t j"
proof -
  from housekeep_live[OF assms(1,2)] obtain j where j: "j \<in> set (live d)" "promoted t j j'" by auto
  with assms(3) have "ready queue t j"
    by (auto simp: promoted_def claimable_arms due_pending_def lapsed_def ready_def unexpired_def)
  with j show ?thesis by auto
qed

lemma claim_at_ready:
  assumes "queue_wf d" "claim_at queue worker_id n timeout_s t d (JArr (x # xs)) d'"
  shows "\<exists>j\<in>set (live d). ready queue t j"
proof -
  let ?h = "housekeep queue t d"
  have h: "queue_wf ?h" using assms(1) by (rule wf.keep_housekeep)
  from assms(2) have "filter (id_in (claim_ids queue n t (live ?h))) (live ?h) \<noteq> []"
    by (auto simp: claim_at_def Let_def claimed_rows_def)
  then obtain j' where "j' \<in> set (live ?h)" "id_in (claim_ids queue n t (live ?h)) j'"
    by (auto simp: filter_empty_conv)
  then show ?thesis
    using claimable_was_ready[OF queue_wf_distinct[OF assms(1)]] wf.claim_ids_claimable[OF h] by blast
qed

lemma lookup_in_time:
  assumes "conn_ok c" "forward c" "queue_wf (db c)" "0 < clock c"
    and "queue_next_claim_at queue c = (Ok v, c1)"
    and "\<And>now. clock c \<le> now \<Longrightarrow> now \<le> clock c1 \<Longrightarrow> settled queue now (live (db c))"
    and "forward c2" "db c2 = db c" "clock c1 \<le> clock c2"
    and "claim_batch queue worker_id n timeout_s c2 = (Ok (JArr (job # jobs)), c3)"
  shows "0 < v \<and> v \<le> clock c3"
proof -
  from assms(5) obtain now c1' where nu: "now_unix c = (Ok now, c1')"
    and q: "query (\<lambda>t d. Inr (next_claim_of queue now (live d))) c1' = (Ok v, c1)"
    unfolding queue_next_claim_at_def by (rule sbind_Ok)
  from nu have c1': "now = clock c1'" "db c1' = db c" by (auto elim!: now_unix_Ok)
  have v: "v = next_claim_of queue now (live (db c))" using q by (elim query_Ok) (simp add: c1')
  have l: "later c c1'" using timely_now_unix assms(2) nu by (rule timelyD)
  have "later c1' c1" using timely_query later_forward[OF l] q by (rule timelyD)
  with l c1' have now: "clock c \<le> now" "now \<le> clock c1" by (auto simp: later_def)
  from assms(10,7) obtain t where at: "claim_at queue worker_id n timeout_s t (db c2) (JArr (job # jobs)) (db c3)"
    and t: "clock c2 \<le> t" "t \<le> clock c3" by (rule claim_batch_at)
  from claim_at_ready[OF _ at] assms(3,8) obtain j where "j \<in> set (live (db c))" "ready queue t j" by auto
  moreover have "now \<le> t" using now t assms(9) by simp
  ultimately have "now \<le> v \<and> v \<le> t" unfolding v using next_claim_in_time[OF assms(6)[OF now]] by blast
  with now t assms(4) show ?thesis by simp
qed

text \<open>
  No missed wake-up while leases hold: when every held lease of the queue is valid at the time of
  the reading and no row is pending before its time, the reported time is positive and not later than
  any later claim, on an unchanged database, that returns a job. So a worker that
  sleeps until the reported time, or for good when it is 0, never sleeps through a job.
\<close>

theorem queue_next_claim_at_in_time:
  assumes "conn_ok c" "forward c" "queue_wf (db c)" "0 < clock c"
    and "queue_next_claim_at queue c = (Ok v, c1)"
    and "\<And>now. clock c \<le> now \<Longrightarrow> now \<le> clock c1 \<Longrightarrow> settled queue now (live (db c))"
    and "forward c2" "db c2 = db c" "clock c1 \<le> clock c2"
    and "claim_batch queue worker_id n timeout_s c2 = (Ok (JArr (job # jobs)), c3)"
  shows "0 < v \<and> v \<le> clock c3"
  using assms by (rule lookup_in_time)

definition waiting_db :: honker_db where
  "waiting_db = empty_db\<lparr>live := [(sample_job 1 0)\<lparr>j_state := Scheduled, j_run_at := 140\<rparr>, held_job 2 130], live_seq := 2\<rparr>"

theorem queue_next_claim_at_in_time_witness:
  "fst (queue_next_claim_at ''q'' (fresh_conn waiting_db 100 [])) = Ok 131 \<and> 0 < (131::int) \<and> (131::int) \<le> 135"
proof
  let ?c = "fresh_conn waiting_db 100 []" and ?c2 = "fresh_conn waiting_db 135 []"
  have q: "queue_next_claim_at ''q'' ?c = (Ok 131, snd (queue_next_claim_at ''q'' ?c))"
    by (rule prod_eqI) (code_simp, simp)
  then show "fst (queue_next_claim_at ''q'' ?c) = Ok 131" by (metis fst_conv)
  have clk: "clock (snd (queue_next_claim_at ''q'' ?c)) = 100" "clock (snd (claim_batch ''q'' ''w2'' 1 30 ?c2)) = 135"
    by code_simp+
  have cl: "claim_batch ''q'' ''w2'' 1 30 ?c2
      = (Ok (JArr [claim_json (claim_row ''w2'' 30 135 (held_job 2 130))]), snd (claim_batch ''q'' ''w2'' 1 30 ?c2))"
    by (rule prod_eqI) (code_simp, simp)
  have "queue_wf waiting_db" by code_simp
  moreover have "settled ''q'' 100 (live waiting_db)" by code_simp
  ultimately show "0 < (131::int) \<and> (131::int) \<le> 135"
    using queue_next_claim_at_in_time[OF _ _ _ _ q _ _ _ _ cl] by (simp add: clk)
qed

text \<open>
  The same reading misses a lease that has already lapsed: the table holds a job whose lease
  ended and whose budget is not used up, the reported time is 0, nothing to wait for, and a claim
  at the very same clock returns that job.
\<close>

definition lapsed_db :: honker_db where
  "lapsed_db = empty_db\<lparr>live := [held_job 1 90], live_seq := 1\<rparr>"

theorem queue_next_claim_at_misses_lapsed:
  "queue_wf lapsed_db
   \<and> fst (queue_next_claim_at ''q'' (fresh_conn lapsed_db 100 [])) = Ok 0
   \<and> fst (claim_batch ''q'' ''w2'' 1 30 (fresh_conn lapsed_db 100 []))
       = Ok (JArr [claim_json (claim_row ''w2'' 30 100 (held_job 1 90))])"
proof (intro conjI)
  show "queue_wf lapsed_db" by code_simp
  show "fst (queue_next_claim_at ''q'' (fresh_conn lapsed_db 100 [])) = Ok 0" by code_simp
  show "fst (claim_batch ''q'' ''w2'' 1 30 (fresh_conn lapsed_db 100 []))
       = Ok (JArr [claim_json (claim_row ''w2'' 30 100 (held_job 1 90))])" by code_simp
qed

end
