(* ===== verification/Streams.thy ===== *)
theory Streams
  imports Queue_Ops
begin

text \<open>
  Durable streams and notifications: append with an \<open>AUTOINCREMENT\<close> offset, read after an
  offset, and the saved position of a consumer. The contract of an \<open>AUTOINCREMENT\<close> table is the
  locale \<open>autoinc_table\<close>; the three tables that have one are its instances.
\<close>

section \<open>The operations\<close>

definition insert_event :: "string \<Rightarrow> string option \<Rightarrow> string \<Rightarrow> int \<Rightarrow> honker_db \<Rightarrow> sqlerr + int \<times> honker_db" where
  "insert_event topic key payload t d =
     (if stream_seq d \<ge> i64_max then Inl db_full
      else Inr (stream_seq d + 1, d\<lparr>stream := stream d @ [\<lparr>e_offset = stream_seq d + 1, e_topic = topic,
        e_key = key, e_payload = payload, e_created_at = t\<rparr>], stream_seq := stream_seq d + 1\<rparr>))"

definition stream_publish :: "string \<Rightarrow> string option \<Rightarrow> string \<Rightarrow> int haction" where
  "stream_publish topic key payload = exec (insert_event topic key payload)"

definition event_json :: "stream_row \<Rightarrow> json" where
  "event_json e = JObj [(''offset'', JInt (e_offset e)), (''topic'', JStr (e_topic e)),
     (''key'', jopt JStr (e_key e)), (''payload'', JStr (e_payload e)), (''created_at'', JInt (e_created_at e))]"

definition events_since :: "string \<Rightarrow> int \<Rightarrow> int \<Rightarrow> stream_row list \<Rightarrow> stream_row list" where
  "events_since topic offset limit rows =
     sql_limit limit (order_by e_offset (filter (\<lambda>e. e_topic e = topic \<and> e_offset e > offset) rows))"

definition stream_read_since :: "string \<Rightarrow> int \<Rightarrow> int \<Rightarrow> json haction" where
  "stream_read_since topic offset limit =
     query (\<lambda>t d. Inr (JArr (map event_json (events_since topic offset limit (stream d)))))"

text \<open>The monotone upsert: the count is 1 for an insert and for a conflict whose \<open>WHERE\<close> holds.\<close>

definition is_consumer :: "string \<Rightarrow> string \<Rightarrow> consumer_row \<Rightarrow> bool" where
  "is_consumer consumer topic r \<longleftrightarrow> c_name r = consumer \<and> c_topic r = topic"

definition upsert_offset :: "string \<Rightarrow> string \<Rightarrow> int \<Rightarrow> honker_db \<Rightarrow> int \<times> honker_db" where
  "upsert_offset consumer topic offset d =
     (if list_ex (is_consumer consumer topic) (consumers d)
      then (let p = (\<lambda>r. is_consumer consumer topic r \<and> offset > c_offset r) in
            (count_where p (consumers d), d\<lparr>consumers := upd_where p (\<lambda>r. r\<lparr>c_offset := offset\<rparr>) (consumers d)\<rparr>))
      else (1, d\<lparr>consumers := consumers d @ [\<lparr>c_name = consumer, c_topic = topic, c_offset = offset\<rparr>]\<rparr>))"

definition stream_save_offset :: "string \<Rightarrow> string \<Rightarrow> int \<Rightarrow> int haction" where
  "stream_save_offset consumer topic offset =
     sbind (exec (\<lambda>t d. Inr (upsert_offset consumer topic offset d)))
       (\<lambda>changed. sret (if changed > 0 then 1 else 0))"

definition saved_offset :: "string \<Rightarrow> string \<Rightarrow> honker_db \<Rightarrow> int" where
  "saved_offset consumer topic d = (case find (is_consumer consumer topic) (consumers d) of
       None \<Rightarrow> 0 | Some r \<Rightarrow> c_offset r)"

definition stream_get_offset :: "string \<Rightarrow> string \<Rightarrow> int haction" where
  "stream_get_offset consumer topic = query (\<lambda>t d. Inr (saved_offset consumer topic d))"

text \<open>The scalar function \<^verbatim>\<open>notify(channel, payload)\<close>.\<close>

definition insert_notification :: "string \<Rightarrow> string \<Rightarrow> int \<Rightarrow> honker_db \<Rightarrow> sqlerr + int \<times> honker_db" where
  "insert_notification channel payload t d =
     (if notif_seq d \<ge> i64_max then Inl db_full
      else Inr (notif_seq d + 1, d\<lparr>notifications := notifications d @ [\<lparr>n_id = notif_seq d + 1,
        n_channel = channel, n_payload = payload, n_created_at = t\<rparr>], notif_seq := notif_seq d + 1\<rparr>))"

definition notify :: "string \<Rightarrow> string \<Rightarrow> int haction" where
  "notify channel payload = exec (insert_notification channel payload)"

section \<open>Tables with an \<open>AUTOINCREMENT\<close> key\<close>

text \<open>
  The provider promises that an insert appends one key, one above the counter, and moves the
  counter to it. The client gets fresh, growing keys.
\<close>

locale autoinc_table =
  fixes ids :: "honker_db \<Rightarrow> int list" and seq :: "honker_db \<Rightarrow> int"
    and ins :: "honker_db \<Rightarrow> sqlerr + int \<times> honker_db"
  assumes ins_key: "ins d = Inr (i, d') \<Longrightarrow> i = seq d + 1 \<and> ids d' = ids d @ [i] \<and> seq d' = i"
    and ins_total: "seq d < i64_max \<Longrightarrow> \<exists>r. ins d = Inr r"
begin

definition keys_ok :: "honker_db \<Rightarrow> bool" where
  "keys_ok d \<longleftrightarrow> sorted_wrt (<) (ids d) \<and> (\<forall>i\<in>set (ids d). i \<le> seq d)"

lemma insert_keeps: "keys_ok d \<Longrightarrow> ins d = Inr (i, d') \<Longrightarrow> keys_ok d'"
  using ins_key[of d i d'] by (auto simp: keys_ok_def sorted_wrt_append)

lemma insert_fresh: "keys_ok d \<Longrightarrow> ins d = Inr (i, d') \<Longrightarrow> \<forall>j\<in>set (ids d). j < i"
  using ins_key[of d i d'] by (auto simp: keys_ok_def)

end

interpretation event_keys: autoinc_table "\<lambda>d. map e_offset (stream d)" stream_seq "insert_event topic key payload t"
  for topic key payload t
  by unfold_locales (auto simp: insert_event_def split: if_splits)

interpretation notification_keys: autoinc_table "\<lambda>d. map n_id (notifications d)" notif_seq
  "insert_notification channel payload t" for channel payload t
  by unfold_locales (auto simp: insert_notification_def split: if_splits)

interpretation job_keys: autoinc_table "\<lambda>d. map j_id (live d)" live_seq
  "insert_job (new_job now t queue payload run_at priority max_attempts expires_at)"
  for now t queue payload run_at priority max_attempts expires_at
  by unfold_locales (auto simp: insert_job_def new_job_def split: if_splits)

section \<open>Reading\<close>

lemma sorted_take_drop_offset:
  assumes "sorted_wrt (<) (map g xs)" "k \<le> length xs" "0 < k"
  shows "filter (\<lambda>x. g x > (g (xs ! (k - 1)) :: int)) xs = drop k xs"
proof -
  have split: "xs = take k xs @ drop k xs" by simp
  have last: "k - 1 < length xs" using assms(2,3) by linarith
  have "\<not> g x > g (xs ! (k - 1))" if "x \<in> set (take k xs)" for x
  proof -
    from that obtain i where i: "i < k" "x = xs ! i" using assms(2) by (auto simp: in_set_conv_nth)
    then consider "i = k - 1" | "i < k - 1" by linarith
    then show ?thesis
      using sorted_wrt_nth_less[OF assms(1), of i "k - 1"] assms(2,3) i last by cases auto
  qed
  then have "filter (\<lambda>x. g x > g (xs ! (k - 1))) (take k xs) = []" by (auto simp: filter_empty_conv)
  moreover have "g x > g (xs ! (k - 1))" if "x \<in> set (drop k xs)" for x
  proof -
    from that obtain i where "i < length (drop k xs)" "x = drop k xs ! i" by (metis in_set_conv_nth)
    then have "k + i < length xs" "x = xs ! (k + i)" using assms(2) by auto
    then show ?thesis
      using sorted_wrt_nth_less[OF assms(1), of "k - 1" "k + i"] assms(3) by auto
  qed
  then have "filter (\<lambda>x. g x > g (xs ! (k - 1))) (drop k xs) = drop k xs" by simp
  ultimately show ?thesis by (metis split filter_append append_Nil)
qed

definition stream_ok :: "honker_db \<Rightarrow> bool" where
  "stream_ok d \<longleftrightarrow> sorted_wrt (<) (map e_offset (stream d)) \<and> (\<forall>e\<in>set (stream d). e_offset e \<le> stream_seq d)"

lemma stream_ok_keys: "stream_ok d \<longleftrightarrow> event_keys.keys_ok d"
  by (auto simp: stream_ok_def event_keys.keys_ok_def)

text \<open>In a stream the table order is the offset order.\<close>

lemma events_since_filter:
  assumes "sorted_wrt (<) (map e_offset rows)"
  shows "events_since topic offset limit rows
    = sql_limit limit (filter (\<lambda>e. e_topic e = topic \<and> e_offset e > offset) rows)"
proof -
  have "sorted (map e_offset (filter p rows))" for p
    using assms by (induction rows) (auto simp: less_imp_le)
  then show ?thesis by (simp add: events_since_def order_by_def sort_key_id_if_sorted)
qed

lemma events_since_resume:
  assumes "sorted_wrt (<) (map e_offset rows)" "0 < limit"
    and "events_since topic offset limit rows = batch" "batch \<noteq> []"
  shows "batch @ events_since topic (e_offset (last batch)) (-1) rows = events_since topic offset (-1) rows"
proof -
  let ?all = "filter (\<lambda>e. e_topic e = topic \<and> e_offset e > offset) rows"
  define k where "k = min (nat limit) (length ?all)"
  have sorted: "sorted_wrt (<) (map e_offset ?all)" using assms(1) by (induction rows) auto
  have batch: "batch = take k ?all"
    using assms(2,3) by (auto simp: events_since_filter[OF assms(1)] sql_limit_def k_def min_def)
  with assms(4) have k: "0 < k" "k \<le> length ?all" by (auto simp: k_def)
  have "take k ?all \<noteq> []" using k by (metis assms(4) batch)
  then have last: "last batch = ?all ! (k - 1)" using k unfolding batch by (simp add: last_conv_nth)
  have "e_offset (last batch) > offset" using k last nth_mem[of "k - 1" ?all] by auto
  then have "filter (\<lambda>e. e_topic e = topic \<and> e_offset e > e_offset (last batch)) rows
      = filter (\<lambda>e. e_offset e > e_offset (last batch)) ?all"
    by (auto simp: filter_filter intro!: filter_cong)
  also have "\<dots> = drop k ?all" unfolding last by (rule sorted_take_drop_offset[OF sorted k(2,1)])
  finally show ?thesis by (simp add: events_since_filter[OF assms(1)] batch)
qed

text \<open>The position a consumer takes from the batch it read: the offset of its last event.\<close>

definition last_offset :: "json \<Rightarrow> int" where
  "last_offset batch = (if jelems batch = [] then 0
     else (case jfield ''offset'' (last (jelems batch)) of Some (JInt o') \<Rightarrow> o' | _ \<Rightarrow> 0))"

lemma last_offset_events: "es \<noteq> [] \<Longrightarrow> last_offset (JArr (map event_json es)) = e_offset (last es)"
  by (simp add: last_offset_def last_map event_json_def)

lemma stream_read_Ok:
  assumes "stream_read_since topic offset limit c = (Ok out, c')"
  shows "out = JArr (map event_json (events_since topic offset limit (stream (db c)))) \<and> db c' = db c"
  using assms unfolding stream_read_since_def by (elim query_Ok) simp

text \<open>
  A consumer that reads in batches loses nothing and sees nothing twice: a non-empty batch
  followed by everything after its last offset is everything after the offset the batch started
  from, in offset order.
\<close>

theorem stream_read_resumes:
  assumes "stream_ok (db c)" "0 < limit"
    and "stream_read_since topic offset limit c = (Ok batch, c1)" "jelems batch \<noteq> []"
    and "stream_read_since topic (last_offset batch) (-1) c1 = (Ok rest, c2)"
    and "stream_read_since topic offset (-1) c2 = (Ok whole, c3)"
  shows "jelems whole = jelems batch @ jelems rest"
proof -
  define es where "es = events_since topic offset limit (stream (db c))"
  from stream_read_Ok[OF assms(3)] have b: "batch = JArr (map event_json es)" "db c1 = db c"
    by (simp_all add: es_def)
  with assms(4) have ne: "es \<noteq> []" by simp
  with stream_read_Ok[OF assms(5)] b
  have rest: "rest = JArr (map event_json (events_since topic (e_offset (last es)) (-1) (stream (db c))))" "db c2 = db c"
    by (simp_all add: last_offset_events)
  from stream_read_Ok[OF assms(6)] rest(2)
  have "whole = JArr (map event_json (events_since topic offset (-1) (stream (db c))))" by simp
  with events_since_resume[OF _ assms(2) es_def[symmetric] ne] assms(1) b rest show ?thesis
    by (simp add: stream_ok_def flip: map_append)
qed

definition sample_events :: honker_db where
  "sample_events = empty_db\<lparr>stream := map (\<lambda>(o', tp). \<lparr>e_offset = o', e_topic = tp, e_key = None, e_payload = ''e'', e_created_at = 9\<rparr>)
     [(1, ''a''), (2, ''b''), (3, ''a''), (5, ''a'')], stream_seq := 5\<rparr>"

theorem stream_read_resumes_witness:
  "let read = (\<lambda>offset limit. case fst (stream_read_since ''a'' offset limit (fresh_conn sample_events 9 [])) of Ok v \<Rightarrow> jelems v | _ \<Rightarrow> []) in
   length (read 0 2) = 2 \<and> read 0 (-1) = read 0 2 @ read 3 (-1)"
proof -
  let ?c = "fresh_conn sample_events 9 []"
  let ?r = "\<lambda>offset limit. stream_read_since ''a'' offset limit ?c"
  let ?v = "\<lambda>offset limit. JArr (map event_json (events_since ''a'' offset limit (stream sample_events)))"
  have c: "?r offset limit = (Ok (?v offset limit), ?c)" for offset limit
    using put_db_same[of ?c] by (simp add: stream_read_since_def query_def)
  have lo: "last_offset (?v 0 2) = 3" by code_simp
  have len: "length (jelems (?v 0 2)) = 2" by code_simp
  have "stream_ok sample_events" by code_simp
  then have "jelems (?v 0 (-1)) = jelems (?v 0 2) @ jelems (?v 3 (-1))"
    using stream_read_resumes[OF _ _ c[of 0 2] _ c[of "last_offset (?v 0 2)" "-1"] c[of 0 "-1"]] len
    unfolding lo by fastforce
  with len show ?thesis by (simp add: c Let_def)
qed

section \<open>Publishing\<close>

text \<open>
  A published event gets an offset above every offset of the stream and is read exactly once:
  every later read of its topic from before it ends with it, after everything that was there, and
  no other topic sees it. The stream stays ordered.
\<close>

theorem stream_publish_appends:
  assumes "stream_ok (db c)" "stream_publish topic key payload c = (Ok offset, c')"
  shows "stream_ok (db c') \<and> (\<forall>e\<in>set (stream (db c)). e_offset e < offset)
    \<and> (\<exists>t. \<forall>tp start. events_since tp start (-1) (stream (db c'))
       = events_since tp start (-1) (stream (db c))
         @ (if tp = topic \<and> start < offset
            then [\<lparr>e_offset = offset, e_topic = topic, e_key = key, e_payload = payload, e_created_at = t\<rparr>] else []))"
proof -
  from assms(2) obtain t where ins: "insert_event topic key payload t (db c) = Inr (offset, db c')"
    unfolding stream_publish_def by (elim exec_Ok) auto
  have ok': "stream_ok (db c')" and fresh: "\<forall>e\<in>set (stream (db c)). e_offset e < offset"
    using event_keys.insert_keeps[OF _ ins] event_keys.insert_fresh[OF _ ins] assms(1)
    by (auto simp: stream_ok_keys)
  have app: "stream (db c') = stream (db c) @ [\<lparr>e_offset = offset, e_topic = topic, e_key = key,
      e_payload = payload, e_created_at = t\<rparr>]"
    using ins by (auto simp: insert_event_def dest!: sym[of _ "db c'"] split: if_splits)
  have all: "events_since tp start (-1) (stream d) = filter (\<lambda>e. e_topic e = tp \<and> e_offset e > start) (stream d)"
    if "stream_ok d" for tp start d
    using that by (simp add: events_since_filter stream_ok_def)
  show ?thesis using ok' fresh unfolding all[OF assms(1)] app all[OF ok', unfolded app] by auto
qed

theorem stream_publish_appends_witness:
  "stream_ok (db (snd (stream_publish ''a'' None ''x'' (fresh_conn sample_events 9 []))))
   \<and> fst (stream_publish ''a'' None ''x'' (fresh_conn sample_events 9 [])) = Ok 6"
proof
  let ?run = "stream_publish ''a'' None ''x'' (fresh_conn sample_events 9 [])"
  show ok: "fst ?run = Ok 6" by code_simp
  then have run: "?run = (Ok 6, snd ?run)" by (metis prod.collapse)
  have "stream_ok (db (fresh_conn sample_events 9 []))" by code_simp
  then show "stream_ok (db (snd ?run))" using stream_publish_appends[OF _ run] by blast
qed

section \<open>Consumer positions\<close>

definition consumers_ok :: "honker_db \<Rightarrow> bool" where
  "consumers_ok d \<longleftrightarrow> distinct (map (\<lambda>r. (c_name r, c_topic r)) (consumers d))"

lemma find_consumer_upd:
  assumes "\<And>r. is_consumer n tp (f r) = is_consumer n tp r" "\<And>r. c_offset (f r) = off"
  shows "map_option c_offset (find (is_consumer n tp) (upd_where p f rows))
    = map_option (\<lambda>r. if p r then off else c_offset r) (find (is_consumer n tp) rows)"
  using assms by (induction rows) auto

lemma upsert_offset_saved:
  "saved_offset n tp (snd (upsert_offset consumer topic offset d))
    = (if n = consumer \<and> tp = topic
       then (if list_ex (is_consumer consumer topic) (consumers d) then max (saved_offset n tp d) offset else offset)
       else saved_offset n tp d)"
proof -
  have eq: "saved_offset n tp d' = (case map_option c_offset (find (is_consumer n tp) (consumers d')) of
      None \<Rightarrow> 0 | Some x \<Rightarrow> x)" for d'
    by (simp add: saved_offset_def split: option.split)
  have app: "find (is_consumer n tp) (rows @ [r])
      = (case find (is_consumer n tp) rows of None \<Rightarrow> (if is_consumer n tp r then Some r else None) | Some x \<Rightarrow> Some x)" for rows r
    by (induction rows) auto
  show ?thesis
  proof (cases "list_ex (is_consumer consumer topic) (consumers d)")
    case True
    let ?p = "\<lambda>r. is_consumer consumer topic r \<and> offset > c_offset r"
    have upd: "map_option c_offset (find (is_consumer n tp) (upd_where ?p (\<lambda>r. r\<lparr>c_offset := offset\<rparr>) (consumers d)))
        = map_option (\<lambda>r. if ?p r then offset else c_offset r) (find (is_consumer n tp) (consumers d))"
      by (rule find_consumer_upd) (simp_all add: is_consumer_def)
    show ?thesis
    proof (cases "find (is_consumer n tp) (consumers d)")
      case None
      then have "\<not> (n = consumer \<and> tp = topic)" using True by (auto simp: find_None_iff list_ex_iff)
      with None upd True show ?thesis by (auto simp: eq upsert_offset_def Let_def)
    next
      case (Some r)
      then have "is_consumer n tp r" by (auto simp: find_Some_iff)
      then have "is_consumer consumer topic r \<longleftrightarrow> n = consumer \<and> tp = topic" by (auto simp: is_consumer_def)
      moreover have "saved_offset n tp d = c_offset r" using Some by (simp add: saved_offset_def)
      ultimately show ?thesis using Some upd True
        by (cases "n = consumer \<and> tp = topic") (auto simp: saved_offset_def upsert_offset_def Let_def)
    qed
  next
    case False
    then have none: "find (is_consumer consumer topic) (consumers d) = None" by (auto simp: find_None_iff list_ex_iff)
    have "is_consumer n tp \<lparr>c_name = consumer, c_topic = topic, c_offset = offset\<rparr> \<longleftrightarrow> n = consumer \<and> tp = topic"
      by (auto simp: is_consumer_def)
    with False none show ?thesis
      by (auto simp: upsert_offset_def saved_offset_def app split: option.splits)
  qed
qed

text \<open>
  A saved position never moves back: saving an offset leaves the consumer's position at the
  larger of the two once it has one, sets it the first time, and leaves every other consumer and
  topic alone; the reported value of the next lookup is that position.
\<close>

theorem stream_save_offset_monotone:
  assumes "stream_save_offset consumer topic offset c = (Ok n, c1)"
    and "stream_get_offset name tp c1 = (Ok v, c2)"
  shows "v = (if name = consumer \<and> tp = topic
      then (if list_ex (is_consumer consumer topic) (consumers (db c))
            then max (saved_offset consumer topic (db c)) offset else offset)
      else saved_offset name tp (db c))"
proof -
  have "db c1 = snd (upsert_offset consumer topic offset (db c))"
    using assms(1) unfolding stream_save_offset_def by (auto elim!: sbind_Ok exec_Ok)
  moreover have "v = saved_offset name tp (db c1)"
    using assms(2) unfolding stream_get_offset_def by (elim query_Ok) simp
  ultimately show ?thesis by (simp add: upsert_offset_saved)
qed

theorem stream_save_offset_monotone_witness:
  "let c1 = snd (stream_save_offset ''k'' ''a'' 7 (fresh_conn empty_db 0 [])); c2 = snd (stream_save_offset ''k'' ''a'' 4 c1) in
   fst (stream_save_offset ''k'' ''a'' 4 c1) = Ok 0 \<and> fst (stream_get_offset ''k'' ''a'' c2) = Ok 7"
proof -
  let ?c1 = "snd (stream_save_offset ''k'' ''a'' 7 (fresh_conn empty_db 0 []))"
  let ?s = "stream_save_offset ''k'' ''a'' 4 ?c1"
  have s: "?s = (Ok 0, snd ?s)" by (rule prod_eqI) (code_simp, simp)
  have g: "stream_get_offset ''k'' ''a'' (snd ?s) = (Ok (saved_offset ''k'' ''a'' (db (snd ?s))), snd (stream_get_offset ''k'' ''a'' (snd ?s)))"
    by (rule prod_eqI) (code_simp, simp)
  have "list_ex (is_consumer ''k'' ''a'') (consumers (db ?c1))" "saved_offset ''k'' ''a'' (db ?c1) = 7" by code_simp+
  with stream_save_offset_monotone[OF s g] have "saved_offset ''k'' ''a'' (db (snd ?s)) = 7" by simp
  then show ?thesis using arg_cong[OF g, of fst] arg_cong[OF s, of fst] by (simp add: Let_def)
qed

end
