(* ===== verification/Locks.thy ===== *)
theory Locks
  imports Schema
begin

text \<open>
  Named locks with a time to live. An
  acquire is three statements with no transaction around them, so its exclusion is proved over
  every interleaving of the statements of all callers.
\<close>

section \<open>Named locks\<close>

definition lock_purge :: "string \<Rightarrow> int \<Rightarrow> lock_row list \<Rightarrow> lock_row list" where
  "lock_purge name t = del_where (\<lambda>l. l_name l = name \<and> l_expires_at l \<le> t)"

definition lock_insert :: "string \<Rightarrow> string \<Rightarrow> int \<Rightarrow> int \<Rightarrow> lock_row list \<Rightarrow> lock_row list" where
  "lock_insert name owner ttl_s t ls = (if list_ex (\<lambda>l. l_name l = name) ls then ls
     else ls @ [\<lparr>l_name = name, l_owner = owner, l_expires_at = t + ttl_s\<rparr>])"

definition lock_owner :: "string \<Rightarrow> lock_row list \<Rightarrow> string option" where
  "lock_owner name ls = map_option l_owner (find (\<lambda>l. l_name l = name) ls)"

definition lock_acquire :: "string \<Rightarrow> string \<Rightarrow> int \<Rightarrow> int haction" where
  "lock_acquire name owner ttl_s =
     sbind (exec (\<lambda>t d. Inr ((), d\<lparr>locks := lock_purge name t (locks d)\<rparr>))) (\<lambda>_.
     sbind (exec (\<lambda>t d. Inr ((), d\<lparr>locks := lock_insert name owner ttl_s t (locks d)\<rparr>))) (\<lambda>_.
     sbind (query (\<lambda>t d. Inr (lock_owner name (locks d)))) (\<lambda>current.
       sret (if current = Some owner then 1 else 0))))"

definition owned_by :: "string \<Rightarrow> string \<Rightarrow> lock_row \<Rightarrow> bool" where
  "owned_by name owner l \<longleftrightarrow> l_name l = name \<and> l_owner l = owner"

definition lock_release :: "string \<Rightarrow> string \<Rightarrow> int haction" where
  "lock_release name owner = exec (\<lambda>t d.
     Inr (count_where (owned_by name owner) (locks d), d\<lparr>locks := del_where (owned_by name owner) (locks d)\<rparr>))"

definition lock_extend :: "string \<Rightarrow> string \<Rightarrow> int \<Rightarrow> int \<Rightarrow> lock_row list \<Rightarrow> lock_row list" where
  "lock_extend name owner ttl_s t = upd_where (owned_by name owner) (\<lambda>l. l\<lparr>l_expires_at := t + ttl_s\<rparr>)"

definition lock_renew :: "string \<Rightarrow> string \<Rightarrow> int \<Rightarrow> int haction" where
  "lock_renew name owner ttl_s =
     (if ttl_s \<le> 0 then sfail TtlNotPositive
      else sbind (exec (\<lambda>t d. Inr (count_where (owned_by name owner) (locks d),
               d\<lparr>locks := lock_extend name owner ttl_s t (locks d)\<rparr>)))
             (\<lambda>updated. sret (if updated > 0 then 1 else 0)))"

section \<open>Statements of many callers\<close>

text \<open>
  One statement of some caller at clock \<open>t\<close>. The label says who acts and whether the statement
  is one that only the owner of a lock uses on it.
\<close>

datatype lock_label = Purge string | Insert string string int | Release string string | Renew string string int

inductive lock_step :: "int \<Rightarrow> lock_label \<Rightarrow> lock_row list \<Rightarrow> lock_row list \<Rightarrow> bool" where
  purge: "lock_step t (Purge name) ls (lock_purge name t ls)"
| insert: "lock_step t (Insert name owner ttl_s) ls (lock_insert name owner ttl_s t ls)"
| release: "lock_step t (Release name owner) ls (del_where (owned_by name owner) ls)"
| renew: "0 < ttl_s \<Longrightarrow> lock_step t (Renew name owner ttl_s) ls (lock_extend name owner ttl_s t ls)"

inductive_cases lock_stepE: "lock_step t lab ls ls'"

text \<open>The table after a sequence of labelled statements at given clocks.\<close>

inductive lock_run :: "(int \<times> lock_label) list \<Rightarrow> lock_row list \<Rightarrow> lock_row list \<Rightarrow> bool" where
  finish: "lock_run [] ls ls"
| step: "lock_step t lab ls ls1 \<Longrightarrow> lock_run tr ls1 ls2 \<Longrightarrow> lock_run ((t, lab) # tr) ls ls2"

definition locks_ok :: "lock_row list \<Rightarrow> bool" where
  "locks_ok ls \<longleftrightarrow> distinct (map l_name ls)"

lemma locks_ok_step: "lock_step t lab ls ls' \<Longrightarrow> locks_ok ls \<Longrightarrow> locks_ok ls'"
  by (erule lock_stepE)
    (auto simp: locks_ok_def lock_purge_def lock_insert_def lock_extend_def list_ex_iff
      distinct_map_del_where map_upd_where split: if_splits)

lemma locks_ok_run: "lock_run tr ls ls' \<Longrightarrow> locks_ok ls \<Longrightarrow> locks_ok ls'"
  by (induction rule: lock_run.induct) (auto dest: locks_ok_step)

text \<open>A statement that may end or change the hold of \<open>owner\<close> on \<open>name\<close> before \<open>e\<close>.\<close>

definition disturbs :: "string \<Rightarrow> string \<Rightarrow> int \<Rightarrow> int \<times> lock_label \<Rightarrow> bool" where
  "disturbs name owner e s = (case s of (t, lab) \<Rightarrow> e \<le> t \<or> (case lab of
       Release n w \<Rightarrow> n = name \<and> w = owner
     | Renew n w _ \<Rightarrow> n = name \<and> w = owner
     | _ \<Rightarrow> False))"

lemma held_step:
  assumes "lock_step t lab ls ls'" "\<lparr>l_name = name, l_owner = owner, l_expires_at = e\<rparr> \<in> set ls"
    and "\<not> disturbs name owner e (t, lab)"
  shows "\<lparr>l_name = name, l_owner = owner, l_expires_at = e\<rparr> \<in> set ls'"
  using assms
  by (elim lock_stepE)
    (auto simp: disturbs_def lock_purge_def lock_insert_def lock_extend_def owned_by_def set_upd_where)

lemma held_run:
  assumes "lock_run tr ls ls'" "\<lparr>l_name = name, l_owner = owner, l_expires_at = e\<rparr> \<in> set ls"
    and "\<And>s. s \<in> set tr \<Longrightarrow> \<not> disturbs name owner e s"
  shows "\<lparr>l_name = name, l_owner = owner, l_expires_at = e\<rparr> \<in> set ls'"
  using assms by (induction rule: lock_run.induct) (auto dest: held_step)

lemma lock_owner_held:
  "locks_ok ls \<Longrightarrow> \<lparr>l_name = name, l_owner = owner, l_expires_at = e\<rparr> \<in> set ls \<Longrightarrow> lock_owner name ls = Some owner"
  unfolding lock_owner_def locks_ok_def by (induction ls) (auto simp: image_iff)

text \<open>
  C12. Mutual exclusion over every interleaving: once the table holds a lock of \<open>owner\<close> until
  \<open>e\<close>, then after any sequence of statements of any callers at clocks before \<open>e\<close>, in which
  \<open>owner\<close> neither releases nor renews it, the reading that ends another caller's acquire
  still finds \<open>owner\<close>, so that acquire answers no.
\<close>

theorem lock_exclusion:
  assumes "locks_ok ls" "\<lparr>l_name = name, l_owner = owner, l_expires_at = e\<rparr> \<in> set ls"
    and "lock_run tr ls ls'" "\<forall>s\<in>set tr. \<not> disturbs name owner e s"
  shows "lock_owner name ls' = Some owner"
proof (rule lock_owner_held)
  show "locks_ok ls'" using assms(3,1) by (rule locks_ok_run)
  show "\<lparr>l_name = name, l_owner = owner, l_expires_at = e\<rparr> \<in> set ls'"
    using assms(3,2) by (rule held_run) (use assms(4) in blast)
qed

theorem lock_exclusion_witness:
  "lock_owner ''m'' [\<lparr>l_name = ''m'', l_owner = ''a'', l_expires_at = 50\<rparr>] = Some ''a''"
proof -
  let ?ls = "[\<lparr>l_name = ''m'', l_owner = ''a'', l_expires_at = 50\<rparr>]"
  have "lock_run [(40, Purge ''m''), (41, Insert ''m'' ''b'' 30), (42, Release ''m'' ''b'')] ?ls
      (del_where (owned_by ''m'' ''b'') (lock_insert ''m'' ''b'' 30 41 (lock_purge ''m'' 40 ?ls)))"
    by (rule lock_run.step lock_run.finish lock_step.intros)+
  moreover have "del_where (owned_by ''m'' ''b'') (lock_insert ''m'' ''b'' 30 41 (lock_purge ''m'' 40 ?ls)) = ?ls"
    by code_simp
  ultimately show ?thesis
    by (intro lock_exclusion[where ls = ?ls and owner = "''a''" and e = 50
          and tr = "[(40, Purge ''m''), (41, Insert ''m'' ''b'' 30), (42, Release ''m'' ''b'')]"])
      (auto simp: locks_ok_def disturbs_def)
qed

text \<open>The code of an acquire is two of these statements and a reading.\<close>

lemma lock_acquire_run:
  assumes "lock_acquire name owner ttl_s c = (Ok r, c')"
  obtains t1 t2 where "lock_run [(t1, Purge name), (t2, Insert name owner ttl_s)] (locks (db c)) (locks (db c'))"
    "r = (if lock_owner name (locks (db c')) = Some owner then 1 else 0)"
    "forward c \<longrightarrow> clock c \<le> t1 \<and> t1 \<le> t2 \<and> t2 \<le> clock c'"
    "locks (db c') = lock_insert name owner ttl_s t2 (lock_purge name t1 (locks (db c)))"
proof -
  from assms obtain c1 c2 v where
      s1: "exec (\<lambda>t d. Inr ((), d\<lparr>locks := lock_purge name t (locks d)\<rparr>)) c = (Ok (), c1)"
    and s2: "exec (\<lambda>t d. Inr ((), d\<lparr>locks := lock_insert name owner ttl_s t (locks d)\<rparr>)) c1 = (Ok (), c2)"
    and s3: "query (\<lambda>t d. Inr (lock_owner name (locks d))) c2 = (Ok v, c')"
    and r: "r = (if v = Some owner then 1 else 0)"
    unfolding lock_acquire_def by (auto elim!: sbind_Ok)
  from s1 s2 have d: "locks (db c1) = lock_purge name (clock c1) (locks (db c))"
    "locks (db c2) = lock_insert name owner ttl_s (clock c2) (locks (db c1))"
    by (auto dest!: exec_OkD)
  from s3 have v: "v = lock_owner name (locks (db c'))" "db c' = db c2" by (auto elim!: query_Ok)
  have time: "clock c \<le> clock c1 \<and> clock c1 \<le> clock c2 \<and> clock c2 \<le> clock c'" if "forward c"
  proof -
    have l1: "later c c1" using timely_exec that s1 by (rule timelyD)
    have l2: "later c1 c2" using timely_exec later_forward[OF l1] s2 by (rule timelyD)
    have "later c2 c'" using timely_query later_forward[OF l2] s3 by (rule timelyD)
    with l1 l2 show ?thesis by (simp add: later_def)
  qed
  have "lock_run [(clock c1, Purge name), (clock c2, Insert name owner ttl_s)] (locks (db c)) (locks (db c'))"
    unfolding v(2) d by (rule lock_run.step lock_run.finish lock_step.intros)+
  with d v r time show thesis by (intro that[of "clock c1" "clock c2"]) auto
qed

text \<open>
  What an acquire answers: while another owner's lock has not expired by the end of the call
  it answers 0 and that lock stays as it was; when the lock is absent or has expired before the call it
  answers 1 and the caller holds the lock, until its time to live after the insert.
\<close>

theorem lock_acquire_answer:
  assumes "forward c" "locks_ok (locks (db c))" "lock_acquire name owner ttl_s c = (Ok r, c')"
  shows "(\<forall>l\<in>set (locks (db c)). l_name l = name \<and> l_owner l \<noteq> owner \<and> clock c' < l_expires_at l
            \<longrightarrow> r = 0 \<and> l \<in> set (locks (db c')))
    \<and> ((\<forall>l\<in>set (locks (db c)). l_name l = name \<longrightarrow> l_expires_at l \<le> clock c)
            \<longrightarrow> r = 1 \<and> (\<exists>t. clock c \<le> t \<and> t \<le> clock c'
                 \<and> \<lparr>l_name = name, l_owner = owner, l_expires_at = t + ttl_s\<rparr> \<in> set (locks (db c'))))"
proof (intro conjI ballI impI)
  from assms(3) obtain t1 t2 where run: "lock_run [(t1, Purge name), (t2, Insert name owner ttl_s)] (locks (db c)) (locks (db c'))"
    and r: "r = (if lock_owner name (locks (db c')) = Some owner then 1 else 0)"
    and t: "clock c \<le> t1" "t1 \<le> t2" "t2 \<le> clock c'"
    and d': "locks (db c') = lock_insert name owner ttl_s t2 (lock_purge name t1 (locks (db c)))"
    using assms(1) by (auto elim: lock_acquire_run)
  have ok': "locks_ok (locks (db c'))" using run assms(2) by (rule locks_ok_run)
  fix l assume l: "l \<in> set (locks (db c))" "l_name l = name \<and> l_owner l \<noteq> owner \<and> clock c' < l_expires_at l"
  then have row: "\<lparr>l_name = name, l_owner = l_owner l, l_expires_at = l_expires_at l\<rparr> = l" by simp
  have "\<not> disturbs name (l_owner l) (l_expires_at l) s" if "s \<in> set [(t1, Purge name), (t2, Insert name owner ttl_s)]" for s
    using that l t by (auto simp: disturbs_def)
  from held_run[OF run _ this] l(1) row show held: "l \<in> set (locks (db c'))" by metis
  with lock_owner_held[OF ok'] row have "lock_owner name (locks (db c')) = Some (l_owner l)" by metis
  with r l show "r = 0" by simp
next
  assume expired: "\<forall>l\<in>set (locks (db c)). l_name l = name \<longrightarrow> l_expires_at l \<le> clock c"
  from assms(3) obtain t1 t2 where run: "lock_run [(t1, Purge name), (t2, Insert name owner ttl_s)] (locks (db c)) (locks (db c'))"
    and r: "r = (if lock_owner name (locks (db c')) = Some owner then 1 else 0)"
    and t: "clock c \<le> t1" "t1 \<le> t2" "t2 \<le> clock c'"
    and d': "locks (db c') = lock_insert name owner ttl_s t2 (lock_purge name t1 (locks (db c)))"
    using assms(1) by (auto elim: lock_acquire_run)
  have "\<not> list_ex (\<lambda>l. l_name l = name) (lock_purge name t1 (locks (db c)))"
    using expired t(1) by (force simp: lock_purge_def list_ex_iff)
  then have mine: "\<lparr>l_name = name, l_owner = owner, l_expires_at = t2 + ttl_s\<rparr> \<in> set (locks (db c'))"
    by (simp add: d' lock_insert_def)
  with lock_owner_held[OF locks_ok_run[OF run assms(2)]] r show "r = 1" by simp
  from mine t show "\<exists>t. clock c \<le> t \<and> t \<le> clock c' \<and>
      \<lparr>l_name = name, l_owner = owner, l_expires_at = t + ttl_s\<rparr> \<in> set (locks (db c'))"
    by (intro exI[of _ t2]) simp
qed

definition locked_db :: honker_db where
  "locked_db = empty_db\<lparr>locks := [\<lparr>l_name = ''m'', l_owner = ''a'', l_expires_at = 50\<rparr>]\<rparr>"

theorem lock_acquire_answer_witness:
  "fst (lock_acquire ''m'' ''b'' 30 (fresh_conn locked_db 49 [])) = Ok 0
   \<and> \<lparr>l_name = ''m'', l_owner = ''a'', l_expires_at = 50\<rparr> \<in> set (locks (db (snd (lock_acquire ''m'' ''b'' 30 (fresh_conn locked_db 49 [])))))
   \<and> fst (lock_acquire ''m'' ''b'' 30 (fresh_conn locked_db 50 [])) = Ok 1"
proof -
  let ?run = "\<lambda>t. lock_acquire ''m'' ''b'' 30 (fresh_conn locked_db t [])"
  have run: "?run 49 = (Ok 0, snd (?run 49))" "?run 50 = (Ok 1, snd (?run 50))"
    by (rule prod_eqI, code_simp, simp)+
  have clk: "clock (snd (?run 49)) = 49" by code_simp
  have ok: "locks_ok (locks (db (fresh_conn locked_db t [])))" for t by (simp add: locked_db_def locks_ok_def)
  from lock_acquire_answer[OF _ ok run(1)] lock_acquire_answer[OF _ ok run(2)] show ?thesis
    using arg_cong[OF run(1), of fst] arg_cong[OF run(2), of fst]
    by (simp add: clk) (simp add: locked_db_def)
qed

end
