(* ===== verification/Rate_Limits.thy ===== *)
theory Rate_Limits
  imports Queue_Ops
begin

text \<open>
  The fixed-window rate limiter, with the admissions of a window counted over every sequence of
  calls, and the store of job results with its expiry.
\<close>

section \<open>Rate limiting\<close>

text \<open>Integer division of SQLite rounds towards zero.\<close>

definition trunc_div :: "int \<Rightarrow> int \<Rightarrow> int" where
  "trunc_div a b = sgn a * sgn b * (\<bar>a\<bar> div \<bar>b\<bar>)"

definition window_start :: "int \<Rightarrow> int \<Rightarrow> int" where
  "window_start per t = trunc_div t per * per"

definition is_window :: "string \<Rightarrow> int \<Rightarrow> rate_row \<Rightarrow> bool" where
  "is_window name w r \<longleftrightarrow> r_name r = name \<and> r_window_start r = w"

text \<open>The upsert, with the number of rows it changed.\<close>

definition rate_bump :: "string \<Rightarrow> int \<Rightarrow> int \<Rightarrow> honker_db \<Rightarrow> int \<times> honker_db" where
  "rate_bump name w limit d =
     (if list_ex (is_window name w) (rates d)
      then (let p = (\<lambda>r. is_window name w r \<and> r_count r < limit) in
            (count_where p (rates d), d\<lparr>rates := upd_where p (\<lambda>r. r\<lparr>r_count := r_count r + 1\<rparr>) (rates d)\<rparr>))
      else (1, d\<lparr>rates := rates d @ [\<lparr>r_name = name, r_window_start = w, r_count = 1\<rparr>]\<rparr>))"

definition rate_limit_try :: "string \<Rightarrow> int \<Rightarrow> int \<Rightarrow> int haction" where
  "rate_limit_try name limit per =
     (if limit \<le> 0 \<or> per \<le> 0 then sfail LimitNotPositive
      else sbind (query (\<lambda>t d. Inr (window_start per t))) (\<lambda>w.
           sbind (exec (\<lambda>t d. Inr (rate_bump name w limit d))) (\<lambda>changed.
             sret (if changed > 0 then 1 else 0))))"

definition rate_limit_sweep :: "int \<Rightarrow> int haction" where
  "rate_limit_sweep older_than_s = exec (\<lambda>t d. let p = (\<lambda>r. r_window_start r < t - older_than_s) in
     Inr (count_where p (rates d), d\<lparr>rates := del_where p (rates d)\<rparr>))"

definition rate_count :: "string \<Rightarrow> int \<Rightarrow> honker_db \<Rightarrow> int" where
  "rate_count name w d = (case find (is_window name w) (rates d) of None \<Rightarrow> 0 | Some r \<Rightarrow> r_count r)"

definition rates_ok :: "honker_db \<Rightarrow> bool" where
  "rates_ok d \<longleftrightarrow> distinct (map (\<lambda>r. (r_name r, r_window_start r)) (rates d))"

text \<open>Bumping one window: it counts one more exactly when it answers yes, and nothing else moves.\<close>

lemma find_upd_where:
  assumes "\<And>r. q (f r) = q r"
  shows "find q (upd_where p f rows) = map_option (\<lambda>r. if p r then f r else r) (find q rows)"
  using assms by (induction rows) auto

lemma is_window_same: "is_window n v r \<Longrightarrow> is_window name w r \<longleftrightarrow> n = name \<and> v = w"
  by (auto simp: is_window_def)

lemma rate_bump_count:
  assumes "rates_ok d" "0 < limit" "rate_bump name w limit d = (changed, d')"
  shows "(if rate_count name w d < limit then changed = 1 else changed = 0)"
    "rate_count n v d' = rate_count n v d + (if n = name \<and> v = w \<and> rate_count name w d < limit then 1 else 0)"
    "rates_ok d'"
proof -
  let ?p = "\<lambda>r. is_window name w r \<and> r_count r < limit"
  have "(if rate_count name w d < limit then changed = 1 else changed = 0)
    \<and> rate_count n v d' = rate_count n v d + (if n = name \<and> v = w \<and> rate_count name w d < limit then 1 else 0)
    \<and> rates_ok d'"
  proof (cases "find (is_window name w) (rates d)")
    case None
    then have new: "\<not> list_ex (is_window name w) (rates d)" by (auto simp: find_None_iff list_ex_iff)
    then have "(name, w) \<notin> (\<lambda>r. (r_name r, r_window_start r)) ` set (rates d)"
      by (auto simp: list_ex_iff is_window_def)
    with new None assms show ?thesis
      by (auto simp: rate_bump_def rate_count_def find_snoc rates_ok_def is_window_def split: option.splits)
  next
    case (Some r)
    then have r: "r \<in> set (rates d)" "is_window name w r" by (auto simp: find_Some_iff)
    then have ex: "list_ex (is_window name w) (rates d)" by (auto simp: list_ex_iff)
    have one: "is_window name w x \<longleftrightarrow> x = r" if "x \<in> set (rates d)" for x
      using assms(1) r that by (auto simp: rates_ok_def is_window_def distinct_map dest: inj_onD)
    have "count_where ?p (rates d) = (if r_count r < limit then 1 else 0)"
    proof (cases "r_count r < limit")
      case True
      have "filter ?p (rates d) = filter (\<lambda>x. x = r) (rates d)" using True one by (auto intro!: filter_cong)
      moreover have "length (filter (\<lambda>x. x = r) (rates d)) = 1"
        using assms(1) r(1) by (simp add: rates_ok_def distinct_map distinct_length_filter)
      ultimately show ?thesis using True by (simp add: count_where_def)
    qed (use one in \<open>auto simp: count_where_0\<close>)
    moreover have "find (is_window n v) (upd_where ?p (\<lambda>r. r\<lparr>r_count := r_count r + 1\<rparr>) (rates d))
        = map_option (\<lambda>r. if ?p r then r\<lparr>r_count := r_count r + 1\<rparr> else r) (find (is_window n v) (rates d))"
      by (rule find_upd_where) (simp add: is_window_def)
    moreover have "rates_ok (d\<lparr>rates := upd_where ?p (\<lambda>r. r\<lparr>r_count := r_count r + 1\<rparr>) (rates d)\<rparr>)"
      using assms(1) by (simp add: rates_ok_def)
    moreover have "\<not> is_window name w x" if "find (is_window n v) (rates d) = Some x" "\<not> (n = name \<and> v = w)" for x
      using that is_window_same[of n v x name w] by (auto simp: find_Some_iff)
    moreover have d': "changed = count_where ?p (rates d)"
        "d' = d\<lparr>rates := upd_where ?p (\<lambda>r. r\<lparr>r_count := r_count r + 1\<rparr>) (rates d)\<rparr>"
      using ex assms(3) by (auto simp: rate_bump_def Let_def)
    ultimately show ?thesis
      unfolding d' using Some r(2)
      by (cases "n = name \<and> v = w"; cases "find (is_window n v) (rates d)") (auto simp: rate_count_def)
  qed
  then show "(if rate_count name w d < limit then changed = 1 else changed = 0)"
    "rate_count n v d' = rate_count n v d + (if n = name \<and> v = w \<and> rate_count name w d < limit then 1 else 0)"
    "rates_ok d'" by auto
qed

lemma rate_limit_try_at:
  assumes "conn_ok c" "forward c" "rate_limit_try name limit per c = (r, c')"
  obtains w changed where "r = Ok (if changed > 0 then 1 else 0)" "rate_bump name w limit (db c) = (changed, db c')"
      "kept c c'" "\<exists>t. clock c \<le> t \<and> t \<le> clock c' \<and> w = window_start per t" "0 < limit" "0 < per"
  | "undone r c c'" "\<And>v. r \<noteq> Ok v"
proof (cases "\<exists>v. r = Ok v")
  case True
  with assms(3) obtain w c1 changed where pos: "0 < limit" "0 < per"
    and q: "query (\<lambda>t d. Inr (window_start per t)) c = (Ok w, c1)"
    and b: "exec (\<lambda>t d. Inr (rate_bump name w limit d)) c1 = (Ok changed, c')"
    and r: "r = Ok (if changed > 0 then 1 else 0)"
    unfolding rate_limit_try_def by (auto elim!: sbind_Ok split: if_splits)
  from q have w: "w = window_start per (clock c1)" "db c1 = db c" "kept c c1" by (auto elim!: query_Ok simp: kept_def)
  have l: "later c c1" using timely_query assms(2) q by (rule timelyD)
  have "later c1 c'" using timely_exec later_forward[OF l] b by (rule timelyD)
  with l w have "\<exists>t. clock c \<le> t \<and> t \<le> clock c' \<and> w = window_start per t" by (auto simp: later_def)
  moreover have "rate_bump name w limit (db c) = (changed, db c')" "kept c c'"
    using b w by (auto elim!: exec_Ok simp: kept_def)
  ultimately show thesis using r pos by (intro that(1))
next
  case False
  have "atomic_action (rate_limit_try name limit per) (\<lambda>_ _ _. True)"
    unfolding rate_limit_try_def
  proof (split if_split, intro conjI impI)
    have two: "atomic_action (sbind (exec (\<lambda>t d. Inr (rate_bump name w limit d)))
        (\<lambda>changed. sret (if changed > 0 then 1 else 0 :: int))) (\<lambda>_ _ _. True)" for w
      by (rule atomic_sbind[OF atomic_exec[where R = "\<lambda>_ _ _. True"]]) auto
    show "atomic_action (sbind (query (\<lambda>t d. Inr (window_start per t))) (\<lambda>w.
           sbind (exec (\<lambda>t d. Inr (rate_bump name w limit d))) (\<lambda>changed.
             sret (if changed > 0 then 1 else 0 :: int)))) (\<lambda>_ _ _. True)"
    proof (rule atomic_read_then[where P = "\<lambda>_ _. True"])
      show "atomic_action (query (\<lambda>t d. Inr (window_start per t))) (\<lambda>d a d'. d' = d \<and> True)"
        by (rule atomic_query) simp
    qed (use two in simp)
  qed (rule atomic_sfail)
  with False assms(1,3) show thesis by (intro that(2)) (auto dest: atomic_action.act_fail)
qed

text \<open>
  The calls on one name with one limit inside one window, with the number that were admitted;
  between them anything may happen that leaves the count of this window alone.
\<close>

inductive window_calls :: "string \<Rightarrow> int \<Rightarrow> int \<Rightarrow> int \<Rightarrow> honker_db \<Rightarrow> nat \<Rightarrow> bool"
  for name limit per w where
  start: "rates_ok d \<Longrightarrow> rate_count name w d = 0 \<Longrightarrow> window_calls name limit per w d 0"
| call: "window_calls name limit per w d k \<Longrightarrow> rate_limit_try name limit per (fresh_conn d t s) = (r, c')
    \<Longrightarrow> \<forall>e\<in>set s. 0 \<le> tick e \<Longrightarrow> \<forall>t'. t \<le> t' \<and> t' \<le> clock c' \<longrightarrow> window_start per t' = w
    \<Longrightarrow> window_calls name limit per w (disk c') (if r = Ok 1 then Suc k else k)"
| other: "window_calls name limit per w d k \<Longrightarrow> rates_ok d' \<Longrightarrow> rate_count name w d' = rate_count name w d
    \<Longrightarrow> window_calls name limit per w d' k"

lemma window_calls_count:
  "window_calls name limit per w d k \<Longrightarrow> rates_ok d \<and> rate_count name w d = int k \<and> (k = 0 \<or> int k \<le> limit)"
proof (induction rule: window_calls.induct)
  case (call d k t s r c')
  have fw: "forward (fresh_conn d t s)" using call.hyps(3) by simp
  show ?case
  proof (cases rule: rate_limit_try_at[OF _ fw call.hyps(2)])
    case (2 w' changed)
    from 2(4) call.hyps(4) have w': "w' = w" by auto
    have disk: "disk c' = db c'" using 2(3) by (simp add: kept_def)
    note bump = rate_bump_count[OF _ 2(5), of d name w changed "db c'"]
    have "rate_bump name w limit d = (changed, db c')" using 2(2) w' by simp
    with bump call.IH have "if int k < limit then changed = 1 else changed = 0"
      "rate_count name w (db c') = int k + (if int k < limit then 1 else 0)" "rates_ok (db c')" by auto
    with 2(1) disk call.IH show ?thesis by (auto split: if_splits)
  next
    case 3
    then have "disk c' = d" "r \<noteq> Ok 1" by (auto simp: undone_def)
    with call.IH show ?thesis by simp
  qed simp
qed auto

text \<open>
  C39. No window admits more than its limit: over any sequence of calls on one name whose clocks
  lie in one window, failed calls and calls on other names included, at most \<open>limit\<close> calls are
  answered with 1.
\<close>

theorem rate_limit_respected:
  assumes "window_calls name limit per w d k" "0 < limit"
  shows "int k \<le> limit \<and> rate_count name w d = int k"
  using window_calls_count[OF assms(1)] assms(2) by auto

theorem rate_limit_respected_witness:
  "int 1 \<le> 1 \<and> rate_count ''n'' 60 (disk (snd (rate_limit_try ''n'' 1 60
     (fresh_conn (disk (snd (rate_limit_try ''n'' 1 60 (fresh_conn empty_db 70 [])))) 80 [])))) = int 1"
proof -
  let ?d1 = "disk (snd (rate_limit_try ''n'' 1 60 (fresh_conn empty_db 70 [])))"
  let ?d2 = "disk (snd (rate_limit_try ''n'' 1 60 (fresh_conn ?d1 80 [])))"
  have win: "window_start 60 t = 60" if "60 \<le> t" "t < 120" for t
  proof -
    have "t div 60 = 1" using that by (simp add: div_pos_geq)
    with that show ?thesis by (simp add: window_start_def trunc_div_def)
  qed
  have r: "fst (rate_limit_try ''n'' 1 60 (fresh_conn empty_db 70 [])) = Ok 1"
    "fst (rate_limit_try ''n'' 1 60 (fresh_conn ?d1 80 [])) = Ok 0"
    "clock (snd (rate_limit_try ''n'' 1 60 (fresh_conn empty_db 70 []))) = 70"
    "clock (snd (rate_limit_try ''n'' 1 60 (fresh_conn ?d1 80 []))) = 80" by code_simp+
  have w0: "window_calls ''n'' 1 60 60 empty_db 0"
    by (rule window_calls.start) (simp_all add: rates_ok_def rate_count_def)
  have w1: "window_calls ''n'' 1 60 60 ?d1 1"
    using window_calls.call[OF w0 prod.collapse[symmetric], where t = 70 and s = "[]"] r win by simp
  have "window_calls ''n'' 1 60 60 ?d2 1"
    using window_calls.call[OF w1 prod.collapse[symmetric], where t = 80 and s = "[]"] r win by simp
  then show ?thesis by (rule rate_limit_respected) simp
qed

section \<open>Results\<close>

text \<open>An upsert on the job id: a conflict keeps the creation time.\<close>

definition upsert_result :: "int \<Rightarrow> string \<Rightarrow> int option \<Rightarrow> int \<Rightarrow> honker_db \<Rightarrow> honker_db" where
  "upsert_result job_id value expires_at t d =
     (if list_ex (\<lambda>r. res_job_id r = job_id) (results d)
      then d\<lparr>results := upd_where (\<lambda>r. res_job_id r = job_id)
              (\<lambda>r. r\<lparr>res_value := Some value, res_expires_at := expires_at\<rparr>) (results d)\<rparr>
      else d\<lparr>results := results d @ [\<lparr>res_job_id = job_id, res_value = Some value,
              res_created_at = t, res_expires_at = expires_at\<rparr>]\<rparr>)"

definition result_save :: "int \<Rightarrow> string \<Rightarrow> int \<Rightarrow> int haction" where
  "result_save job_id value ttl_s =
     (if ttl_s > 0
      then sbind (exec (\<lambda>t d. Inr ((), upsert_result job_id value (Some (t + ttl_s)) t d))) (\<lambda>_. sret 1)
      else sbind (exec (\<lambda>t d. Inr ((), upsert_result job_id value None t d))) (\<lambda>_. sret 1))"

definition find_result :: "int \<Rightarrow> honker_db \<Rightarrow> (string option \<times> int option) option" where
  "find_result job_id d =
     map_option (\<lambda>r. (res_value r, res_expires_at r)) (find (\<lambda>r. res_job_id r = job_id) (results d))"

definition result_get :: "int \<Rightarrow> string option haction" where
  "result_get job_id =
     sbind (query (\<lambda>t d. Inr (find_result job_id d))) (\<lambda>row.
       case row of
         None \<Rightarrow> sret None
       | Some (value, None) \<Rightarrow> sret value
       | Some (value, Some exp) \<Rightarrow> sbind now_unix (\<lambda>now. sret (if exp \<le> now then None else value)))"

definition result_sweep :: "int haction" where
  "result_sweep = exec (\<lambda>t d. let p = (\<lambda>r. null_le (res_expires_at r) t) in
     Inr (count_where p (results d), d\<lparr>results := del_where p (results d)\<rparr>))"

lemma find_upsert_result:
  "find_result i (upsert_result job_id value e t d) = (if i = job_id then Some (Some value, e) else find_result i d)"
proof (cases "list_ex (\<lambda>r. res_job_id r = job_id) (results d)")
  case True
  have "find (\<lambda>r. res_job_id r = i) (upd_where (\<lambda>r. res_job_id r = job_id)
      (\<lambda>r. r\<lparr>res_value := Some value, res_expires_at := e\<rparr>) (results d))
    = map_option (\<lambda>r. if res_job_id r = job_id then r\<lparr>res_value := Some value, res_expires_at := e\<rparr> else r)
        (find (\<lambda>r. res_job_id r = i) (results d))"
    by (rule find_upd_where) simp
  note upd = this
  show ?thesis
  proof (cases "find (\<lambda>r. res_job_id r = i) (results d)")
    case None
    then have "i \<noteq> job_id" using True by (auto simp: find_None_iff list_ex_iff)
    with upd None True show ?thesis by (simp add: upsert_result_def find_result_def)
  next
    case (Some r)
    then have "res_job_id r = i" by (auto simp: find_Some_iff)
    with upd Some True show ?thesis by (simp add: upsert_result_def find_result_def)
  qed
next
  case False
  then have "find (\<lambda>r. res_job_id r = job_id) (results d) = None" by (auto simp: find_None_iff list_ex_iff)
  with False show ?thesis by (auto simp: upsert_result_def find_result_def find_snoc split: option.splits)
qed

lemma result_save_Ok:
  assumes "result_save job_id value ttl_s c = (Ok n, c')"
  shows "n = 1 \<and> find_result i (db c') = (if i = job_id
      then Some (Some value, if ttl_s > 0 then Some (clock c' + ttl_s) else None) else find_result i (db c))"
  using assms unfolding result_save_def
  by (auto elim!: sbind_Ok dest!: exec_OkD simp: find_upsert_result split: if_splits)

lemma result_get_Ok:
  assumes "result_get job_id c = (Ok out, c')" "forward c"
  shows "db c' = db c \<and> clock c \<le> clock c' \<and> out = (case find_result job_id (db c) of
      None \<Rightarrow> None
    | Some (value, None) \<Rightarrow> value
    | Some (value, Some exp) \<Rightarrow> if exp \<le> clock c' then None else value)"
proof -
  have "timely (result_get job_id)"
    unfolding result_get_def by (auto intro!: timely_intros split: option.splits)
  then have "later c c'" using assms(2,1) by (rule timelyD)
  then show ?thesis
    using assms(1) unfolding result_get_def
    by (auto elim!: sbind_Ok query_Ok now_unix_Ok simp: later_def split: option.splits)
qed

text \<open>
  A saved result can be read back until it expires: a lookup after a save returns the saved
  value if it has no time to live or if the time has not run out by the end of the lookup, and
  nothing once it ran out before the lookup began; a later save replaces an earlier one, and
  other jobs' results are untouched.
\<close>

theorem result_round_trip:
  assumes "forward c" "result_save job_id value ttl_s c = (Ok n, c1)"
    and "forward c2" "db c2 = db c1" "result_get i c2 = (Ok out, c3)"
  shows "(i = job_id \<and> (ttl_s \<le> 0 \<or> clock c3 < clock c1 + ttl_s) \<longrightarrow> out = Some value)
    \<and> (i = job_id \<and> 0 < ttl_s \<and> clock c1 + ttl_s \<le> clock c2 \<longrightarrow> out = None)
    \<and> (i \<noteq> job_id \<longrightarrow> find_result i (db c2) = find_result i (db c))"
  using result_save_Ok[OF assms(2), of i] result_get_Ok[OF assms(5,3)] assms(4) by auto

theorem result_round_trip_witness:
  "let c1 = snd (result_save 7 ''v'' 10 (fresh_conn empty_db 100 [])) in
   fst (result_get 7 (fresh_conn (db c1) 109 [])) = Ok (Some ''v'') \<and> fst (result_get 7 (fresh_conn (db c1) 110 [])) = Ok None"
proof -
  let ?c1 = "snd (result_save 7 ''v'' 10 (fresh_conn empty_db 100 []))"
  have s: "result_save 7 ''v'' 10 (fresh_conn empty_db 100 []) = (Ok 1, ?c1)" by (rule prod_eqI) (code_simp, simp)
  let ?g = "\<lambda>t. result_get 7 (fresh_conn (db ?c1) t [])"
  have g: "\<exists>v. fst (?g 109) = Ok v" "\<exists>v. fst (?g 110) = Ok v" by (rule exI, code_simp)+
  then obtain u v where "?g 109 = (Ok u, snd (?g 109))" "?g 110 = (Ok v, snd (?g 110))" by (metis prod.collapse)
  moreover have "clock ?c1 = 100" "clock (snd (?g 109)) = 109" by code_simp+
  ultimately have "u = Some ''v'' \<and> v = None \<and> ?g 109 = (Ok u, snd (?g 109)) \<and> ?g 110 = (Ok v, snd (?g 110))"
    using result_round_trip[OF _ s, of "fresh_conn (db ?c1) 109 []" 7 u "snd (?g 109)"]
      result_round_trip[OF _ s, of "fresh_conn (db ?c1) 110 []" 7 v "snd (?g 110)"] by auto
  then show ?thesis by (metis fst_conv)
qed

end
