(* ===== verification/Text.thy ===== *)
theory Text
  imports Honker_Base
begin

text \<open>
  The string functions of the Rust standard library the schedule parser uses, on ASCII text:
  trimming and splitting, prefixes, the parsing of unsigned decimal numbers, and comparison without case.
\<close>

definition is_space :: "char \<Rightarrow> bool" where
  "is_space c \<longleftrightarrow> of_char c \<in> {9, 10, 11, 12, 13, 32 :: nat}"

definition trim :: "string \<Rightarrow> string" where
  "trim s = rev (dropWhile is_space (rev (dropWhile is_space s)))"

fun split_by :: "(char \<Rightarrow> bool) \<Rightarrow> string \<Rightarrow> string list" where
  "split_by p [] = [[]]"
| "split_by p (c # cs) = (if p c then [] # split_by p cs
     else (case split_by p cs of [] \<Rightarrow> [[c]] | w # ws \<Rightarrow> (c # w) # ws))"

definition split_whitespace :: "string \<Rightarrow> string list" where
  "split_whitespace s = filter (\<lambda>w. w \<noteq> []) (split_by is_space s)"

definition split_once :: "char \<Rightarrow> string \<Rightarrow> (string \<times> string) option" where
  "split_once ch s = (if ch \<in> set s
     then Some (takeWhile (\<lambda>c. c \<noteq> ch) s, tl (dropWhile (\<lambda>c. c \<noteq> ch) s)) else None)"

definition strip_prefix :: "string \<Rightarrow> string \<Rightarrow> string option" where
  "strip_prefix p s = (if take (length p) s = p then Some (drop (length p) s) else None)"

definition is_digit :: "char \<Rightarrow> bool" where
  "is_digit c \<longleftrightarrow> 48 \<le> (of_char c :: nat) \<and> (of_char c :: nat) \<le> 57"

definition digits_value :: "string \<Rightarrow> int" where
  "digits_value s = foldl (\<lambda>a c. 10 * a + (int (of_char c) - 48)) 0 s"

text \<open>\<^verbatim>\<open>str::parse\<close> of a number with the largest value \<open>m\<close>: an optional \<open>+\<close>, then digits only.\<close>

definition parse_number :: "int \<Rightarrow> string \<Rightarrow> int option" where
  "parse_number m s = (let body = (case s of CHR ''+'' # r \<Rightarrow> r | _ \<Rightarrow> s) in
     if body \<noteq> [] \<and> list_all is_digit body \<and> digits_value body \<le> m then Some (digits_value body) else None)"

definition lower_char :: "char \<Rightarrow> char" where
  "lower_char c = (if 65 \<le> (of_char c :: nat) \<and> (of_char c :: nat) \<le> 90 then char_of ((of_char c :: nat) + 32) else c)"

definition eq_ignore_ascii_case :: "string \<Rightarrow> string \<Rightarrow> bool" where
  "eq_ignore_ascii_case a b \<longleftrightarrow> map lower_char a = map lower_char b"

definition to_lowercase :: "string \<Rightarrow> string" where
  "to_lowercase s = map lower_char s"

definition contains :: "string \<Rightarrow> string \<Rightarrow> bool" where
  "contains s pat \<longleftrightarrow> list_ex (\<lambda>k. take (length pat) (drop k s) = pat) [0..<Suc (length s)]"

definition u32_max :: int where "u32_max = 2 ^ 32 - 1"

abbreviation parse_u32 :: "string \<Rightarrow> int option" where "parse_u32 \<equiv> parse_number u32_max"
abbreviation parse_i64 :: "string \<Rightarrow> int option" where "parse_i64 \<equiv> parse_number i64_max"

lemma digits_value_snoc: "digits_value (s @ [c]) = 10 * digits_value s + (int (of_char c) - 48)"
  by (simp add: digits_value_def)

lemma digits_value_nonneg: "list_all is_digit s \<Longrightarrow> 0 \<le> digits_value s"
proof (induction s rule: rev_induct)
  case (snoc c s)
  from snoc.prems have "48 \<le> (of_char c :: nat)" by (simp add: is_digit_def)
  with snoc show ?case by (simp add: digits_value_snoc)
qed (simp add: digits_value_def)

lemma parse_number_range: "parse_number m s = Some n \<Longrightarrow> 0 \<le> n \<and> n \<le> m"
  by (auto simp: parse_number_def Let_def digits_value_nonneg split: if_splits)

end
