(* ===== verification/Cron.thy ===== *)
theory Cron
  imports Text
begin

text \<open>
  The schedule expressions of \<^verbatim>\<open>cron.rs\<close>: the parser, the search for the next matching local
  time, and its translation to a timestamp. The calendar and the time zone come from the crate
  \<^verbatim>\<open>chrono\<close> and are parameters; what the code relies on of them is the locale \<open>calendar\<close>
  and the predicate \<open>zone_ok\<close>.
\<close>

section \<open>The crate \<^verbatim>\<open>chrono\<close>\<close>

datatype weekday = Mon | Tue | Wed | Thu | Fri | Sat | Sun

text \<open>
  A naive local time is the number of seconds since some midnight. The calendar gives the date
  and weekday of a day number and the day number of a date, and the first and last
  time it can represent.
\<close>

record chrono =
  ymd :: "int \<Rightarrow> int \<times> int \<times> int"
  weekday :: "int \<Rightarrow> weekday"
  from_ymd :: "int \<Rightarrow> int \<Rightarrow> int \<Rightarrow> int option"
  dt_min :: int
  dt_max :: int

datatype local_result = NoLocal | Single int | Ambiguous int int

text \<open>\<open>timestamp_opt\<close> followed by \<open>naive_local\<close>, and \<open>from_local_datetime\<close> followed by \<open>timestamp\<close>.\<close>

record timezone =
  timestamp_opt :: "int \<Rightarrow> local_result"
  from_local :: "int \<Rightarrow> local_result"

definition dt_ok :: "chrono \<Rightarrow> int \<Rightarrow> bool" where
  "dt_ok cal t \<longleftrightarrow> dt_min cal \<le> t \<and> t \<le> dt_max cal"

definition dt_year :: "chrono \<Rightarrow> int \<Rightarrow> int" where "dt_year cal t = fst (ymd cal (t div 86400))"
definition dt_month :: "chrono \<Rightarrow> int \<Rightarrow> int" where "dt_month cal t = fst (snd (ymd cal (t div 86400)))"
definition dt_day :: "chrono \<Rightarrow> int \<Rightarrow> int" where "dt_day cal t = snd (snd (ymd cal (t div 86400)))"
definition dt_hour :: "int \<Rightarrow> int" where "dt_hour t = t mod 86400 div 3600"
definition dt_minute :: "int \<Rightarrow> int" where "dt_minute t = t mod 3600 div 60"
definition dt_second :: "int \<Rightarrow> int" where "dt_second t = t mod 60"

text \<open>Adding a duration panics when the result cannot be represented.\<close>

definition dt_plus :: "chrono \<Rightarrow> int \<Rightarrow> int \<Rightarrow> int option" where
  "dt_plus cal t s = (if dt_ok cal (t + s) then Some (t + s) else None)"

section \<open>Parsing\<close>

record cron_schedule =
  seconds :: "int list"
  minutes :: "int list"
  hours :: "int list"
  days :: "int list"
  months :: "int list"
  dows :: "int list"

datatype schedule_expr = Every int | Cron cron_schedule

definition unit_seconds :: "string \<Rightarrow> int option" where
  "unit_seconds u = (if u = ''s'' then Some 1 else if u = ''m'' then Some 60
     else if u = ''h'' then Some (60 * 60) else if u = ''d'' then Some (60 * 60 * 24) else None)"

definition parse_every_interval :: "string \<Rightarrow> cron_err + int" where
  "parse_every_interval body =
     (if body = [] then Inl EveryMissing
      else (let digits = takeWhile is_digit body; unit = dropWhile is_digit body in
        if digits = [] \<or> unit = [] then Inl (EveryShape body)
        else (case parse_i64 digits of
            None \<Rightarrow> Inl (EveryNotInteger body)
          | Some n \<Rightarrow>
              if n \<le> 0 then Inl (EveryNotPositive body)
              else (case unit_seconds unit of
                  None \<Rightarrow> Inl (EveryUnit unit)
                | Some factor \<Rightarrow> (case checked_i64 (n * factor) of
                      None \<Rightarrow> Inl (EveryTooLarge body)
                    | Some s \<Rightarrow> Inr s)))))"

text \<open>\<^verbatim>\<open>"base/step"\<close>, then \<^verbatim>\<open>"*"\<close>, \<^verbatim>\<open>"a-b"\<close> or \<^verbatim>\<open>"a"\<close>.\<close>

definition parse_step :: "string \<Rightarrow> cron_err + string \<times> int" where
  "parse_step part = (case split_once CHR ''/'' part of
       None \<Rightarrow> Inr (part, 1)
     | Some (r, s) \<Rightarrow> (case parse_u32 s of
           None \<Rightarrow> Inl (StepNotInteger part)
         | Some step \<Rightarrow> if step = 0 then Inl (StepNotPositive part) else Inr (r, step)))"

definition parse_range :: "string \<Rightarrow> string \<Rightarrow> int \<Rightarrow> int \<Rightarrow> cron_err + int \<times> int" where
  "parse_range part range_part lo hi =
     (if range_part = ''*'' then Inr (lo, hi)
      else (case split_once CHR ''-'' range_part of
          Some (a, b) \<Rightarrow> (case parse_u32 a of
              None \<Rightarrow> Inl (FieldNotInteger part)
            | Some a \<Rightarrow> (case parse_u32 b of
                  None \<Rightarrow> Inl (FieldNotInteger part)
                | Some b \<Rightarrow> Inr (a, b)))
        | None \<Rightarrow> (case parse_u32 range_part of
              None \<Rightarrow> Inl (FieldNotInteger part)
            | Some v \<Rightarrow> Inr (v, v))))"

text \<open>
  The \<open>while v <= end\<close> loop. The range check before it keeps \<open>end\<close> far below the saturation
  point of \<open>v\<close>, which is where it could run for ever.
\<close>

function step_values :: "int \<Rightarrow> int \<Rightarrow> int \<Rightarrow> int list" where
  "step_values v e step = (if v \<le> e \<and> 0 < step \<and> e < u32_max
     then v # step_values (min u32_max (v + step)) e step else [])"
  by pat_completeness auto
termination by (relation "measure (\<lambda>(v, e, step). nat (e + 1 - v))") (auto simp: u32_max_def)

declare step_values.simps [simp del]

text \<open>A \<^verbatim>\<open>BTreeSet\<close> is the ascending list of its elements.\<close>

definition insert_all :: "int list \<Rightarrow> int list \<Rightarrow> int list" where
  "insert_all vs out = foldl (\<lambda>s v. insort_insert v s) out vs"

fun parse_parts :: "int \<Rightarrow> int \<Rightarrow> string list \<Rightarrow> int list \<Rightarrow> cron_err + int list" where
  "parse_parts lo hi [] out = Inr out"
| "parse_parts lo hi (part # parts) out =
     (case parse_step part of
        Inl e \<Rightarrow> Inl e
      | Inr (range_part, step) \<Rightarrow>
          (case parse_range part range_part lo hi of
             Inl e \<Rightarrow> Inl e
           | Inr (start, end') \<Rightarrow>
               if start < lo \<or> end' > hi \<or> start > end' then Inl (FieldRange part (nat lo) (nat hi))
               else parse_parts lo hi parts (insert_all (step_values start end' step) out)))"

definition parse_field :: "string \<Rightarrow> int \<Rightarrow> int \<Rightarrow> cron_err + int list" where
  "parse_field field lo hi = parse_parts lo hi (split_by (\<lambda>c. c = CHR '','') field) []"

definition ebind :: "('e + 'a) \<Rightarrow> ('a \<Rightarrow> 'e + 'b) \<Rightarrow> 'e + 'b" where
  "ebind x f = (case x of Inl e \<Rightarrow> Inl e | Inr a \<Rightarrow> f a)"

definition parse_date_fields ::
  "int list \<Rightarrow> string \<Rightarrow> string \<Rightarrow> string \<Rightarrow> string \<Rightarrow> string \<Rightarrow> cron_err + cron_schedule" where
  "parse_date_fields secs f0 f1 f2 f3 f4 =
     ebind (parse_field f0 0 59) (\<lambda>mi. ebind (parse_field f1 0 23) (\<lambda>h.
     ebind (parse_field f2 1 31) (\<lambda>d. ebind (parse_field f3 1 12) (\<lambda>mo.
     ebind (parse_field f4 0 6) (\<lambda>dw.
       Inr \<lparr>seconds = secs, minutes = mi, hours = h, days = d, months = mo, dows = dw\<rparr>)))))"

definition parse_cron :: "string \<Rightarrow> cron_err + cron_schedule" where
  "parse_cron expr = (case split_whitespace expr of
       [f0, f1, f2, f3, f4] \<Rightarrow> parse_date_fields [0] f0 f1 f2 f3 f4
     | [f0, f1, f2, f3, f4, f5] \<Rightarrow>
         ebind (parse_field f0 0 59) (\<lambda>secs. parse_date_fields secs f1 f2 f3 f4 f5)
     | parts \<Rightarrow> Inl (FieldCount (length parts) expr))"

definition parse_schedule :: "string \<Rightarrow> cron_err + schedule_expr" where
  "parse_schedule expr = (let expr = trim expr in
     case strip_prefix ''@every'' expr of
       Some rest \<Rightarrow> ebind (parse_every_interval (trim rest)) (\<lambda>s. Inr (Every s))
     | None \<Rightarrow> ebind (parse_cron expr) (\<lambda>s. Inr (Cron s)))"

section \<open>Matching\<close>

fun cron_dow :: "weekday \<Rightarrow> int" where
  "cron_dow Sun = 0" | "cron_dow Mon = 1" | "cron_dow Tue = 2" | "cron_dow Wed = 3"
| "cron_dow Thu = 4" | "cron_dow Fri = 5" | "cron_dow Sat = 6"

definition cron_day_matches :: "chrono \<Rightarrow> cron_schedule \<Rightarrow> int \<Rightarrow> bool" where
  "cron_day_matches cal sched t \<longleftrightarrow>
     dt_day cal t \<in> set (days sched) \<and> cron_dow (weekday cal (t div 86400)) \<in> set (dows sched)"

definition matches :: "chrono \<Rightarrow> cron_schedule \<Rightarrow> int \<Rightarrow> bool" where
  "matches cal sched t \<longleftrightarrow> dt_second t \<in> set (seconds sched) \<and> dt_minute t \<in> set (minutes sched)
     \<and> dt_hour t \<in> set (hours sched) \<and> dt_day cal t \<in> set (days sched)
     \<and> dt_month cal t \<in> set (months sched) \<and> cron_dow (weekday cal (t div 86400)) \<in> set (dows sched)"

section \<open>The search\<close>

text \<open>\<open>None\<close> is the panic of an invalid date or of an empty set.\<close>

definition make_dt :: "chrono \<Rightarrow> int \<Rightarrow> int \<Rightarrow> int \<Rightarrow> int \<Rightarrow> int \<Rightarrow> int \<Rightarrow> int option" where
  "make_dt cal year month day hour minute second = (case from_ymd cal year month day of
       None \<Rightarrow> None
     | Some n \<Rightarrow> if 0 \<le> hour \<and> hour < 24 \<and> 0 \<le> minute \<and> minute < 60 \<and> 0 \<le> second \<and> second < 60
         then Some (n * 86400 + hour * 3600 + minute * 60 + second) else None)"

definition next_or_first :: "int list \<Rightarrow> int \<Rightarrow> (int \<times> bool) option" where
  "next_or_first vs current = (case find (\<lambda>v. current \<le> v) vs of
       Some v \<Rightarrow> Some (v, False)
     | None \<Rightarrow> (case vs of [] \<Rightarrow> None | v # _ \<Rightarrow> Some (v, True)))"

definition obind :: "'a option \<Rightarrow> ('a \<Rightarrow> 'b option) \<Rightarrow> 'b option" where
  "obind x f = (case x of None \<Rightarrow> None | Some a \<Rightarrow> f a)"

text \<open>Midnight, the full hour and the full minute of a time, as the code rebuilds them.\<close>

definition at_day :: "chrono \<Rightarrow> int \<Rightarrow> int \<Rightarrow> int \<Rightarrow> int \<Rightarrow> int option" where
  "at_day cal t h mi s = make_dt cal (dt_year cal t) (dt_month cal t) (dt_day cal t) h mi s"

text \<open>One round of the loop: the next candidate, or the candidate itself when every field fits.\<close>

datatype cron_round = Skip int | Found int | Boom

definition skip_to :: "int option \<Rightarrow> cron_round" where
  "skip_to x = (case x of None \<Rightarrow> Boom | Some c \<Rightarrow> Skip c)"

definition cron_round :: "chrono \<Rightarrow> cron_schedule \<Rightarrow> int \<Rightarrow> cron_round" where
  "cron_round cal sched cand =
     (if dt_month cal cand \<notin> set (months sched) then
        skip_to (obind (next_or_first (months sched) (dt_month cal cand)) (\<lambda>(next_month, wrapped).
          make_dt cal (if wrapped then dt_year cal cand + 1 else dt_year cal cand) next_month 1 0 0 0))
      else if \<not> cron_day_matches cal sched cand then
        skip_to (obind (at_day cal cand 0 0 0) (\<lambda>d. dt_plus cal d 86400))
      else if dt_hour cand \<notin> set (hours sched) then
        skip_to (obind (next_or_first (hours sched) (dt_hour cand)) (\<lambda>(next_hour, wrapped).
          if wrapped then obind (at_day cal cand 0 0 0) (\<lambda>d. obind (dt_plus cal d 86400) (\<lambda>c.
            at_day cal c next_hour 0 0))
          else at_day cal cand next_hour 0 0))
      else if dt_minute cand \<notin> set (minutes sched) then
        skip_to (obind (next_or_first (minutes sched) (dt_minute cand)) (\<lambda>(next_minute, wrapped).
          if wrapped then obind (at_day cal cand (dt_hour cand) 0 0) (\<lambda>d. obind (dt_plus cal d 3600) (\<lambda>c.
            at_day cal c (dt_hour c) next_minute 0))
          else at_day cal cand (dt_hour cand) next_minute 0))
      else if dt_second cand \<notin> set (seconds sched) then
        skip_to (obind (next_or_first (seconds sched) (dt_second cand)) (\<lambda>(next_second, wrapped).
          if wrapped then obind (at_day cal cand (dt_hour cand) (dt_minute cand) 0) (\<lambda>d. obind (dt_plus cal d 60) (\<lambda>c.
            at_day cal c (dt_hour c) (dt_minute c) next_second))
          else at_day cal cand (dt_hour cand) (dt_minute cand) next_second))
      else if matches cal sched cand then Found cand
      else skip_to (dt_plus cal cand 1))"

datatype 'a cron_res = COk 'a | CErr cron_err | CPanic

text \<open>The \<open>while\<close> loop; a run that never ended would be \<open>None\<close>.\<close>

partial_function (option) cron_loop :: "chrono \<Rightarrow> cron_schedule \<Rightarrow> int \<Rightarrow> int \<Rightarrow> int cron_res option" where
  "cron_loop cal sched cap_year cand =
     (if dt_year cal cand \<le> cap_year
      then (case cron_round cal sched cand of
          Skip c \<Rightarrow> cron_loop cal sched cap_year c
        | Found c \<Rightarrow> Some (COk c)
        | Boom \<Rightarrow> Some CPanic)
      else Some (CErr NoMatchIn100Years))"

definition cron_next_after_naive :: "chrono \<Rightarrow> cron_schedule \<Rightarrow> int \<Rightarrow> int cron_res option" where
  "cron_next_after_naive cal sched start = (case dt_plus cal start 1 of
       None \<Rightarrow> Some CPanic
     | Some cand \<Rightarrow> cron_loop cal sched (dt_year cal cand + 100) cand)"

section \<open>Timestamps\<close>

text \<open>The second loop skips local times that do not exist.\<close>

partial_function (option) local_loop ::
  "chrono \<Rightarrow> timezone \<Rightarrow> int \<Rightarrow> string \<Rightarrow> int \<Rightarrow> int \<Rightarrow> int cron_res option" where
  "local_loop cal tz from_unix expr cap_year cand =
     (if dt_year cal cand \<le> cap_year
      then (case from_local tz cand of
          Single t \<Rightarrow> Some (COk t)
        | Ambiguous t u \<Rightarrow> Some (COk t)
        | NoLocal \<Rightarrow> (case dt_plus cal cand 1 of
              None \<Rightarrow> Some CPanic
            | Some c \<Rightarrow> local_loop cal tz from_unix expr cap_year c))
      else Some (CErr (NoLocalMatchIn100Years from_unix expr)))"

declare cron_loop.simps [code] local_loop.simps [code]

definition next_cron :: "chrono \<Rightarrow> timezone \<Rightarrow> string \<Rightarrow> cron_schedule \<Rightarrow> int \<Rightarrow> int cron_res option" where
  "next_cron cal tz expr sched from_unix =
     (case (case timestamp_opt tz from_unix of
              Single t \<Rightarrow> Some t | Ambiguous t u \<Rightarrow> Some t | NoLocal \<Rightarrow> None) of
        None \<Rightarrow> Some (CErr (InvalidTimestamp from_unix))
      | Some naive \<Rightarrow> (case cron_next_after_naive cal sched naive of
            Some (COk cand) \<Rightarrow> local_loop cal tz from_unix expr (dt_year cal cand + 100) cand
          | other \<Rightarrow> other))"

definition next_after_unix :: "chrono \<Rightarrow> timezone \<Rightarrow> string \<Rightarrow> int \<Rightarrow> int cron_res option" where
  "next_after_unix cal tz expr from_unix = (case parse_schedule expr of
       Inl e \<Rightarrow> Some (CErr e)
     | Inr (Every interval_s) \<Rightarrow> (case checked_i64 (from_unix + interval_s) of
           None \<Rightarrow> Some (CErr (IntervalOverflow expr))
         | Some t \<Rightarrow> Some (COk t))
     | Inr (Cron sched) \<Rightarrow> next_cron cal tz expr sched from_unix)"

end
