(* ===== verification/Cron_Thms.thy ===== *)
theory Cron_Thms
  imports Cron
begin

text \<open>
  The schedule calculator finds the first matching local time: every jump of the search passes
  only over times that do not match, the search ends, and it fails only when no time of the
  next hundred years matches. The contract of the calendar crate is the locale \<open>calendar\<close>.
\<close>

section \<open>The contract of the calendar\<close>

definition day_ok :: "chrono \<Rightarrow> int \<Rightarrow> bool" where
  "day_ok cal n \<longleftrightarrow> dt_min cal div 86400 \<le> n \<and> n \<le> dt_max cal div 86400"

text \<open>
  Documented behaviour of \<^verbatim>\<open>chrono\<close>: dates are ordered as their fields, the constructor is
  the inverse of the fields, months have a first day, and the representable times are whole days
  up to the end of a year.
\<close>

locale calendar =
  fixes cal :: chrono
  assumes order: "day_ok cal n \<Longrightarrow> day_ok cal k \<Longrightarrow> n < k \<Longrightarrow> ymd cal n < ymd cal k"
    and fields: "day_ok cal n \<Longrightarrow> ymd cal n = (y, m, d) \<Longrightarrow> 1 \<le> m \<and> m \<le> 12 \<and> 1 \<le> d \<and> d \<le> 31"
    and from_ymd_iff: "from_ymd cal y m d = Some n \<longleftrightarrow> day_ok cal n \<and> ymd cal n = (y, m, d)"
    and first_of_month: "day_ok cal n \<Longrightarrow> fst (ymd cal n) \<le> y \<Longrightarrow> y \<le> fst (ymd cal (dt_max cal div 86400))
      \<Longrightarrow> 1 \<le> m \<Longrightarrow> m \<le> 12 \<Longrightarrow> \<exists>k. from_ymd cal y m 1 = Some k"
    and whole_days: "dt_min cal mod 86400 = 0" "dt_max cal mod 86400 = 86399"
    and year_end: "snd (ymd cal (dt_max cal div 86400)) = (12, 31)"

section \<open>Fields of a schedule\<close>

definition field_ok :: "int \<Rightarrow> int \<Rightarrow> int list \<Rightarrow> bool" where
  "field_ok lo hi vs \<longleftrightarrow> vs \<noteq> [] \<and> sorted vs \<and> (\<forall>v\<in>set vs. lo \<le> v \<and> v \<le> hi)"

definition sched_ok :: "cron_schedule \<Rightarrow> bool" where
  "sched_ok s \<longleftrightarrow> field_ok 0 59 (seconds s) \<and> field_ok 0 59 (minutes s) \<and> field_ok 0 23 (hours s)
     \<and> field_ok 1 31 (days s) \<and> field_ok 1 12 (months s) \<and> field_ok 0 6 (dows s)"

lemma find_least:
  fixes vs :: "int list"
  assumes "sorted vs" "find (\<lambda>v. x \<le> v) vs = Some v"
  shows "v \<in> set vs \<and> x \<le> v \<and> (u \<in> set vs \<longrightarrow> x \<le> u \<longrightarrow> v \<le> u)"
  using assms by (induction vs) (auto split: if_splits)

lemma next_or_first_cases:
  assumes "sorted vs" "next_or_first vs x = Some (v, w)"
  shows "v \<in> set vs" "w \<Longrightarrow> u \<in> set vs \<Longrightarrow> u < x \<and> v \<le> u" "\<not> w \<Longrightarrow> x \<le> v"
    "\<not> w \<Longrightarrow> u \<in> set vs \<Longrightarrow> x \<le> u \<Longrightarrow> v \<le> u"
proof -
  consider "find (\<lambda>v. x \<le> v) vs = Some v" "\<not> w" | "find (\<lambda>v. x \<le> v) vs = None" "\<exists>r. vs = v # r" w
    using assms(2) by (auto simp: next_or_first_def split: option.splits list.splits)
  then have "v \<in> set vs \<and> (w \<longrightarrow> u \<in> set vs \<longrightarrow> u < x \<and> v \<le> u) \<and> (\<not> w \<longrightarrow> x \<le> v)
      \<and> (\<not> w \<longrightarrow> u \<in> set vs \<longrightarrow> x \<le> u \<longrightarrow> v \<le> u)"
    using assms(1) find_least[OF assms(1), of x v u] by cases (auto simp: find_None_iff)
  then show "v \<in> set vs" "w \<Longrightarrow> u \<in> set vs \<Longrightarrow> u < x \<and> v \<le> u" "\<not> w \<Longrightarrow> x \<le> v"
    "\<not> w \<Longrightarrow> u \<in> set vs \<Longrightarrow> x \<le> u \<Longrightarrow> v \<le> u" by auto
qed

lemma next_or_first_None: "next_or_first vs x = None \<longleftrightarrow> vs = []"
  by (auto simp: next_or_first_def split: option.splits list.splits)

section \<open>One scan of a field\<close>

text \<open>
  The three scans below the day have one shape: the field is a digit of the time in the base
  \<open>M\<close> at the unit \<open>u\<close>, and the jump goes to the next allowed digit, in this block or in the next.
\<close>

lemma div_less_block: "0 < u \<Longrightarrow> t < X * u \<Longrightarrow> t div u < (X :: int)"
proof (rule ccontr)
  assume u: "0 < u" and t: "t < X * u" and "\<not> t div u < X"
  then have "X * u \<le> t div u * u" by (intro mult_right_mono) auto
  also have "\<dots> \<le> t" using u by (simp add: minus_mod_eq_div_mult[symmetric])
  finally show False using t by simp
qed

lemma less_next_block: "0 < u \<Longrightarrow> t < (t div u + 1) * (u :: int)"
proof -
  assume "0 < u"
  then have "t mod u < u" by simp
  then have "t div u * u + t mod u < t div u * u + u" by (rule add_strict_left_mono)
  then show ?thesis by (simp only: div_mult_mod_eq distrib_right mult_1)
qed

lemma scan_block:
  fixes cand :: int
  assumes "0 < u" "0 < M" "sorted vs" "\<And>v. v \<in> set vs \<Longrightarrow> 0 \<le> v \<and> v < M"
    and nof: "next_or_first vs (cand div u mod M) = Some (v, w)" and notin: "cand div u mod M \<notin> set vs"
    and c: "c = ((cand div u div M + (if w then 1 else 0)) * M + v) * u"
  shows "cand < c \<and> (\<forall>t. cand \<le> t \<longrightarrow> t < c \<longrightarrow> t div u mod M \<notin> set vs)"
proof -
  define q where "q = cand div u"
  define B where "B = q div M"
  define f where "f = q mod M"
  have q: "q = B * M + f" and f: "0 \<le> f" "f < M" using assms(2) by (simp_all add: B_def f_def)
  note nf = next_or_first_cases[OF assms(3) nof[folded q_def f_def]]
  have v: "0 \<le> v" "v < M" using nf(1) assms(4) by auto
  have c': "c = ((B + (if w then 1 else 0)) * M + v) * u" using c by (simp add: q_def B_def)
  have fv: "\<not> w \<Longrightarrow> f < v" using nf(1,3) notin[folded q_def f_def] by (cases "f = v") auto
  have qX: "q < (B + (if w then 1 else 0)) * M + v" using q f v fv by (auto simp: algebra_simps)
  have "cand < c"
  proof -
    have "cand < (q + 1) * u" unfolding q_def using assms(1) by (rule less_next_block)
    also have "\<dots> \<le> c" unfolding c' using qX assms(1) by (intro mult_right_mono) auto
    finally show ?thesis .
  qed
  moreover have "t div u mod M \<notin> set vs" if t: "cand \<le> t" "t < c" for t
  proof -
    define p where "p = t div u"
    have p: "q \<le> p" "p < (B + (if w then 1 else 0)) * M + v"
      using zdiv_mono1[OF t(1) assms(1)] div_less_block[OF assms(1) t(2)[unfolded c']] by (simp_all add: p_def q_def)
    have split: "p = p div M * M + p mod M" "0 \<le> p mod M" "p mod M < M" using assms(2) by simp_all
    have "B \<le> p div M" using p(1) assms(2) unfolding B_def by (rule zdiv_mono1)
    moreover have "p div M \<le> B + (if w then 1 else 0)"
    proof -
      have "p < (B + (if w then 1 else 0) + 1) * M" using p(2) v by (simp add: algebra_simps)
      from div_less_block[OF assms(2) this] show ?thesis by simp
    qed
    ultimately consider "p div M = B" | "w" "p div M = B + 1" by (cases w) fastforce+
    then have "p mod M \<notin> set vs"
    proof cases
      case 1
      then have "f \<le> p mod M" "\<not> w \<Longrightarrow> p mod M < v" using p q split by auto
      then show ?thesis using nf(2)[of "p mod M"] nf(4)[of "p mod M"] by (cases w) force+
    next
      case 2
      then have "p mod M < v" using p split by (auto simp: algebra_simps)
      then show ?thesis using nf(2)[of "p mod M"] 2 by force
    qed
    then show ?thesis by (simp add: p_def)
  qed
  ultimately show ?thesis by blast
qed

section \<open>One round of the search\<close>

context calendar
begin

lemma day_of: "dt_ok cal t \<Longrightarrow> day_ok cal (t div 86400)"
  by (auto simp: dt_ok_def day_ok_def intro: zdiv_mono1)

lemma dt_ok_in_day:
  assumes "day_ok cal n" "0 \<le> s" "s < 86400"
  shows "dt_ok cal (n * 86400 + s)"
proof -
  have "dt_min cal div 86400 * 86400 = dt_min cal" using whole_days(1) by (simp add: minus_mod_eq_div_mult[symmetric])
  moreover have "dt_max cal div 86400 * 86400 = dt_max cal - 86399" using whole_days(2) by (simp add: minus_mod_eq_div_mult[symmetric])
  ultimately show ?thesis using assms by (simp add: dt_ok_def day_ok_def)
qed

lemma ymd_mono: "day_ok cal n \<Longrightarrow> day_ok cal k \<Longrightarrow> n \<le> k \<Longrightarrow> ymd cal n \<le> ymd cal k"
  using order[of n k] by (cases "n = k") auto

lemma year_mono: "dt_ok cal s \<Longrightarrow> dt_ok cal t \<Longrightarrow> s \<le> t \<Longrightarrow> dt_year cal s \<le> dt_year cal t"
  using ymd_mono[of "s div 86400" "t div 86400"] day_of[of s] day_of[of t] zdiv_mono1[of s t 86400]
  by (auto simp: dt_year_def less_eq_prod_def)

lemma from_ymd_day: "day_ok cal n \<Longrightarrow> from_ymd cal (fst (ymd cal n)) (fst (snd (ymd cal n))) (snd (snd (ymd cal n))) = Some n"
  by (simp add: from_ymd_iff)

lemma at_day_eq:
  assumes "dt_ok cal t" "0 \<le> h" "h < 24" "0 \<le> mi" "mi < 60" "0 \<le> s" "s < 60"
  shows "at_day cal t h mi s = Some (t div 86400 * 86400 + h * 3600 + mi * 60 + s)"
  using from_ymd_day[OF day_of[OF assms(1)]] assms
  by (simp add: at_day_def make_dt_def dt_year_def dt_month_def dt_day_def)

end

lemma dt_hour_alt: "dt_hour t = t div 3600 mod 24"
  unfolding dt_hour_def by (simp add: zmod_zmult2_eq[of 24 t 3600, simplified])

lemma dt_minute_alt: "dt_minute t = t div 60 mod 60"
  unfolding dt_minute_def by (simp add: zmod_zmult2_eq[of 60 t 60, simplified])

lemma dt_fields_range:
  "0 \<le> dt_hour t" "dt_hour t < 24" "0 \<le> dt_minute t" "dt_minute t < 60" "0 \<le> dt_second t" "dt_second t < 60"
  by (simp_all add: dt_hour_alt dt_minute_alt dt_second_def)

lemma hour_base: "t div 86400 * 86400 + dt_hour t * 3600 = t div 3600 * 3600"
proof -
  have "t div 86400 = t div 3600 div 24" by (simp add: zdiv_zmult2_eq[of 24 t 3600, simplified])
  moreover have "24 * (t div 3600 div 24) + t div 3600 mod 24 = t div 3600" by (rule mult_div_mod_eq)
  ultimately show ?thesis unfolding dt_hour_alt by linarith
qed

lemma minute_base: "t div 86400 * 86400 + dt_hour t * 3600 + dt_minute t * 60 = t div 60 * 60"
proof -
  have "t div 3600 = t div 60 div 60" by (simp add: zdiv_zmult2_eq[of 60 t 60, simplified])
  moreover have "60 * (t div 60 div 60) + t div 60 mod 60 = t div 60" by (rule mult_div_mod_eq)
  ultimately show ?thesis using hour_base[of t] unfolding dt_minute_alt by linarith
qed

text \<open>A jump that passes over no matching time.\<close>

definition passes :: "chrono \<Rightarrow> cron_schedule \<Rightarrow> int \<Rightarrow> int \<Rightarrow> bool" where
  "passes cal sched cand c \<longleftrightarrow> cand < c \<and> dt_ok cal c
     \<and> (\<forall>t. cand \<le> t \<longrightarrow> t < c \<longrightarrow> dt_ok cal t \<longrightarrow> \<not> matches cal sched t)"

lemma skip_to_Skip [simp]: "skip_to x = Skip c \<longleftrightarrow> x = Some c" "skip_to x = Boom \<longleftrightarrow> x = None" "skip_to x \<noteq> Found c"
  by (auto simp: skip_to_def split: option.splits)

lemma obind_Some: "obind x f = Some c \<longleftrightarrow> (\<exists>a. x = Some a \<and> f a = Some c)"
  by (cases x) (auto simp: obind_def)

lemma obind_None: "obind x f = None \<longleftrightarrow> x = None \<or> (\<exists>a. x = Some a \<and> f a = None)"
  by (cases x) (auto simp: obind_def)

lemma matches_fields:
  "matches cal sched t \<Longrightarrow> dt_month cal t \<in> set (months sched)" "matches cal sched t \<Longrightarrow> cron_day_matches cal sched t"
  "matches cal sched t \<Longrightarrow> dt_hour t \<in> set (hours sched)" "matches cal sched t \<Longrightarrow> dt_minute t \<in> set (minutes sched)"
  "matches cal sched t \<Longrightarrow> dt_second t \<in> set (seconds sched)"
  by (simp_all add: matches_def cron_day_matches_def)

lemma same_day_matches:
  "s div 86400 = t div 86400 \<Longrightarrow> cron_day_matches cal sched s = cron_day_matches cal sched t"
  by (simp add: cron_day_matches_def dt_day_def)

context calendar
begin

lemma day_less: "day_ok cal n \<Longrightarrow> day_ok cal k \<Longrightarrow> ymd cal n < ymd cal k \<Longrightarrow> n < k"
  using ymd_mono[of k n] by (cases "k \<le> n") auto

lemma month_passes:
  assumes ok: "dt_ok cal cand" and so: "sched_ok sched" and notin: "dt_month cal cand \<notin> set (months sched)"
    and nof: "next_or_first (months sched) (dt_month cal cand) = Some (v, w)"
    and c: "make_dt cal (if w then dt_year cal cand + 1 else dt_year cal cand) v 1 0 0 0 = Some c"
  shows "passes cal sched cand c"
proof -
  define n where "n = cand div 86400"
  obtain y m d where ymd: "ymd cal n = (y, m, d)" by (metis prod.collapse)
  have n: "day_ok cal n" using ok by (simp add: n_def day_of)
  have ym: "dt_year cal cand = y" "dt_month cal cand = m" using ymd by (simp_all add: dt_year_def dt_month_def n_def)
  have sorted: "sorted (months sched)" using so by (simp add: sched_ok_def field_ok_def)
  note nf = next_or_first_cases[OF sorted nof[unfolded ym]]
  from c obtain k where k: "day_ok cal k" "ymd cal k = (if w then y + 1 else y, v, 1)" "c = k * 86400"
    by (auto simp: make_dt_def ym from_ymd_iff split: option.splits)
  have "m \<noteq> v" using notin nf(1) ym by auto
  then have "ymd cal n < ymd cal k" using nf(3) by (cases w) (auto simp: ymd k(2) less_prod_def)
  then have nk: "n < k" using n k(1) by (intro day_less)
  have "cand < (n + 1) * 86400" unfolding n_def by (rule less_next_block) simp
  also have "\<dots> \<le> c" unfolding k(3) using nk by (intro mult_right_mono) auto
  finally have "cand < c" .
  moreover have "\<not> matches cal sched t" if t: "cand \<le> t" "t < c" "dt_ok cal t" for t
  proof -
    define p where "p = t div 86400"
    obtain yt mt dt where ymdt: "ymd cal p = (yt, mt, dt)" by (metis prod.collapse)
    have p: "day_ok cal p" "n \<le> p" "p < k"
      using t day_of div_less_block[of 86400 t k] k(3) zdiv_mono1[OF t(1), of 86400] by (simp_all add: p_def n_def)
    have "(y, m, d) \<le> (yt, mt, dt)" using ymd_mono[OF n p(1,2)] ymd ymdt by simp
    moreover have "(yt, mt, dt) < (if w then y + 1 else y, v, 1)" using order[OF p(1) k(1) p(3)] ymdt k(2) by simp
    moreover have "1 \<le> dt" using fields[OF p(1) ymdt] by simp
    ultimately have "mt \<notin> set (months sched)"
      using nf(2)[of mt] nf(4)[of mt] by (cases w) (auto simp: less_prod_def less_eq_prod_def)
    then show ?thesis using matches_fields(1)[of cal sched t] ymdt by (auto simp: dt_month_def p_def)
  qed
  moreover have "dt_ok cal c" using dt_ok_in_day[OF k(1), of 0] k(3) by simp
  ultimately show ?thesis by (simp add: passes_def)
qed

lemma day_passes:
  assumes ok: "dt_ok cal cand" and "\<not> cron_day_matches cal sched cand"
    and c: "obind (at_day cal cand 0 0 0) (\<lambda>d. dt_plus cal d 86400) = Some c"
  shows "passes cal sched cand c"
proof -
  have c': "c = (cand div 86400 + 1) * 86400" "dt_ok cal c"
    using c at_day_eq[OF ok, of 0 0 0] by (auto simp: obind_Some dt_plus_def split: if_splits)
  have "cand < c" unfolding c' by (rule less_next_block) simp
  moreover have "\<not> matches cal sched t" if t: "cand \<le> t" "t < c" for t
  proof -
    have "cand div 86400 \<le> t div 86400" using zdiv_mono1[OF t(1), of 86400] by simp
    moreover have "t div 86400 < cand div 86400 + 1" using t(2) unfolding c'(1) by (intro div_less_block) simp_all
    ultimately have "t div 86400 = cand div 86400" by simp
    with assms(2) show ?thesis using matches_fields(2)[of cal sched t] same_day_matches[of t cand cal sched] by blast
  qed
  ultimately show ?thesis using c'(2) by (simp add: passes_def)
qed

text \<open>The scans of hours, minutes and seconds all end at the next allowed digit.\<close>

lemma hour_target:
  assumes ok: "dt_ok cal cand" and h: "0 \<le> h" "h < 24"
    and c: "(if w then obind (at_day cal cand 0 0 0) (\<lambda>d. obind (dt_plus cal d 86400) (\<lambda>c. at_day cal c h 0 0))
             else at_day cal cand h 0 0) = Some c"
  shows "c = ((cand div 3600 div 24 + (if w then 1 else 0)) * 24 + h) * 3600 \<and> dt_ok cal c"
proof -
  have day: "cand div 3600 div 24 = cand div 86400" by (simp add: zdiv_zmult2_eq[of 24 cand 3600, simplified])
  show ?thesis
  proof (cases w)
    case False
    with c at_day_eq[OF ok h] have "c = cand div 86400 * 86400 + h * 3600" by simp
    with False h dt_ok_in_day[OF day_of[OF ok], of "h * 3600"] show ?thesis by (simp add: day algebra_simps)
  next
    case True
    let ?d = "cand div 86400 * 86400 + 86400"
    have "?d div 86400 = cand div 86400 + 1" by simp
    with True c at_day_eq[OF ok, of 0 0 0] have d: "dt_ok cal ?d" "c = (cand div 86400 + 1) * 86400 + h * 3600"
      using at_day_eq[of ?d h 0 0] h by (auto simp: obind_Some dt_plus_def split: if_splits)
    with True h dt_ok_in_day[OF day_of[OF d(1)], of "h * 3600"] show ?thesis by (simp add: day algebra_simps)
  qed
qed

lemma minute_target:
  assumes ok: "dt_ok cal cand" and m: "0 \<le> m" "m < 60"
    and c: "(if w then obind (at_day cal cand (dt_hour cand) 0 0) (\<lambda>d. obind (dt_plus cal d 3600) (\<lambda>c. at_day cal c (dt_hour c) m 0))
             else at_day cal cand (dt_hour cand) m 0) = Some c"
  shows "c = ((cand div 60 div 60 + (if w then 1 else 0)) * 60 + m) * 60 \<and> dt_ok cal c"
proof -
  have hr: "cand div 60 div 60 = cand div 3600" by (simp add: zdiv_zmult2_eq[of 60 cand 60, simplified])
  have at: "at_day cal t (dt_hour t) m 0 = Some (t div 3600 * 3600 + m * 60)" if "dt_ok cal t" for t
    using at_day_eq[OF that, of "dt_hour t" m 0] m dt_fields_range(1,2)[of t] hour_base[of t] by simp
  have ok_at: "dt_ok cal (t div 3600 * 3600 + m * 60)" if "dt_ok cal t" for t
    using dt_ok_in_day[OF day_of[OF that], of "dt_hour t * 3600 + m * 60"] dt_fields_range(1,2)[of t] m hour_base[of t]
    by (simp add: algebra_simps)
  show ?thesis
  proof (cases w)
    case False
    with c at[OF ok] ok_at[OF ok] show ?thesis by (simp add: hr algebra_simps)
  next
    case True
    let ?d = "cand div 3600 * 3600 + 3600"
    have "at_day cal cand (dt_hour cand) 0 0 = Some (cand div 3600 * 3600)"
      using at_day_eq[OF ok, of "dt_hour cand" 0 0] dt_fields_range(1,2)[of cand] hour_base[of cand] by simp
    with True c have d: "dt_ok cal ?d" "at_day cal ?d (dt_hour ?d) m 0 = Some c"
      by (auto simp: obind_Some dt_plus_def split: if_splits)
    moreover have "?d div 3600 = cand div 3600 + 1" by simp
    ultimately show ?thesis using True at[OF d(1)] ok_at[OF d(1)] by (simp add: hr algebra_simps)
  qed
qed

lemma second_target:
  assumes ok: "dt_ok cal cand" and s: "0 \<le> s" "s < 60"
    and c: "(if w then obind (at_day cal cand (dt_hour cand) (dt_minute cand) 0) (\<lambda>d. obind (dt_plus cal d 60)
               (\<lambda>c. at_day cal c (dt_hour c) (dt_minute c) s))
             else at_day cal cand (dt_hour cand) (dt_minute cand) s) = Some c"
  shows "c = (cand div 60 + (if w then 1 else 0)) * 60 + s \<and> dt_ok cal c"
proof -
  have at: "at_day cal t (dt_hour t) (dt_minute t) x = Some (t div 60 * 60 + x)" if "dt_ok cal t" "0 \<le> x" "x < 60" for t x
    using at_day_eq[OF that(1), of "dt_hour t" "dt_minute t" x] that dt_fields_range[of t] minute_base[of t] by simp
  have ok_at: "dt_ok cal (t div 60 * 60 + s)" if "dt_ok cal t" for t
    using dt_ok_in_day[OF day_of[OF that], of "dt_hour t * 3600 + dt_minute t * 60 + s"] dt_fields_range[of t] s minute_base[of t]
    by (simp add: algebra_simps)
  show ?thesis
  proof (cases w)
    case False
    with c at[OF ok s] ok_at[OF ok] show ?thesis by simp
  next
    case True
    let ?d = "cand div 60 * 60 + 60"
    from True c at[OF ok, of 0] have d: "dt_ok cal ?d" "at_day cal ?d (dt_hour ?d) (dt_minute ?d) s = Some c"
      by (auto simp: obind_Some dt_plus_def split: if_splits)
    moreover have "?d div 60 = cand div 60 + 1" by simp
    ultimately show ?thesis using True at[OF d(1) s] ok_at[OF d(1)] by simp
  qed
qed

text \<open>Every jump passes over no match, and the search stops only at a match.\<close>

lemma round_passes:
  assumes ok: "dt_ok cal cand" and so: "sched_ok sched" and "cron_round cal sched cand = Skip c"
  shows "passes cal sched cand c"
proof -
  have srt: "sorted (hours sched)" "sorted (minutes sched)" "sorted (seconds sched)"
    "\<And>v. v \<in> set (hours sched) \<Longrightarrow> 0 \<le> v \<and> v < 24" "\<And>v. v \<in> set (minutes sched) \<Longrightarrow> 0 \<le> v \<and> v < 60"
    "\<And>v. v \<in> set (seconds sched) \<Longrightarrow> 0 \<le> v \<and> v < 60"
    using so by (force simp: sched_ok_def field_ok_def)+
  consider
    (month) "dt_month cal cand \<notin> set (months sched)"
  | (day) "dt_month cal cand \<in> set (months sched)" "\<not> cron_day_matches cal sched cand"
  | (hour) "dt_month cal cand \<in> set (months sched)" "cron_day_matches cal sched cand" "dt_hour cand \<notin> set (hours sched)"
  | (minute) "dt_month cal cand \<in> set (months sched)" "cron_day_matches cal sched cand" "dt_hour cand \<in> set (hours sched)"
      "dt_minute cand \<notin> set (minutes sched)"
  | (second) "dt_month cal cand \<in> set (months sched)" "cron_day_matches cal sched cand" "dt_hour cand \<in> set (hours sched)"
      "dt_minute cand \<in> set (minutes sched)" "dt_second cand \<notin> set (seconds sched)"
  | (all) "matches cal sched cand"
    by (auto simp: matches_def cron_day_matches_def)
  then show ?thesis
  proof cases
    case month
    with assms(3) show ?thesis
      by (auto simp: cron_round_def obind_Some split: prod.splits intro: month_passes[OF ok so])
  next
    case day
    with assms(3) show ?thesis by (auto simp: cron_round_def intro: day_passes[OF ok])
  next
    case hour
    then obtain v w where nof: "next_or_first (hours sched) (dt_hour cand) = Some (v, w)"
      and c: "(if w then obind (at_day cal cand 0 0 0) (\<lambda>d. obind (dt_plus cal d 86400) (\<lambda>c. at_day cal c v 0 0))
             else at_day cal cand v 0 0) = Some c"
      using assms(3) by (auto simp: cron_round_def obind_Some split: prod.splits)
    have v: "0 \<le> v" "v < 24" using next_or_first_cases(1)[OF srt(1) nof] srt(4) by auto
    note tgt = hour_target[OF ok v c]
    from scan_block[of 3600 24, OF _ _ srt(1,4) nof[unfolded dt_hour_alt] hour(3)[unfolded dt_hour_alt] tgt[THEN conjunct1]] tgt
    show ?thesis by (auto simp: passes_def dt_hour_alt dest: matches_fields(3))
  next
    case minute
    then obtain v w where nof: "next_or_first (minutes sched) (dt_minute cand) = Some (v, w)"
      and c: "(if w then obind (at_day cal cand (dt_hour cand) 0 0) (\<lambda>d. obind (dt_plus cal d 3600) (\<lambda>c. at_day cal c (dt_hour c) v 0))
             else at_day cal cand (dt_hour cand) v 0) = Some c"
      using assms(3) by (auto simp: cron_round_def obind_Some split: prod.splits)
    have v: "0 \<le> v" "v < 60" using next_or_first_cases(1)[OF srt(2) nof] srt(5) by auto
    note tgt = minute_target[OF ok v c]
    from scan_block[of 60 60, OF _ _ srt(2,5) nof[unfolded dt_minute_alt] minute(4)[unfolded dt_minute_alt] tgt[THEN conjunct1]] tgt
    show ?thesis by (auto simp: passes_def dt_minute_alt dest: matches_fields(4))
  next
    case second
    then obtain v w where nof: "next_or_first (seconds sched) (dt_second cand) = Some (v, w)"
      and c: "(if w then obind (at_day cal cand (dt_hour cand) (dt_minute cand) 0) (\<lambda>d. obind (dt_plus cal d 60)
               (\<lambda>c. at_day cal c (dt_hour c) (dt_minute c) v))
             else at_day cal cand (dt_hour cand) (dt_minute cand) v) = Some c"
      using assms(3) by (auto simp: cron_round_def obind_Some split: prod.splits)
    have v: "0 \<le> v" "v < 60" using next_or_first_cases(1)[OF srt(3) nof] srt(6) by auto
    note tgt = second_target[OF ok v c]
    have "c = ((cand div 1 div 60 + (if w then 1 else 0)) * 60 + v) * 1" using tgt by simp
    from scan_block[of 1 60, OF _ _ srt(3,6) _ _ this] nof second(5) tgt
    show ?thesis by (auto simp: passes_def dt_second_def dest: matches_fields(5))
  next
    case all
    with assms(3) show ?thesis using matches_fields[OF all] by (simp add: cron_round_def)
  qed
qed

lemma round_Found: "cron_round cal sched cand = Found c \<Longrightarrow> c = cand \<and> matches cal sched cand"
  by (auto simp: cron_round_def split: if_splits)

text \<open>The search panics only at the very end of the representable years.\<close>

lemma last_day_year:
  assumes "dt_ok cal cand" "dt_max cal < (cand div 86400 + 1) * 86400"
  shows "dt_year cal cand = dt_year cal (dt_max cal)"
proof -
  have "cand div 86400 \<le> dt_max cal div 86400" using assms(1) by (intro zdiv_mono1) (simp_all add: dt_ok_def)
  moreover have "dt_max cal div 86400 < cand div 86400 + 1" using assms(2) by (intro div_less_block) simp_all
  ultimately show ?thesis by (simp add: dt_year_def)
qed

lemma plus_fails:
  assumes "dt_ok cal cand" "dt_plus cal d s = None" "dt_min cal \<le> d" "0 \<le> s" "d + s \<le> (cand div 86400 + 1) * 86400"
  shows "dt_year cal cand = dt_year cal (dt_max cal)"
  using assms by (intro last_day_year) (auto simp: dt_plus_def dt_ok_def split: if_splits)

text \<open>The day after one in a year before the last is in the same year or the next.\<close>

lemma next_day_year:
  assumes "dt_ok cal s" "dt_ok cal t" "t div 86400 \<le> s div 86400 + 1" "dt_year cal s < dt_year cal (dt_max cal)"
  shows "dt_year cal t \<le> dt_year cal s + 1"
proof -
  let ?n = "s div 86400"
  obtain k where k: "day_ok cal k" "ymd cal k = (dt_year cal s + 1, 1, 1)"
    using first_of_month[OF day_of[OF assms(1)], of "dt_year cal s + 1" 1] assms(4)
    by (auto simp: dt_year_def from_ymd_iff)
  have "ymd cal ?n < ymd cal k" unfolding k(2) by (auto simp: less_prod_def dt_year_def)
  then have "?n < k" using day_of[OF assms(1)] k(1) by (intro day_less)
  then have "t div 86400 \<le> k" using assms(3) by simp
  from ymd_mono[OF day_of[OF assms(2)] k(1) this] k(2) show ?thesis
    by (auto simp: dt_year_def less_eq_prod_def)
qed

lemma month_fails:
  assumes ok: "dt_ok cal cand" and so: "sched_ok sched"
    and none: "obind (next_or_first (months sched) (dt_month cal cand)) (\<lambda>(next_month, wrapped).
          make_dt cal (if wrapped then dt_year cal cand + 1 else dt_year cal cand) next_month 1 0 0 0) = None"
  shows "dt_year cal cand = dt_year cal (dt_max cal)"
proof -
  have mo: "months sched \<noteq> []" "sorted (months sched)" "\<And>v. v \<in> set (months sched) \<Longrightarrow> 1 \<le> v \<and> v \<le> 12"
    using so by (auto simp: sched_ok_def field_ok_def)
  then obtain v w where nof: "next_or_first (months sched) (dt_month cal cand) = Some (v, w)"
    using next_or_first_None[of "months sched"] by fastforce
  let ?y = "if w then dt_year cal cand + 1 else dt_year cal cand"
  from none nof have "from_ymd cal ?y v 1 = None" by (auto simp: obind_def make_dt_def split: option.splits)
  moreover have "1 \<le> v" "v \<le> 12" using next_or_first_cases(1)[OF mo(2) nof] mo(3) by auto
  ultimately have "\<not> ?y \<le> dt_year cal (dt_max cal)"
    using first_of_month[OF day_of[OF ok], of ?y v] by (auto simp: dt_year_def)
  moreover have "dt_year cal cand \<le> dt_year cal (dt_max cal)"
    using ok by (intro year_mono) (auto simp: dt_ok_def)
  ultimately show ?thesis by (auto split: if_splits)
qed

text \<open>Below the month a jump fails only when the next day, hour or minute is past the end.\<close>

lemma jump_fails:
  assumes ok: "dt_ok cal cand" and h: "0 \<le> h" "h < 24" and m: "0 \<le> mi" "mi < 60" and s: "0 \<le> s"
    and blk: "cand div 86400 * 86400 + h * 3600 + mi * 60 + s \<le> (cand div 86400 + 1) * 86400"
    and none: "obind (at_day cal cand h mi 0) (\<lambda>d. obind (dt_plus cal d s) k) = None"
    and k: "\<And>c. dt_ok cal c \<Longrightarrow> k c \<noteq> None"
  shows "dt_year cal cand = dt_year cal (dt_max cal)"
proof -
  let ?d = "cand div 86400 * 86400 + h * 3600 + mi * 60"
  have "at_day cal cand h mi 0 = Some ?d" using at_day_eq[OF ok h m, of 0] by simp
  with none have "dt_plus cal ?d s = None \<or> (\<exists>c. dt_plus cal ?d s = Some c \<and> k c = None)"
    by (auto simp: obind_def split: option.splits)
  then have none': "dt_plus cal ?d s = None" using k[of "?d + s"] by (auto simp: dt_plus_def split: if_splits)
  have "dt_ok cal (cand div 86400 * 86400)" using dt_ok_in_day[OF day_of[OF ok], of 0] by simp
  then have "dt_min cal \<le> ?d" using h m by (auto simp: dt_ok_def)
  then show ?thesis using plus_fails[OF ok none' _ s] blk by simp
qed

lemma at_day_total: "dt_ok cal c \<Longrightarrow> 0 \<le> h \<Longrightarrow> h < 24 \<Longrightarrow> 0 \<le> mi \<Longrightarrow> mi < 60 \<Longrightarrow> 0 \<le> s \<Longrightarrow> s < 60
    \<Longrightarrow> at_day cal c h mi s \<noteq> None"
  using at_day_eq by simp

lemma hour_block: "cand div 86400 * 86400 + dt_hour cand * 3600 + 3600 \<le> (cand div 86400 + 1) * 86400"
  using dt_fields_range(1,2)[of cand] by (simp add: algebra_simps)

lemma minute_block: "cand div 86400 * 86400 + dt_hour cand * 3600 + dt_minute cand * 60 + 60 \<le> (cand div 86400 + 1) * 86400"
  using dt_fields_range(1-4)[of cand] by (simp add: algebra_simps)

lemma round_Boom:
  assumes ok: "dt_ok cal cand" and so: "sched_ok sched" and boom: "cron_round cal sched cand = Boom"
  shows "dt_year cal cand = dt_year cal (dt_max cal)"
proof -
  note rng = dt_fields_range[of cand]
  have fld: "sorted (hours sched)" "sorted (minutes sched)" "sorted (seconds sched)"
    "hours sched \<noteq> []" "minutes sched \<noteq> []" "seconds sched \<noteq> []"
    "\<And>v. v \<in> set (hours sched) \<Longrightarrow> 0 \<le> v \<and> v < 24" "\<And>v. v \<in> set (minutes sched) \<Longrightarrow> 0 \<le> v \<and> v < 60"
    "\<And>v. v \<in> set (seconds sched) \<Longrightarrow> 0 \<le> v \<and> v < 60"
    using so by (force simp: sched_ok_def field_ok_def)+
  obtain hv hw where hn: "next_or_first (hours sched) (dt_hour cand) = Some (hv, hw)" "0 \<le> hv" "hv < 24"
    using fld(4,7) next_or_first_None[of "hours sched"] next_or_first_cases(1)[OF fld(1)] by (metis not_None_eq surj_pair)
  obtain mv mw where mn: "next_or_first (minutes sched) (dt_minute cand) = Some (mv, mw)" "0 \<le> mv" "mv < 60"
    using fld(5,8) next_or_first_None[of "minutes sched"] next_or_first_cases(1)[OF fld(2)] by (metis not_None_eq surj_pair)
  obtain sv sw where sn: "next_or_first (seconds sched) (dt_second cand) = Some (sv, sw)" "0 \<le> sv" "sv < 60"
    using fld(6,9) next_or_first_None[of "seconds sched"] next_or_first_cases(1)[OF fld(3)] by (metis not_None_eq surj_pair)
  from boom consider
    (month) "obind (next_or_first (months sched) (dt_month cal cand)) (\<lambda>(next_month, wrapped).
          make_dt cal (if wrapped then dt_year cal cand + 1 else dt_year cal cand) next_month 1 0 0 0) = None"
  | (day) "obind (at_day cal cand 0 0 0) (\<lambda>d. obind (dt_plus cal d 86400) Some) = None"
  | (hour) "(if hw then obind (at_day cal cand 0 0 0) (\<lambda>d. obind (dt_plus cal d 86400) (\<lambda>c. at_day cal c hv 0 0))
      else at_day cal cand hv 0 0) = None"
  | (minute) "(if mw then obind (at_day cal cand (dt_hour cand) 0 0) (\<lambda>d. obind (dt_plus cal d 3600) (\<lambda>c. at_day cal c (dt_hour c) mv 0))
      else at_day cal cand (dt_hour cand) mv 0) = None"
  | (second) "(if sw then obind (at_day cal cand (dt_hour cand) (dt_minute cand) 0) (\<lambda>d. obind (dt_plus cal d 60)
               (\<lambda>c. at_day cal c (dt_hour c) (dt_minute c) sv))
      else at_day cal cand (dt_hour cand) (dt_minute cand) sv) = None"
  | (rest) "dt_plus cal cand 1 = None"
    unfolding cron_round_def hn(1) mn(1) sn(1)
    by (auto simp: obind_None obind_def split: if_splits option.splits)
  then show ?thesis
  proof cases
    case month then show ?thesis by (rule month_fails[OF ok so])
  next
    case day
    then show ?thesis by (intro jump_fails[OF ok, where h = 0 and mi = 0 and s = 86400 and k = Some]) auto
  next
    case hour
    then have "hw" using at_day_total[OF ok hn(2,3), of 0 0] by (auto split: if_splits)
    with hour show ?thesis
      by (intro jump_fails[OF ok, where h = 0 and mi = 0 and s = 86400 and k = "\<lambda>c. at_day cal c hv 0 0"]) (use hour in \<open>simp_all add: at_day_eq hn\<close>)
  next
    case minute
    then have "mw" using at_day_total[OF ok rng(1,2) mn(2,3), of 0] by (auto split: if_splits)
    with minute rng hour_block[of cand] show ?thesis
      by (intro jump_fails[OF ok, where h = "dt_hour cand" and mi = 0 and s = 3600 and k = "\<lambda>c. at_day cal c (dt_hour c) mv 0"])
        (auto simp: at_day_total mn dt_fields_range)
  next
    case second
    then have "sw" using at_day_total[OF ok rng(1-4) sn(2,3)] by (auto split: if_splits)
    with second rng minute_block[of cand] show ?thesis
      by (intro jump_fails[OF ok, where h = "dt_hour cand" and mi = "dt_minute cand" and s = 60
            and k = "\<lambda>c. at_day cal c (dt_hour c) (dt_minute c) sv"]) (auto simp: at_day_total sn dt_fields_range)
  next
    case rest
    with ok show ?thesis using less_next_block[of 86400 cand] by (intro plus_fails[OF ok rest]) (auto simp: dt_ok_def)
  qed
qed

end

section \<open>The whole search\<close>

definition search_result :: "chrono \<Rightarrow> cron_schedule \<Rightarrow> int \<Rightarrow> int \<Rightarrow> int cron_res \<Rightarrow> bool" where
  "search_result cal sched cap cand r = (case r of
       COk x \<Rightarrow> cand \<le> x \<and> dt_ok cal x \<and> matches cal sched x
         \<and> (\<forall>t. cand \<le> t \<longrightarrow> t < x \<longrightarrow> dt_ok cal t \<longrightarrow> \<not> matches cal sched t)
     | CErr e \<Rightarrow> e = NoMatchIn100Years
         \<and> (\<forall>t. cand \<le> t \<longrightarrow> dt_ok cal t \<longrightarrow> dt_year cal t \<le> cap \<longrightarrow> \<not> matches cal sched t)
     | CPanic \<Rightarrow> dt_year cal (dt_max cal) \<le> cap)"

lemma search_result_skip:
  assumes "passes cal sched cand c" "search_result cal sched cap c r"
  shows "search_result cal sched cap cand r"
proof -
  have past: "\<not> matches cal sched t" if "cand \<le> t" "dt_ok cal t" "t < c" for t
    using assms(1) that by (auto simp: passes_def)
  have lt: "cand < c" using assms(1) by (simp add: passes_def)
  show ?thesis
  proof (cases r)
    case (COk x)
    then have x: "c \<le> x" "dt_ok cal x" "matches cal sched x"
      "\<And>t. c \<le> t \<Longrightarrow> t < x \<Longrightarrow> dt_ok cal t \<Longrightarrow> \<not> matches cal sched t"
      using assms(2) by (auto simp: search_result_def)
    have "\<not> matches cal sched t" if "cand \<le> t" "t < x" "dt_ok cal t" for t
      using past[of t] x(4)[of t] that by (cases "t < c") auto
    with COk x lt show ?thesis by (auto simp: search_result_def)
  next
    case (CErr e)
    then have e: "e = NoMatchIn100Years"
      "\<And>t. c \<le> t \<Longrightarrow> dt_ok cal t \<Longrightarrow> dt_year cal t \<le> cap \<Longrightarrow> \<not> matches cal sched t"
      using assms(2) by (auto simp: search_result_def)
    have "\<not> matches cal sched t" if "cand \<le> t" "dt_ok cal t" "dt_year cal t \<le> cap" for t
      using past[of t] e(2)[of t] that by (cases "t < c") auto
    with CErr e(1) show ?thesis by (auto simp: search_result_def)
  next
    case CPanic
    with assms(2) show ?thesis by (simp add: search_result_def)
  qed
qed

context calendar
begin

lemma cron_loop_total:
  assumes "dt_ok cal cand" "sched_ok sched"
  shows "\<exists>r. cron_loop cal sched cap cand = Some r \<and> search_result cal sched cap cand r"
  using assms(1)
proof (induction "nat (dt_max cal - cand)" arbitrary: cand rule: less_induct)
  case less
  show ?case
  proof (cases "dt_year cal cand \<le> cap")
    case False
    have "cap < dt_year cal t" if "cand \<le> t" "dt_ok cal t" for t
      using year_mono[OF less.prems that(2,1)] False by simp
    then have "search_result cal sched cap cand (CErr NoMatchIn100Years)" by (fastforce simp: search_result_def)
    with False show ?thesis by (subst cron_loop.simps) simp
  next
    case True
    show ?thesis
    proof (cases "cron_round cal sched cand")
      case (Skip c)
      then have c: "passes cal sched cand c" using less.prems assms(2) by (intro round_passes)
      then have "nat (dt_max cal - c) < nat (dt_max cal - cand)" "dt_ok cal c" by (auto simp: passes_def dt_ok_def)
      from less.hyps[OF this] obtain r where "cron_loop cal sched cap c = Some r" "search_result cal sched cap c r" by auto
      with True Skip c show ?thesis by (subst cron_loop.simps) (simp add: search_result_skip)
    next
      case (Found c)
      with round_Found[OF Found] True less.prems show ?thesis
        by (subst cron_loop.simps) (simp add: search_result_def)
    next
      case Boom
      with round_Boom[OF less.prems assms(2) Boom] True show ?thesis
        by (subst cron_loop.simps) (simp add: search_result_def)
    qed
  qed
qed

lemma cron_next_total:
  assumes "dt_ok cal start" "sched_ok sched" "dt_year cal start + 101 < dt_year cal (dt_max cal)"
  shows "\<exists>r. cron_next_after_naive cal sched start = Some r \<and> r \<noteq> CPanic
    \<and> (\<forall>cap. cap = dt_year cal start + 100 \<longrightarrow> (case r of
         COk x \<Rightarrow> start < x \<and> dt_ok cal x \<and> matches cal sched x
           \<and> (\<forall>t. start < t \<longrightarrow> t < x \<longrightarrow> dt_ok cal t \<longrightarrow> \<not> matches cal sched t)
       | CErr e \<Rightarrow> e = NoMatchIn100Years
           \<and> (\<forall>t. start < t \<longrightarrow> dt_ok cal t \<longrightarrow> dt_year cal t \<le> cap \<longrightarrow> \<not> matches cal sched t)
       | CPanic \<Rightarrow> False))"
proof -
  have y: "dt_year cal start \<noteq> dt_year cal (dt_max cal)" using assms(3) by simp
  have ok1: "dt_ok cal (start + 1)"
  proof (rule ccontr)
    assume "\<not> dt_ok cal (start + 1)"
    with assms(1) have "start = dt_max cal" by (auto simp: dt_ok_def)
    with y show False by simp
  qed
  have step: "(start + 1) div 86400 \<le> start div 86400 + 1"
  proof -
    have "start < (start div 86400 + 1) * 86400" by (rule less_next_block) simp
    then have "(start + 1) div 86400 < start div 86400 + 2" by (intro div_less_block) simp_all
    then show ?thesis by simp
  qed
  have lo: "dt_year cal start \<le> dt_year cal (start + 1)" using assms(1) ok1 by (intro year_mono) simp_all
  have hi: "dt_year cal (start + 1) \<le> dt_year cal start + 1"
    using next_day_year[OF assms(1) ok1 step] assms(3) by linarith
  from cron_loop_total[OF ok1 assms(2), of "dt_year cal (start + 1) + 100"] obtain r
    where r: "cron_loop cal sched (dt_year cal (start + 1) + 100) (start + 1) = Some r"
      "search_result cal sched (dt_year cal (start + 1) + 100) (start + 1) r" by auto
  then have "r \<noteq> CPanic" using hi assms(3) by (auto simp: search_result_def)
  moreover have "cron_next_after_naive cal sched start = Some r"
    using r ok1 by (simp add: cron_next_after_naive_def dt_plus_def)
  ultimately show ?thesis using r(2) lo by (auto simp: search_result_def split: cron_res.splits)
qed

end

end
