(* ===== verification/Gregorian.thy ===== *)
theory Gregorian
  imports Cron_Thms
begin

text \<open>
  The proleptic Gregorian calendar with the range of years \<^verbatim>\<open>chrono\<close> documents, as an instance of
  the locale \<open>calendar\<close>: the laws the schedule calculator relies on hold of the calendar the
  crate implements. Days are counted from 1 January 1970.
\<close>

definition leap :: "int \<Rightarrow> bool" where
  "leap y \<longleftrightarrow> y mod 4 = 0 \<and> (y mod 100 \<noteq> 0 \<or> y mod 400 = 0)"

text \<open>Days before the year \<open>x + 1\<close>, from the year 1.\<close>

definition year_days :: "int \<Rightarrow> int" where
  "year_days x = 365 * x + x div 4 - x div 100 + x div 400"

definition year_start :: "int \<Rightarrow> int" where
  "year_start y = year_days (y - 1) - 719162"

definition month_start :: "bool \<Rightarrow> int \<Rightarrow> int" where
  "month_start l m = (let e = (if l then 1 else 0) in
     if m = 1 then 0 else if m = 2 then 31 else if m = 3 then 59 + e else if m = 4 then 90 + e
     else if m = 5 then 120 + e else if m = 6 then 151 + e else if m = 7 then 181 + e
     else if m = 8 then 212 + e else if m = 9 then 243 + e else if m = 10 then 273 + e
     else if m = 11 then 304 + e else if m = 12 then 334 + e else 365 + e)"

definition valid_date :: "int \<Rightarrow> int \<Rightarrow> int \<Rightarrow> bool" where
  "valid_date y m d \<longleftrightarrow> 1 \<le> m \<and> m \<le> 12 \<and> 1 \<le> d \<and> d \<le> month_start (leap y) (m + 1) - month_start (leap y) m"

definition greg_day :: "int \<Rightarrow> int \<Rightarrow> int \<Rightarrow> int" where
  "greg_day y m d = year_start y + month_start (leap y) m + d - 1"

definition greg_year :: "int \<Rightarrow> int" where
  "greg_year n = (let k = n + 719162; q = (400 * k) div 146097 in
     if year_days (q + 1) \<le> k then q + 2 else if year_days q \<le> k then q + 1 else q)"

definition greg_month :: "bool \<Rightarrow> int \<Rightarrow> int" where
  "greg_month l r = (let e = (if l then 1 else 0) in
     if r < 31 then 1 else if r < 59 + e then 2 else if r < 90 + e then 3 else if r < 120 + e then 4
     else if r < 151 + e then 5 else if r < 181 + e then 6 else if r < 212 + e then 7
     else if r < 243 + e then 8 else if r < 273 + e then 9 else if r < 304 + e then 10
     else if r < 334 + e then 11 else 12)"

definition greg_ymd :: "int \<Rightarrow> int \<times> int \<times> int" where
  "greg_ymd n = (let y = greg_year n; r = n - year_start y; m = greg_month (leap y) r in
     (y, m, r - month_start (leap y) m + 1))"

fun weekday_of_index :: "int \<Rightarrow> weekday" where
  "weekday_of_index i = (if i = 0 then Sun else if i = 1 then Mon else if i = 2 then Tue
     else if i = 3 then Wed else if i = 4 then Thu else if i = 5 then Fri else Sat)"

definition min_year :: int where "min_year = -262143"
definition max_year :: int where "max_year = 262142"

definition gregorian :: chrono where
  "gregorian = \<lparr>ymd = greg_ymd, weekday = (\<lambda>n. weekday_of_index ((n + 4) mod 7)),
     from_ymd = (\<lambda>y m d. if min_year \<le> y \<and> y \<le> max_year \<and> valid_date y m d then Some (greg_day y m d) else None),
     dt_min = year_start min_year * 86400, dt_max = year_start (max_year + 1) * 86400 - 1\<rparr>"

section \<open>Years\<close>

lemma div_minus_one:
  fixes y :: int
  assumes "0 < k"
  shows "y div k = (y - 1) div k + (if y mod k = 0 then 1 else 0)"
proof (cases "y mod k = 0")
  case True
  then have "y = k * (y div k)" using mult_div_mod_eq[of k y] by simp
  then have "y - 1 = k * (y div k - 1) + (k - 1)" by (simp add: right_diff_distrib)
  then have "(y - 1) div k = y div k - 1" using assms by (intro int_div_pos_eq[where r = "k - 1"]) auto
  with True show ?thesis by simp
next
  case False
  have "y - 1 = k * (y div k) + (y mod k - 1)" using mult_div_mod_eq[of k y] by simp
  moreover have "0 \<le> y mod k - 1" "y mod k - 1 < k" using False assms pos_mod_sign[of k y] pos_mod_bound[of k y] by linarith+
  ultimately have "(y - 1) div k = y div k" by (intro int_div_pos_eq)
  with False show ?thesis by simp
qed

lemma year_days_step: "year_days y = year_days (y - 1) + 365 + (if leap y then 1 else 0)"
proof -
  have "y mod 100 = y mod 400 mod 100" "y mod 4 = y mod 100 mod 4"
    by (rule mod_mod_cancel[symmetric], simp)+
  then have sub: "y mod 400 = 0 \<longrightarrow> y mod 100 = 0" "y mod 100 = 0 \<longrightarrow> y mod 4 = 0" by (metis mod_0)+
  have "(if y mod 4 = 0 then 1 else 0) - (if y mod 100 = 0 then 1 else 0) + (if y mod 400 = 0 then 1 else 0)
      = (if leap y then 1 else 0 :: int)"
    unfolding leap_def using sub by (cases "y mod 400 = 0"; cases "y mod 100 = 0"; cases "y mod 4 = 0") simp_all
  then show ?thesis
    unfolding year_days_def div_minus_one[of 4 y, simplified] div_minus_one[of 100 y, simplified]
      div_minus_one[of 400 y, simplified]
    by (simp only: right_diff_distrib)
qed

lemma year_start_step: "year_start (y + 1) = year_start y + 365 + (if leap y then 1 else 0)"
  using year_days_step[of y] by (simp add: year_start_def)

lemma year_start_mono: "y < z \<Longrightarrow> year_start (y + 1) \<le> year_start z"
proof (induction "nat (z - y - 1)" arbitrary: z)
  case 0
  then have "z = y + 1" by simp
  then show ?case by simp
next
  case (Suc k)
  then have "year_start (y + 1) \<le> year_start (z - 1)" by (intro Suc.hyps) auto
  also have "\<dots> \<le> year_start z" using year_start_step[of "z - 1"] by simp
  finally show ?case .
qed

lemma div_bounds: "0 < k \<Longrightarrow> k * (x div k) \<le> x \<and> x < k * (x div k) + (k :: int)"
  using mult_div_mod_eq[of k x] pos_mod_sign[of k x] pos_mod_bound[of k x] by linarith

lemma year_days_bounds: "146097 * x - 800 < 400 * year_days x \<and> 400 * year_days x \<le> 146097 * x + 400"
proof -
  define a b c where "a = x div 4" and "b = x div 100" and "c = x div 400"
  have "4 * a \<le> x \<and> x < 4 * a + 4" "100 * b \<le> x \<and> x < 100 * b + 100" "400 * c \<le> x \<and> x < 400 * c + 400"
    unfolding a_def b_def c_def by (rule div_bounds, simp)+
  then show ?thesis unfolding year_days_def a_def[symmetric] b_def[symmetric] c_def[symmetric] by auto
qed

lemma greg_year_bounds: "year_start (greg_year n) \<le> n \<and> n < year_start (greg_year n + 1)"
proof -
  define k where "k = n + 719162"
  define q where "q = (400 * k) div 146097"
  have q: "146097 * q \<le> 400 * k" "400 * k < 146097 * q + 146097"
    unfolding q_def using div_bounds[of 146097 "400 * k"] by auto
  have lo: "year_days (q - 1) \<le> k" using year_days_bounds[of "q - 1", THEN conjunct2] q by (simp add: algebra_simps)
  have hi: "k < year_days (q + 2)" using year_days_bounds[of "q + 2", THEN conjunct1] q by (simp add: algebra_simps)
  have y: "greg_year n = (if year_days (q + 1) \<le> k then q + 2 else if year_days q \<le> k then q + 1 else q)"
    by (simp add: greg_year_def Let_def k_def q_def)
  have "year_days (greg_year n - 1) \<le> k" "k < year_days (greg_year n)" unfolding y using lo hi by (auto simp: add.commute)
  then show ?thesis by (simp add: year_start_def k_def)
qed

section \<open>Dates\<close>

lemma month_start_step:
  assumes "1 \<le> m" "m \<le> 12"
  shows "month_start l m < month_start l (m + 1)" "0 \<le> month_start l m" "month_start l (m + 1) \<le> 365 + (if l then 1 else 0)"
proof -
  have "m = 1 \<or> m = 2 \<or> m = 3 \<or> m = 4 \<or> m = 5 \<or> m = 6 \<or> m = 7 \<or> m = 8 \<or> m = 9 \<or> m = 10 \<or> m = 11 \<or> m = 12"
    using assms by presburger
  then show "month_start l m < month_start l (m + 1)" "0 \<le> month_start l m" "month_start l (m + 1) \<le> 365 + (if l then 1 else 0)"
    by (auto simp: month_start_def Let_def)
qed

lemma month_start_mono: "1 \<le> m \<Longrightarrow> m < k \<Longrightarrow> k \<le> 12 \<Longrightarrow> month_start l (m + 1) \<le> month_start l k"
proof (induction "nat (k - m - 1)" arbitrary: k)
  case 0
  then have "k = m + 1" by simp
  then show ?case by simp
next
  case (Suc i)
  then have "month_start l (m + 1) \<le> month_start l (k - 1)" by (intro Suc.hyps) auto
  also have "\<dots> \<le> month_start l k" using month_start_step(1)[of "k - 1" l] Suc.prems Suc.hyps(2) by simp
  finally show ?case .
qed

lemma greg_month_bounds:
  assumes "0 \<le> r" "r < 365 + (if l then 1 else 0)"
  shows "1 \<le> greg_month l r \<and> greg_month l r \<le> 12
    \<and> month_start l (greg_month l r) \<le> r \<and> r < month_start l (greg_month l r + 1)"
  using assms by (cases l) (simp_all add: greg_month_def month_start_def)

lemma greg_ymd_valid:
  assumes "greg_ymd n = (y, m, d)"
  shows "valid_date y m d \<and> greg_day y m d = n \<and> y = greg_year n"
proof -
  let ?r = "n - year_start (greg_year n)"
  have "0 \<le> ?r" "?r < 365 + (if leap (greg_year n) then 1 else 0)"
    using greg_year_bounds[of n] year_start_step[of "greg_year n"] by auto
  from greg_month_bounds[OF this] assms show ?thesis
    by (auto simp: greg_ymd_def Let_def valid_date_def greg_day_def)
qed

lemma greg_day_mono:
  assumes "valid_date y m d" "valid_date y' m' d'" "(y, m, d) < (y', m', d')"
  shows "greg_day y m d < greg_day y' m' d'"
proof -
  from assms(3) consider "y < y'" | "y = y'" "m < m'" | "y = y'" "m = m'" "d < d'"
    unfolding less_prod_def by fastforce
  then show ?thesis
  proof cases
    case 1
    have "greg_day y m d < year_start (y + 1)"
      using assms(1) month_start_step(3)[of m "leap y"] year_start_step[of y]
      by (auto simp: valid_date_def greg_day_def split: if_splits)
    also have "\<dots> \<le> year_start y'" using 1 by (rule year_start_mono)
    also have "\<dots> \<le> greg_day y' m' d'"
      using assms(2) month_start_step(2)[of m' "leap y'"] by (simp add: valid_date_def greg_day_def)
    finally show ?thesis .
  next
    case 2
    then show ?thesis
      using assms(1,2) month_start_mono[of m m' "leap y"] by (auto simp: valid_date_def greg_day_def)
  next
    case 3
    then show ?thesis by (simp add: greg_day_def)
  qed
qed

lemma greg_ymd_day:
  assumes "valid_date y m d"
  shows "greg_ymd (greg_day y m d) = (y, m, d)"
proof -
  obtain y' m' d' where eq: "greg_ymd (greg_day y m d) = (y', m', d')" by (metis prod.collapse)
  from greg_ymd_valid[OF eq] have v: "valid_date y' m' d'" "greg_day y' m' d' = greg_day y m d" by auto
  then show ?thesis
    using greg_day_mono[OF assms v(1)] greg_day_mono[OF v(1) assms] eq by (metis less_irrefl linorder_less_linear)
qed

section \<open>The instance\<close>

lemma gregorian_simps [simp]:
  "ymd gregorian = greg_ymd"
  "from_ymd gregorian y m d = (if min_year \<le> y \<and> y \<le> max_year \<and> valid_date y m d then Some (greg_day y m d) else None)"
  "dt_min gregorian = year_start min_year * 86400" "dt_max gregorian = year_start (max_year + 1) * 86400 - 1"
  by (simp_all add: gregorian_def)

lemma last_day: "(year_start (max_year + 1) * 86400 - 1) div 86400 = year_start (max_year + 1) - 1"
  by (simp add: algebra_simps)

lemma day_ok_gregorian: "day_ok gregorian n \<longleftrightarrow> year_start min_year \<le> n \<and> n < year_start (max_year + 1)"
  by (auto simp: day_ok_def last_day)

lemma day_ok_year: "day_ok gregorian n \<longleftrightarrow> min_year \<le> greg_year n \<and> greg_year n \<le> max_year"
proof -
  have "min_year \<le> greg_year n" if "year_start min_year \<le> n"
    using that greg_year_bounds[of n] year_start_mono[of "greg_year n" min_year] by (cases "greg_year n < min_year") auto
  moreover have "greg_year n \<le> max_year" if "n < year_start (max_year + 1)"
    using that greg_year_bounds[of n] year_start_mono[of max_year "greg_year n"] by (cases "max_year < greg_year n") auto
  moreover have "year_start min_year \<le> n" if "min_year \<le> greg_year n"
    using that greg_year_bounds[of n] year_start_mono[of "min_year - 1" "greg_year n"] by auto
  moreover have "n < year_start (max_year + 1)" if "greg_year n \<le> max_year"
    using that greg_year_bounds[of n] year_start_mono[of "greg_year n" "max_year + 1"] by auto
  ultimately show ?thesis by (auto simp: day_ok_gregorian)
qed

lemma month_length: "1 \<le> m \<Longrightarrow> m \<le> 12 \<Longrightarrow> month_start l (m + 1) - month_start l m \<le> 31"
proof -
  assume "1 \<le> m" "m \<le> 12"
  then have "m = 1 \<or> m = 2 \<or> m = 3 \<or> m = 4 \<or> m = 5 \<or> m = 6 \<or> m = 7 \<or> m = 8 \<or> m = 9 \<or> m = 10 \<or> m = 11 \<or> m = 12"
    by presburger
  then show ?thesis by (auto simp: month_start_def Let_def)
qed

lemma greg_last: "greg_ymd (year_start (max_year + 1) - 1) = (max_year, 12, 31)"
proof -
  have v: "valid_date max_year 12 31" by (simp add: valid_date_def month_start_def)
  have "greg_day max_year 12 31 = year_start (max_year + 1) - 1"
    using year_start_step[of max_year] by (auto simp: greg_day_def month_start_def)
  with greg_ymd_day[OF v] show ?thesis by simp
qed

interpretation greg: calendar gregorian
proof
  show "ymd gregorian n < ymd gregorian k" if "day_ok gregorian n" "day_ok gregorian k" "n < k" for n k
  proof (rule ccontr)
    obtain y m d where n: "greg_ymd n = (y, m, d)" by (metis prod.collapse)
    obtain y' m' d' where k: "greg_ymd k = (y', m', d')" by (metis prod.collapse)
    assume "\<not> ymd gregorian n < ymd gregorian k"
    then have "\<not> (y, m, d) < (y', m', d')" using n k by simp
    then have "(y', m', d') \<le> (y, m, d)" by (simp only: not_less)
    then have "k \<le> n"
      using greg_day_mono[of y' m' d' y m d] greg_ymd_valid[OF n] greg_ymd_valid[OF k]
      by (cases "(y', m', d') = (y, m, d)") (auto simp: order.order_iff_strict)
    with that show False by simp
  qed
  show "1 \<le> m \<and> m \<le> 12 \<and> 1 \<le> d \<and> d \<le> 31" if "day_ok gregorian n" "ymd gregorian n = (y, m, d)" for n y m d
    using greg_ymd_valid[of n y m d] that month_length[of m "leap y"] by (auto simp: valid_date_def)
  show "from_ymd gregorian y m d = Some n \<longleftrightarrow> day_ok gregorian n \<and> ymd gregorian n = (y, m, d)" for y m d n
    using greg_ymd_valid[of n y m d] greg_ymd_day[of y m d] greg_ymd_valid[of "greg_day y m d" y m d]
    by (auto simp: day_ok_year)
  show "\<exists>k. from_ymd gregorian y m 1 = Some k"
    if "day_ok gregorian n" "fst (ymd gregorian n) \<le> y" "y \<le> fst (ymd gregorian (dt_max gregorian div 86400))" "1 \<le> m" "m \<le> 12" for n y m
  proof -
    have "min_year \<le> y" using that(1,2) greg_ymd_valid[of n] by (metis day_ok_year gregorian_simps(1) order_trans prod.collapse)
    moreover have "y \<le> max_year" using that(3) by (simp add: last_day greg_last)
    moreover have "valid_date y m 1" using that(4,5) month_start_step(1)[of m "leap y"] by (simp add: valid_date_def)
    ultimately show ?thesis by simp
  qed
  show "snd (ymd gregorian (dt_max gregorian div 86400)) = (12, 31)" by (simp add: last_day greg_last)
  show "dt_max gregorian mod 86400 = 86399" "dt_min gregorian mod 86400 = 0"
    by (simp_all add: mod_diff_left_eq[symmetric])
qed

end
