(* ===== verification/Cron_Props.thy ===== *)
theory Cron_Props
  imports Gregorian
begin

text \<open>
  What the schedule expressions promise: a parsed field is the set its text denotes, the next
  local time is the first match, the next timestamp is the first match in a zone with a fixed
  offset, and where that fails when clocks are set back.
\<close>

section \<open>Parsed fields\<close>

lemma set_step_values:
  assumes "0 < step" "e < u32_max"
  shows "set (step_values v e step) = {x. v \<le> x \<and> x \<le> e \<and> step dvd (x - v)}"
  using assms
proof (induction v e step rule: step_values.induct)
  case (1 v e step)
  show ?case
  proof (cases "v \<le> e")
    case False
    then show ?thesis by (subst step_values.simps) auto
  next
    case True
    have IH: "set (step_values (min u32_max (v + step)) e step)
        = {x. min u32_max (v + step) \<le> x \<and> x \<le> e \<and> step dvd (x - min u32_max (v + step))}"
      using 1 True by simp
    have split: "x = v \<or> (v + step \<le> x \<and> step dvd (x - (v + step)))" if "v \<le> x" "step dvd (x - v)" for x
    proof (cases "x = v")
      case False
      with that have "step \<le> x - v" by (intro zdvd_imp_le) auto
      moreover have "step dvd (x - v) - step" using that(2) by (rule dvd_diff) simp
      then have "step dvd (x - (v + step))" by (simp add: algebra_simps)
      ultimately show ?thesis by simp
    qed simp
    have join: "step dvd (x - v)" if "step dvd (x - (v + step))" for x
      using dvd_add[OF that dvd_refl[of step]] by simp
    have eq: "{x. v \<le> x \<and> x \<le> e \<and> step dvd (x - v)}
        = insert v {x. v + step \<le> x \<and> x \<le> e \<and> step dvd (x - (v + step))}"
      (is "?L = insert v ?R")
    proof (intro equalityI subsetI)
      fix x assume "x \<in> ?L"
      with split[of x] show "x \<in> insert v ?R" by simp
    next
      fix x assume "x \<in> insert v ?R"
      with join[of x] True 1(2) show "x \<in> ?L" by (cases "x = v") simp_all
    qed
    have "set (step_values v e step) = insert v (set (step_values (min u32_max (v + step)) e step))"
      using True 1(2,3) by (subst step_values.simps) simp
    also have "set (step_values (min u32_max (v + step)) e step) = {x. v + step \<le> x \<and> x \<le> e \<and> step dvd (x - (v + step))}"
    proof (cases "v + step \<le> u32_max")
      case True
      then show ?thesis using IH by (simp add: min_def)
    next
      case False
      then have "{x. min u32_max (v + step) \<le> x \<and> x \<le> e \<and> step dvd (x - min u32_max (v + step))} = {}"
        "{x. v + step \<le> x \<and> x \<le> e \<and> step dvd (x - (v + step))} = {}" using 1(3) by fastforce+
      with IH show ?thesis by simp
    qed
    finally show ?thesis using eq by simp
  qed
qed

lemma insert_all_set: "set (insert_all vs out) = set vs \<union> set out" "sorted out \<Longrightarrow> sorted (insert_all vs out)"
  by (induction vs arbitrary: out) (auto simp: insert_all_def set_insort_insert sorted_insort_insert)

text \<open>The values a part of a field denotes, written from its text.\<close>

definition part_values :: "int \<Rightarrow> int \<Rightarrow> string \<Rightarrow> int set" where
  "part_values lo hi part = {v. \<exists>base step a b. parse_step part = Inr (base, step)
     \<and> parse_range part base lo hi = Inr (a, b) \<and> a \<le> v \<and> v \<le> b \<and> step dvd (v - a)}"

lemma parse_step_pos: "parse_step part = Inr (base, step) \<Longrightarrow> 0 < step"
  by (auto simp: parse_step_def dest!: parse_number_range split: option.splits if_splits)

lemma parse_parts_ok:
  assumes "parse_parts lo hi parts out = Inr vs" "0 \<le> lo" "hi < u32_max" "sorted out" "\<forall>v\<in>set out. lo \<le> v \<and> v \<le> hi"
  shows "sorted vs \<and> (\<forall>v\<in>set vs. lo \<le> v \<and> v \<le> hi) \<and> set vs = set out \<union> (\<Union>part\<in>set parts. part_values lo hi part)
    \<and> (out \<noteq> [] \<or> parts \<noteq> [] \<longrightarrow> vs \<noteq> [])"
  using assms
proof (induction parts arbitrary: out)
  case (Cons part parts)
  from Cons.prems(1) obtain base step a b where st: "parse_step part = Inr (base, step)"
    and rg: "parse_range part base lo hi = Inr (a, b)" and ab: "lo \<le> a" "b \<le> hi" "a \<le> b"
    and rest: "parse_parts lo hi parts (insert_all (step_values a b step) out) = Inr vs"
    by (auto split: sum.splits prod.splits if_splits)
  let ?out = "insert_all (step_values a b step) out"
  have pos: "0 < step" using st by (rule parse_step_pos)
  have vals: "set (step_values a b step) = {x. a \<le> x \<and> x \<le> b \<and> step dvd (x - a)}"
    using pos ab Cons.prems(3) by (intro set_step_values) auto
  then have "part_values lo hi part = set (step_values a b step)"
    using st rg by (auto simp: part_values_def)
  moreover have "a \<in> set (step_values a b step)" using vals ab by simp
  moreover have "sorted ?out" using Cons.prems(4) by (rule insert_all_set(2))
  moreover have "\<forall>v\<in>set ?out. lo \<le> v \<and> v \<le> hi" using Cons.prems(5) vals ab by (auto simp: insert_all_set)
  ultimately show ?case
    using Cons.IH[OF rest Cons.prems(2,3)] by (auto simp: insert_all_set)
qed auto

lemma split_by_nonempty: "split_by p s \<noteq> []"
  by (induction s) (auto split: list.splits)

lemma parse_field_ok:
  assumes "parse_field field lo hi = Inr vs" "0 \<le> lo" "hi < u32_max"
  shows "field_ok lo hi vs"
  using parse_parts_ok[of lo hi "split_by (\<lambda>c. c = CHR '','') field" "[]" vs] assms split_by_nonempty
  by (auto simp: parse_field_def field_ok_def)

lemma parse_date_fields_ok:
  assumes "parse_date_fields secs f0 f1 f2 f3 f4 = Inr sched" "field_ok 0 59 secs"
  shows "sched_ok sched"
proof -
  from assms(1) obtain mi h d mo dw where f: "parse_field f0 0 59 = Inr mi" "parse_field f1 0 23 = Inr h"
    "parse_field f2 1 31 = Inr d" "parse_field f3 1 12 = Inr mo" "parse_field f4 0 6 = Inr dw"
    and s: "sched = \<lparr>seconds = secs, minutes = mi, hours = h, days = d, months = mo, dows = dw\<rparr>"
    by (auto simp: parse_date_fields_def ebind_def split: sum.splits)
  from f[THEN parse_field_ok] assms(2) show ?thesis by (simp add: s sched_ok_def u32_max_def)
qed

lemma parse_cron_ok:
  assumes "parse_cron expr = Inr sched"
  shows "sched_ok sched"
proof -
  from assms consider
    (five) f0 f1 f2 f3 f4 where "parse_date_fields [0] f0 f1 f2 f3 f4 = Inr sched"
  | (six) f0 f1 f2 f3 f4 f5 secs where "parse_field f0 0 59 = Inr secs" "parse_date_fields secs f1 f2 f3 f4 f5 = Inr sched"
    by (auto simp: parse_cron_def ebind_def split: list.splits sum.splits)
  then show ?thesis
  proof cases
    case five
    then show ?thesis by (rule parse_date_fields_ok) (simp add: field_ok_def)
  next
    case six
    from six(2) parse_field_ok[OF six(1)] show ?thesis by (intro parse_date_fields_ok) (simp_all add: u32_max_def)
  qed
qed



section \<open>The next local time\<close>

text \<open>
  C36. The search for the next local time is exact and total: for every schedule the parser can
  produce and every start at least 102 years before the end of the calendar, it ends without a
  panic; if it returns a time, that time is after the start, matches, and is the first that does;
  if it reports an error, no time up to the end of the hundredth year after the start matches.
\<close>

theorem cron_next_after_naive_first:
  assumes "calendar cal" "parse_cron expr = Inr sched"
    and "dt_ok cal start" "dt_year cal start + 101 < dt_year cal (dt_max cal)"
  shows "(\<exists>x. cron_next_after_naive cal sched start = Some (COk x) \<and> start < x \<and> dt_ok cal x \<and> matches cal sched x
          \<and> (\<forall>t. start < t \<longrightarrow> t < x \<longrightarrow> dt_ok cal t \<longrightarrow> \<not> matches cal sched t))
    \<or> (cron_next_after_naive cal sched start = Some (CErr NoMatchIn100Years)
          \<and> (\<forall>t. start < t \<longrightarrow> dt_ok cal t \<longrightarrow> dt_year cal t \<le> dt_year cal start + 100 \<longrightarrow> \<not> matches cal sched t))"
proof -
  from calendar.cron_next_total[OF assms(1,3) parse_cron_ok[OF assms(2)] assms(4)] obtain r
    where "cron_next_after_naive cal sched start = Some r" "r \<noteq> CPanic"
      "case r of COk x \<Rightarrow> start < x \<and> dt_ok cal x \<and> matches cal sched x
           \<and> (\<forall>t. start < t \<longrightarrow> t < x \<longrightarrow> dt_ok cal t \<longrightarrow> \<not> matches cal sched t)
       | CErr e \<Rightarrow> e = NoMatchIn100Years \<and> (\<forall>t. start < t \<longrightarrow> dt_ok cal t
           \<longrightarrow> dt_year cal t \<le> dt_year cal start + 100 \<longrightarrow> \<not> matches cal sched t)
       | CPanic \<Rightarrow> False" by blast
  then show ?thesis by (cases r) simp_all
qed

definition sunday_noon :: cron_schedule where
  "sunday_noon = \<lparr>seconds = [0], minutes = [30], hours = [12], days = [1..31], months = [1..12], dows = [0]\<rparr>"

theorem cron_next_after_naive_first_witness:
  "(\<exists>x. cron_next_after_naive gregorian sunday_noon 0 = Some (COk x) \<and> 0 < x \<and> dt_ok gregorian x \<and> matches gregorian sunday_noon x
          \<and> (\<forall>t. 0 < t \<longrightarrow> t < x \<longrightarrow> dt_ok gregorian t \<longrightarrow> \<not> matches gregorian sunday_noon t))
    \<or> (cron_next_after_naive gregorian sunday_noon 0 = Some (CErr NoMatchIn100Years)
          \<and> (\<forall>t. 0 < t \<longrightarrow> dt_ok gregorian t \<longrightarrow> dt_year gregorian t \<le> dt_year gregorian 0 + 100 \<longrightarrow> \<not> matches gregorian sunday_noon t))"
proof (rule cron_next_after_naive_first[OF greg.calendar_axioms])
  show "parse_cron ''30 12 * * 0'' = Inr sunday_noon" by code_simp
  show "dt_ok gregorian 0" by code_simp
  show "dt_year gregorian 0 + 101 < dt_year gregorian (dt_max gregorian)" by code_simp
qed

section \<open>The next timestamp\<close>

lemma parse_every_positive: "parse_every_interval body = Inr s \<Longrightarrow> 0 < s"
  by (auto simp: parse_every_interval_def unit_seconds_def checked_i64_def Let_def
      split: if_splits option.splits)

lemma parse_schedule_cases:
  assumes "parse_schedule expr = Inr e"
  obtains s where "e = Every s" "0 < s" | sched where "e = Cron sched" "sched_ok sched"
  using assms parse_every_positive parse_cron_ok
  by (auto simp: parse_schedule_def ebind_def Let_def split: option.splits sum.splits)

text \<open>What \<^verbatim>\<open>chrono\<close> says of every zone: the local time of a timestamp can be represented.\<close>

definition zone_ok :: "chrono \<Rightarrow> timezone \<Rightarrow> bool" where
  "zone_ok cal tz \<longleftrightarrow> (\<forall>u. case timestamp_opt tz u of
     NoLocal \<Rightarrow> True | Single n \<Rightarrow> dt_ok cal n | Ambiguous n m \<Rightarrow> dt_ok cal n)"

text \<open>
  A zone whose clock is never set back: a later local time belongs to a later timestamp. Gaps, as
  when a clock is set forward, are allowed.
\<close>

definition earliest :: "local_result \<Rightarrow> int option" where
  "earliest r = (case r of NoLocal \<Rightarrow> None | Single t \<Rightarrow> Some t | Ambiguous t u \<Rightarrow> Some t)"

definition never_set_back :: "timezone \<Rightarrow> bool" where
  "never_set_back tz \<longleftrightarrow> (\<forall>u n l t. earliest (timestamp_opt tz u) = Some n \<longrightarrow> n < l
     \<longrightarrow> earliest (from_local tz l) = Some t \<longrightarrow> u < t)"

text \<open>A zone with a fixed offset, over the times that can be represented.\<close>

definition fixed_offset :: "chrono \<Rightarrow> int \<Rightarrow> timezone" where
  "fixed_offset cal off = \<lparr>timestamp_opt = (\<lambda>u. if dt_ok cal (u + off) then Single (u + off) else NoLocal),
     from_local = (\<lambda>l. Single (l - off))\<rparr>"

lemma fixed_offset_zone: "zone_ok cal (fixed_offset cal off)" "never_set_back (fixed_offset cal off)"
  by (auto simp: fixed_offset_def zone_ok_def never_set_back_def earliest_def)

context calendar
begin

lemma local_loop_total:
  assumes "dt_ok cal cand"
  shows "\<exists>r. local_loop cal tz u expr cap cand = Some r
    \<and> (\<forall>t. r = COk t \<longrightarrow> (\<exists>l. cand \<le> l \<and> earliest (from_local tz l) = Some t))"
  using assms
proof (induction "nat (dt_max cal - cand)" arbitrary: cand rule: less_induct)
  case less
  show ?case
  proof (cases "dt_year cal cand \<le> cap \<and> from_local tz cand = NoLocal \<and> dt_ok cal (cand + 1)")
    case True
    then have "nat (dt_max cal - (cand + 1)) < nat (dt_max cal - cand)" by (simp add: dt_ok_def)
    from less.hyps[OF this] True obtain r where r: "local_loop cal tz u expr cap (cand + 1) = Some r"
      "\<forall>t. r = COk t \<longrightarrow> (\<exists>l. cand + 1 \<le> l \<and> earliest (from_local tz l) = Some t)" by auto
    moreover have "local_loop cal tz u expr cap cand = Some r"
      using True r(1) by (subst local_loop.simps) (simp add: dt_plus_def)
    moreover have "\<exists>l. cand \<le> l \<and> earliest (from_local tz l) = Some t" if "r = COk t" for t
    proof -
      from r(2) that obtain l where "cand + 1 \<le> l" "earliest (from_local tz l) = Some t" by blast
      then show ?thesis by (intro exI[of _ l]) simp
    qed
    ultimately show ?thesis by blast
  next
    case False
    then show ?thesis
      by (subst local_loop.simps)
        (auto simp: dt_plus_def earliest_def intro!: exI[of _ cand] split: local_result.splits)
  qed
qed

lemma next_cron_total:
  assumes "zone_ok cal tz" "sched_ok sched"
  shows "\<exists>r. next_cron cal tz expr sched u = Some r
    \<and> (\<forall>t. r = COk t \<longrightarrow> (\<exists>n l. earliest (timestamp_opt tz u) = Some n \<and> n < l \<and> earliest (from_local tz l) = Some t))"
proof (cases "earliest (timestamp_opt tz u)")
  case None
  then show ?thesis by (auto simp: next_cron_def earliest_def split: local_result.splits)
next
  case (Some n)
  have n: "dt_ok cal n" using assms(1) Some
    by (auto simp: zone_ok_def earliest_def split: local_result.splits dest: spec[of _ u])
  have run: "next_cron cal tz expr sched u = (case cron_next_after_naive cal sched n of
      Some (COk cand) \<Rightarrow> local_loop cal tz u expr (dt_year cal cand + 100) cand | other \<Rightarrow> other)"
    using Some by (auto simp: next_cron_def earliest_def split: local_result.splits)
  show ?thesis
  proof (cases "dt_ok cal (n + 1)")
    case False
    with run show ?thesis by (simp add: cron_next_after_naive_def dt_plus_def)
  next
    case True
    from cron_loop_total[OF True assms(2), of "dt_year cal (n + 1) + 100"] obtain q
      where q: "cron_next_after_naive cal sched n = Some q"
        "search_result cal sched (dt_year cal (n + 1) + 100) (n + 1) q"
      using True by (auto simp: cron_next_after_naive_def dt_plus_def)
    show ?thesis
    proof (cases q)
      case (COk x)
      with q(2) have x: "n < x" "dt_ok cal x" by (auto simp: search_result_def)
      from local_loop_total[OF x(2), of tz u expr "dt_year cal x + 100"] obtain r
        where r: "local_loop cal tz u expr (dt_year cal x + 100) x = Some r"
          "\<forall>t. r = COk t \<longrightarrow> (\<exists>l. x \<le> l \<and> earliest (from_local tz l) = Some t)" by blast
      have "\<exists>n l. earliest (timestamp_opt tz u) = Some n \<and> n < l \<and> earliest (from_local tz l) = Some t"
        if "r = COk t" for t
      proof -
        from r(2) that obtain l where "x \<le> l" "earliest (from_local tz l) = Some t" by blast
        with x(1) Some show ?thesis by (intro exI[of _ n] exI[of _ l]) simp
      qed
      with run q(1) COk r(1) show ?thesis by simp
    qed (use run q(1) in auto)
  qed
qed

end

lemma next_after_unix_runs:
  assumes "calendar cal" "zone_ok cal tz"
  shows "\<exists>r. next_after_unix cal tz expr u = Some r \<and> (never_set_back tz \<longrightarrow> (\<forall>t. r = COk t \<longrightarrow> u < t))"
proof (cases "parse_schedule expr")
  case (Inr e)
  from Inr show ?thesis
  proof (cases rule: parse_schedule_cases)
    case (1 s)
    with Inr show ?thesis by (auto simp: next_after_unix_def checked_i64_def)
  next
    case (2 sched)
    from calendar.next_cron_total[OF assms 2(2), of expr u] obtain r where "next_cron cal tz expr sched u = Some r"
      "\<forall>t. r = COk t \<longrightarrow> (\<exists>n l. earliest (timestamp_opt tz u) = Some n \<and> n < l \<and> earliest (from_local tz l) = Some t)"
      by blast
    with Inr 2(1) show ?thesis by (auto simp: next_after_unix_def never_set_back_def)
  qed
qed (simp add: next_after_unix_def)

text \<open>
  The next timestamp of an expression always comes back, as a time, an error or a panic at
  the end of the calendar: neither loop runs for ever, for any text, any start and any zone, with
  gaps or not. In a zone whose clock is never set back a time that comes back is strictly
  after the start.
\<close>

theorem next_after_unix_progress:
  assumes "calendar cal" "zone_ok cal tz"
  shows "\<exists>r. next_after_unix cal tz expr u = Some r \<and> (never_set_back tz \<longrightarrow> (\<forall>t. r = COk t \<longrightarrow> u < t))"
  using assms by (rule next_after_unix_runs)

theorem next_after_unix_progress_witness:
  "(\<exists>r. next_after_unix gregorian (fixed_offset gregorian 3600) ''*/5 * * * *'' 1700000000 = Some r
      \<and> (never_set_back (fixed_offset gregorian 3600) \<longrightarrow> (\<forall>t. r = COk t \<longrightarrow> 1700000000 < t)))
   \<and> never_set_back (fixed_offset gregorian 3600)"
  using next_after_unix_progress[OF greg.calendar_axioms fixed_offset_zone(1)[of gregorian 3600]] fixed_offset_zone(2) by blast

lemma next_after_unix_fixed:
  assumes "parse_schedule expr = Inr (Cron sched)" "dt_ok cal (u + off)"
    "cron_next_after_naive cal sched (u + off) = Some (COk x)"
  shows "next_after_unix cal (fixed_offset cal off) expr u = Some (COk (x - off))"
  using assms by (simp add: next_after_unix_def next_cron_def fixed_offset_def local_loop.simps)

text \<open>
  In a zone with a fixed offset the next timestamp of a cron expression is exact: the first
  timestamp after the start whose local time matches, or an error when there is none in the next
  hundred years.
\<close>

theorem next_after_unix_first:
  assumes "calendar cal" "parse_schedule expr = Inr (Cron sched)"
    and "dt_ok cal (u + off)" "dt_year cal (u + off) + 101 < dt_year cal (dt_max cal)"
  shows "(\<exists>x. next_after_unix cal (fixed_offset cal off) expr u = Some (COk x) \<and> u < x \<and> matches cal sched (x + off)
          \<and> (\<forall>t. u < t \<longrightarrow> t < x \<longrightarrow> \<not> matches cal sched (t + off)))
    \<or> (next_after_unix cal (fixed_offset cal off) expr u = Some (CErr NoMatchIn100Years)
          \<and> (\<forall>t. u < t \<longrightarrow> dt_ok cal (t + off) \<longrightarrow> dt_year cal (t + off) \<le> dt_year cal (u + off) + 100
                \<longrightarrow> \<not> matches cal sched (t + off)))"
proof -
  have sched: "sched_ok sched" using assms(2) by (cases rule: parse_schedule_cases) simp_all
  from calendar.cron_next_total[OF assms(1,3) sched assms(4)] obtain r
    where r: "cron_next_after_naive cal sched (u + off) = Some r" "r \<noteq> CPanic"
      "case r of COk x \<Rightarrow> u + off < x \<and> dt_ok cal x \<and> matches cal sched x
           \<and> (\<forall>t. u + off < t \<longrightarrow> t < x \<longrightarrow> dt_ok cal t \<longrightarrow> \<not> matches cal sched t)
       | CErr e \<Rightarrow> e = NoMatchIn100Years \<and> (\<forall>t. u + off < t \<longrightarrow> dt_ok cal t
           \<longrightarrow> dt_year cal t \<le> dt_year cal (u + off) + 100 \<longrightarrow> \<not> matches cal sched t)
       | CPanic \<Rightarrow> False" by blast
  show ?thesis
  proof (cases r)
    case (COk x)
    with r(3) have x: "u + off < x" "dt_ok cal x" "matches cal sched x"
      "\<And>t. u + off < t \<Longrightarrow> t < x \<Longrightarrow> dt_ok cal t \<Longrightarrow> \<not> matches cal sched t" by auto
    have "\<not> matches cal sched (t + off)" if "u < t" "t < x - off" for t
      using that x(2) assms(3) by (intro x(4)) (auto simp: dt_ok_def)
    moreover have "next_after_unix cal (fixed_offset cal off) expr u = Some (COk (x - off))"
      using assms(2,3) r(1) COk by (intro next_after_unix_fixed) simp_all
    ultimately show ?thesis using x(1,3) by (intro disjI1 exI[of _ "x - off"]) auto
  next
    case (CErr e)
    with r assms(2,3) show ?thesis
      by (intro disjI2) (auto simp: next_after_unix_def next_cron_def fixed_offset_def)
  qed (use r(2) in simp)
qed

theorem next_after_unix_first_witness:
  "(\<exists>x. next_after_unix gregorian (fixed_offset gregorian 3600) ''30 12 * * 0'' 1700000000 = Some (COk x) \<and> 1700000000 < x
          \<and> matches gregorian sunday_noon (x + 3600)
          \<and> (\<forall>t. 1700000000 < t \<longrightarrow> t < x \<longrightarrow> \<not> matches gregorian sunday_noon (t + 3600)))
    \<or> (next_after_unix gregorian (fixed_offset gregorian 3600) ''30 12 * * 0'' 1700000000 = Some (CErr NoMatchIn100Years)
          \<and> (\<forall>t. 1700000000 < t \<longrightarrow> dt_ok gregorian (t + 3600)
                \<longrightarrow> dt_year gregorian (t + 3600) \<le> dt_year gregorian (1700000000 + 3600) + 100
                \<longrightarrow> \<not> matches gregorian sunday_noon (t + 3600)))"
proof (rule next_after_unix_first[OF greg.calendar_axioms])
  show "parse_schedule ''30 12 * * 0'' = Inr (Cron sunday_noon)" by code_simp
  show "dt_ok gregorian (1700000000 + 3600)" by code_simp
  show "dt_year gregorian (1700000000 + 3600) + 101 < dt_year gregorian (dt_max gregorian)" by code_simp
qed

section \<open>Clocks set back\<close>

text \<open>
  A zone that is an hour ahead until the timestamp \<open>t0\<close>, when its clock is set back by an hour:
  the local times of that hour exist twice.
\<close>

definition autumn :: "chrono \<Rightarrow> int \<Rightarrow> timezone" where
  "autumn cal t0 = \<lparr>timestamp_opt = (\<lambda>u. let l = (if u < t0 then u + 3600 else u) in if dt_ok cal l then Single l else NoLocal),
     from_local = (\<lambda>l. if l < t0 then Single (l - 3600) else if l < t0 + 3600 then Ambiguous (l - 3600) l else Single l)\<rparr>"

text \<open>
  When clocks are set back the next timestamp is not after the start: asked in the second pass
  through the repeated hour, the code takes the earlier of the two timestamps of the matching local time.
  Here the clock is set back at 01:00 on 1 January 2024, the expression fires at
  half past one, and the answer lies half an hour before the start.
\<close>

theorem next_after_unix_goes_back:
  "zone_ok gregorian (autumn gregorian 1704070800)
   \<and> next_after_unix gregorian (autumn gregorian 1704070800) ''30 1 * * *'' 1704070800 = Some (COk (1704070800 - 1800))"
proof
  show "zone_ok gregorian (autumn gregorian 1704070800)" by (simp add: zone_ok_def autumn_def Let_def)
  show "next_after_unix gregorian (autumn gregorian 1704070800) ''30 1 * * *'' 1704070800 = Some (COk (1704070800 - 1800))"
    by code_simp
qed

end
