(* ===== verification/Scheduler.thy ===== *)
theory Scheduler
  imports Queue_Inv Cron_Props
begin

text \<open>
  The periodic tasks of \<^verbatim>\<open>honker_ops.rs\<close>: registration, the tick that turns due boundaries into
  jobs, and the maintenance of the task table. The calendar and the zone of \<^verbatim>\<open>next_after_unix\<close> are
  arguments of the operations that compute a boundary.
\<close>

section \<open>Boundaries\<close>

definition spanic :: "('d, 'a) action" where
  "spanic c = (Panicked, c)"

text \<open>
  \<^verbatim>\<open>super::cron::next_after_unix(..).map_err(to_sql_err)?\<close>. The calculation always comes back
  (\<open>next_after_unix_progress\<close>), so its \<open>None\<close>, which would be a run that never ends, is
  put with the panics.
\<close>

definition cron_next :: "chrono \<Rightarrow> timezone \<Rightarrow> string \<Rightarrow> int \<Rightarrow> int haction" where
  "cron_next cal tz expr from_unix = (case next_after_unix cal tz expr from_unix of
       Some (COk t) \<Rightarrow> sret t
     | Some (CErr e) \<Rightarrow> sfail (CronError e)
     | Some CPanic \<Rightarrow> spanic
     | None \<Rightarrow> spanic)"

section \<open>Registration\<close>

definition scheduler_wake :: "unit haction" where
  "scheduler_wake = sret ()"

definition is_task :: "string \<Rightarrow> task_row \<Rightarrow> bool" where
  "is_task name r \<longleftrightarrow> t_name r = name"

text \<open>
  \<open>INSERT .. ON CONFLICT(name) DO UPDATE\<close>: a new row is enabled by the default of the column; an
  existing row keeps its \<open>enabled\<close>, which the update does not list.
\<close>

definition upsert_task ::
  "string \<Rightarrow> string \<Rightarrow> string \<Rightarrow> string \<Rightarrow> int \<Rightarrow> int option \<Rightarrow> int \<Rightarrow> int \<Rightarrow> honker_db \<Rightarrow> honker_db" where
  "upsert_task name queue cron_expr payload priority expires_s next_fire_at max_attempts d =
     (if list_ex (is_task name) (tasks d)
      then d\<lparr>tasks := upd_where (is_task name) (\<lambda>r. r\<lparr>t_queue := queue, t_cron_expr := cron_expr,
          t_payload := payload, t_priority := priority, t_expires_s := expires_s,
          t_next_fire_at := next_fire_at, t_max_attempts := max_attempts\<rparr>) (tasks d)\<rparr>
      else d\<lparr>tasks := tasks d @ [\<lparr>t_name = name, t_queue = queue, t_cron_expr = cron_expr,
          t_payload = payload, t_priority = priority, t_expires_s = expires_s,
          t_next_fire_at = next_fire_at, t_enabled = 1, t_max_attempts = max_attempts\<rparr>]\<rparr>)"

definition scheduler_register ::
  "chrono \<Rightarrow> timezone \<Rightarrow> string \<Rightarrow> string \<Rightarrow> string \<Rightarrow> string \<Rightarrow> int \<Rightarrow> int option \<Rightarrow> int \<Rightarrow> int haction" where
  "scheduler_register cal tz name queue cron_expr payload priority expires_s max_attempts =
     sbind (check_max_attempts ''honker_scheduler_register'' max_attempts) (\<lambda>_.
     sbind now_unix (\<lambda>now.
     sbind (cron_next cal tz cron_expr now) (\<lambda>next_fire_at.
     sbind (exec (\<lambda>_ d. Inr ((), upsert_task name queue cron_expr payload priority expires_s
               next_fire_at max_attempts d))) (\<lambda>_.
     sbind scheduler_wake (\<lambda>_. sret 1)))))"

definition scheduler_unregister :: "string \<Rightarrow> int haction" where
  "scheduler_unregister name =
     sbind (exec (\<lambda>_ d. Inr (count_where (is_task name) (tasks d), d\<lparr>tasks := del_where (is_task name) (tasks d)\<rparr>))) (\<lambda>n.
       if n > 0 then sbind scheduler_wake (\<lambda>_. sret n) else sret n)"

section \<open>The tick\<close>

definition SCHEDULER_MAX_CATCHUP_FIRES :: int where
  "SCHEDULER_MAX_CATCHUP_FIRES = 64"

definition task_due :: "int \<Rightarrow> task_row \<Rightarrow> bool" where
  "task_due tick_at r \<longleftrightarrow> t_enabled r = 1 \<and> t_next_fire_at r \<le> tick_at"

definition tick_due_sql :: "int \<Rightarrow> honker_db \<Rightarrow> sqlerr + task_row list \<times> honker_db" where
  "tick_due_sql tick_at d = Inr (filter (task_due tick_at) (tasks d), d)"

definition fire_json :: "task_row \<Rightarrow> int \<Rightarrow> int \<Rightarrow> json" where
  "fire_json task fire_at job_id = JObj [(''name'', JStr (t_name task)), (''queue'', JStr (t_queue task)),
     (''fire_at'', JInt fire_at), (''job_id'', JInt job_id)]"

text \<open>The inner \<open>while\<close> loop; it returns the next boundary and the fires pushed so far.\<close>

function fire_loop ::
  "chrono \<Rightarrow> timezone \<Rightarrow> int \<Rightarrow> int \<Rightarrow> task_row \<Rightarrow> int \<Rightarrow> int \<Rightarrow> json list \<Rightarrow> (int \<times> json list) haction" where
  "fire_loop cal tz now tick_at task fires next_fire_at out =
     (if next_fire_at \<le> tick_at then
        (if fires \<ge> SCHEDULER_MAX_CATCHUP_FIRES then
           sbind (cron_next cal tz (t_cron_expr task) tick_at) (\<lambda>n. sret (n, out))
         else
           sbind (check_max_attempts ''honker_scheduler_tick'' (t_max_attempts task)) (\<lambda>_.
           sbind (enqueue_at now (t_queue task) (t_payload task) None None (t_priority task)
                    (t_max_attempts task) (t_expires_s task)) (\<lambda>job_id.
           sbind (cron_next cal tz (t_cron_expr task) next_fire_at) (\<lambda>n.
             fire_loop cal tz now tick_at task (fires + 1) n (out @ [fire_json task next_fire_at job_id])))))
      else sret (next_fire_at, out))"
  by pat_completeness auto
termination
  by (relation "measure (\<lambda>(cal, tz, now, tick_at, task, fires, n, out). nat (SCHEDULER_MAX_CATCHUP_FIRES - fires))") auto

declare fire_loop.simps [simp del]

definition set_next_fire :: "string \<Rightarrow> int \<Rightarrow> honker_db \<Rightarrow> honker_db" where
  "set_next_fire name n d = d\<lparr>tasks := upd_where (is_task name) (\<lambda>r. r\<lparr>t_next_fire_at := n\<rparr>) (tasks d)\<rparr>"

fun tick_tasks :: "chrono \<Rightarrow> timezone \<Rightarrow> int \<Rightarrow> int \<Rightarrow> task_row list \<Rightarrow> json list \<Rightarrow> json list haction" where
  "tick_tasks cal tz now tick_at [] out = sret out"
| "tick_tasks cal tz now tick_at (task # rest) out =
     sbind (fire_loop cal tz now tick_at task 0 (t_next_fire_at task) out) (\<lambda>(n, out).
     sbind (exec (\<lambda>_ d. Inr ((), set_next_fire (t_name task) n d))) (\<lambda>_.
       tick_tasks cal tz now tick_at rest out))"

definition scheduler_tick_inner :: "chrono \<Rightarrow> timezone \<Rightarrow> int \<Rightarrow> json haction" where
  "scheduler_tick_inner cal tz tick_at =
     sbind (exec (\<lambda>_. tick_due_sql tick_at)) (\<lambda>rows.
     sbind (decode rows) (\<lambda>due.
       if due = [] then sret (JArr [])
       else sbind now_unix (\<lambda>now.
         sbind (tick_tasks cal tz now tick_at (sort_key t_name due) []) (\<lambda>out. sret (JArr out)))))"

definition scheduler_tick :: "chrono \<Rightarrow> timezone \<Rightarrow> int \<Rightarrow> json haction" where
  "scheduler_tick cal tz tick_at = in_savepoint ''honker_scheduler_tick'' (scheduler_tick_inner cal tz tick_at)"

text \<open>\<open>COALESCE(MIN(next_fire_at), 0)\<close> over the enabled tasks.\<close>

definition scheduler_soonest :: "int haction" where
  "scheduler_soonest = query (\<lambda>_ d. Inr (case map t_next_fire_at (filter (\<lambda>r. t_enabled r = 1) (tasks d)) of
     [] \<Rightarrow> 0 | f # fs \<Rightarrow> fold min fs f))"

section \<open>Maintenance\<close>

definition set_enabled :: "string \<Rightarrow> int \<Rightarrow> int \<Rightarrow> honker_db \<Rightarrow> sqlerr + int \<times> honker_db" where
  "set_enabled name before after d =
     (let p = (\<lambda>r. t_name r = name \<and> t_enabled r = before) in
      Inr (count_where p (tasks d), d\<lparr>tasks := upd_where p (\<lambda>r. r\<lparr>t_enabled := after\<rparr>) (tasks d)\<rparr>))"

definition scheduler_pause :: "string \<Rightarrow> int haction" where
  "scheduler_pause name = sbind (exec (\<lambda>_. set_enabled name 1 0)) (\<lambda>n.
     if n > 0 then sbind scheduler_wake (\<lambda>_. sret n) else sret n)"

definition scheduler_resume :: "string \<Rightarrow> int haction" where
  "scheduler_resume name = sbind (exec (\<lambda>_. set_enabled name 0 1)) (\<lambda>n.
     if n > 0 then sbind scheduler_wake (\<lambda>_. sret n) else sret n)"

definition task_json :: "task_row \<Rightarrow> json" where
  "task_json r = JObj [(''name'', JStr (t_name r)), (''queue'', JStr (t_queue r)),
     (''cron_expr'', JStr (t_cron_expr r)), (''payload'', JStr (t_payload r)),
     (''priority'', JInt (t_priority r)), (''expires_s'', jopt JInt (t_expires_s r)),
     (''next_fire_at'', JInt (t_next_fire_at r)), (''enabled'', JBool (t_enabled r \<noteq> 0)),
     (''max_attempts'', JInt (t_max_attempts r))]"

definition scheduler_list :: "json haction" where
  "scheduler_list = sbind (query (\<lambda>_ d. Inr (order_by t_name (tasks d)))) (\<lambda>rows.
     sbind (decode rows) (\<lambda>rows. sret (JArr (map task_json rows))))"

text \<open>A statement run with \<^verbatim>\<open>execute_batch\<close>, and one optional field of an update.\<close>

definition run_batch :: "('d conn \<Rightarrow> (sqlerr + unit) \<times> 'd conn) \<Rightarrow> ('d, unit) action" where
  "run_batch f c = (case f c of (Inl e, c1) \<Rightarrow> (Err e, c1) | (Inr _, c1) \<Rightarrow> (Ok (), c1))"

definition update_field :: "string \<Rightarrow> ('v \<Rightarrow> task_row \<Rightarrow> task_row) \<Rightarrow> 'v option \<Rightarrow> unit haction" where
  "update_field name f v = (case v of
       None \<Rightarrow> sret ()
     | Some x \<Rightarrow> exec (\<lambda>_ d. Inr ((), d\<lparr>tasks := upd_where (is_task name) (f x) (tasks d)\<rparr>)))"

definition update_body ::
  "string \<Rightarrow> (string \<times> int) option \<Rightarrow> string option \<Rightarrow> int option \<Rightarrow> int option option \<Rightarrow> int option option \<Rightarrow> unit haction" where
  "update_body name expr_next payload priority expires_s max_attempts =
     sbind (update_field name (\<lambda>p r. r\<lparr>t_payload := p\<rparr>) payload) (\<lambda>_.
     sbind (update_field name (\<lambda>p r. r\<lparr>t_priority := p\<rparr>) priority) (\<lambda>_.
     sbind (update_field name (\<lambda>e r. r\<lparr>t_expires_s := e\<rparr>) expires_s) (\<lambda>_.
     sbind (update_field name (\<lambda>m r. r\<lparr>t_max_attempts := (case m of None \<Rightarrow> 3 | Some m \<Rightarrow> m)\<rparr>) max_attempts) (\<lambda>_.
       update_field name (\<lambda>(expr, n) r. r\<lparr>t_cron_expr := expr, t_next_fire_at := n\<rparr>) expr_next))))"

text \<open>
  The savepoint of the update is written out in the function and not run through
  \<open>in_savepoint\<close>: an error of the body rolls back and ignores how that went, a panic of the
  body and an error of the last \<open>RELEASE\<close> leave the savepoint open.
\<close>

definition update_savepoint :: "unit haction \<Rightarrow> unit haction" where
  "update_savepoint body =
     sbind (run_batch (sql_savepoint ''honker_sched_update'')) (\<lambda>_ c.
       (case body c of
          (Ok _, c1) \<Rightarrow> run_batch (sql_release ''honker_sched_update'') c1
        | (Err e, c1) \<Rightarrow> (Err e, snd (rollback_and_release ''honker_sched_update'' c1))
        | (Panicked, c1) \<Rightarrow> (Panicked, c1)))"

definition scheduler_update ::
  "chrono \<Rightarrow> timezone \<Rightarrow> string \<Rightarrow> string option \<Rightarrow> string option \<Rightarrow> int option \<Rightarrow> int option option
   \<Rightarrow> int option option \<Rightarrow> int haction" where
  "scheduler_update cal tz name cron_expr payload priority expires_s max_attempts =
     sbind (case max_attempts of Some (Some m) \<Rightarrow> check_max_attempts ''honker_scheduler_update'' m | _ \<Rightarrow> sret ()) (\<lambda>_.
     sbind (query (\<lambda>_ d. Inr (list_ex (is_task name) (tasks d)))) (\<lambda>exists.
       if \<not> exists then sret 0
       else if cron_expr = None \<and> payload = None \<and> priority = None \<and> expires_s = None \<and> max_attempts = None then sret 0
       else
         sbind (case cron_expr of
             Some expr \<Rightarrow> sbind now_unix (\<lambda>now. sbind (cron_next cal tz expr now) (\<lambda>n. sret (Some (expr, n))))
           | None \<Rightarrow> sret None) (\<lambda>expr_next.
         sbind (update_savepoint (update_body name expr_next payload priority expires_s max_attempts)) (\<lambda>_.
         sbind scheduler_wake (\<lambda>_. sret 1)))))"

end
