(* ===== verification/Sql_Api.thy ===== *)
theory Sql_Api
  imports Scheduler Streams Locks Rate_Limits
begin

text \<open>
  The SQL surface of \<^verbatim>\<open>attach_honker_functions\<close>: how a scalar function reads its arguments, and
  which operation each name and arity calls. What the crate \<^verbatim>\<open>rusqlite\<close> makes of a typed argument
  (\<^verbatim>\<open>ctx.get\<close>) is a parameter, with the calendar, the zone, SQLite's JSON parser and its numeric affinity.
\<close>

section \<open>Values\<close>

text \<open>
  A finite \<^verbatim>\<open>f64\<close> is \<open>m * 2 ^ e\<close> for integers \<open>m\<close> and \<open>e\<close>, which may be negative.
\<close>

datatype f64 = Nan | Infinity bool | Finite int int

datatype sqlval = VNull | VInt int | VReal f64 | VText string | VBlob "int list"

datatype sqlresult = SNull | SInt int | SText string | SJson json

definition f64_whole :: "int \<Rightarrow> int \<Rightarrow> bool" where
  "f64_whole m e \<longleftrightarrow> 0 \<le> e \<or> m mod 2 ^ nat (- e) = 0"

definition f64_trunc :: "int \<Rightarrow> int \<Rightarrow> int" where
  "f64_trunc m e = (if 0 \<le> e then m * 2 ^ nat e else m div 2 ^ nat (- e))"

text \<open>\<open>f.fract() == 0.0 && (-LIMIT..LIMIT).contains(&f)\<close>, then the reason for the refusal.\<close>

definition real_to_i64 :: "f64 \<Rightarrow> whole_err + int" where
  "real_to_i64 f = (case f of
       Nan \<Rightarrow> Inl ArgNan
     | Infinity neg \<Rightarrow> Inl ArgInfinite
     | Finite m e \<Rightarrow>
         if f64_whole m e \<and> - (2 ^ 63) \<le> f64_trunc m e \<and> f64_trunc m e < 2 ^ 63 then Inr (f64_trunc m e)
         else if \<not> f64_whole m e then Inl ArgFraction
         else Inl ArgRange)"

section \<open>Reading arguments\<close>

record sql_env =
  env_i64 :: "sqlval \<Rightarrow> int option"
  env_text :: "sqlval \<Rightarrow> string option"
  env_json :: "string \<Rightarrow> json option"
  env_num :: "string \<Rightarrow> int option"
  env_cal :: chrono
  env_tz :: timezone

definition get_i64 :: "sql_env \<Rightarrow> nat \<Rightarrow> sqlval \<Rightarrow> int haction" where
  "get_i64 env i v = (case env_i64 env v of None \<Rightarrow> sfail (InvalidParameterType i) | Some n \<Rightarrow> sret n)"

definition get_text :: "sql_env \<Rightarrow> nat \<Rightarrow> sqlval \<Rightarrow> string haction" where
  "get_text env i v = (case env_text env v of None \<Rightarrow> sfail (InvalidParameterType i) | Some s \<Rightarrow> sret s)"

definition get_opt :: "(sqlval \<Rightarrow> 'a haction) \<Rightarrow> sqlval \<Rightarrow> 'a option haction" where
  "get_opt get v = (if v = VNull then sret None else sbind (get v) (\<lambda>x. sret (Some x)))"

definition get_real :: "nat \<Rightarrow> f64 \<Rightarrow> int haction" where
  "get_real i f = (case real_to_i64 f of Inl why \<Rightarrow> sfail (NotWhole i why) | Inr n \<Rightarrow> sret n)"

definition arg_i64 :: "sql_env \<Rightarrow> nat \<Rightarrow> sqlval \<Rightarrow> int haction" where
  "arg_i64 env i v = (case v of VReal f \<Rightarrow> get_real i f | _ \<Rightarrow> get_i64 env i v)"

definition arg_opt_i64 :: "sql_env \<Rightarrow> nat \<Rightarrow> sqlval \<Rightarrow> int option haction" where
  "arg_opt_i64 env i v = (case v of
       VReal f \<Rightarrow> sbind (get_real i f) (\<lambda>n. sret (Some n))
     | _ \<Rightarrow> get_opt (get_i64 env i) v)"

text \<open>\<^verbatim>\<open>to_sql_err\<close>, and the value a function hands back to SQLite.\<close>

definition to_sql_err :: "('a \<Rightarrow> sqlresult) \<Rightarrow> 'a haction \<Rightarrow> sqlresult haction" where
  "to_sql_err f m c = (case m c of
       (Ok a, c') \<Rightarrow> (Ok (f a), c')
     | (Err e, c') \<Rightarrow> (Err (UserFunctionError e), c')
     | (Panicked, c') \<Rightarrow> (Panicked, c'))"

definition opt_text :: "string option \<Rightarrow> sqlresult" where
  "opt_text v = (case v of None \<Rightarrow> SNull | Some s \<Rightarrow> SText s)"

definition opt_json :: "json option \<Rightarrow> sqlresult" where
  "opt_json v = (case v of None \<Rightarrow> SText [] | Some j \<Rightarrow> SJson j)"

section \<open>The functions\<close>

definition sql_queue :: "sql_env \<Rightarrow> string \<Rightarrow> sqlval list \<Rightarrow> sqlresult haction option" where
  "sql_queue env fn args = (case args of
       [a, b, c, d] \<Rightarrow>
         if fn = ''honker_claim_batch'' then Some (sbind (get_text env 0 a) (\<lambda>queue. sbind (get_text env 1 b) (\<lambda>worker_id.
           sbind (arg_i64 env 2 c) (\<lambda>n. sbind (arg_i64 env 3 d) (\<lambda>timeout_s.
             to_sql_err SJson (claim_batch queue worker_id n timeout_s))))))
         else None
     | [a, b] \<Rightarrow>
         if fn = ''honker_ack_batch'' then Some (sbind (get_text env 0 a) (\<lambda>ids_json. sbind (get_text env 1 b) (\<lambda>worker_id.
           to_sql_err SInt (ack_batch (env_json env) (env_num env) ids_json worker_id))))
         else None
     | [a] \<Rightarrow>
         if fn = ''honker_queue_next_claim_at'' then Some (sbind (get_text env 0 a) (\<lambda>queue.
           to_sql_err SInt (queue_next_claim_at queue)))
         else if fn = ''honker_sweep_expired'' then Some (sbind (get_text env 0 a) (\<lambda>queue.
           to_sql_err SInt (sweep_expired queue)))
         else None
     | _ \<Rightarrow> None)"

definition sql_locks :: "sql_env \<Rightarrow> string \<Rightarrow> sqlval list \<Rightarrow> sqlresult haction option" where
  "sql_locks env fn args = (case args of
       [a, b, c] \<Rightarrow>
         if fn = ''honker_lock_acquire'' then Some (sbind (get_text env 0 a) (\<lambda>name. sbind (get_text env 1 b) (\<lambda>owner.
           sbind (arg_i64 env 2 c) (\<lambda>ttl. to_sql_err SInt (lock_acquire name owner ttl)))))
         else if fn = ''honker_lock_renew'' then Some (sbind (get_text env 0 a) (\<lambda>name. sbind (get_text env 1 b) (\<lambda>owner.
           sbind (arg_i64 env 2 c) (\<lambda>ttl. to_sql_err SInt (lock_renew name owner ttl)))))
         else if fn = ''honker_rate_limit_try'' then Some (sbind (get_text env 0 a) (\<lambda>name. sbind (arg_i64 env 1 b) (\<lambda>limit.
           sbind (arg_i64 env 2 c) (\<lambda>per. to_sql_err SInt (rate_limit_try name limit per)))))
         else None
     | [a, b] \<Rightarrow>
         if fn = ''honker_lock_release'' then Some (sbind (get_text env 0 a) (\<lambda>name. sbind (get_text env 1 b) (\<lambda>owner.
           to_sql_err SInt (lock_release name owner))))
         else None
     | [a] \<Rightarrow>
         if fn = ''honker_rate_limit_sweep'' then Some (sbind (arg_i64 env 0 a) (\<lambda>older_than_s.
           to_sql_err SInt (rate_limit_sweep older_than_s)))
         else None
     | _ \<Rightarrow> None)"

definition sql_register ::
  "sql_env \<Rightarrow> sqlval \<Rightarrow> sqlval \<Rightarrow> sqlval \<Rightarrow> sqlval \<Rightarrow> sqlval \<Rightarrow> sqlval \<Rightarrow> int haction \<Rightarrow> sqlresult haction" where
  "sql_register env a b c d e f get_max =
     sbind (get_text env 0 a) (\<lambda>name. sbind (get_text env 1 b) (\<lambda>queue. sbind (get_text env 2 c) (\<lambda>cron_expr.
     sbind (get_text env 3 d) (\<lambda>payload. sbind (arg_i64 env 4 e) (\<lambda>priority. sbind (arg_opt_i64 env 5 f) (\<lambda>expires_s.
     sbind get_max (\<lambda>max_attempts.
       to_sql_err SInt (scheduler_register (env_cal env) (env_tz env) name queue cron_expr payload priority expires_s max_attempts))))))))"

definition sql_update ::
  "sql_env \<Rightarrow> sqlval \<Rightarrow> sqlval \<Rightarrow> sqlval \<Rightarrow> sqlval \<Rightarrow> sqlval \<Rightarrow> sqlval \<Rightarrow> int option option haction \<Rightarrow> sqlresult haction" where
  "sql_update env a b c d e f get_max =
     sbind (get_text env 0 a) (\<lambda>name. sbind (get_opt (get_text env 1) b) (\<lambda>cron_expr. sbind (get_opt (get_text env 2) c) (\<lambda>payload.
     sbind (arg_opt_i64 env 3 d) (\<lambda>priority. sbind (arg_opt_i64 env 4 e) (\<lambda>expires_s_arg. sbind (arg_i64 env 5 f) (\<lambda>touch_expires.
     sbind get_max (\<lambda>max_attempts.
       to_sql_err SInt (scheduler_update (env_cal env) (env_tz env) name cron_expr payload priority
         (if touch_expires \<noteq> 0 then Some expires_s_arg else None) max_attempts))))))))"

definition sql_scheduler :: "sql_env \<Rightarrow> string \<Rightarrow> sqlval list \<Rightarrow> sqlresult haction option" where
  "sql_scheduler env fn args = (case args of
       [] \<Rightarrow>
         if fn = ''honker_scheduler_soonest'' then Some (to_sql_err SInt scheduler_soonest)
         else if fn = ''honker_scheduler_list'' then Some (to_sql_err SJson scheduler_list)
         else None
     | [a] \<Rightarrow>
         if fn = ''honker_scheduler_unregister'' then Some (sbind (get_text env 0 a) (\<lambda>name. to_sql_err SInt (scheduler_unregister name)))
         else if fn = ''honker_scheduler_tick'' then Some (sbind (arg_i64 env 0 a) (\<lambda>now_unix.
           to_sql_err SJson (scheduler_tick (env_cal env) (env_tz env) now_unix)))
         else if fn = ''honker_scheduler_pause'' then Some (sbind (get_text env 0 a) (\<lambda>name. to_sql_err SInt (scheduler_pause name)))
         else if fn = ''honker_scheduler_resume'' then Some (sbind (get_text env 0 a) (\<lambda>name. to_sql_err SInt (scheduler_resume name)))
         else None
     | [a, b, c, d, e, f] \<Rightarrow>
         if fn = ''honker_scheduler_register'' then Some (sql_register env a b c d e f (sret 3))
         else if fn = ''honker_scheduler_update'' then Some (sql_update env a b c d e f (sret None))
         else None
     | [a, b, c, d, e, f, g] \<Rightarrow>
         if fn = ''honker_scheduler_register'' then Some (sql_register env a b c d e f (arg_i64 env 6 g)) else None
     | [a, b, c, d, e, f, g, h] \<Rightarrow>
         if fn = ''honker_scheduler_update'' then Some (sql_update env a b c d e f
           (sbind (arg_opt_i64 env 6 g) (\<lambda>max_attempts_arg. sbind (arg_i64 env 7 h) (\<lambda>touch_max_attempts.
             sret (if touch_max_attempts \<noteq> 0 then Some max_attempts_arg else None))))) else None
     | _ \<Rightarrow> None)"

definition sql_results :: "sql_env \<Rightarrow> string \<Rightarrow> sqlval list \<Rightarrow> sqlresult haction option" where
  "sql_results env fn args = (case args of
       [] \<Rightarrow> if fn = ''honker_result_sweep'' then Some (to_sql_err SInt result_sweep) else None
     | [a] \<Rightarrow> if fn = ''honker_result_get'' then Some (sbind (arg_i64 env 0 a) (\<lambda>job_id. to_sql_err opt_text (result_get job_id))) else None
     | [a, b, c] \<Rightarrow>
         if fn = ''honker_result_save'' then Some (sbind (arg_i64 env 0 a) (\<lambda>job_id. sbind (get_text env 1 b) (\<lambda>v.
           sbind (arg_i64 env 2 c) (\<lambda>ttl_s. to_sql_err SInt (result_save job_id v ttl_s)))))
         else None
     | _ \<Rightarrow> None)"

definition sql_enqueue :: "sql_env \<Rightarrow> sqlval \<Rightarrow> sqlval \<Rightarrow> sqlval \<Rightarrow> sqlval \<Rightarrow> sqlval \<Rightarrow> sqlval \<Rightarrow> sqlval \<Rightarrow> sqlresult haction" where
  "sql_enqueue env a b c d e f g =
     sbind (get_text env 0 a) (\<lambda>queue. sbind (get_text env 1 b) (\<lambda>payload. sbind (arg_opt_i64 env 2 c) (\<lambda>run_at.
     sbind (arg_opt_i64 env 3 d) (\<lambda>delay. sbind (arg_i64 env 4 e) (\<lambda>priority. sbind (arg_i64 env 5 f) (\<lambda>max_attempts.
     sbind (arg_opt_i64 env 6 g) (\<lambda>expires.
       to_sql_err SInt (enqueue queue payload run_at delay priority max_attempts expires))))))))"

text \<open>The job id and the worker id, which the operations on a claimed job read first.\<close>

definition with_claim :: "sql_env \<Rightarrow> sqlval \<Rightarrow> sqlval \<Rightarrow> (int \<Rightarrow> string \<Rightarrow> sqlresult haction) \<Rightarrow> sqlresult haction" where
  "with_claim env a b k = sbind (arg_i64 env 0 a) (\<lambda>job_id. sbind (get_text env 1 b) (\<lambda>worker_id. k job_id worker_id))"

definition sql_jobs :: "sql_env \<Rightarrow> string \<Rightarrow> sqlval list \<Rightarrow> sqlresult haction option" where
  "sql_jobs env fn args = (case args of
       [a] \<Rightarrow>
         if fn = ''honker_cancel'' then Some (sbind (arg_i64 env 0 a) (\<lambda>job_id. to_sql_err SInt (cancel job_id)))
         else if fn = ''honker_get_job'' then Some (sbind (arg_i64 env 0 a) (\<lambda>job_id. to_sql_err opt_json (get_job job_id)))
         else None
     | [a, b] \<Rightarrow>
         if fn = ''honker_ack'' then Some (with_claim env a b (\<lambda>job_id worker_id. to_sql_err SInt (ack job_id worker_id)))
         else if fn = ''honker_cancel'' then Some (sbind (get_text env 0 a) (\<lambda>queue. sbind (arg_i64 env 1 b) (\<lambda>job_id.
           to_sql_err SInt (cancel_in_queue queue job_id))))
         else None
     | [a, b, c] \<Rightarrow>
         if fn = ''honker_ack'' then Some (with_claim env a b (\<lambda>job_id worker_id. sbind (arg_i64 env 2 c) (\<lambda>attempt.
           to_sql_err SInt (ack_fenced job_id worker_id attempt))))
         else if fn = ''honker_fail'' then Some (with_claim env a b (\<lambda>job_id worker_id. sbind (get_text env 2 c) (\<lambda>err.
           to_sql_err SInt (fail job_id worker_id err))))
         else if fn = ''honker_heartbeat'' then Some (with_claim env a b (\<lambda>job_id worker_id. sbind (arg_i64 env 2 c) (\<lambda>extend_s.
           to_sql_err SInt (heartbeat job_id worker_id extend_s))))
         else None
     | [a, b, c, d] \<Rightarrow>
         if fn = ''honker_retry'' then Some (with_claim env a b (\<lambda>job_id worker_id. sbind (arg_i64 env 2 c) (\<lambda>delay_s.
           sbind (get_text env 3 d) (\<lambda>err. to_sql_err SInt (retry job_id worker_id delay_s err)))))
         else if fn = ''honker_fail'' then Some (with_claim env a b (\<lambda>job_id worker_id. sbind (get_text env 2 c) (\<lambda>err.
           sbind (arg_i64 env 3 d) (\<lambda>attempt. to_sql_err SInt (fail_fenced job_id worker_id err attempt)))))
         else if fn = ''honker_heartbeat'' then Some (with_claim env a b (\<lambda>job_id worker_id. sbind (arg_i64 env 2 c) (\<lambda>extend_s.
           sbind (arg_i64 env 3 d) (\<lambda>attempt. to_sql_err SInt (heartbeat_fenced job_id worker_id extend_s attempt)))))
         else None
     | [a, b, c, d, e] \<Rightarrow>
         if fn = ''honker_retry'' then Some (with_claim env a b (\<lambda>job_id worker_id. sbind (arg_i64 env 2 c) (\<lambda>delay_s.
           sbind (get_text env 3 d) (\<lambda>err. sbind (arg_i64 env 4 e) (\<lambda>attempt.
             to_sql_err SInt (retry_fenced job_id worker_id delay_s err attempt))))))
         else None
     | [a, b, c, d, e, f, g] \<Rightarrow> if fn = ''honker_enqueue'' then Some (sql_enqueue env a b c d e f g) else None
     | _ \<Rightarrow> None)"

definition sql_streams :: "sql_env \<Rightarrow> string \<Rightarrow> sqlval list \<Rightarrow> sqlresult haction option" where
  "sql_streams env fn args = (case args of
       [a, b] \<Rightarrow>
         if fn = ''honker_cron_next_after'' then Some (sbind (get_text env 0 a) (\<lambda>expr. sbind (arg_i64 env 1 b) (\<lambda>from_unix.
           to_sql_err SInt (cron_next (env_cal env) (env_tz env) expr from_unix))))
         else if fn = ''honker_stream_get_offset'' then Some (sbind (get_text env 0 a) (\<lambda>consumer. sbind (get_text env 1 b) (\<lambda>topic.
           to_sql_err SInt (stream_get_offset consumer topic))))
         else if fn = ''notify'' then Some (sbind (get_text env 0 a) (\<lambda>channel. sbind (get_text env 1 b) (\<lambda>payload.
           sbind (notify channel payload) (\<lambda>n. sret (SInt n)))))
         else None
     | [a, b, c] \<Rightarrow>
         if fn = ''honker_stream_publish'' then Some (sbind (get_text env 0 a) (\<lambda>topic. sbind (get_opt (get_text env 1) b) (\<lambda>key.
           sbind (get_text env 2 c) (\<lambda>payload. to_sql_err SInt (stream_publish topic key payload)))))
         else if fn = ''honker_stream_read_since'' then Some (sbind (get_text env 0 a) (\<lambda>topic. sbind (arg_i64 env 1 b) (\<lambda>offset.
           sbind (arg_i64 env 2 c) (\<lambda>limit. to_sql_err SJson (stream_read_since topic offset limit)))))
         else if fn = ''honker_stream_save_offset'' then Some (sbind (get_text env 0 a) (\<lambda>consumer. sbind (get_text env 1 b) (\<lambda>topic.
           sbind (arg_i64 env 2 c) (\<lambda>offset. to_sql_err SInt (stream_save_offset consumer topic offset)))))
         else None
     | _ \<Rightarrow> None)"

text \<open>SQLite looks a function up by its name and the number of arguments.\<close>

definition sql_function :: "sql_env \<Rightarrow> string \<Rightarrow> sqlval list \<Rightarrow> sqlresult haction option" where
  "sql_function env fn args = List.find (\<lambda>_. True) (List.map_filter (\<lambda>g. g env fn args)
     [sql_queue, sql_locks, sql_scheduler, sql_results, sql_jobs, sql_streams])"

definition sql_call :: "sql_env \<Rightarrow> string \<Rightarrow> sqlval list \<Rightarrow> sqlresult haction" where
  "sql_call env fn args = (case sql_function env fn args of None \<Rightarrow> sfail (WrongArguments fn) | Some act \<Rightarrow> act)"

end
