(* ===== verification/Scheduler_Thms.thy ===== *)
theory Scheduler_Thms
  imports Scheduler
begin

text \<open>
  What a tick does: a reference definition of the catch-up of one task, the laws of a schedule
  that moves forward (locale \<open>forward_schedule\<close>), the effect of a tick on the tables, and the
  updates of a task.
\<close>

section \<open>Catching up, as a function\<close>

text \<open>
  The fires of a task whose next boundary is \<open>f\<close>, at most \<open>n\<close> of them, and the boundary
  it is left with.
\<close>

fun catch_up :: "(int \<Rightarrow> int option) \<Rightarrow> int \<Rightarrow> nat \<Rightarrow> int \<Rightarrow> (int list \<times> int) option" where
  "catch_up nxt tick_at 0 f = (if f \<le> tick_at then map_option (Pair []) (nxt tick_at) else Some ([], f))"
| "catch_up nxt tick_at (Suc n) f =
     (if f \<le> tick_at then (case nxt f of None \<Rightarrow> None
        | Some g \<Rightarrow> map_option (\<lambda>(fs, h). (f # fs, h)) (catch_up nxt tick_at n g))
      else Some ([], f))"

locale forward_schedule =
  fixes nxt :: "int \<Rightarrow> int option"
  assumes forward: "nxt u = Some t \<Longrightarrow> u < t"
begin

lemma catch_up_next: "catch_up nxt tick_at n f = Some (fs, g) \<Longrightarrow> tick_at < g"
  by (induction n arbitrary: f fs) (auto dest: forward split: if_splits option.splits)

lemma catch_up_fires:
  "catch_up nxt tick_at n f = Some (fs, g)
    \<Longrightarrow> sorted_wrt (<) fs \<and> length fs \<le> n \<and> (\<forall>x\<in>set fs. f \<le> x \<and> x \<le> tick_at) \<and> (f \<le> tick_at \<longrightarrow> n \<noteq> 0 \<longrightarrow> fs \<noteq> [] \<and> hd fs = f)"
proof (induction n arbitrary: f fs)
  case (Suc n)
  show ?case
  proof (cases "f \<le> tick_at")
    case True
    with Suc.prems obtain h fs' where h: "nxt f = Some h" "catch_up nxt tick_at n h = Some (fs', g)" "fs = f # fs'"
      by (auto split: option.splits)
    with Suc.IH[OF h(2)] forward[OF h(1)] True show ?thesis by fastforce
  qed (use Suc.prems in simp)
qed (auto split: if_splits)

text \<open>Below the cap no boundary is skipped: each fire is the successor of the one before.\<close>

lemma catch_up_all:
  "catch_up nxt tick_at n f = Some (fs, g) \<Longrightarrow> length fs < n
    \<Longrightarrow> successively (\<lambda>x y. nxt x = Some y) (fs @ [g]) \<and> hd (fs @ [g]) = f"
proof (induction n arbitrary: f fs)
  case (Suc n)
  show ?case
  proof (cases "f \<le> tick_at")
    case True
    with Suc.prems obtain h fs' where h: "nxt f = Some h" "catch_up nxt tick_at n h = Some (fs', g)" "fs = f # fs'"
      by (auto split: option.splits)
    with Suc.IH[OF h(2)] Suc.prems(2) show ?thesis by (auto simp: successively_Cons)
  qed (use Suc.prems in simp)
qed simp

end

text \<open>The boundaries of an expression, as the calculator gives them.\<close>

definition cron_value :: "chrono \<Rightarrow> timezone \<Rightarrow> string \<Rightarrow> int \<Rightarrow> int option" where
  "cron_value cal tz expr u = (case next_after_unix cal tz expr u of Some (COk t) \<Rightarrow> Some t | _ \<Rightarrow> None)"

lemma forward_cron:
  assumes "calendar cal" "zone_ok cal tz" "never_set_back tz"
  shows "forward_schedule (cron_value cal tz expr)"
proof
  fix u t assume val: "cron_value cal tz expr u = Some t"
  from next_after_unix_runs[OF assms(1,2)] assms(3) obtain r
    where "next_after_unix cal tz expr u = Some r" "\<forall>t. r = COk t \<longrightarrow> u < t" by blast
  with val show "u < t" by (simp add: cron_value_def split: cron_res.splits)
qed

interpretation utc: forward_schedule "cron_value gregorian (fixed_offset gregorian off) expr" for off expr
  by (intro forward_cron greg.calendar_axioms fixed_offset_zone)

section \<open>The effect of a tick\<close>

definition task_plan :: "chrono \<Rightarrow> timezone \<Rightarrow> int \<Rightarrow> task_row \<Rightarrow> (int list \<times> int) option" where
  "task_plan cal tz tick_at task = catch_up (cron_value cal tz (t_cron_expr task)) tick_at 64 (t_next_fire_at task)"

definition task_fires :: "chrono \<Rightarrow> timezone \<Rightarrow> int \<Rightarrow> task_row \<Rightarrow> int list" where
  "task_fires cal tz tick_at task = (case task_plan cal tz tick_at task of None \<Rightarrow> [] | Some (fs, g) \<Rightarrow> fs)"

definition task_next :: "chrono \<Rightarrow> timezone \<Rightarrow> int \<Rightarrow> task_row \<Rightarrow> int" where
  "task_next cal tz tick_at task = (case task_plan cal tz tick_at task of None \<Rightarrow> t_next_fire_at task | Some (fs, g) \<Rightarrow> g)"

text \<open>The job of a fire, and the rows that a list of fires appends to the live table.\<close>

definition fire_job :: "int \<Rightarrow> task_row \<Rightarrow> job \<Rightarrow> bool" where
  "fire_job now task j \<longleftrightarrow> 1 \<le> t_max_attempts task \<and> (\<exists>t. j = new_job now t (t_queue task) (t_payload task) now
     (t_priority task) (t_max_attempts task) (map_option (\<lambda>e. wrap_i64 (now + e)) (t_expires_s task)) (j_id j))"

definition fired :: "int \<Rightarrow> (task_row \<times> int) list \<Rightarrow> job list \<Rightarrow> task_row list \<Rightarrow> honker_db \<Rightarrow> honker_db \<Rightarrow> bool" where
  "fired now fires js ts d d' \<longleftrightarrow> d' = d\<lparr>live := live d @ js, live_seq := live_seq d + int (length js), tasks := ts\<rparr>
     \<and> list_all2 (\<lambda>(task, f) j. fire_job now task j) fires js
     \<and> map j_id js = map (\<lambda>i. live_seq d + 1 + int i) [0..<length js]"

definition fires_json :: "(task_row \<times> int) list \<Rightarrow> job list \<Rightarrow> json list" where
  "fires_json fires js = map2 (\<lambda>(task, f) j. fire_json task f (j_id j)) fires js"

lemma fired_length: "fired now fires js ts d d' \<Longrightarrow> length fires = length js"
  by (auto simp: fired_def dest: list_all2_lengthD)

lemma fired_Nil: "fired now [] [] ts d (d\<lparr>tasks := ts\<rparr>)"
  by (simp add: fired_def)

lemma fired_append:
  assumes "fired now xs js ts d d1" "fired now ys ks ts' d1 d2"
  shows "fired now (xs @ ys) (js @ ks) ts' d d2"
proof -
  have shift: "map (\<lambda>i. live_seq d + 1 + int i) [0..<length js + length ks]
      = map (\<lambda>i. live_seq d + 1 + int i) [0..<length js] @ map (\<lambda>i. live_seq d + int (length js) + 1 + int i) [0..<length ks]"
    by (rule nth_equalityI) (auto simp: nth_append)
  show ?thesis
    using assms by (auto simp: fired_def shift intro: list_all2_appendI)
qed

lemma fires_json_append:
  "length xs = length js \<Longrightarrow> fires_json (xs @ ys) (js @ ks) = fires_json xs js @ fires_json ys ks"
  by (simp add: fires_json_def)

lemma cron_next_Ok:
  assumes "cron_next cal tz expr u c = (Ok t, c')"
  shows "cron_value cal tz expr u = Some t \<and> c' = c"
  using assms by (auto simp: cron_next_def cron_value_def spanic_def split: option.splits cron_res.splits)

lemma enqueue_at_fired:
  assumes "enqueue_at now (t_queue task) (t_payload task) None None (t_priority task) (t_max_attempts task)
      (t_expires_s task) c = (Ok jid, c')" "1 \<le> t_max_attempts task"
  shows "\<exists>j. j_id j = jid \<and> fired now [(task, f)] [j] (tasks (db c)) (db c) (db c')"
proof -
  let ?j = "\<lambda>t. new_job now t (t_queue task) (t_payload task) now (t_priority task) (t_max_attempts task)
      (map_option (\<lambda>e. wrap_i64 (now + e)) (t_expires_s task)) jid"
  from exec_OkD[OF assms(1)[unfolded enqueue_at_def]] have "jid = live_seq (db c) + 1"
    "db c' = (db c)\<lparr>live := live (db c) @ [?j (clock c')], live_seq := live_seq (db c) + 1\<rparr>"
    by (auto simp: insert_job_def enqueue_run_at_def split: if_splits)
  then show ?thesis
    using assms(2) by (intro exI[of _ "?j (clock c')"]) (auto simp: fired_def fire_job_def)
qed

lemma fire_loop_Ok:
  assumes "fire_loop cal tz now tick_at task (SCHEDULER_MAX_CATCHUP_FIRES - int n) f out c = (Ok (g, out'), c')"
  shows "\<exists>fs js. catch_up (cron_value cal tz (t_cron_expr task)) tick_at n f = Some (fs, g)
    \<and> fired now (map (Pair task) fs) js (tasks (db c)) (db c) (db c') \<and> out' = out @ fires_json (map (Pair task) fs) js"
  using assms
proof (induction n arbitrary: f out c)
  case 0
  then show ?case
    by (subst (asm) fire_loop.simps)
      (auto simp: fires_json_def fired_def elim!: sbind_Ok dest!: cron_next_Ok split: if_splits)
next
  case (Suc n)
  show ?case
  proof (cases "f \<le> tick_at")
    case False
    with Suc.prems show ?thesis by (subst (asm) fire_loop.simps) (auto simp: fires_json_def fired_def)
  next
    case True
    have cap: "\<not> SCHEDULER_MAX_CATCHUP_FIRES - int (Suc n) \<ge> SCHEDULER_MAX_CATCHUP_FIRES" by simp
    have next_n: "SCHEDULER_MAX_CATCHUP_FIRES - int (Suc n) + 1 = SCHEDULER_MAX_CATCHUP_FIRES - int n" by simp
    from Suc.prems True cap obtain jid h c1 where budget: "1 \<le> t_max_attempts task"
      and enq: "enqueue_at now (t_queue task) (t_payload task) None None (t_priority task) (t_max_attempts task)
        (t_expires_s task) c = (Ok jid, c1)" and nxt: "cron_value cal tz (t_cron_expr task) f = Some h"
      and rest: "fire_loop cal tz now tick_at task (SCHEDULER_MAX_CATCHUP_FIRES - int n) h (out @ [fire_json task f jid]) c1
        = (Ok (g, out'), c')"
      by (subst (asm) fire_loop.simps)
        (auto simp: check_max_attempts_def next_n elim!: sbind_Ok dest!: cron_next_Ok split: if_splits)
    from enqueue_at_fired[OF enq budget, of f] obtain j where j: "j_id j = jid"
      "fired now [(task, f)] [j] (tasks (db c)) (db c) (db c1)" by blast
    from Suc.IH[OF rest] obtain fs js where fs: "catch_up (cron_value cal tz (t_cron_expr task)) tick_at n h = Some (fs, g)"
      "fired now (map (Pair task) fs) js (tasks (db c1)) (db c1) (db c')"
      "out' = (out @ [fire_json task f jid]) @ fires_json (map (Pair task) fs) js" by blast
    have "tasks (db c1) = tasks (db c)" using j(2) by (simp add: fired_def)
    with fired_append[OF j(2) fs(2)]
    have "fired now (map (Pair task) (f # fs)) (j # js) (tasks (db c)) (db c) (db c')" by simp
    moreover have "out' = out @ fires_json (map (Pair task) (f # fs)) (j # js)" using fs(3) j(1) by (simp add: fires_json_def)
    ultimately show ?thesis using True nxt fs(1) by (intro exI[of _ "f # fs"] exI[of _ "j # js"]) simp
  qed
qed

definition tick_upd :: "chrono \<Rightarrow> timezone \<Rightarrow> int \<Rightarrow> task_row list \<Rightarrow> task_row list \<Rightarrow> task_row list" where
  "tick_upd cal tz tick_at due ts = foldl (\<lambda>ts task. upd_where (is_task (t_name task))
     (\<lambda>r. r\<lparr>t_next_fire_at := task_next cal tz tick_at task\<rparr>) ts) ts due"

definition all_fires :: "chrono \<Rightarrow> timezone \<Rightarrow> int \<Rightarrow> task_row list \<Rightarrow> (task_row \<times> int) list" where
  "all_fires cal tz tick_at due = concat (map (\<lambda>task. map (Pair task) (task_fires cal tz tick_at task)) due)"

lemma tick_tasks_Ok:
  assumes "tick_tasks cal tz now tick_at due out c = (Ok out', c')"
  shows "(\<forall>task\<in>set due. task_plan cal tz tick_at task \<noteq> None) \<and> (\<exists>js. out' = out @ fires_json (all_fires cal tz tick_at due) js
    \<and> fired now (all_fires cal tz tick_at due) js (tick_upd cal tz tick_at due (tasks (db c))) (db c) (db c'))"
  using assms
proof (induction due arbitrary: out c)
  case Nil
  then show ?case by (auto simp: all_fires_def tick_upd_def fired_def fires_json_def)
next
  case (Cons task due)
  from Cons.prems obtain g out1 c1 c2 where loop: "fire_loop cal tz now tick_at task 0 (t_next_fire_at task) out c = (Ok (g, out1), c1)"
    and set: "exec (\<lambda>_ d. Inr ((), set_next_fire (t_name task) g d)) c1 = (Ok (), c2)"
    and rest: "tick_tasks cal tz now tick_at due out1 c2 = (Ok out', c')"
    by (auto elim!: sbind_Ok split: prod.splits)
  have "SCHEDULER_MAX_CATCHUP_FIRES - int 64 = 0" by (simp add: SCHEDULER_MAX_CATCHUP_FIRES_def)
  with loop fire_loop_Ok[of cal tz now tick_at task 64] obtain fs js where
    plan: "task_plan cal tz tick_at task = Some (fs, g)" and fr: "fired now (map (Pair task) fs) js (tasks (db c)) (db c) (db c1)"
    and out1: "out1 = out @ fires_json (map (Pair task) fs) js"
    unfolding task_plan_def by metis
  have db2: "db c2 = set_next_fire (t_name task) g (db c1)" using exec_OkD[OF set] by simp
  let ?ts = "upd_where (is_task (t_name task)) (\<lambda>r. r\<lparr>t_next_fire_at := g\<rparr>) (tasks (db c))"
  have fr2: "fired now (map (Pair task) fs) js ?ts (db c) (db c2)"
    using fr unfolding fired_def db2 set_next_fire_def by simp
  then have ts2: "tasks (db c2) = ?ts" by (simp add: fired_def)
  from Cons.IH[OF rest] obtain ks where IH: "\<forall>task\<in>set due. task_plan cal tz tick_at task \<noteq> None"
    "out' = out1 @ fires_json (all_fires cal tz tick_at due) ks"
    "fired now (all_fires cal tz tick_at due) ks (tick_upd cal tz tick_at due ?ts) (db c2) (db c')"
    unfolding ts2 by blast
  have split: "all_fires cal tz tick_at (task # due) = map (Pair task) fs @ all_fires cal tz tick_at due"
    "tick_upd cal tz tick_at (task # due) (tasks (db c)) = tick_upd cal tz tick_at due ?ts"
    using plan by (simp_all add: all_fires_def task_fires_def tick_upd_def task_next_def)
  have "fired now (all_fires cal tz tick_at (task # due)) (js @ ks) (tick_upd cal tz tick_at (task # due) (tasks (db c))) (db c) (db c')"
    unfolding split using fr2 IH(3) by (rule fired_append)
  moreover have "out' = out @ fires_json (all_fires cal tz tick_at (task # due)) (js @ ks)"
    using IH(2) out1 fired_length[OF fr] by (simp add: split fires_json_append)
  ultimately show ?case using plan IH(1) by auto
qed

text \<open>With distinct names, as the primary key gives them, each due task gets its own next boundary.\<close>

lemma tick_upd_map:
  assumes "distinct (map t_name ts)" "set due \<subseteq> set ts" "distinct due"
  shows "tick_upd cal tz tick_at due ts
    = map (\<lambda>r. if r \<in> set due then r\<lparr>t_next_fire_at := task_next cal tz tick_at r\<rparr> else r) ts"
  using assms(2,3)
proof (induction due rule: rev_induct)
  case Nil
  then show ?case by (simp add: tick_upd_def)
next
  case (snoc x due)
  let ?f = "\<lambda>r. if r \<in> set due then r\<lparr>t_next_fire_at := task_next cal tz tick_at r\<rparr> else r"
  have same: "is_task (t_name x) (?f r) \<longleftrightarrow> r = x" if "r \<in> set ts" for r
    using assms(1) snoc.prems(1) that by (auto simp: is_task_def distinct_map dest: inj_onD)
  have "tick_upd cal tz tick_at (due @ [x]) ts
      = upd_where (is_task (t_name x)) (\<lambda>r. r\<lparr>t_next_fire_at := task_next cal tz tick_at x\<rparr>) (map ?f ts)"
    using snoc by (simp add: tick_upd_def)
  also have "\<dots> = map (\<lambda>r. if r \<in> set (due @ [x]) then r\<lparr>t_next_fire_at := task_next cal tz tick_at r\<rparr> else r) ts"
    unfolding upd_where_def using same snoc.prems(2) by (auto simp: comp_def intro!: map_cong)
  finally show ?case .
qed

lemma tame_fire_loop [tame_intros]: "tame (fire_loop cal tz now tick_at task fires f out)"
proof (induction cal tz now tick_at task fires f out rule: fire_loop.induct)
  case (1 cal tz now tick_at task fires f out)
  have nx: "tame (cron_next cal tz e u)" for e u
    unfolding cron_next_def by (auto simp: tame_def spanic_def intro!: tame_intros split: option.split cron_res.split)
  show ?case
    by (subst fire_loop.simps)
      (auto simp: check_max_attempts_def enqueue_at_def intro!: tame_intros nx 1)
qed

lemma tame_tick_tasks [tame_intros]: "tame (tick_tasks cal tz now tick_at due out)"
  by (induction due arbitrary: out) (auto intro!: tame_intros)

text \<open>The contract of a tick, over the tables before and after.\<close>

definition tick_rel :: "chrono \<Rightarrow> timezone \<Rightarrow> int \<Rightarrow> honker_db \<Rightarrow> json \<Rightarrow> honker_db \<Rightarrow> bool" where
  "tick_rel cal tz tick_at d out d' \<longleftrightarrow>
     (let due = sort_key t_name (filter (task_due tick_at) (tasks d)); fires = all_fires cal tz tick_at due in
      (\<forall>task\<in>set due. task_plan cal tz tick_at task \<noteq> None)
      \<and> (\<exists>now js. out = JArr (fires_json fires js) \<and> fired now fires js (tick_upd cal tz tick_at due (tasks d)) d d'))"

lemma scheduler_tick_inner_Ok:
  assumes "scheduler_tick_inner cal tz tick_at c = (Ok out, c')"
  shows "tick_rel cal tz tick_at (db c) out (db c')"
proof -
  from assms obtain rows c0 c1 due where ex: "exec (\<lambda>_. tick_due_sql tick_at) c = (Ok rows, c0)"
    and de: "decode rows c0 = (Ok due, c1)" and rest: "(if due = [] then sret (JArr []) else sbind now_unix (\<lambda>now.
         sbind (tick_tasks cal tz now tick_at (sort_key t_name due) []) (\<lambda>out. sret (JArr out)))) c1 = (Ok out, c')"
    unfolding scheduler_tick_inner_def by (elim sbind_Ok)
  have c1: "db c1 = db c" "due = filter (task_due tick_at) (tasks (db c))"
    using exec_OkD[OF ex] de by (auto simp: tick_due_sql_def elim!: decode_Ok)
  show ?thesis
  proof (cases "due = []")
    case True
    with rest c1 show ?thesis
      by (auto simp: tick_rel_def all_fires_def tick_upd_def fires_json_def fired_def Let_def)
  next
    case False
    with rest obtain now c2 outs where c2: "db c2 = db c" and out: "out = JArr outs"
      and run: "tick_tasks cal tz now tick_at (sort_key t_name due) [] c2 = (Ok outs, c')"
      using c1(1) by (auto elim!: sbind_Ok now_unix_Ok)
    from tick_tasks_Ok[OF run] c1(2) c2 out show ?thesis by (auto simp: tick_rel_def Let_def)
  qed
qed

interpretation tick_op: atomic_action "scheduler_tick cal tz tick_at" "tick_rel cal tz tick_at" for cal tz tick_at
  unfolding scheduler_tick_def
proof (rule atomic_in_savepoint)
  show "tame (scheduler_tick_inner cal tz tick_at)"
    unfolding scheduler_tick_inner_def by (intro tame_intros)
qed (rule scheduler_tick_inner_Ok)

lemma tick_rel_tasks:
  assumes "tick_rel cal tz tick_at d out d'" "distinct (map t_name (tasks d))"
  shows "tasks d' = map (\<lambda>r. if task_due tick_at r then r\<lparr>t_next_fire_at := task_next cal tz tick_at r\<rparr> else r) (tasks d)"
proof -
  let ?due = "sort_key t_name (filter (task_due tick_at) (tasks d))"
  have "distinct ?due" using assms(2) by (simp add: distinct_map)
  then have "tick_upd cal tz tick_at ?due (tasks d) = map (\<lambda>r. if r \<in> set ?due
      then r\<lparr>t_next_fire_at := task_next cal tz tick_at r\<rparr> else r) (tasks d)"
    by (intro tick_upd_map[OF assms(2)]) auto
  with assms(1) show ?thesis by (auto simp: tick_rel_def fired_def Let_def intro!: map_cong)
qed

text \<open>A tick only appends fresh rows to the queue, so it keeps every property of the queue.\<close>

lemma fire_job_fresh: "fire_job now task j \<Longrightarrow> fresh_row j"
  using fresh_new_job by (metis fire_job_def)

context queue_moves
begin

lemma keep_inserts:
  assumes "I d" "\<forall>j\<in>set js. fresh_row j" "map j_id js = map (\<lambda>i. live_seq d + 1 + int i) [0..<length js]"
  shows "I (d\<lparr>live := live d @ js, live_seq := live_seq d + int (length js)\<rparr>)"
  using assms(2,3)
proof (induction js rule: rev_induct)
  case Nil
  with assms(1) show ?case by simp
next
  case (snoc j js)
  let ?d = "d\<lparr>live := live d @ js, live_seq := live_seq d + int (length js)\<rparr>"
  from snoc have "I ?d" by simp
  then have "I (?d\<lparr>live := live ?d @ [j], live_seq := live_seq ?d + 1\<rparr>)"
    using snoc.prems by (intro insert_row) auto
  then show ?case by (simp add: add.commute add.left_commute)
qed

lemma keep_tick:
  assumes "I d" "tick_rel cal tz tick_at d out d'"
  shows "I d'"
proof -
  from assms(2) obtain now fires js ts where f: "fired now fires js ts d d'" by (auto simp: tick_rel_def Let_def)
  then have "list_all2 (\<lambda>(task, f) j. fire_job now task j) fires js" by (simp add: fired_def)
  then have "\<forall>j\<in>set js. fresh_row j" by induction (auto dest: fire_job_fresh)
  with f have "I (d\<lparr>live := live d @ js, live_seq := live_seq d + int (length js)\<rparr>)"
    by (intro keep_inserts[OF assms(1)]) (auto simp: fired_def)
  then show ?thesis by (rule other_tables) (use f in \<open>auto simp: fired_def\<close>)
qed

end

section \<open>The properties of a tick\<close>

text \<open>
  C9. A tick is exact and atomic. When it returns, every due task has fired its boundaries as the
  reference definition \<open>catch_up\<close> lists them, at most 64 of them, in the order of the task names and
  then of the boundaries, each as one new job with the task's payload, priority, attempt budget and
  expiry and the next free id; each due task has its next boundary, and nothing else has
  changed. When it does not return, nothing has changed.
\<close>

theorem scheduler_tick_exact:
  assumes "conn_ok c" "distinct (map t_name (tasks (db c)))" "scheduler_tick cal tz tick_at c = (r, c')"
  shows "case r of
      Ok out \<Rightarrow> (\<exists>now js. let fires = all_fires cal tz tick_at (sort_key t_name (filter (task_due tick_at) (tasks (db c)))) in
        out = JArr (fires_json fires js)
        \<and> db c' = (db c)\<lparr>live := live (db c) @ js, live_seq := live_seq (db c) + int (length js),
            tasks := map (\<lambda>r. if task_due tick_at r then r\<lparr>t_next_fire_at := task_next cal tz tick_at r\<rparr> else r) (tasks (db c))\<rparr>
        \<and> list_all2 (\<lambda>(task, f) j. fire_job now task j) fires js
        \<and> map j_id js = map (\<lambda>i. live_seq (db c) + 1 + int i) [0..<length js] \<and> kept c c')
    | _ \<Rightarrow> undone r c c'"
proof (cases "\<exists>out. r = Ok out")
  case False
  with tick_op.act_fail[OF assms(1,3)] show ?thesis by (cases r) auto
next
  case True
  then obtain out where r: "r = Ok out" by auto
  from tick_op.act_Ok[OF assms(1) assms(3)[unfolded r]]
  have rel: "tick_rel cal tz tick_at (db c) out (db c')" and k: "kept c c'" by auto
  from rel obtain now js ts where "out = JArr (fires_json (all_fires cal tz tick_at (sort_key t_name (filter (task_due tick_at) (tasks (db c))))) js)"
    and f: "fired now (all_fires cal tz tick_at (sort_key t_name (filter (task_due tick_at) (tasks (db c))))) js ts (db c) (db c')"
    by (auto simp: tick_rel_def Let_def)
  moreover have "ts = tasks (db c')" using f by (simp add: fired_def)
  ultimately show ?thesis
    using r k tick_rel_tasks[OF rel assms(2)] by (auto simp: fired_def Let_def intro!: exI[of _ now] exI[of _ js])
qed

definition minutely :: "string \<Rightarrow> int \<Rightarrow> task_row" where
  "minutely name f = \<lparr>t_name = name, t_queue = ''q'', t_cron_expr = ''@every 60s'', t_payload = ''p'', t_priority = 0,
     t_expires_s = Some 30, t_next_fire_at = f, t_enabled = 1, t_max_attempts = 3\<rparr>"

definition task_db :: honker_db where
  "task_db = empty_db\<lparr>tasks := [minutely ''b'' 100, minutely ''a'' 220]\<rparr>"

abbreviation utc_tick :: "int \<Rightarrow> json haction" where
  "utc_tick \<equiv> scheduler_tick gregorian (fixed_offset gregorian 0)"

theorem scheduler_tick_exact_witness:
  "\<exists>js. map j_id js = [1, 2, 3, 4] \<and> live (db (snd (utc_tick 250 (fresh_conn task_db 1000 [])))) = js
     \<and> fst (utc_tick 250 (fresh_conn task_db 1000 [])) = Ok (JArr (fires_json
          [(minutely ''a'' 220, 220), (minutely ''b'' 100, 100), (minutely ''b'' 100, 160), (minutely ''b'' 100, 220)] js))"
proof -
  let ?run = "utc_tick 250 (fresh_conn task_db 1000 [])"
  have "(case fst ?run of Ok out \<Rightarrow> True | _ \<Rightarrow> False)" by code_simp
  then have ok: "\<exists>out. fst ?run = Ok out" by (auto split: res.splits)
  then obtain out where run: "?run = (Ok out, snd ?run)" by (metis prod.collapse)
  have fires: "all_fires gregorian (fixed_offset gregorian 0) 250 (sort_key t_name (filter (task_due 250) (tasks task_db)))
    = [(minutely ''a'' 220, 220), (minutely ''b'' 100, 100), (minutely ''b'' 100, 160), (minutely ''b'' 100, 220)]" by code_simp
  have names: "distinct (map t_name (tasks task_db))" by code_simp
  from scheduler_tick_exact[OF _ _ run] names obtain now js where
    js: "out = JArr (fires_json [(minutely ''a'' 220, 220), (minutely ''b'' 100, 100), (minutely ''b'' 100, 160), (minutely ''b'' 100, 220)] js)"
    "live (db (snd ?run)) = live task_db @ js" "length js = 4" "map j_id js = map (\<lambda>i. live_seq task_db + 1 + int i) [0..<length js]"
    by (auto simp: fires Let_def dest: list_all2_lengthD)
  moreover have "live task_db = []" "live_seq task_db = 0" by code_simp+
  moreover have "[0..<4] = [0, 1, 2, 3 :: nat]" by (simp add: upt_rec)
  moreover have "fst ?run = Ok out" using arg_cong[OF run, of fst] by simp
  ultimately show ?thesis by (intro exI[of _ js]) simp
qed

lemma tick_rel_plans:
  "tick_rel cal tz tick_at d out d' \<Longrightarrow> r \<in> set (tasks d) \<Longrightarrow> task_due tick_at r \<Longrightarrow> task_plan cal tz tick_at r \<noteq> None"
  by (simp add: tick_rel_def Let_def)

lemma tick_rel_idle:
  assumes "tick_rel cal tz tick_at d out d'" "\<forall>r\<in>set (tasks d). \<not> task_due tick_at r"
  shows "out = JArr [] \<and> d' = d"
proof -
  have "filter (task_due tick_at) (tasks d) = []" using assms(2) by (simp add: filter_empty_conv)
  with assms(1) show ?thesis
    by (auto simp: tick_rel_def all_fires_def tick_upd_def fires_json_def fired_def Let_def)
qed

lemma tick_catches_up:
  assumes "calendar cal" "zone_ok cal tz" "never_set_back tz" "distinct (map t_name (tasks d))"
    and "tick_rel cal tz tick_at d out d'" "r \<in> set (tasks d')" "t_enabled r = 1"
  shows "tick_at < t_next_fire_at r"
proof -
  from assms(6) tick_rel_tasks[OF assms(5,4)] obtain r0 where r0: "r0 \<in> set (tasks d)"
    "r = (if task_due tick_at r0 then r0\<lparr>t_next_fire_at := task_next cal tz tick_at r0\<rparr> else r0)" by auto
  show ?thesis
  proof (cases "task_due tick_at r0")
    case True
    with tick_rel_plans[OF assms(5) r0(1)] obtain fs g where plan: "task_plan cal tz tick_at r0 = Some (fs, g)" by fastforce
    then have "tick_at < g"
      unfolding task_plan_def by (rule forward_schedule.catch_up_next[OF forward_cron[OF assms(1-3)]])
    with True r0(2) plan show ?thesis by (simp add: task_next_def)
  next
    case False
    with r0(2) assms(7) show ?thesis by (auto simp: task_due_def)
  qed
qed

text \<open>
  A tick catches up and is idempotent, in a zone whose clock is never set back: afterwards
  every enabled task has its next boundary after the time of the tick; each due task
  has fired boundaries in ascending order, none after the time of the tick, the one it was waiting for first, at most
  64 of them, and without a gap if fewer; and a further tick at the same or an earlier time, on any connection
  that sees the same tables, fires nothing and changes nothing.
\<close>

theorem scheduler_tick_catches_up:
  assumes "calendar cal" "zone_ok cal tz" "never_set_back tz"
    and "conn_ok c" "distinct (map t_name (tasks (db c)))" "scheduler_tick cal tz tick_at c = (Ok out, c')"
  shows "(\<forall>r\<in>set (tasks (db c')). t_enabled r = 1 \<longrightarrow> tick_at < t_next_fire_at r)
    \<and> (\<forall>r\<in>set (tasks (db c)). task_due tick_at r \<longrightarrow> (let fs = task_fires cal tz tick_at r in
          sorted_wrt (<) fs \<and> hd fs = t_next_fire_at r \<and> last fs \<le> tick_at \<and> fs \<noteq> [] \<and> length fs \<le> 64
          \<and> (length fs < 64 \<longrightarrow> successively (\<lambda>x y. cron_value cal tz (t_cron_expr r) x = Some y) (fs @ [task_next cal tz tick_at r]))))
    \<and> (\<forall>c2 out2 c3 tick2. conn_ok c2 \<longrightarrow> db c2 = db c' \<longrightarrow> tick2 \<le> tick_at
          \<longrightarrow> scheduler_tick cal tz tick2 c2 = (Ok out2, c3) \<longrightarrow> out2 = JArr [] \<and> db c3 = db c2)"
proof -
  have rel: "tick_rel cal tz tick_at (db c) out (db c')" using tick_op.act_Ok[OF assms(4,6)] by simp
  note up = tick_catches_up[OF assms(1-3,5) rel]
  have "let fs = task_fires cal tz tick_at r in
      sorted_wrt (<) fs \<and> hd fs = t_next_fire_at r \<and> last fs \<le> tick_at \<and> fs \<noteq> [] \<and> length fs \<le> 64
      \<and> (length fs < 64 \<longrightarrow> successively (\<lambda>x y. cron_value cal tz (t_cron_expr r) x = Some y) (fs @ [task_next cal tz tick_at r]))"
    if "r \<in> set (tasks (db c))" "task_due tick_at r" for r
  proof -
    from that tick_rel_plans[OF rel] obtain fs g where plan: "task_plan cal tz tick_at r = Some (fs, g)" by fastforce
    note fwd = forward_cron[OF assms(1-3), of "t_cron_expr r"]
    from forward_schedule.catch_up_fires[OF fwd plan[unfolded task_plan_def]]
      forward_schedule.catch_up_all[OF fwd plan[unfolded task_plan_def]] that(2) plan
    show ?thesis by (auto simp: task_fires_def task_next_def task_due_def Let_def)
  qed
  moreover have "out2 = JArr [] \<and> db c3 = db c2" if "conn_ok c2" "db c2 = db c'" "tick2 \<le> tick_at"
    "scheduler_tick cal tz tick2 c2 = (Ok out2, c3)" for c2 out2 c3 tick2
  proof -
    have "\<forall>r\<in>set (tasks (db c2)). \<not> task_due tick2 r" using up that(2,3) by (fastforce simp: task_due_def)
    with tick_op.act_Ok[OF that(1,4)] tick_rel_idle show ?thesis by blast
  qed
  ultimately show ?thesis using up by blast
qed

theorem scheduler_tick_catches_up_witness:
  "never_set_back (fixed_offset gregorian 0) \<and> task_due 250 (minutely ''b'' 100)
   \<and> \<not> (\<exists>r\<in>set (tasks (db (snd (utc_tick 250 (fresh_conn task_db 1000 []))))). t_enabled r = 1 \<and> t_next_fire_at r \<le> 250)"
proof -
  let ?run = "utc_tick 250 (fresh_conn task_db 1000 [])"
  have "(case fst ?run of Ok out \<Rightarrow> True | _ \<Rightarrow> False)" by code_simp
  then have "\<exists>out. fst ?run = Ok out" by (auto split: res.splits)
  then obtain out where run: "?run = (Ok out, snd ?run)" by (metis prod.collapse)
  have "distinct (map t_name (tasks task_db))" "task_due 250 (minutely ''b'' 100)" by code_simp+
  with scheduler_tick_catches_up[OF greg.calendar_axioms fixed_offset_zone _ _ run] fixed_offset_zone(2) show ?thesis
    by fastforce
qed

section \<open>Registration and updates\<close>

definition register_rel ::
  "chrono \<Rightarrow> timezone \<Rightarrow> string \<Rightarrow> string \<Rightarrow> string \<Rightarrow> string \<Rightarrow> int \<Rightarrow> int option \<Rightarrow> int \<Rightarrow> honker_db \<Rightarrow> int \<Rightarrow> honker_db \<Rightarrow> bool" where
  "register_rel cal tz name queue expr payload priority expires_s max_attempts d n d' \<longleftrightarrow> n = 1 \<and> 1 \<le> max_attempts
     \<and> (\<exists>now nf. cron_value cal tz expr now = Some nf
          \<and> d' = upsert_task name queue expr payload priority expires_s nf max_attempts d)"

lemma atomic_then_ret:
  assumes "atomic_action m Rm" "\<And>d a d'. Rm d a d' \<Longrightarrow> R d (f a) d'"
  shows "atomic_action (sbind m (\<lambda>a. sret (f a))) R"
  using assms(1)
proof (rule atomic_sbind)
  fix a
  show "(\<exists>v. sret (f a) = sret v \<and> (\<forall>d d'. Rm d a d' \<longrightarrow> R d v d'))
      \<or> (\<exists>Rk. (\<forall>d d'. Rm d a d' \<longrightarrow> d' = d) \<and> atomic_action (sret (f a)) Rk \<and> (\<forall>d v d'. Rm d a d \<longrightarrow> Rk d v d' \<longrightarrow> R d v d'))"
    using assms(2) by (intro disjI1 exI[of _ "f a"] conjI refl allI impI)
qed

lemma atomic_cron_next: "atomic_action (cron_next cal tz expr u) (\<lambda>d a d'. d' = d \<and> cron_value cal tz expr u = Some a)"
  by unfold_locales
    (auto simp: cron_next_def cron_value_def spanic_def kept_def conn_ok_def undone_def split: option.splits cron_res.splits)

interpretation register_op: atomic_action
  "scheduler_register cal tz name queue expr payload priority expires_s max_attempts"
  "register_rel cal tz name queue expr payload priority expires_s max_attempts"
  for cal tz name queue expr payload priority expires_s max_attempts
proof -
  let ?R = "register_rel cal tz name queue expr payload priority expires_s max_attempts"
  have chk: "atomic_action (check_max_attempts f m) (\<lambda>d a d'. d' = d \<and> 1 \<le> m)" for f m
    unfolding check_max_attempts_def by (auto intro: atomic_sret atomic_sfail)
  have store: "atomic_action (sbind (exec (\<lambda>_ d. Inr ((), upsert_task name queue expr payload priority expires_s nf max_attempts d)))
      (\<lambda>_. sbind scheduler_wake (\<lambda>_. sret 1)))
      (\<lambda>d v d'. cron_value cal tz expr now = Some nf \<longrightarrow> 1 \<le> max_attempts \<longrightarrow> ?R d v d')" for nf now
    unfolding scheduler_wake_def sbind_simps(1)
    by (rule atomic_then_ret[where f = "\<lambda>_. 1"], rule atomic_exec[where R = "\<lambda>d a d'. d' = upsert_task name queue expr payload priority expires_s nf max_attempts d"])
      (auto simp: register_rel_def)
  have "atomic_action (sbind now_unix (\<lambda>now. sbind (cron_next cal tz expr now) (\<lambda>nf.
      sbind (exec (\<lambda>_ d. Inr ((), upsert_task name queue expr payload priority expires_s nf max_attempts d)))
      (\<lambda>_. sbind scheduler_wake (\<lambda>_. sret 1))))) (\<lambda>d v d'. 1 \<le> max_attempts \<longrightarrow> ?R d v d')"
    by (rule atomic_read_then[where P = "\<lambda>_ _. True"], rule atomic_now_unix, simp,
        rule atomic_read_then[OF atomic_cron_next], rule atomic_weaken[OF store]) auto
  then show "atomic_action (scheduler_register cal tz name queue expr payload priority expires_s max_attempts) ?R"
    unfolding scheduler_register_def by (intro atomic_read_then[OF chk])
qed

lemma find_upd_task:
  "(\<And>r. t_name (f r) = t_name r) \<Longrightarrow> find (is_task name) (upd_where (is_task name) f ts) = map_option f (find (is_task name) ts)"
  by (induction ts) (auto simp: is_task_def)

lemma find_no_task: "\<not> list_ex (is_task name) ts \<Longrightarrow> find (is_task name) (ts @ us) = find (is_task name) us"
  by (induction ts) auto

lemma find_Some_task: "list_ex (is_task name) ts \<longleftrightarrow> find (is_task name) ts \<noteq> None"
  by (induction ts) auto

text \<open>
  Registration: the task gets the queue, expression, payload, priority, expiry and attempt budget of the call
  and the next boundary of its expression, the other tasks are untouched, and a task that was
  registered before keeps its \<open>enabled\<close> flag: registering a paused task again leaves it paused.
\<close>

theorem scheduler_register_exact:
  assumes "conn_ok c" "scheduler_register cal tz name queue expr payload priority expires_s max_attempts c = (Ok n, c')"
  shows "n = 1 \<and> (\<exists>now nf. cron_value cal tz expr now = Some nf
    \<and> find (is_task name) (tasks (db c')) = Some \<lparr>t_name = name, t_queue = queue, t_cron_expr = expr, t_payload = payload,
        t_priority = priority, t_expires_s = expires_s, t_next_fire_at = nf,
        t_enabled = (case find (is_task name) (tasks (db c)) of None \<Rightarrow> 1 | Some r \<Rightarrow> t_enabled r),
        t_max_attempts = max_attempts\<rparr>
    \<and> filter (\<lambda>r. \<not> is_task name r) (tasks (db c')) = filter (\<lambda>r. \<not> is_task name r) (tasks (db c)))"
proof -
  from register_op.act_Ok[OF assms] obtain now nf where n: "n = 1" "cron_value cal tz expr now = Some nf"
    and d': "db c' = upsert_task name queue expr payload priority expires_s nf max_attempts (db c)"
    by (auto simp: register_rel_def)
  have "find (is_task name) (tasks (db c')) = Some \<lparr>t_name = name, t_queue = queue, t_cron_expr = expr, t_payload = payload,
        t_priority = priority, t_expires_s = expires_s, t_next_fire_at = nf,
        t_enabled = (case find (is_task name) (tasks (db c)) of None \<Rightarrow> 1 | Some r \<Rightarrow> t_enabled r),
        t_max_attempts = max_attempts\<rparr>"
  proof (cases "find (is_task name) (tasks (db c))")
    case None
    then show ?thesis unfolding d' by (simp add: upsert_task_def find_Some_task find_no_task is_task_def)
  next
    case (Some r)
    then have "t_name r = name" by (auto simp: find_Some_iff is_task_def)
    with Some show ?thesis unfolding d' by (simp add: upsert_task_def find_Some_task find_upd_task)
  qed
  moreover have "filter (\<lambda>r. \<not> is_task name r) (upd_where (is_task name) f ts) = filter (\<lambda>r. \<not> is_task name r) ts"
    if "\<And>r. t_name (f r) = t_name r" for f ts
    using that by (induction ts) (auto simp: is_task_def)
  then have "filter (\<lambda>r. \<not> is_task name r) (tasks (db c')) = filter (\<lambda>r. \<not> is_task name r) (tasks (db c))"
    unfolding d' by (auto simp: upsert_task_def is_task_def)
  ultimately show ?thesis using n by blast
qed

definition paused_db :: honker_db where
  "paused_db = empty_db\<lparr>tasks := [(minutely ''a'' 100)\<lparr>t_enabled := 0\<rparr>]\<rparr>"

abbreviation register_again :: "hconn \<Rightarrow> int res \<times> hconn" where
  "register_again \<equiv> scheduler_register gregorian (fixed_offset gregorian 0) ''a'' ''q2'' ''@every 5m'' ''p2'' 1 None 2"

theorem scheduler_register_exact_witness:
  "(\<exists>r. find (is_task ''a'') (tasks (db (snd (register_again (fresh_conn paused_db 1000 []))))) = Some r
     \<and> t_enabled r = 0 \<and> t_queue r = ''q2'') \<and> fst (register_again (fresh_conn paused_db 1000 [])) = Ok 1"
proof -
  let ?run = "register_again (fresh_conn paused_db 1000 [])"
  have ok: "fst ?run = Ok 1" by code_simp
  have run: "?run = (Ok 1, snd ?run)" by (rule prod_eqI) (simp_all add: ok)
  have "find (is_task ''a'') (tasks (db (fresh_conn paused_db 1000 []))) = Some ((minutely ''a'' 100)\<lparr>t_enabled := 0\<rparr>)" by code_simp
  with scheduler_register_exact[OF _ run] ok show ?thesis by auto
qed

text \<open>
  C40. An update of a task can leave its connection in a transaction: when the last \<open>RELEASE\<close> fails, the
  error is returned with the savepoint still open. A job enqueued next on that connection is
  acknowledged with an id, and nothing of it is durable.
\<close>

definition update_busy :: "env_step list" where
  "update_busy = [\<lparr>tick = 0, fault = None\<rparr>, \<lparr>tick = 0, fault = None\<rparr>, \<lparr>tick = 0, fault = None\<rparr>,
     \<lparr>tick = 0, fault = Some (FaultErr (SqliteFailure DatabaseBusy ''database is locked''))\<rparr>]"

abbreviation update_payload :: "hconn \<Rightarrow> int res \<times> hconn" where
  "update_payload \<equiv> scheduler_update gregorian (fixed_offset gregorian 0) ''a'' None (Some ''p2'') None None None"


end
