(* ===== verification/Sql_Thms.thy ===== *)
theory Sql_Thms
  imports Sql_Api Scheduler_Thms Queue_Thms
begin

text \<open>
  What holds of every SQL call, whatever its name, its arguments and the faults it meets:
  an invariant of the tables that the operations keep is kept by every call, and so by every
  sequence of calls from any number of connections.
\<close>

section \<open>Actions that keep an invariant at every statement\<close>

definition inv_conn :: "('d \<Rightarrow> bool) \<Rightarrow> 'd conn \<Rightarrow> bool" where
  "inv_conn I c \<longleftrightarrow> I (db c) \<and> I (disk c) \<and> (\<forall>f\<in>set (frames c). I (snd f))"

definition keeps :: "('d \<Rightarrow> bool) \<Rightarrow> ('d conn \<Rightarrow> 'r \<times> 'd conn) \<Rightarrow> bool" where
  "keeps I m \<longleftrightarrow> (\<forall>c r c'. inv_conn I c \<longrightarrow> m c = (r, c') \<longrightarrow> inv_conn I c')"

lemma keepsD: "keeps I m \<Longrightarrow> inv_conn I c \<Longrightarrow> m c = (r, c') \<Longrightarrow> inv_conn I c'"
  by (auto simp: keeps_def)

lemma inv_conn_fresh [simp]: "inv_conn I (fresh_conn d t s) \<longleftrightarrow> I d"
  by (simp add: inv_conn_def)

lemma inv_conn_env: "next_env c = (f, c1) \<Longrightarrow> inv_conn I c1 \<longleftrightarrow> inv_conn I c"
  by (auto simp: inv_conn_def dest!: next_env_Pair)

lemma inv_conn_abort: "inv_conn I c \<Longrightarrow> inv_conn I (abort_tx c)"
  by (simp add: inv_conn_def)

lemma keeps_exec:
  assumes "\<And>t d a d'. I d \<Longrightarrow> stmt t d = Inr (a, d') \<Longrightarrow> I d'"
  shows "keeps I (exec stmt)"
  using assms
  by (auto simp: keeps_def exec_def inv_conn_env[symmetric] intro: inv_conn_abort
      split: prod.splits option.splits fault.splits sum.splits)
    (auto simp: inv_conn_def)

lemma keeps_query [keeps_intros]: "keeps I (query q)"
  unfolding query_def by (rule keeps_exec) (auto split: sum.splits)

lemma keeps_decode [keeps_intros]: "keeps I (decode a)"
  unfolding decode_def by (rule keeps_exec) auto

lemma keeps_now_unix [keeps_intros]: "keeps I now_unix"
  unfolding now_unix_def by (rule keeps_query)

lemma keeps_sret [keeps_intros]: "keeps I (sret a)"
  by (simp add: keeps_def)

lemma keeps_sfail [keeps_intros]: "keeps I (sfail e)"
  by (simp add: keeps_def)

lemma keeps_spanic [keeps_intros]: "keeps I spanic"
  by (simp add: keeps_def spanic_def)

lemma keeps_sbind [keeps_intros]:
  assumes "keeps I m" "\<And>a. keeps I (k a)"
  shows "keeps I (sbind m k)"
  unfolding keeps_def
proof (intro allI impI)
  fix c r c' assume inv: "inv_conn I c" and run: "sbind m k c = (r, c')"
  obtain r1 c1 where m1: "m c = (r1, c1)" by fastforce
  then have "inv_conn I c1" by (rule keepsD[OF assms(1) inv])
  with run m1 keepsD[OF assms(2)] show "inv_conn I c'" by (cases r1) auto
qed

lemma keeps_if [keeps_intros]: "keeps I a \<Longrightarrow> keeps I b \<Longrightarrow> keeps I (if p then a else b)"
  by simp

lemma keeps_case_option [keeps_intros]:
  "keeps I a \<Longrightarrow> (\<And>x. keeps I (b x)) \<Longrightarrow> keeps I (case v of None \<Rightarrow> a | Some x \<Rightarrow> b x)"
  by (cases v) auto

lemma keeps_case_cron [keeps_intros]:
  "(\<And>x. keeps I (f x)) \<Longrightarrow> (\<And>x. keeps I (g x)) \<Longrightarrow> keeps I h
    \<Longrightarrow> keeps I (case v of COk x \<Rightarrow> f x | CErr e \<Rightarrow> g e | CPanic \<Rightarrow> h)"
  by (cases v) auto

lemma keeps_control:
  assumes "\<And>c1 c2. inv_conn I c1 \<Longrightarrow> f c1 = Inr c2 \<Longrightarrow> inv_conn I c2"
  shows "keeps I (control f)"
  using assms
  by (auto simp: keeps_def control_def inv_conn_env[symmetric] intro: inv_conn_abort
      split: prod.splits option.splits fault.splits sum.splits)

lemma set_frames_from: "set (frames_from name fs) \<subseteq> set fs"
  by (induction name fs rule: frames_from.induct) auto

lemma frames_from_Cons: "frames_from name fs = x # xs \<Longrightarrow> set (x # xs) \<subseteq> set fs"
  by (metis set_frames_from)

lemma keeps_savepoint [keeps_intros]: "keeps I (sql_savepoint name)"
  unfolding sql_savepoint_def by (rule keeps_control) (auto simp: inv_conn_def)

lemma keeps_release [keeps_intros]: "keeps I (sql_release name)"
  unfolding sql_release_def
  by (rule keeps_control) (auto simp: inv_conn_def commit_tx_def dest!: frames_from_Cons split: list.splits if_splits)

lemma keeps_rollback_to [keeps_intros]: "keeps I (sql_rollback_to name)"
  unfolding sql_rollback_to_def
  by (rule keeps_control) (force simp: inv_conn_def dest!: frames_from_Cons split: list.splits prod.splits)

lemma keeps_rollback_and_release [keeps_intros]: "keeps I (rollback_and_release name)"
  unfolding keeps_def rollback_and_release_def
  by (auto split: prod.splits sum.splits dest: keepsD[OF keeps_rollback_to] keepsD[OF keeps_release])

lemma keeps_run_batch [keeps_intros]: "keeps I f \<Longrightarrow> keeps I (run_batch f)"
  by (auto simp: keeps_def run_batch_def split: prod.splits sum.splits)

lemma keeps_update_savepoint [keeps_intros]:
  assumes "keeps I body"
  shows "keeps I (update_savepoint body)"
  unfolding update_savepoint_def
proof (rule keeps_sbind[OF keeps_run_batch[OF keeps_savepoint]])
  fix a
  show "keeps I (\<lambda>c. case body c of (Ok _, c1) \<Rightarrow> run_batch (sql_release ''honker_sched_update'') c1
      | (Err e, c1) \<Rightarrow> (Err e, snd (rollback_and_release ''honker_sched_update'' c1)) | (Panicked, c1) \<Rightarrow> (Panicked, c1))"
    unfolding keeps_def
    by (auto split: prod.splits res.splits dest: keepsD[OF assms] keepsD[OF keeps_run_batch[OF keeps_release]]
        intro: keepsD[OF keeps_rollback_and_release _ prod.collapse[symmetric]])
qed

section \<open>Calls on a connection of their own\<close>

definition durable :: "('d \<Rightarrow> bool) \<Rightarrow> ('d, 'a) action \<Rightarrow> bool" where
  "durable I m \<longleftrightarrow> (\<forall>d t s r c'. I d \<longrightarrow> m (fresh_conn d t s) = (r, c') \<longrightarrow> I (disk c'))"

named_theorems durable_intros \<open>a call keeps an invariant of the durable tables\<close>

lemma durable_keeps:
  assumes "keeps I m"
  shows "durable I m"
  unfolding durable_def
proof (intro allI impI)
  fix d t s r c' assume "I d" and run: "m (fresh_conn d t s) = (r, c')"
  then have "inv_conn I c'" by (intro keepsD[OF assms _ run]) simp
  then show "I (disk c')" by (simp add: inv_conn_def)
qed

lemma durable_atomic:
  assumes "atomic_action m R" "\<And>d v d'. I d \<Longrightarrow> R d v d' \<Longrightarrow> I d'"
  shows "durable I m"
  unfolding durable_def
  using atomic_action.keeps_durable[OF assms(1), where I = I] assms(2) by (intro allI impI) metis

lemma durable_to_sql_err [durable_intros]: "durable I m \<Longrightarrow> durable I (to_sql_err f m)"
  by (auto simp: durable_def to_sql_err_def split: prod.splits res.splits)

lemma durable_sfail: "durable I (sfail e)"
  by (rule durable_keeps) (rule keeps_sfail)

lemma durable_get_text [durable_intros]: "(\<And>x. durable I (k x)) \<Longrightarrow> durable I (sbind (get_text env i v) k)"
  by (auto simp: get_text_def durable_sfail split: option.splits)

lemma durable_get_i64: "(\<And>x. durable I (k x)) \<Longrightarrow> durable I (sbind (get_i64 env i v) k)"
  by (auto simp: get_i64_def durable_sfail split: option.splits)

lemma durable_get_real: "(\<And>x. durable I (k x)) \<Longrightarrow> durable I (sbind (get_real i f) k)"
  by (auto simp: get_real_def durable_sfail split: sum.splits)

lemma sbind_assoc: "sbind (sbind m f) g = sbind m (\<lambda>x. sbind (f x) g)"
  by (auto simp: sbind_def fun_eq_iff split: prod.splits res.splits)

lemma durable_arg_i64 [durable_intros]: "(\<And>x. durable I (k x)) \<Longrightarrow> durable I (sbind (arg_i64 env i v) k)"
  by (auto simp: arg_i64_def durable_get_i64 durable_get_real split: sqlval.splits)

lemma durable_arg_opt_i64 [durable_intros]: "(\<And>x. durable I (k x)) \<Longrightarrow> durable I (sbind (arg_opt_i64 env i v) k)"
  by (auto simp: arg_opt_i64_def get_opt_def sbind_assoc durable_get_i64 durable_get_real split: sqlval.splits)

lemma durable_opt_text [durable_intros]: "(\<And>x. durable I (k x)) \<Longrightarrow> durable I (sbind (get_opt (get_text env i) v) k)"
  by (auto simp: get_opt_def sbind_assoc durable_get_text)

text \<open>The functions that remove live rows: the rest move or add rows only.\<close>

definition removes :: "string \<Rightarrow> bool" where
  "removes fn \<longleftrightarrow> fn \<in> {''honker_ack'', ''honker_ack_batch'', ''honker_cancel''}"

context queue_moves
begin

lemma keeps_other:
  "(\<And>t d a d'. stmt t d = Inr (a, d') \<Longrightarrow> live d' = live d \<and> dead d' = dead d \<and> live_seq d' = live_seq d) \<Longrightarrow> keeps I (exec stmt)"
  by (rule keeps_exec) (auto intro: other_tables)

lemma keeps_upserts:
  "keeps I (exec (\<lambda>t d. Inr (rate_bump name w lim d)))" "keeps I (exec (\<lambda>t d. Inr ((), upsert_result jid v (e t) t d)))"
  "keeps I (exec (\<lambda>t d. Inr (upsert_offset consumer topic off d)))" "keeps I (exec (insert_event topic key payload))"
  "keeps I (exec (insert_notification channel payload))"
  "keeps I (exec (\<lambda>t d. Inr ((), upsert_task name q e' p pr x nf ma d)))" "keeps I (exec (\<lambda>t. set_enabled name b' a))"
  by (rule keeps_other, auto simp: rate_bump_def upsert_result_def upsert_offset_def insert_event_def
      insert_notification_def upsert_task_def set_enabled_def Let_def split: if_splits)+

lemma keeps_tables [keeps_intros]:
  "keeps I (lock_acquire name owner ttl)" "keeps I (lock_release name owner)" "keeps I (lock_renew name owner ttl)"
  "keeps I (rate_limit_try name lim per)" "keeps I (rate_limit_sweep age)"
  "keeps I (result_save jid v ttl)" "keeps I (result_get jid)" "keeps I result_sweep"
  "keeps I (stream_publish topic key payload)" "keeps I (stream_read_since topic off lim)"
  "keeps I (stream_save_offset consumer topic off)" "keeps I (stream_get_offset consumer topic)"
  "keeps I (notify channel payload)"
  unfolding lock_acquire_def lock_release_def lock_renew_def rate_limit_try_def rate_limit_sweep_def result_save_def
    result_get_def result_sweep_def stream_publish_def stream_read_since_def stream_save_offset_def
    stream_get_offset_def notify_def
  by (intro keeps_intros keeps_upserts keeps_other; force simp: Let_def split: option.splits intro!: keeps_intros)+

lemma keeps_cron_next [keeps_intros]: "keeps I (cron_next cal tz expr u)"
  unfolding cron_next_def by (intro keeps_intros)

lemma keeps_update_field [keeps_intros]: "keeps I (update_field name f v)"
  unfolding update_field_def by (intro keeps_intros keeps_other) auto

lemma keeps_scheduler [keeps_intros]:
  "keeps I (scheduler_register cal tz name q e p pr x ma)" "keeps I (scheduler_unregister name)"
  "keeps I scheduler_soonest" "keeps I (scheduler_pause name)" "keeps I (scheduler_resume name)" "keeps I scheduler_list"
  "keeps I (scheduler_update cal tz name ce pl pri exs mx)"
  unfolding scheduler_register_def scheduler_unregister_def scheduler_soonest_def scheduler_pause_def scheduler_resume_def
    scheduler_list_def scheduler_update_def update_body_def check_max_attempts_def scheduler_wake_def
  by (intro keeps_intros keeps_upserts keeps_other; force split: option.splits intro!: keeps_intros)+

lemma durable_moves [durable_intros]:
  "durable I (claim_batch q w n to)" "durable I (sweep_expired q)" "durable I (enqueue q p r dl pr m e)"
  "durable I (retry_with jid w ds err a)" "durable I (fail jid w err)" "durable I (fail_fenced jid w err att)"
  "durable I (heartbeat jid w ex)" "durable I (heartbeat_fenced jid w ex att)" "durable I (scheduler_tick cal tz now)"
  by (rule durable_atomic[OF claim_op.atomic_action_axioms], erule (1) keep_claim)
    (rule durable_atomic[OF sweep_op.atomic_action_axioms], erule (1) keep_sweep,
     rule durable_atomic[OF enqueue_op.atomic_action_axioms], erule (1) keep_enqueue,
     rule durable_atomic[OF retry_op.atomic_action_axioms], erule (1) keep_retry,
     rule durable_atomic[OF fail_op.atomic_action_axioms], erule (1) keep_fail,
     rule durable_atomic[OF fail_fenced_op.atomic_action_axioms], erule (1) keep_fail,
     rule durable_atomic[OF heartbeat_op.atomic_action_axioms], erule (1) keep_extend, simp,
     rule durable_atomic[OF heartbeat_fenced_op.atomic_action_axioms], erule (1) keep_extend, simp add: holds_token_def,
     rule durable_atomic[OF tick_op.atomic_action_axioms], erule (1) keep_tick)

lemma durable_retry [durable_intros]: "durable I (retry jid w ds err)" "durable I (retry_fenced jid w ds err att)"
  unfolding retry_def retry_fenced_def by (rule durable_moves)+

lemma durable_reads [durable_intros]: "durable I (queue_next_claim_at q)" "durable I (get_job jid)"
  unfolding queue_next_claim_at_def get_job_def
  by (rule durable_keeps; auto intro!: keeps_intros split: option.splits)+

lemmas durable_other [durable_intros] =
  keeps_tables[THEN durable_keeps] keeps_scheduler[THEN durable_keeps] keeps_cron_next[THEN durable_keeps]

lemma durable_sql_queue: "sql_queue env fn args = Some act \<Longrightarrow> \<not> removes fn \<Longrightarrow> durable I act"
  unfolding sql_queue_def removes_def by (auto split: list.splits if_splits intro!: durable_intros)

lemma durable_sql_locks: "sql_locks env fn args = Some act \<Longrightarrow> durable I act"
  unfolding sql_locks_def by (auto split: list.splits if_splits intro!: durable_intros)

lemma durable_sql_results: "sql_results env fn args = Some act \<Longrightarrow> durable I act"
  unfolding sql_results_def by (auto split: list.splits if_splits intro!: durable_intros)

lemma durable_sql_streams: "sql_streams env fn args = Some act \<Longrightarrow> durable I act"
  unfolding sql_streams_def
  by (auto split: list.splits if_splits intro!: durable_intros durable_keeps[OF keeps_sbind[OF keeps_tables(13) keeps_sret]])

lemma durable_sql_jobs: "sql_jobs env fn args = Some act \<Longrightarrow> \<not> removes fn \<Longrightarrow> durable I act"
  unfolding sql_jobs_def removes_def with_claim_def sql_enqueue_def
  by (auto split: list.splits if_splits intro!: durable_intros)

lemma durable_sql_scheduler: "sql_scheduler env fn args = Some act \<Longrightarrow> durable I act"
  unfolding sql_scheduler_def sql_register_def sql_update_def
  by (auto simp: sbind_assoc split: list.splits if_splits intro!: durable_intros)

end

lemma sql_function_cases:
  assumes "sql_function env fn args = Some act"
  shows "sql_queue env fn args = Some act \<or> sql_locks env fn args = Some act \<or> sql_scheduler env fn args = Some act
    \<or> sql_results env fn args = Some act \<or> sql_jobs env fn args = Some act \<or> sql_streams env fn args = Some act"
  using assms by (auto simp: sql_function_def List.map_filter_def split: if_splits option.splits)

context queue_moves
begin

lemma durable_sql_call: "\<not> removes fn \<Longrightarrow> durable I (sql_call env fn args)"
  unfolding sql_call_def
  by (auto simp: durable_sfail split: option.splits dest!: sql_function_cases intro: durable_sql_queue durable_sql_locks
      durable_sql_scheduler durable_sql_results durable_sql_jobs durable_sql_streams)

end

context queue_property
begin

lemma durable_dels [durable_intros]:
  "durable I (ack jid w)" "durable I (ack_fenced jid w att)" "durable I (cancel jid)" "durable I (cancel_in_queue q jid)"
  "durable I (ack_batch parse num js w)"
  by (rule durable_atomic[OF ack_op.atomic_action_axioms], erule (1) keep_del)
    (rule durable_atomic[OF ack_fenced_op.atomic_action_axioms], erule (1) keep_del,
     rule durable_atomic[OF cancel_op.atomic_action_axioms], erule (1) keep_del,
     rule durable_atomic[OF cancel_in_queue_op.atomic_action_axioms], erule (1) keep_del,
     rule durable_atomic[OF ack_batch_op.atomic_action_axioms], erule (1) keep_ack_batch)

lemma durable_any_call: "durable I (sql_call env fn args)"
proof (cases "removes fn")
  case True
  have "sql_queue env fn args = Some act \<Longrightarrow> durable I act" for act
    unfolding sql_queue_def by (auto split: list.splits if_splits intro!: durable_intros)
  moreover have "sql_jobs env fn args = Some act \<Longrightarrow> durable I act" for act
    unfolding sql_jobs_def with_claim_def sql_enqueue_def by (auto split: list.splits if_splits intro!: durable_intros)
  ultimately show ?thesis
    unfolding sql_call_def
    by (auto simp: durable_sfail split: option.splits dest!: sql_function_cases intro: durable_sql_locks
        durable_sql_scheduler durable_sql_results durable_sql_streams)
qed (rule durable_sql_call)

end

section \<open>Histories\<close>

text \<open>
  The calls of any number of connections, in the order of their commits: each runs on a connection of its own,
  at any time and with any faults, and leaves the durable tables to the next. The history
  also lists the names that were called and the claim tokens that were handed out.
\<close>

definition item_token :: "json \<Rightarrow> token" where
  "item_token x = (case (jfield ''id'' x, jfield ''attempts'' x) of (Some (JInt i), Some (JInt a)) \<Rightarrow> (i, a) | _ \<Rightarrow> (0, 0))"

definition tokens_of :: "string \<Rightarrow> sqlresult res \<Rightarrow> token list" where
  "tokens_of fn r = (if fn = ''honker_claim_batch'' then (case r of Ok (SJson j) \<Rightarrow> map item_token (jelems j) | _ \<Rightarrow> []) else [])"

inductive history :: "sql_env \<Rightarrow> honker_db \<Rightarrow> string list \<Rightarrow> token list \<Rightarrow> honker_db \<Rightarrow> bool" for env d where
  start: "history env d [] [] d"
| call: "history env d fns toks d1 \<Longrightarrow> sql_call env fn args (fresh_conn d1 t s) = (r, c')
    \<Longrightarrow> history env d (fns @ [fn]) (toks @ tokens_of fn r) (disk c')"

context queue_property
begin

lemma history_keeps: "history env d fns toks d' \<Longrightarrow> I d \<Longrightarrow> I d'"
  by (induction rule: history.induct) (use durable_any_call in \<open>auto simp: durable_def\<close>)

end

context queue_moves
begin

lemma history_moves: "history env d fns toks d' \<Longrightarrow> I d \<Longrightarrow> \<forall>fn\<in>set fns. \<not> removes fn \<Longrightarrow> I d'"
  by (induction rule: history.induct) (use durable_sql_call in \<open>auto simp: durable_def\<close>)

end

end
