(* ===== verification/History.thy ===== *)
theory History
  imports Sql_Thms
begin

text \<open>
  Properties of whole histories: any sequence of SQL calls, by any number of workers, with any
  faults. The tables stay well formed, a claim token is handed out once, a token that is no
  longer current stays without effect, and a job disappears only by an ack or a cancel.
\<close>

section \<open>Tokens of a claim\<close>

lemma item_token_claim [simp]: "item_token (claim_json j) = (j_id j, j_attempts j)"
  by (simp add: claim_json_def item_token_def)

lemma sql_claim:
  assumes "sql_call env ''honker_claim_batch'' args c = (Ok v, c')"
  obtains q w n to out where "v = SJson out" "claim_batch q w n to c = (Ok out, c')"
proof -
  from assms obtain act where act: "sql_function env ''honker_claim_batch'' args = Some act" "act c = (Ok v, c')"
    by (auto simp: sql_call_def split: option.splits)
  from sql_function_cases[OF act(1)] have "sql_queue env ''honker_claim_batch'' args = Some act"
    by (auto simp: sql_locks_def sql_scheduler_def sql_results_def sql_jobs_def sql_streams_def split: list.splits if_splits)
  then have "\<exists>a b x y. act = sbind (get_text env 0 a) (\<lambda>queue. sbind (get_text env 1 b) (\<lambda>worker_id.
           sbind (arg_i64 env 2 x) (\<lambda>n. sbind (arg_i64 env 3 y) (\<lambda>timeout_s.
             to_sql_err SJson (claim_batch queue worker_id n timeout_s)))))"
    by (auto simp: sql_queue_def split: list.splits if_splits)
  then obtain a b x y where run: "sbind (get_text env 0 a) (\<lambda>queue. sbind (get_text env 1 b) (\<lambda>worker_id.
           sbind (arg_i64 env 2 x) (\<lambda>n. sbind (arg_i64 env 3 y) (\<lambda>timeout_s.
             to_sql_err SJson (claim_batch queue worker_id n timeout_s))))) c = (Ok v, c')" using act(2) by auto
  have txt1: "get_text env i u c1 = (Ok s, c2) \<Longrightarrow> c2 = c1" for i u c1 s c2
    by (auto simp: get_text_def split: option.splits)
  have num: "arg_i64 env i u c1 = (Ok s, c2) \<Longrightarrow> c2 = c1" for i u c1 s c2
    by (auto simp: arg_i64_def get_i64_def get_real_def split: option.splits sqlval.splits sum.splits)
  from run that show thesis
    by (auto elim!: sbind_Ok dest!: txt1 num simp: to_sql_err_def split: prod.splits res.splits)
qed

text \<open>The tokens of one claim are new, distinct, and spent afterwards.\<close>

lemma claim_tokens:
  assumes "queue_wf d" "claim_rel q w n to d out d'" "\<forall>tok\<in>set toks. spent tok d"
  shows "distinct (map item_token (jelems out)) \<and> set (map item_token (jelems out)) \<inter> set toks = {}
    \<and> (\<forall>tok\<in>set (map item_token (jelems out)). spent tok d')"
proof -
  from assms(2) obtain now where at: "claim_at q w n to now d out d'" by (auto simp: claim_rel_def)
  define h where "h = housekeep q now d"
  define rows where "rows = filter (id_in (claim_ids q n now (live h))) (live h)"
  have wfh: "queue_wf h" unfolding h_def using assms(1) by (rule wf.keep_housekeep)
  have dist: "distinct (map j_id (live h))" using wfh by (rule queue_wf_distinct)
  from at have out: "jelems out = map (\<lambda>j. claim_json (claim_row w to now j)) rows"
    and d': "d' = claim_upd q w n to now h" by (auto simp: claim_at_def claimed_rows_def h_def rows_def Let_def)
  have toks: "map item_token (jelems out) = map (\<lambda>j. (j_id j, j_attempts j + 1)) rows"
    by (simp add: out comp_def)
  have "distinct (map j_id rows)" unfolding rows_def using dist by (rule distinct_map_filter)
  then have "distinct (map (\<lambda>j. (j_id j, j_attempts j + 1)) rows)" by (auto simp: distinct_map inj_on_def)
  moreover have "(j_id j, j_attempts j + 1) \<notin> set toks" if "j \<in> set rows" for j
  proof
    assume "(j_id j, j_attempts j + 1) \<in> set toks"
    with assms(1,3) have "spent (j_id j, j_attempts j + 1) h"
      unfolding h_def using tok.keep_housekeep by blast
    with that show False by (auto simp: spent_def rows_def)
  qed
  moreover have "spent (j_id j, j_attempts j + 1) d'" if "j \<in> set rows" for j
  proof -
    from that have j: "j \<in> set (live h)" "id_in (claim_ids q n now (live h)) j" by (auto simp: rows_def)
    have "j_id j \<le> live_seq h" using wfh j(1) by (auto simp: queue_wf_def queue_ids_def)
    moreover have "j_attempts j + 1 \<le> j_attempts k'" if "k' \<in> set (live d')" "j_id k' = j_id j" for k'
    proof -
      from that(1) obtain k where k: "k \<in> set (live h)"
        "k' = (if id_in (claim_ids q n now (live h)) k then claim_row w to now k else k)"
        unfolding d' claim_upd_def by (auto simp: upd_where_def)
      then have "j_id k = j_id j" using that(2) by (auto split: if_splits)
      with k(1) j(1) dist have "k = j" by (auto simp: distinct_map dest: inj_onD)
      with k(2) j(2) show ?thesis by simp
    qed
    ultimately show ?thesis by (simp add: spent_def d' claim_upd_def)
  qed
  ultimately show ?thesis unfolding toks by auto
qed

lemma history_tokens:
  assumes "history env d fns toks d'" "queue_wf d"
  shows "distinct toks \<and> queue_wf d' \<and> (\<forall>tok\<in>set toks. spent tok d')"
  using assms
proof (induction rule: history.induct)
  case (call fns toks d1 fn args t s r c')
  then have IH: "distinct toks" "queue_wf d1" "\<forall>tok\<in>set toks. spent tok d1" by auto
  have wf': "queue_wf (disk c')" using wf.durable_any_call IH(2) call.hyps(2) by (auto simp: durable_def)
  have sp: "\<forall>tok\<in>set toks. spent tok (disk c')"
    using tok.durable_any_call IH(2,3) call.hyps(2) unfolding durable_def by blast
  show ?case
  proof (cases "\<exists>v. fn = ''honker_claim_batch'' \<and> r = Ok v")
    case False
    then have "tokens_of fn r = []" by (auto simp: tokens_of_def split: res.splits)
    with IH(1) wf' sp show ?thesis by simp
  next
    case True
    with call.hyps(2) obtain q w n to out where out: "r = Ok (SJson out)"
      and run: "claim_batch q w n to (fresh_conn d1 t s) = (Ok out, c')" by (auto elim: sql_claim)
    from claim_op.act_Ok[OF _ run] have rel: "claim_rel q w n to d1 out (disk c')" by (simp add: kept_def)
    have "tokens_of fn r = map item_token (jelems out)" using True out by (simp add: tokens_of_def)
    with claim_tokens[OF IH(2) rel IH(3)] IH(1) wf' sp show ?thesis by auto
  qed
qed simp

section \<open>Tokens that are no longer current\<close>

definition stale :: "token \<Rightarrow> honker_db \<Rightarrow> bool" where
  "stale tok d \<longleftrightarrow> spent tok d \<and> \<not> (\<exists>j\<in>set (live d). j_id j = fst tok \<and> j_attempts j = snd tok \<and> j_state j = Processing)"

lemma row_step_token:
  assumes "row_step j j'" "j_attempts j' = a" "j_state j' = Processing"
  shows "j_attempts j < a \<or> (j_attempts j = a \<and> j_state j = Processing)"
  using assms by (cases rule: row_step.cases) (auto simp: requeue_def extend_lease_def)

interpretation stl: queue_property "\<lambda>d. queue_wf d \<and> stale tok d" for tok
proof
  show "queue_wf d' \<and> stale tok d'" if "queue_wf d \<and> stale tok d"
    "live d' = live d" "dead d' = dead d" "live_seq d' = live_seq d" for d d'
    using that tok.other_tables[of d tok d'] by (simp add: stale_def)
  show "queue_wf (d\<lparr>live := live d @ [j], live_seq := live_seq d + 1\<rparr>) \<and> stale tok (d\<lparr>live := live d @ [j], live_seq := live_seq d + 1\<rparr>)"
    if "queue_wf d \<and> stale tok d" "fresh_row j" "j_id j = live_seq d + 1" for d j
    using that tok.insert_row[of d tok j] by (auto simp: stale_def spent_def)
  show "queue_wf (d\<lparr>live := upd_where p f (live d)\<rparr>) \<and> stale tok (d\<lparr>live := upd_where p f (live d)\<rparr>)"
    if st: "queue_wf d \<and> stale tok d" and step: "\<And>j. j \<in> set (live d) \<Longrightarrow> p j \<Longrightarrow> row_step j (f j)" for d p f
  proof -
    have "\<not> (j_id (f j) = fst tok \<and> j_attempts (f j) = snd tok \<and> j_state (f j) = Processing)" if "j \<in> set (live d)" "p j" for j
      using st that row_step_token[OF step[OF that]] row_step_id[OF step[OF that]]
      by (fastforce simp: stale_def spent_def)
    with st tok.update_rows[OF _ step, of d tok] show ?thesis by (auto simp: stale_def set_upd_where)
  qed
  show "queue_wf (d\<lparr>live := del_where p (live d)\<rparr>) \<and> stale tok (d\<lparr>live := del_where p (live d)\<rparr>)"
    if "queue_wf d \<and> stale tok d" for d p
    using that tok.delete_rows[of d tok p] by (auto simp: stale_def)
  show "queue_wf (d\<lparr>dead := dead d @ map (dead_of err t) (filter p (live d)), live := del_where p (live d)\<rparr>)
      \<and> stale tok (d\<lparr>dead := dead d @ map (dead_of err t) (filter p (live d)), live := del_where p (live d)\<rparr>)"
    if "queue_wf d \<and> stale tok d" for d err t p
    using that queue_wf_move by (auto simp: stale_def spent_def)
qed (auto intro: queue_wf_distinct)

text \<open>The operations that carry a token, and that none of them matches a stale one.\<close>

inductive fenced_call :: "int \<Rightarrow> int \<Rightarrow> int haction \<Rightarrow> bool" for job_id attempt where
  ack: "fenced_call job_id attempt (ack_fenced job_id worker_id attempt)"
| retry: "fenced_call job_id attempt (retry_fenced job_id worker_id delay_s err attempt)"
| fail: "fenced_call job_id attempt (fail_fenced job_id worker_id err attempt)"
| heartbeat: "fenced_call job_id attempt (heartbeat_fenced job_id worker_id extend_s attempt)"

lemma stale_no_holder: "stale (job_id, attempt) d \<Longrightarrow> j \<in> set (live d) \<Longrightarrow> \<not> holds_token job_id worker_id attempt j"
  by (auto simp: stale_def holds_token_def)

lemma no_rows: "(\<And>j. j \<in> set rows \<Longrightarrow> \<not> p j) \<Longrightarrow> filter p rows = [] \<and> del_where p rows = rows \<and> upd_where p f rows = rows \<and> count_where p rows = 0"
  by (auto simp: del_where_def upd_where_def count_where_def filter_empty_conv filter_id_conv intro: map_idI)

lemma inert_rels:
  assumes "\<And>t j. j \<in> set (live d) \<Longrightarrow> \<not> p t j"
  shows "del_rel p d n d' \<Longrightarrow> n = 0 \<and> d' = d" "upd_rel p f d n d' \<Longrightarrow> n = 0 \<and> d' = d" "bury_rel p err d n d' \<Longrightarrow> n = 0 \<and> d' = d"
  using no_rows[of "live d", OF assms] by (auto simp: del_rel_def upd_rel_def bury_rel_def)

lemma fenced_inert:
  assumes "fenced_call job_id attempt act" "stale (job_id, attempt) d" "act (fresh_conn d t s) = (r, c')"
  shows "disk c' = d \<and> (\<forall>v. r = Ok v \<longrightarrow> v = 0)"
proof -
  have none: "\<not> holds_token job_id w attempt j" if "j \<in> set (live d)" for w j
    using assms(2) that by (rule stale_no_holder)
  have "\<exists>R. atomic_action act R \<and> (\<forall>n d'. R d n d' \<longrightarrow> n = 0 \<and> d' = d)"
    using assms(1)
  proof cases
    case (ack w)
    have "\<forall>n d'. del_rel (\<lambda>t. holds_token job_id w attempt) d n d' \<longrightarrow> n = 0 \<and> d' = d" using inert_rels(1)[of d "\<lambda>t. holds_token job_id w attempt", OF none] by simp
    with ack_fenced_op.atomic_action_axioms show ?thesis unfolding ack by blast
  next
    case (retry w ds err)
    have g: "\<not> retry_guard t job_id w (Some attempt) j" if "j \<in> set (live d)" for t j using none that by (simp add: retry_guard_def)
    have "\<forall>n d'. retry_rel job_id w ds err (Some attempt) d n d' \<longrightarrow> n = 0 \<and> d' = d"
      using inert_rels(2)[of d "\<lambda>t j. retry_guard t job_id w (Some attempt) j \<and> j_attempts j < j_max_attempts j" "\<lambda>t. requeue t ds"]
        inert_rels(3)[of d "\<lambda>t j. retry_guard t job_id w (Some attempt) j \<and> j_attempts j \<ge> j_max_attempts j" err] g
      unfolding retry_rel_def by force
    with retry_op.atomic_action_axioms show ?thesis unfolding retry retry_fenced_def by blast
  next
    case (fail w err)
    have g: "\<not> fail_guard t job_id w (Some attempt) j" if "j \<in> set (live d)" for t j using none that by (simp add: fail_guard_def)
    have "\<forall>n d'. bury_rel (\<lambda>t. fail_guard t job_id w (Some attempt)) err d n d' \<longrightarrow> n = 0 \<and> d' = d" using inert_rels(3)[of d "\<lambda>t. fail_guard t job_id w (Some attempt)", OF g] by simp
    with fail_fenced_op.atomic_action_axioms show ?thesis unfolding fail by blast
  next
    case (heartbeat w ex)
    have "\<forall>n d'. upd_rel (\<lambda>t. holds_token job_id w attempt) (extend_lease ex) d n d' \<longrightarrow> n = 0 \<and> d' = d" using inert_rels(2)[of d "\<lambda>t. holds_token job_id w attempt", OF none] by simp
    with heartbeat_fenced_op.atomic_action_axioms show ?thesis unfolding heartbeat by blast
  qed
  then obtain R where R: "atomic_action act R" "\<And>n d'. R d n d' \<Longrightarrow> n = 0 \<and> d' = d" by blast
  show ?thesis
  proof (cases "\<exists>v. r = Ok v")
    case True
    then obtain v where v: "r = Ok v" by blast
    from atomic_action.act_Ok[OF R(1) _ assms(3)[unfolded v]] have "R d v (db c')" "disk c' = db c'" by (auto simp: kept_def)
    with R(2) v show ?thesis by simp
  next
    case False
    with atomic_action.autocommit_step[OF R(1) assms(3)] show ?thesis by blast
  qed
qed

section \<open>Jobs are kept\<close>

interpretation kj: queue_moves "\<lambda>d. queue_wf d \<and> all_jobs d0 \<subseteq># all_jobs d" for d0
proof
  show "queue_wf d' \<and> all_jobs d0 \<subseteq># all_jobs d'" if "queue_wf d \<and> all_jobs d0 \<subseteq># all_jobs d"
    "live d' = live d" "dead d' = dead d" "live_seq d' = live_seq d" for d d'
    using that wf.other_tables[of d d'] by (simp add: all_jobs_def)
  show "queue_wf (d\<lparr>live := live d @ [j], live_seq := live_seq d + 1\<rparr>)
      \<and> all_jobs d0 \<subseteq># all_jobs (d\<lparr>live := live d @ [j], live_seq := live_seq d + 1\<rparr>)"
    if "queue_wf d \<and> all_jobs d0 \<subseteq># all_jobs d" "fresh_row j" "j_id j = live_seq d + 1" for d j
    using that wf.insert_row[of d j] by (auto simp: all_jobs_def intro: subset_mset.order_trans)
  show "queue_wf (d\<lparr>live := upd_where p f (live d)\<rparr>) \<and> all_jobs d0 \<subseteq># all_jobs (d\<lparr>live := upd_where p f (live d)\<rparr>)"
    if wf: "queue_wf d \<and> all_jobs d0 \<subseteq># all_jobs d" and step: "\<And>j. j \<in> set (live d) \<Longrightarrow> p j \<Longrightarrow> row_step j (f j)" for d p f
  proof -
    have "image_mset core (mset (upd_where p f (live d))) = image_mset core (mset (live d))"
      using step by (intro image_core_upd row_step_core)
    with wf wf.update_rows[OF _ step] show ?thesis by (simp add: all_jobs_def)
  qed
qed (auto simp: all_jobs_move queue_wf_move queue_wf_distinct)

section \<open>An example history\<close>

text \<open>Typed arguments as SQLite stores them, and a job that is enqueued, claimed, and claimed again after its lease lapsed.\<close>

definition demo_env :: sql_env where
  "demo_env = \<lparr>env_i64 = (\<lambda>v. case v of VInt n \<Rightarrow> Some n | _ \<Rightarrow> None), env_text = (\<lambda>v. case v of VText s \<Rightarrow> Some s | _ \<Rightarrow> None),
     env_json = (\<lambda>_. None), env_num = (\<lambda>_. None), env_cal = gregorian, env_tz = fixed_offset gregorian 0\<rparr>"

definition demo_call :: "string \<Rightarrow> sqlval list \<Rightarrow> int \<Rightarrow> honker_db \<Rightarrow> sqlresult res \<times> hconn" where
  "demo_call fn args t d = sql_call demo_env fn args (fresh_conn d t [])"

definition demo1 :: honker_db where
  "demo1 = disk (snd (demo_call ''honker_enqueue'' [VText ''q'', VText ''p'', VNull, VNull, VReal (Finite 0 0), VInt 3, VNull] 100 empty_db))"

definition demo2 :: honker_db where
  "demo2 = disk (snd (demo_call ''honker_claim_batch'' [VText ''q'', VText ''w1'', VInt 1, VInt 30] 100 demo1))"

definition demo3 :: honker_db where
  "demo3 = disk (snd (demo_call ''honker_claim_batch'' [VText ''q'', VText ''w2'', VInt 1, VInt 30] 200 demo2))"

lemma history_demo:
  assumes "history env d fns toks d1" "tokens_of fn (fst (sql_call env fn args (fresh_conn d1 t []))) = new"
  shows "history env d (fns @ [fn]) (toks @ new) (disk (snd (sql_call env fn args (fresh_conn d1 t []))))"
  using history.call[OF assms(1) prod.collapse[symmetric], of fn args t "[]"] assms(2) by simp

lemma demo_history2: "history demo_env empty_db [''honker_enqueue'', ''honker_claim_batch''] [(1, 1)] demo2"
proof -
  have "history demo_env empty_db ([] @ [''honker_enqueue'']) ([] @ []) demo1"
    unfolding demo1_def demo_call_def by (rule history_demo[OF history.start]) (simp add: tokens_of_def)
  from history_demo[OF this] have "history demo_env empty_db (([] @ [''honker_enqueue'']) @ [''honker_claim_batch'']) (([] @ []) @ [(1, 1)]) demo2"
    unfolding demo2_def demo_call_def by this code_simp
  then show ?thesis by simp
qed

lemma demo_step3: "history demo_env demo2 [''honker_claim_batch''] [(1, 2)] demo3"
proof -
  from history_demo[OF history.start] have "history demo_env demo2 ([] @ [''honker_claim_batch'']) ([] @ [(1, 2)]) demo3"
    unfolding demo3_def demo_call_def by this code_simp
  then show ?thesis by simp
qed

lemma demo_history3:
  "history demo_env empty_db [''honker_enqueue'', ''honker_claim_batch'', ''honker_claim_batch''] [(1, 1), (1, 2)] demo3"
proof -
  have "history demo_env empty_db ([''honker_enqueue'', ''honker_claim_batch''] @ [''honker_claim_batch'']) ([(1, 1)] @ [(1, 2)]) demo3"
    unfolding demo3_def demo_call_def by (rule history_demo[OF demo_history2]) code_simp
  then show ?thesis by simp
qed

section \<open>Properties of every history\<close>

text \<open>
  C26. The queue tables stay well formed over every history: each id is in one table and once,
  below the id counter; attempts stay within the budget; a row has a worker, a lease and a claim time exactly
  while it is being processed. And nothing is forged: dead rows stay, and every row
  is new or descends from a row of before with the same queue, payload, priority and budget and no fewer attempts.
\<close>

theorem queue_stays_well_formed:
  assumes "queue_wf d" "history env d fns toks d'"
  shows "queue_wf d' \<and> descends d d'"
  using desc.history_keeps[OF assms(2), of d] assms(1) by simp

theorem queue_stays_well_formed_witness: "queue_wf demo2 \<and> descends empty_db demo2 \<and> live demo2 \<noteq> []"
proof -
  have "live demo2 \<noteq> []" by code_simp
  with queue_stays_well_formed[OF queue_wf_empty demo_history2] show ?thesis by simp
qed

text \<open>
  C4. No claim token is handed out twice: over every history, of any number of workers with any
  faults and lapsed leases, each pair of job id and attempt number is returned by at most one claim, and once.
\<close>

theorem claim_tokens_unique:
  assumes "queue_wf d" "history env d fns toks d'"
  shows "distinct toks"
  using history_tokens[OF assms(2,1)] by simp

theorem claim_tokens_unique_witness:
  "distinct [(1, 1), (1, 2) :: token] \<and> history demo_env empty_db [''honker_enqueue'', ''honker_claim_batch'', ''honker_claim_batch''] [(1, 1), (1, 2)] demo3"
  using claim_tokens_unique[OF queue_wf_empty demo_history3] demo_history3 by simp

text \<open>
  C3. Fencing: once a token that was handed out no longer matches a row in processing, because the job was
  claimed again, put back, acked, cancelled or moved to the dead table, every fenced call with it
  returns 0 and changes nothing, at once and after any further history.
\<close>

theorem stale_token_inert:
  assumes "queue_wf d0" "history env d0 fns0 toks0 d" "(job_id, attempt) \<in> set toks0"
    and "\<not> (\<exists>j\<in>set (live d). j_id j = job_id \<and> j_attempts j = attempt \<and> j_state j = Processing)"
    and "history env d fns toks d'" "fenced_call job_id attempt act" "act (fresh_conn d' t s) = (r, c')"
  shows "disk c' = d' \<and> (\<forall>v. r = Ok v \<longrightarrow> v = 0)"
proof -
  from history_tokens[OF assms(2,1)] assms(3,4) have "queue_wf d \<and> stale (job_id, attempt) d"
    by (auto simp: stale_def)
  then have "stale (job_id, attempt) d'" using stl.history_keeps[OF assms(5)] by blast
  then show ?thesis using assms(6,7) by (intro fenced_inert)
qed

theorem stale_token_inert_witness:
  "disk (snd (ack_fenced 1 ''w1'' 1 (fresh_conn demo3 210 []))) = demo3
   \<and> fst (ack_fenced 1 ''w1'' 1 (fresh_conn demo3 210 [])) = Ok 0 \<and> live demo3 \<noteq> []"
proof -
  let ?run = "ack_fenced 1 ''w1'' 1 (fresh_conn demo3 210 [])"
  have gone: "\<not> (\<exists>j\<in>set (live demo3). j_id j = 1 \<and> j_attempts j = 1 \<and> j_state j = Processing)" by code_simp
  have "disk (snd ?run) = demo3 \<and> (\<forall>v. fst ?run = Ok v \<longrightarrow> v = 0)"
    using stale_token_inert[OF queue_wf_empty demo_history3 _ gone history.start fenced_call.ack prod.collapse[symmetric]] by simp
  moreover have "(case fst ?run of Ok v \<Rightarrow> True | _ \<Rightarrow> False)" "live demo3 \<noteq> []" by code_simp+
  ultimately show ?thesis by (cases "fst ?run") auto
qed

text \<open>
  C5. No job is lost: over every history without an ack or a cancel, with failures and panics of any
  statement, every job that was live or dead is still live or dead, once, with the same id, queue, payload,
  priority, budget and creation time.
\<close>

theorem jobs_never_lost:
  assumes "queue_wf d" "history env d fns toks d'" "\<forall>fn\<in>set fns. \<not> removes fn"
  shows "all_jobs d \<subseteq># all_jobs d'"
  using kj.history_moves[OF assms(2) _ assms(3), of d] assms(1) by simp

theorem jobs_never_lost_witness: "all_jobs demo2 \<subseteq># all_jobs demo3 \<and> live demo2 \<noteq> []"
proof -
  have "queue_wf demo2" using history_tokens[OF demo_history2 queue_wf_empty] by simp
  moreover have "live demo2 \<noteq> []" by code_simp
  ultimately show ?thesis using jobs_never_lost[OF _ demo_step3] by (simp add: removes_def)
qed

end
