(* ===== verification/Lifecycle.thy ===== *)
theory Lifecycle
  imports History
begin

text \<open>
  The specification of the queue as its user sees it: each job id is in one phase of its life, and there are eight ways to change it. The
  tables and every SQL call refine it: whatever is called, by whomever and with whatever faults, each job moves along the
  specification only.
\<close>

section \<open>The specification\<close>

text \<open>
  A job that waits and one that a worker holds know their attempt budget and how many attempts were handed out.
\<close>

datatype phase = Unborn | Waiting int int | Leased int string int | Buried | Gone

inductive lifecycle :: "phase \<Rightarrow> phase \<Rightarrow> bool" where
  born: "1 \<le> m \<Longrightarrow> lifecycle Unborn (Waiting m 0)"
| lease: "a < m \<Longrightarrow> lifecycle (Waiting m a) (Leased m w (a + 1))"
| take_over: "a < m \<Longrightarrow> lifecycle (Leased m w a) (Leased m w' (a + 1))"
| give_back: "a < m \<Longrightarrow> lifecycle (Leased m w a) (Waiting m a)"
| bury_waiting: "lifecycle (Waiting m a) Buried"
| bury_leased: "lifecycle (Leased m w a) Buried"
| drop_waiting: "lifecycle (Waiting m a) Gone"
| drop_leased: "lifecycle (Leased m w a) Gone"

inductive_cases lifecycleE: "lifecycle p q"

text \<open>The end of a life is final, a job is born once, and the number of attempts only grows.\<close>

definition attempts_of :: "phase \<Rightarrow> int" where
  "attempts_of p = (case p of Waiting m a \<Rightarrow> a | Leased m w a \<Rightarrow> a | _ \<Rightarrow> 0)"

lemma final_phase: "lifecycle\<^sup>*\<^sup>* p q \<Longrightarrow> p = Buried \<or> p = Gone \<Longrightarrow> q = p"
  by (induction rule: converse_rtranclp_induct) (auto elim: lifecycleE)

lemma born_once: "lifecycle\<^sup>*\<^sup>* p q \<Longrightarrow> p \<noteq> Unborn \<Longrightarrow> q \<noteq> Unborn"
  by (induction rule: rtranclp_induct) (auto elim: lifecycleE)

section \<open>The abstraction\<close>

definition row_phase :: "job \<Rightarrow> phase" where
  "row_phase j = (if j_state j = Processing then Leased (j_max_attempts j) (the (j_worker_id j)) (j_attempts j)
     else Waiting (j_max_attempts j) (j_attempts j))"

definition phase :: "honker_db \<Rightarrow> int \<Rightarrow> phase" where
  "phase d i = (case find (\<lambda>j. j_id j = i) (live d) of
       Some j \<Rightarrow> row_phase j
     | None \<Rightarrow> if i \<in> set (map d_id (dead d)) then Buried else if 1 \<le> i \<and> i \<le> live_seq d then Gone else Unborn)"

lemma find_id:
  assumes "distinct (map j_id rows)" "j \<in> set rows"
  shows "find (\<lambda>k. j_id k = j_id j) rows = Some j"
  using assms by (induction rows) auto

lemma find_id_None: "find (\<lambda>k. j_id k = i) rows = None \<longleftrightarrow> i \<notin> set (map j_id rows)"
  by (auto simp: find_None_iff)

lemma phase_live: "queue_wf d \<Longrightarrow> j \<in> set (live d) \<Longrightarrow> phase d (j_id j) = row_phase j"
  by (simp add: phase_def find_id queue_wf_distinct)

lemma phase_not_live:
  "i \<notin> set (map j_id (live d)) \<Longrightarrow>
     phase d i = (if i \<in> set (map d_id (dead d)) then Buried else if 1 \<le> i \<and> i \<le> live_seq d then Gone else Unborn)"
  using find_id_None [of i "live d"] by (simp add: phase_def)

text \<open>A move of the state machine on a row is a move of the specification, or none.\<close>

lemma row_step_lifecycle:
  assumes "row_step j j'" "job_ok j"
  shows "lifecycle\<^sup>*\<^sup>* (row_phase j) (row_phase j')"
  using assms(1)
proof cases
  case (claim worker_id timeout_s now)
  then have "lifecycle (row_phase j) (row_phase j')"
    by (auto simp: row_phase_def intro: lease take_over)
  then show ?thesis
    by (rule r_into_rtranclp)
next
  case (requeue t delay_s)
  then have "lifecycle (row_phase j) (row_phase j')"
    by (auto simp: row_phase_def requeue_def intro: give_back)
  then show ?thesis
    by (rule r_into_rtranclp)
qed (auto simp: row_phase_def extend_lease_def)

lemma row_phase_ends: "lifecycle (row_phase j) Buried" "lifecycle (row_phase j) Gone"
  by (simp_all add: row_phase_def lifecycle.intros)

definition refines :: "honker_db \<Rightarrow> honker_db \<Rightarrow> bool" where
  "refines d0 d \<longleftrightarrow> queue_wf d \<and> (\<forall>i. lifecycle\<^sup>*\<^sup>* (phase d0 i) (phase d i))"

lemma refines_step:
  assumes "refines d0 d" "queue_wf d'" "\<And>i. lifecycle\<^sup>*\<^sup>* (phase d i) (phase d' i)"
  shows "refines d0 d'"
  using assms unfolding refines_def by (blast intro: rtranclp_trans)

lemma phase_insert:
  assumes "queue_wf d" "fresh_row j" "j_id j = live_seq d + 1"
  shows "lifecycle\<^sup>*\<^sup>* (phase d i) (phase (d\<lparr>live := live d @ [j], live_seq := live_seq d + 1\<rparr>) i)"
proof (cases "i = live_seq d + 1")
  case True
  have new: "i \<notin> set (queue_ids d)" "0 \<le> live_seq d"
    using assms(1) True by (auto simp: queue_wf_def)
  then have "phase d i = Unborn"
    using True by (simp add: phase_not_live queue_ids_def)
  moreover have "phase (d\<lparr>live := live d @ [j], live_seq := live_seq d + 1\<rparr>) i = row_phase j"
    using phase_live [of "d\<lparr>live := live d @ [j], live_seq := live_seq d + 1\<rparr>" j] wf.insert_row [OF assms] True assms(3) by simp
  ultimately show ?thesis
    using assms(2) by (auto simp: fresh_row_def row_phase_def intro!: r_into_rtranclp born)
next
  case False
  then have "find (\<lambda>k. j_id k = i) (live d @ [j]) = find (\<lambda>k. j_id k = i) (live d)"
    using assms(3) by (auto simp: find_snoc split: option.splits)
  then have "phase (d\<lparr>live := live d @ [j], live_seq := live_seq d + 1\<rparr>) i = phase d i"
    using False by (auto simp: phase_def split: option.splits)
  then show ?thesis
    by simp
qed

text \<open>A row that stays, and the ids that have no row before or after.\<close>

lemma phase_same_row:
  assumes "queue_wf d" "queue_wf d'" "j \<in> set (live d)" "j' \<in> set (live d')" "j_id j' = j_id j"
    "lifecycle\<^sup>*\<^sup>* (row_phase j) (row_phase j')"
  shows "lifecycle\<^sup>*\<^sup>* (phase d (j_id j)) (phase d' (j_id j))"
  using assms phase_live [of d j] phase_live [of d' j'] by simp

lemma phase_update:
  assumes "queue_wf d" "\<And>j. j \<in> set (live d) \<Longrightarrow> p j \<Longrightarrow> row_step j (f j)"
  shows "lifecycle\<^sup>*\<^sup>* (phase d i) (phase (d\<lparr>live := upd_where p f (live d)\<rparr>) i)"
proof (cases "i \<in> set (map j_id (live d))")
  case True
  then obtain j where j: "j \<in> set (live d)" "i = j_id j"
    by auto
  let ?j = "if p j then f j else j"
  have "?j \<in> set (upd_where p f (live d))"
    using j(1) by (auto simp: upd_where_def)
  moreover have "job_ok j"
    using assms(1) j(1) by (simp add: queue_wf_def list_all_iff)
  then have "lifecycle\<^sup>*\<^sup>* (row_phase j) (row_phase ?j)" "j_id ?j = j_id j"
    using row_step_lifecycle assms(2) [OF j(1)] row_step_id by auto
  ultimately show ?thesis
    using phase_same_row [OF assms(1) wf.update_rows [OF assms] j(1)] j(2) by simp
next
  case False
  have "map j_id (upd_where p f (live d)) = map j_id (live d)"
    using assms(2) by (intro map_id_upd_where row_step_id)
  then have "i \<notin> set (map j_id (live (d\<lparr>live := upd_where p f (live d)\<rparr>)))"
    using False by simp
  then show ?thesis
    using phase_not_live [OF False] phase_not_live [of i "d\<lparr>live := upd_where p f (live d)\<rparr>"] by simp
qed

lemma phase_move:
  assumes "queue_wf d"
  shows "lifecycle\<^sup>*\<^sup>* (phase d i) (phase (d\<lparr>dead := dead d @ map (dead_of err t) (filter p (live d)), live := del_where p (live d)\<rparr>) i)"
    (is "lifecycle\<^sup>*\<^sup>* _ (phase ?d i)")
proof (cases "i \<in> set (map j_id (live d))")
  case True
  then obtain j where j: "j \<in> set (live d)" "i = j_id j"
    by auto
  show ?thesis
  proof (cases "p j")
    case False
    with j show ?thesis
      using phase_same_row [OF assms queue_wf_move [where err = err and t = t and p = p, OF assms] j(1), of j] by simp
  next
    case True
    have "k = j" if "k \<in> set (live d)" "j_id k = j_id j" for k
      using that j(1) queue_wf_distinct [OF assms] by (auto simp: distinct_map dest: inj_onD)
    with True j(2) have "i \<notin> set (map j_id (live ?d))"
      by auto
    moreover have "i \<in> set (map d_id (dead ?d))"
      using True j by auto
    ultimately have "phase ?d i = Buried"
      by (simp add: phase_not_live)
    with phase_live [OF assms j(1)] j(2) show ?thesis
      by (auto intro: r_into_rtranclp row_phase_ends)
  qed
next
  case False
  then have "i \<notin> set (map j_id (live ?d))" "i \<in> set (map d_id (dead ?d)) \<longleftrightarrow> i \<in> set (map d_id (dead d))"
    by auto
  then have "phase ?d i = phase d i"
    using phase_not_live [OF False] by (simp add: phase_not_live)
  then show ?thesis
    by simp
qed

lemma phase_delete:
  assumes "queue_wf d"
  shows "lifecycle\<^sup>*\<^sup>* (phase d i) (phase (d\<lparr>live := del_where p (live d)\<rparr>) i)" (is "lifecycle\<^sup>*\<^sup>* _ (phase ?d i)")
proof (cases "i \<in> set (map j_id (live d))")
  case True
  then obtain j where j: "j \<in> set (live d)" "i = j_id j"
    by auto
  show ?thesis
  proof (cases "p j")
    case False
    with j show ?thesis
      using phase_same_row [OF assms wf.delete_rows [OF assms, of p] j(1), of j] by simp
  next
    case True
    have "k = j" if "k \<in> set (live d)" "j_id k = j_id j" for k
      using that j(1) queue_wf_distinct [OF assms] by (auto simp: distinct_map dest: inj_onD)
    with True j(2) have "i \<notin> set (map j_id (live ?d))"
      by auto
    moreover have "i \<notin> set (map d_id (dead d))" "1 \<le> i" "i \<le> live_seq d"
      using assms j by (auto simp: queue_wf_def queue_ids_def)
    ultimately have "phase ?d i = Gone"
      by (simp add: phase_not_live)
    with phase_live [OF assms j(1)] j(2) show ?thesis
      by (auto intro: r_into_rtranclp row_phase_ends)
  qed
next
  case False
  then have "i \<notin> set (map j_id (live ?d))"
    by auto
  then have "phase ?d i = phase d i"
    using phase_not_live [OF False] by (simp add: phase_not_live)
  then show ?thesis
    by simp
qed

interpretation life: queue_property "refines d0" for d0
proof
  show "distinct (map j_id (live d))" if "refines d0 d" for d
    using that by (simp add: refines_def queue_wf_distinct)
  show "refines d0 d'" if "refines d0 d" "live d' = live d" "dead d' = dead d" "live_seq d' = live_seq d" for d d'
  proof -
    have "phase d' i = phase d i" for i
      by (simp only: phase_def that)
    then show ?thesis
      using that wf.other_tables [of d d'] by (auto simp: refines_def)
  qed
  show "refines d0 (d\<lparr>live := live d @ [j], live_seq := live_seq d + 1\<rparr>)"
    if "refines d0 d" "fresh_row j" "j_id j = live_seq d + 1" for d j
    using that by (intro refines_step [OF that(1)] wf.insert_row phase_insert) (auto simp: refines_def)
  show "refines d0 (d\<lparr>live := upd_where p f (live d)\<rparr>)"
    if "refines d0 d" "\<And>j. j \<in> set (live d) \<Longrightarrow> p j \<Longrightarrow> row_step j (f j)" for d p f
    using that by (intro refines_step [OF that(1)] wf.update_rows phase_update) (auto simp: refines_def)
  show "refines d0 (d\<lparr>dead := dead d @ map (dead_of err t) (filter p (live d)), live := del_where p (live d)\<rparr>)"
    if "refines d0 d" for d err t p
    using that by (intro refines_step [OF that(1)] queue_wf_move phase_move) (auto simp: refines_def)
  show "refines d0 (d\<lparr>live := del_where p (live d)\<rparr>)" if "refines d0 d" for d p
    using that by (intro refines_step [OF that(1)] wf.delete_rows phase_delete) (auto simp: refines_def)
qed

text \<open>
  C2. The queue refines its specification: over every sequence of SQL calls from any number of connections, with any faults, each job id moves from
  its phase before to its phase after along the eight steps of the specification: it is born once, is leased only while
  attempts are left, each lease counts one attempt, and once it is buried or gone it stays so.
\<close>

theorem queue_refines_lifecycle:
  assumes "history env d fns toks d'" "queue_wf d"
  shows "lifecycle\<^sup>*\<^sup>* (phase d i) (phase d' i)"
proof -
  have "refines d d"
    using assms(2) by (simp add: refines_def)
  then have "refines d d'"
    using life.history_keeps assms(1) by blast
  then show ?thesis
    by (simp add: refines_def)
qed

theorem queue_refines_lifecycle_witness:
  "phase empty_db 1 = Unborn \<and> phase demo3 1 = Leased 3 ''w2'' 2 \<and> lifecycle\<^sup>*\<^sup>* (phase empty_db 1) (phase demo3 1)"
proof -
  have "phase empty_db 1 = Unborn" "phase demo3 1 = Leased 3 ''w2'' 2"
    by code_simp+
  then show ?thesis
    using queue_refines_lifecycle [OF demo_history3 queue_wf_empty, of 1] by simp
qed

end
