(* ===== verification/Arg_Thms.thy ===== *)
theory Arg_Thms
  imports Complex_Main Sql_Api
begin

text \<open>
  What a floating-point argument of a SQL function is taken for: the integer of the same value when there is
  one in the range of \<^verbatim>\<open>i64\<close>, and an error that names the argument otherwise.
\<close>

text \<open>The real number a finite \<^verbatim>\<open>f64\<close> stands for.\<close>

definition f64_is :: "f64 \<Rightarrow> int \<Rightarrow> bool" where
  "f64_is f n \<longleftrightarrow> (case f of Finite m e \<Rightarrow> real_of_int n = real_of_int m * 2 powr real_of_int e | _ \<Rightarrow> False)"

lemma powr_neg_int: "e < 0 \<Longrightarrow> 2 powr real_of_int e = 1 / 2 ^ nat (- e)"
  by (simp add: powr_minus_divide[symmetric] powr_realpow[symmetric])

lemma powr_pos_int: "0 \<le> e \<Longrightarrow> 2 powr real_of_int e = 2 ^ nat e"
  by (simp add: powr_realpow[symmetric])

lemma f64_is_iff: "f64_is (Finite m e) n \<longleftrightarrow> f64_whole m e \<and> n = f64_trunc m e"
proof (cases "0 \<le> e")
  case True
  have "real_of_int n = real_of_int m * 2 ^ nat e \<longleftrightarrow> n = m * 2 ^ nat e"
  proof -
    have "real_of_int m * 2 ^ nat e = real_of_int (m * 2 ^ nat e)" by simp
    then show ?thesis by (simp only: of_int_eq_iff)
  qed
  with True show ?thesis by (simp add: f64_is_def f64_whole_def f64_trunc_def powr_pos_int)
next
  case False
  let ?k = "2 ^ nat (- e) :: int"
  have "real_of_int n = real_of_int m * (1 / 2 ^ nat (- e)) \<longleftrightarrow> real_of_int (n * ?k) = real_of_int m"
    by (simp add: field_simps)
  also have "\<dots> \<longleftrightarrow> n * ?k = m" by (simp only: of_int_eq_iff)
  also have "\<dots> \<longleftrightarrow> m mod ?k = 0 \<and> n = m div ?k" by auto
  finally show ?thesis using False by (simp add: f64_is_def f64_whole_def f64_trunc_def powr_neg_int)
qed

lemma in_i64_bounds: "in_i64 n \<longleftrightarrow> - (2 ^ 63) \<le> n \<and> n < 2 ^ 63"
  by (auto simp: in_i64_def i64_min_def i64_max_def)

text \<open>
  A floating-point argument is read exactly: if its value is an integer within the range of
  \<^verbatim>\<open>i64\<close>, the call gets that integer; a fraction, a value out of range, an infinity and a NaN are refused
  with an error that names the argument, and no value is ever rounded or truncated.
\<close>

theorem arg_i64_real_exact:
  "case fst (arg_i64 env i (VReal f) c) of
      Ok n \<Rightarrow> f64_is f n \<and> in_i64 n
    | Err err \<Rightarrow> (\<exists>why. err = NotWhole i why) \<and> \<not> (\<exists>n. f64_is f n \<and> in_i64 n)
    | Panicked \<Rightarrow> False"
proof (cases f)
  case (Finite m e)
  then show ?thesis
    by (auto simp: arg_i64_def get_real_def real_to_i64_def f64_is_iff in_i64_bounds)
qed (auto simp: arg_i64_def get_real_def real_to_i64_def f64_is_def)

end
