(* ===== verification/Traces.thy ===== *)
theory Traces
  imports Main
begin

text \<open>
  Runs of a labelled step relation, and the interface through which an invariant of the steps becomes one of the
  runs. The watcher and the connection pools are such relations.
\<close>

inductive run :: "('s \<Rightarrow> 'l \<Rightarrow> 's \<Rightarrow> bool) \<Rightarrow> 's \<Rightarrow> 'l list \<Rightarrow> 's \<Rightarrow> bool" for step where
  run_nil: "run step s [] s"
| run_cons: "step s l s' \<Longrightarrow> run step s' ls s'' \<Longrightarrow> run step s (l # ls) s''"

inductive_simps run_simps [simp]: "run step s [] s'" "run step s (l # ls) s''"

lemma run_append: "run step s ls s' \<Longrightarrow> run step s' ks s'' \<Longrightarrow> run step s (ls @ ks) s''"
  by (induction rule: run.induct) auto

lemma run_split: "run step s (xs @ ys) s' \<longleftrightarrow> (\<exists>m. run step s xs m \<and> run step m ys s')"
  by (induction xs arbitrary: s) auto

lemma run_done: "s = s' \<Longrightarrow> run step s [] s'"
  by (simp add: run_nil)

text \<open>Some thread is at a given point of its program.\<close>

definition someone :: "(nat \<Rightarrow> 'p) \<Rightarrow> 'p \<Rightarrow> bool" where
  "someone pc p \<longleftrightarrow> (\<exists>t. pc t = p)"

lemma someone_upd [simp]: "pc t \<noteq> q \<Longrightarrow> someone (pc(t := p)) q \<longleftrightarrow> p = q \<or> someone pc q"
  by (auto simp: someone_def)

lemma someone_upd_same [simp]: "someone (pc(t := p)) p"
  by (auto simp: someone_def)

lemma someoneI: "pc t = p \<Longrightarrow> someone pc p"
  by (auto simp: someone_def)

text \<open>Every thread at one point goes on to another.\<close>

definition moved :: "'p \<Rightarrow> 'p \<Rightarrow> (nat \<Rightarrow> 'p) \<Rightarrow> nat \<Rightarrow> 'p" where
  "moved p q pc = (\<lambda>u. if pc u = p then q else pc u)"

lemma someone_moved_off [simp]: "p \<noteq> q \<Longrightarrow> \<not> someone (moved p q pc) p"
  by (auto simp: someone_def moved_def)

lemma someone_moved [simp]: "r \<noteq> p \<Longrightarrow> r \<noteq> q \<Longrightarrow> someone (moved p q pc) r \<longleftrightarrow> someone pc r"
  by (auto simp: someone_def moved_def)

text \<open>The threads at some points of their program, and their number.\<close>

definition members :: "(nat \<Rightarrow> 'p) \<Rightarrow> 'p set \<Rightarrow> nat set" where
  "members pc P = {t. pc t \<in> P}"

lemma members_upd: "members (pc(t := p)) P = (if p \<in> P then insert t (members pc P) else members pc P - {t})"
  by (auto simp: members_def)

lemma finite_members_upd [simp]: "finite (members (pc(t := p)) P) \<longleftrightarrow> finite (members pc P)"
  by (simp add: members_upd)

definition headcount :: "(nat \<Rightarrow> 'p) \<Rightarrow> 'p set \<Rightarrow> int" where
  "headcount pc P = int (card (members pc P))"

lemma headcount_upd [simp]:
  assumes "finite (members pc P)"
  shows "headcount (pc(t := p)) P = headcount pc P + of_bool (p \<in> P) - of_bool (pc t \<in> P)"
proof (cases "t \<in> members pc P")
  case True
  then have "card (members pc P) = Suc (card (members pc P - {t}))"
    using assms by (metis card.remove)
  then show ?thesis
    using True by (simp add: headcount_def members_upd insert_absorb) (simp add: members_def)
qed (use assms in \<open>simp add: headcount_def members_upd\<close>, simp add: members_def)

lemma headcount_posI: "pc t \<in> P \<Longrightarrow> finite (members pc P) \<Longrightarrow> 0 < headcount pc P"
  by (auto simp: headcount_def members_def card_gt_0_iff)

lemma headcount_pos: "0 < headcount pc P \<Longrightarrow> \<exists>t. pc t \<in> P"
  by (auto simp: headcount_def members_def card_gt_0_iff)

lemma members_moved [simp]: "p \<notin> P \<Longrightarrow> q \<notin> P \<Longrightarrow> members (moved p q pc) P = members pc P"
  by (auto simp: members_def moved_def)

lemma headcount_moved [simp]: "p \<notin> P \<Longrightarrow> q \<notin> P \<Longrightarrow> headcount (moved p q pc) P = headcount pc P"
  by (simp add: headcount_def)

text \<open>A property that every step with a permitted label keeps.\<close>

locale kept_by_steps =
  fixes step :: "'s \<Rightarrow> 'l \<Rightarrow> 's \<Rightarrow> bool" and permitted :: "'l \<Rightarrow> bool" and kept :: "'s \<Rightarrow> bool"
  assumes step_keeps: "step s l s' \<Longrightarrow> permitted l \<Longrightarrow> kept s \<Longrightarrow> kept s'"
begin

lemma run_keeps: "run step s ls s' \<Longrightarrow> list_all permitted ls \<Longrightarrow> kept s \<Longrightarrow> kept s'"
  by (induction rule: run.induct) (auto intro: step_keeps)

end

text \<open>Something that is over after a number of counted steps.\<close>

locale countdown =
  fixes step :: "'s \<Rightarrow> 'l \<Rightarrow> 's \<Rightarrow> bool" and counted :: "'l \<Rightarrow> bool" and valid :: "'s \<Rightarrow> bool" and over :: "'s \<Rightarrow> bool" and left :: "'s \<Rightarrow> nat"
  assumes valid_step: "step s l s' \<Longrightarrow> valid s \<Longrightarrow> valid s'"
    and over_step: "step s l s' \<Longrightarrow> valid s \<Longrightarrow> over s \<Longrightarrow> over s'"
    and left_step: "step s l s' \<Longrightarrow> valid s \<Longrightarrow> \<not> over s \<Longrightarrow> over s' \<or> left s' + of_bool (counted l) \<le> left s"
    and left_pos: "valid s \<Longrightarrow> \<not> over s \<Longrightarrow> 0 < left s"
begin

lemma over_run: "run step s ls s' \<Longrightarrow> valid s \<Longrightarrow> over s \<Longrightarrow> over s'"
  by (induction rule: run.induct) (auto dest: valid_step over_step)

lemma left_run: "run step s ls s' \<Longrightarrow> valid s \<Longrightarrow> \<not> over s' \<Longrightarrow> left s' + length (filter counted ls) \<le> left s"
proof (induction rule: run.induct)
  case (run_cons s l s' ls s'')
  have v: "valid s'"
    using run_cons valid_step by blast
  have "\<not> over s" "\<not> over s'"
    using run_cons over_run [OF run_cons.hyps(2) v] over_step by blast+
  with left_step [OF run_cons.hyps(1)] run_cons.IH [OF v] run_cons.prems show ?case
    by auto
qed simp

lemma valid_run: "run step s ls s' \<Longrightarrow> valid s \<Longrightarrow> valid s'"
  by (induction rule: run.induct) (auto dest: valid_step)

lemma ends:
  assumes "run step s ls s'" "valid s" "left s \<le> length (filter counted ls)"
  shows "over s'"
proof (rule ccontr)
  assume "\<not> over s'"
  with left_run [OF assms(1,2)] left_pos [OF valid_run [OF assms(1,2)]] assms(3) show False
    by simp
qed

end

end
