(* ===== verification/Watcher.thy ===== *)
theory Watcher
  imports Text Traces "HOL-Library.Word"
begin

unbundle bit_operations_syntax

text \<open>
  The update watcher of \<^verbatim>\<open>honker-core/src/lib.rs\<close>: the choice of a backend, the switch to WAL mode with its retries,
  the polling loop, and the fan-out to subscribers. What the outside does (the clock, SQLite, the file system) is an argument of
  each round; the loops are total over it.
\<close>

section \<open>Backends\<close>

datatype watcher_backend = Polling | KernelWatch | ShmFastPath

text \<open>The Cargo features the crate was built with.\<close>

record features =
  kernel_watcher :: bool
  shm_fast_path :: bool

datatype backend_err = NeedsFeature string | UnknownBackend string

definition parse_backend :: "features \<Rightarrow> string option \<Rightarrow> backend_err + watcher_backend" where
  "parse_backend fs name = (case name of
       None \<Rightarrow> Inr Polling
     | Some s \<Rightarrow>
         if s = ''polling'' \<or> s = ''poll'' then Inr Polling
         else if s = ''kernel'' \<or> s = ''kernel-watcher'' then
           (if kernel_watcher fs then Inr KernelWatch else Inl (NeedsFeature ''kernel-watcher''))
         else if s = ''shm'' \<or> s = ''shm-fast-path'' then
           (if shm_fast_path fs then Inr ShmFastPath else Inl (NeedsFeature ''shm-fast-path''))
         else Inl (UnknownBackend s))"

record watcher_config =
  cfg_backend :: watcher_backend
  cfg_poll_interval :: int

definition DEFAULT_WATCHER_POLL_INTERVAL :: int where
  "DEFAULT_WATCHER_POLL_INTERVAL = 1"

definition default_config :: watcher_config where
  "default_config = \<lparr>cfg_backend = Polling, cfg_poll_interval = DEFAULT_WATCHER_POLL_INTERVAL\<rparr>"

definition with_backend :: "watcher_backend \<Rightarrow> watcher_config" where
  "with_backend b = default_config\<lparr>cfg_backend := b\<rparr>"

definition with_poll_interval :: "int \<Rightarrow> watcher_config \<Rightarrow> watcher_config option" where
  "with_poll_interval d cfg = (if d = 0 then None else Some (cfg\<lparr>cfg_poll_interval := d\<rparr>))"

section \<open>WAL mode\<close>

text \<open>
  What one attempt meets: the result of \<open>PRAGMA journal_mode = WAL\<close>, of the check after a
  failure, and the clock read after it, in milliseconds.
\<close>

record wal_attempt =
  wa_set :: "sqlerr option"
  wa_mode :: "sqlerr + string"
  wa_now :: int

definition is_wal :: "sqlerr + string \<Rightarrow> sqlerr + bool" where
  "is_wal m = (case m of Inl e \<Rightarrow> Inl e | Inr s \<Rightarrow> Inr (eq_ignore_ascii_case s ''wal''))"

partial_function (option) wal_loop :: "(nat \<Rightarrow> wal_attempt) \<Rightarrow> int \<Rightarrow> nat \<Rightarrow> (sqlerr + unit) option" where
  "wal_loop att deadline i = (case wa_set (att i) of
       None \<Rightarrow> Some (Inr ())
     | Some e \<Rightarrow>
         if is_wal (wa_mode (att i)) = Inr True then Some (Inr ())
         else if wa_now (att i) \<ge> deadline then Some (Inl e)
         else wal_loop att deadline (Suc i))"

declare wal_loop.simps [code]

text \<open>The pause before attempt \<open>i + 1\<close>: it doubles from 1 ms up to 50 ms.\<close>

fun wal_backoff :: "nat \<Rightarrow> int" where
  "wal_backoff 0 = 1"
| "wal_backoff (Suc i) = min (wal_backoff i * 2) 50"

definition set_journal_mode_wal :: "sqlerr + string \<Rightarrow> int \<Rightarrow> (nat \<Rightarrow> wal_attempt) \<Rightarrow> (sqlerr + unit) option" where
  "set_journal_mode_wal mode now att = (case is_wal mode of
       Inl e \<Rightarrow> Some (Inl e)
     | Inr True \<Rightarrow> Some (Inr ())
     | Inr False \<Rightarrow> wal_loop att (now + 5000) 0)"

section \<open>The identity of the database file\<close>

text \<open>What the crate \<^verbatim>\<open>file-id\<close> reports of a path.\<close>

datatype file_id = Inode "64 word" "64 word" | LowRes "32 word" "64 word" | HighRes "64 word" "128 word"

definition fold_high_res :: "64 word \<Rightarrow> 128 word \<Rightarrow> 64 word \<times> 64 word" where
  "fold_high_res volume_serial_number fid = (volume_serial_number, ucast (drop_bit 64 fid) XOR ucast fid)"

type_synonym identity = "64 word \<times> 64 word"

definition stat_identity :: "file_id option \<Rightarrow> identity option" where
  "stat_identity r = (case r of
       None \<Rightarrow> None
     | Some (Inode device_id inode_number) \<Rightarrow> Some (device_id, inode_number)
     | Some (LowRes volume_serial_number file_index) \<Rightarrow> Some (ucast volume_serial_number, file_index)
     | Some (HighRes volume_serial_number fid) \<Rightarrow> Some (fold_high_res volume_serial_number fid))"

section \<open>The polling loop\<close>

definition is_transient_lock_error :: "sqlerr \<Rightarrow> bool" where
  "is_transient_lock_error e = (case e of
       SqliteFailure code _ \<Rightarrow> code = DatabaseBusy \<or> code = DatabaseLocked
     | _ \<Rightarrow> False)"

text \<open>
  What one round meets: the result of the poll if there is a connection, of opening one and of its first
  poll if there is none, the clock in milliseconds, and what the path names. \<^verbatim>\<open>data_version\<close> is a \<^verbatim>\<open>u32\<close>.
\<close>

record poll_env =
  pe_poll :: "sqlerr + 32 word"
  pe_open :: "sqlerr + (sqlerr + 32 word)"
  pe_now :: int
  pe_stat :: "file_id option"

record watcher =
  w_conn :: bool
  w_last :: "32 word"
  w_identity :: identity
  w_next_check :: int
  w_wakes :: nat

definition UPDATE_WATCHER_IDENTITY_INTERVAL :: int where
  "UPDATE_WATCHER_IDENTITY_INTERVAL = 100"

definition or_zero :: "sqlerr + 32 word \<Rightarrow> 32 word" where
  "or_zero r = (case r of Inl _ \<Rightarrow> 0 | Inr v \<Rightarrow> v)"

definition on_change :: "watcher \<Rightarrow> watcher" where
  "on_change w = w\<lparr>w_wakes := w_wakes w + 1\<rparr>"

definition poll_start :: "poll_env \<Rightarrow> watcher" where
  "poll_start e = \<lparr>w_conn = (case pe_open e of Inl _ \<Rightarrow> False | Inr _ \<Rightarrow> True),
     w_last = (case pe_open e of Inl _ \<Rightarrow> 0 | Inr v \<Rightarrow> or_zero v),
     w_identity = (case stat_identity (pe_stat e) of None \<Rightarrow> (0, 0) | Some i \<Rightarrow> i),
     w_next_check = pe_now e + UPDATE_WATCHER_IDENTITY_INTERVAL, w_wakes = 0\<rparr>"

definition poll_version :: "poll_env \<Rightarrow> watcher \<Rightarrow> watcher" where
  "poll_version e w =
     (if w_conn w then (case pe_poll e of
          Inr version \<Rightarrow> if version \<noteq> w_last w then on_change (w\<lparr>w_last := version\<rparr>) else w
        | Inl err \<Rightarrow> if is_transient_lock_error err then w else on_change (w\<lparr>w_conn := False\<rparr>))
      else (case pe_open e of
          Inr v \<Rightarrow> w\<lparr>w_last := or_zero v, w_conn := True\<rparr>
        | Inl _ \<Rightarrow> w))"

text \<open>\<open>None\<close> is the panic of the identity check.\<close>

definition check_identity :: "poll_env \<Rightarrow> watcher \<Rightarrow> watcher option" where
  "check_identity e w =
     (if pe_now e \<ge> w_next_check w then
        (let w = w\<lparr>w_next_check := pe_now e + UPDATE_WATCHER_IDENTITY_INTERVAL\<rparr> in
         case stat_identity (pe_stat e) of
           Some current \<Rightarrow> if current \<noteq> w_identity w then None else Some w
         | None \<Rightarrow> Some (on_change (w\<lparr>w_conn := False\<rparr>)))
      else Some w)"

fun poll_rounds :: "poll_env list \<Rightarrow> watcher \<Rightarrow> watcher option" where
  "poll_rounds [] w = Some w"
| "poll_rounds (e # es) w = (case check_identity e (poll_version e w) of None \<Rightarrow> None | Some w' \<Rightarrow> poll_rounds es w')"

text \<open>The loop from its start to the round in which \<open>stop\<close> is seen.\<close>

definition run_poll_loop :: "poll_env \<Rightarrow> poll_env list \<Rightarrow> watcher option" where
  "run_poll_loop e0 es = poll_rounds es (poll_start e0)"

section \<open>Subscribers\<close>

text \<open>
  The map of \<^verbatim>\<open>SharedUpdateWatcher\<close> takes a subscriber id, a \<^verbatim>\<open>u64\<close> that wraps around, to the sending end of a
  channel. A channel holds at most one tick and its receiving end may have been dropped. The thread runs the polling loop
  until it sees \<open>stop\<close> or panics; \<open>handle\<close> is the \<open>Some\<close> of the field \<^verbatim>\<open>watcher\<close>.
\<close>

datatype thread_state = Running | Finished | Died

record shared =
  senders :: "(64 word \<times> nat) list"
  ticks :: "nat \<Rightarrow> bool"
  dropped :: "nat \<Rightarrow> bool"
  channels :: nat
  next_id :: "64 word"
  handle :: bool
  stop :: bool
  thread :: thread_state

definition new_shared :: shared where
  "new_shared = \<lparr>senders = [], ticks = (\<lambda>_. False), dropped = (\<lambda>_. False), channels = 0, next_id = 0,
     handle = True, stop = False, thread = Running\<rparr>"

definition without_id :: "64 word \<Rightarrow> shared \<Rightarrow> (64 word \<times> nat) list" where
  "without_id i s = filter (\<lambda>(j, c). j \<noteq> i) (senders s)"

definition subscribe :: "shared \<Rightarrow> (64 word \<times> nat) \<times> shared" where
  "subscribe s = (let i = next_id s; c = channels s in
     ((i, c), s\<lparr>next_id := i + 1, channels := Suc c, senders := (i, c) # without_id i s\<rparr>))"

definition unsubscribe :: "64 word \<Rightarrow> shared \<Rightarrow> shared" where
  "unsubscribe i s = s\<lparr>senders := without_id i s\<rparr>"

definition subscriber_count :: "shared \<Rightarrow> nat" where
  "subscriber_count s = length (senders s)"

text \<open>The closure of the thread: \<open>try_send\<close> to each sender, and drop those whose receiver is gone.\<close>

definition fan_out :: "shared \<Rightarrow> shared" where
  "fan_out s = (let live = filter (\<lambda>(i, c). \<not> dropped s c) (senders s) in
     s\<lparr>senders := live, ticks := (\<lambda>c. c \<in> snd ` set live \<or> ticks s c)\<rparr>)"

text \<open>The thread ends: dropping the closure drops the \<^verbatim>\<open>WatcherDeathGuard\<close>, which clears the map.\<close>

definition thread_ends :: "thread_state \<Rightarrow> shared \<Rightarrow> shared" where
  "thread_ends t s = s\<lparr>senders := [], thread := t\<rparr>"

text \<open>
  \<open>close\<close> in the order of its steps: clear the map, take the handle and ask the thread to stop, and wait for the
  thread (\<open>None\<close> while it runs). \<open>Drop\<close> takes the first two.
\<close>

definition close_clear :: "shared \<Rightarrow> shared" where
  "close_clear s = s\<lparr>senders := []\<rparr>"

definition close_take :: "shared \<Rightarrow> shared" where
  "close_take s = (if handle s then s\<lparr>handle := False, stop := True\<rparr> else s)"

definition close_join :: "shared \<Rightarrow> bool option" where
  "close_join s = (case thread s of Running \<Rightarrow> None | Finished \<Rightarrow> Some True | Died \<Rightarrow> Some False)"

datatype recv_res = Tick | Disconnected | Blocks

text \<open>What a blocking \<open>recv\<close> on a channel meets now.\<close>

definition recv :: "nat \<Rightarrow> shared \<Rightarrow> recv_res \<times> shared" where
  "recv c s = (if ticks s c then (Tick, s\<lparr>ticks := (ticks s)(c := False)\<rparr>)
     else if c \<in> snd ` set (senders s) then (Blocks, s) else (Disconnected, s))"

definition drop_receiver :: "nat \<Rightarrow> shared \<Rightarrow> shared" where
  "drop_receiver c s = s\<lparr>dropped := (dropped s)(c := True)\<rparr>"

text \<open>
  One round of the thread with the closure in place. A panic of the loop unwinds through the closure.
\<close>

definition watch_round :: "poll_env \<Rightarrow> watcher \<times> shared \<Rightarrow> watcher option \<times> shared" where
  "watch_round e ws = (case ws of (w, s) \<Rightarrow>
     (case check_identity e (poll_version e w) of
        None \<Rightarrow> (None, thread_ends Died ((fan_out ^^ (w_wakes (poll_version e w) - w_wakes w)) s))
      | Some w' \<Rightarrow> (Some w', (fan_out ^^ (w_wakes w' - w_wakes w)) s)))"

text \<open>The moves of the process: the thread, the subscribers and whoever closes the watcher, in any order.\<close>

datatype shared_event = Subscribe | Unsubscribe "64 word" | Fire | Stops | Panics | Clear | Take | Recv nat | DropRecv nat

inductive shared_step :: "shared \<Rightarrow> shared_event \<Rightarrow> shared \<Rightarrow> bool" where
  step_subscribe: "shared_step s Subscribe (snd (subscribe s))"
| step_unsubscribe: "shared_step s (Unsubscribe i) (unsubscribe i s)"
| step_fire: "thread s = Running \<Longrightarrow> shared_step s Fire (fan_out s)"
| step_stops: "thread s = Running \<Longrightarrow> stop s \<Longrightarrow> shared_step s Stops (thread_ends Finished s)"
| step_panics: "thread s = Running \<Longrightarrow> shared_step s Panics (thread_ends Died s)"
| step_clear: "shared_step s Clear (close_clear s)"
| step_take: "shared_step s Take (close_take s)"
| step_recv: "fst (recv c s) \<noteq> Blocks \<Longrightarrow> \<not> dropped s c \<Longrightarrow> shared_step s (Recv c) (snd (recv c s))"
| step_drop: "shared_step s (DropRecv c) (drop_receiver c s)"

end
