(* ===== verification/Watcher_Thms.thy ===== *)
theory Watcher_Thms
  imports Watcher
begin

text \<open>
  The update watcher: how long the switch to WAL mode may take, how many wakes the polling loop makes, and what the
  subscribers see of them, whatever order the thread, the subscribers and a close run in.
\<close>

section \<open>The switch to WAL mode ends\<close>

lemma wal_backoff_sum: "6 \<le> k \<Longrightarrow> (\<Sum>i<k. wal_backoff i) = 63 + 50 * (int k - 6)"
  and wal_backoff_late: "6 \<le> k \<Longrightarrow> wal_backoff k = 50"
proof -
  have late: "wal_backoff k = 50" if "6 \<le> k" for k
    using that
  proof (induction rule: dec_induct)
    case base
    show ?case
      by (simp add: eval_nat_numeral)
  qed simp
  show "wal_backoff k = 50" if "6 \<le> k"
    using that by (rule late)
  show "(\<Sum>i<k. wal_backoff i) = 63 + 50 * (int k - 6)" if "6 \<le> k"
    using that
  proof (induction rule: dec_induct)
    case base
    show ?case
      by (simp add: eval_nat_numeral)
  qed (simp add: late)
qed

text \<open>An attempt that ends the loop, and what it returns.\<close>

definition wal_ends :: "int \<Rightarrow> wal_attempt \<Rightarrow> bool" where
  "wal_ends deadline a \<longleftrightarrow> wa_set a = None \<or> is_wal (wa_mode a) = Inr True \<or> deadline \<le> wa_now a"

definition wal_result :: "wal_attempt \<Rightarrow> sqlerr + unit" where
  "wal_result a = (case wa_set a of None \<Rightarrow> Inr () | Some e \<Rightarrow> if is_wal (wa_mode a) = Inr True then Inr () else Inl e)"

lemma wal_loop_first:
  assumes "wal_ends deadline (att k)" "i \<le> k" "\<And>j. i \<le> j \<Longrightarrow> j < k \<Longrightarrow> \<not> wal_ends deadline (att j)"
  shows "wal_loop att deadline i = Some (wal_result (att k))"
  using assms(2,3)
proof (induction "k - i" arbitrary: i)
  case 0
  then have "i = k"
    by simp
  then show ?case
    using assms(1) by (subst wal_loop.simps) (auto simp: wal_ends_def wal_result_def split: option.splits)
next
  case (Suc n)
  then have "\<not> wal_ends deadline (att i)" "wal_loop att deadline (Suc i) = Some (wal_result (att k))"
    by auto
  then show ?case
    by (subst wal_loop.simps) (auto simp: wal_ends_def split: option.splits)
qed

lemma clock_runs:
  assumes "\<And>i. wa_now (att i) + wal_backoff i \<le> wa_now (att (Suc i))"
  shows "wa_now (att 0) + (\<Sum>i<k. wal_backoff i) \<le> wa_now (att k)"
proof (induction k)
  case (Suc k)
  then show ?case
    using assms [of k] by simp
qed simp

text \<open>
  The switch to WAL mode always comes back. When every pause is at least as long as asked, the attempt that decides is one of the first 106:
  it is the first that succeeds, finds the file in WAL mode, or comes after the deadline of five seconds, and only the last of
  these is an error, the one SQLite gave.
\<close>

theorem set_journal_mode_wal_bounded:
  assumes "is_wal mode = Inr False" "now \<le> wa_now (att 0)" "\<And>i. wa_now (att i) + wal_backoff i \<le> wa_now (att (Suc i))"
  shows "\<exists>k \<le> 105. set_journal_mode_wal mode now att = Some (wal_result (att k)) \<and> wal_ends (now + 5000) (att k)
    \<and> (\<forall>j<k. \<not> wal_ends (now + 5000) (att j))"
proof -
  have "now + 5000 \<le> wa_now (att 105)"
    using clock_runs [of att 105, OF assms(3)] assms(2) by (simp add: wal_backoff_sum)
  then have late: "wal_ends (now + 5000) (att 105)"
    by (simp add: wal_ends_def)
  define k where "k = (LEAST k. wal_ends (now + 5000) (att k))"
  have k: "wal_ends (now + 5000) (att k)" "k \<le> 105" "\<not> wal_ends (now + 5000) (att j)" if "j < k" for j
    using late that unfolding k_def by (auto intro: LeastI Least_le dest: not_less_Least)
  have "wal_ends (now + 5000) (att k)" "k \<le> 105"
    using late unfolding k_def by (auto intro: LeastI Least_le)
  moreover have "set_journal_mode_wal mode now att = Some (wal_result (att k))"
    using calculation(1) k(3) assms(1) by (simp add: set_journal_mode_wal_def wal_loop_first)
  ultimately show ?thesis
    using k(3) by blast
qed

text \<open>A file that another connection holds for good: each attempt is refused and the clock moves by 50 ms.\<close>

definition held_file :: "nat \<Rightarrow> wal_attempt" where
  "held_file i = \<lparr>wa_set = Some (SqliteFailure DatabaseBusy ''database is locked''), wa_mode = Inr ''delete'', wa_now = 50 * int i\<rparr>"

lemma wal_backoff_le: "wal_backoff i \<le> 50"
  by (cases i) auto

theorem set_journal_mode_wal_bounded_witness:
  "\<exists>k \<le> 105. set_journal_mode_wal (Inr ''delete'') 0 held_file = Some (wal_result (held_file k))
    \<and> wal_ends (0 + 5000) (held_file k) \<and> (\<forall>j<k. \<not> wal_ends (0 + 5000) (held_file j))"
  by (rule set_journal_mode_wal_bounded)
    (auto simp: held_file_def is_wal_def eq_ignore_ascii_case_def lower_char_def algebra_simps wal_backoff_le)

section \<open>The polling loop\<close>

lemmas poll_defs = poll_version_def check_identity_def on_change_def

text \<open>A round in which the file is still the same and the poll answers or meets a lock.\<close>

definition healthy :: "identity \<Rightarrow> poll_env \<Rightarrow> bool" where
  "healthy idn e \<longleftrightarrow> stat_identity (pe_stat e) = Some idn
     \<and> (case pe_poll e of Inl err \<Rightarrow> is_transient_lock_error err | Inr _ \<Rightarrow> True)"

definition polled :: "poll_env list \<Rightarrow> 32 word list" where
  "polled es = List.map_filter (\<lambda>e. case pe_poll e of Inl _ \<Rightarrow> None | Inr v \<Rightarrow> Some v) es"

text \<open>The reference: how often a sequence of versions changes.\<close>

definition changes :: "32 word list \<Rightarrow> nat" where
  "changes vs = length (remdups_adj vs) - 1"

lemma changes_Cons2: "changes (a # b # vs) = (if a = b then 0 else 1) + changes (b # vs)"
proof -
  have "remdups_adj (b # vs) \<noteq> []"
    by simp
  then show ?thesis
    by (cases "remdups_adj (b # vs)") (simp_all add: changes_def)
qed

lemma polled_Cons: "polled (e # es) = (case pe_poll e of Inl _ \<Rightarrow> polled es | Inr v \<Rightarrow> v # polled es)"
  by (simp add: polled_def List.map_filter_simps split: sum.splits)

lemma check_identity_same:
  assumes "stat_identity (pe_stat e) = Some (w_identity w)"
  obtains n where "check_identity e w = Some (w\<lparr>w_next_check := n\<rparr>)"
proof (cases "w_next_check w \<le> pe_now e")
  case True
  then show ?thesis
    using assms that by (simp add: check_identity_def Let_def)
next
  case False
  then show ?thesis
    using that [of "w_next_check w"] by (simp add: check_identity_def)
qed

lemma poll_rounds_healthy:
  assumes "list_all (healthy (w_identity w)) es" "w_conn w"
  shows "\<exists>w'. poll_rounds es w = Some w' \<and> w_conn w' \<and> w_identity w' = w_identity w
    \<and> w_wakes w' = w_wakes w + changes (w_last w # polled es) \<and> w_last w' = last (w_last w # polled es)"
  using assms
proof (induction es arbitrary: w)
  case Nil
  then show ?case
    by (simp add: polled_def changes_def)
next
  case (Cons e es)
  define w1 where "w1 = (case pe_poll e of Inl _ \<Rightarrow> w | Inr v \<Rightarrow> w\<lparr>w_last := v, w_wakes := w_wakes w + (if v = w_last w then 0 else 1)\<rparr>)"
  have "poll_version e w = w1"
    using Cons.prems by (auto simp: w1_def poll_defs healthy_def split: sum.splits)
  moreover obtain n where "check_identity e w1 = Some (w1\<lparr>w_next_check := n\<rparr>)"
    using Cons.prems check_identity_same [of e w1] by (auto simp: w1_def healthy_def split: sum.splits)
  moreover have "list_all (healthy (w_identity (w1\<lparr>w_next_check := n\<rparr>))) es" "w_conn (w1\<lparr>w_next_check := n\<rparr>)"
    using Cons.prems by (simp_all add: w1_def split: sum.splits)
  from Cons.IH [OF this] show ?case
    using calculation by (auto simp: w1_def polled_Cons changes_Cons2 split: sum.splits)
qed

text \<open>
  C10. While the connection works, the polling loop wakes the subscribers exactly once for each change in the sequence of versions it
  reads, counted from the version it started with; a poll that meets a lock costs no wake, and the version it has
  seen last is the last one read.
\<close>

theorem poll_wakes_exact:
  assumes "pe_open e0 = Inr (Inr v0)" "stat_identity (pe_stat e0) = Some idn" "list_all (healthy idn) es"
  shows "\<exists>w. run_poll_loop e0 es = Some w \<and> w_conn w \<and> w_wakes w = changes (v0 # polled es) \<and> w_last w = last (v0 # polled es)"
proof -
  have "w_conn (poll_start e0)" "w_identity (poll_start e0) = idn" "w_last (poll_start e0) = v0" "w_wakes (poll_start e0) = 0"
    using assms(1,2) by (simp_all add: poll_start_def or_zero_def)
  then show ?thesis
    using poll_rounds_healthy [of "poll_start e0" es] assms(3) by (auto simp: run_poll_loop_def)
qed

text \<open>A round at a given time that reads a version, or an error, from the same file.\<close>

definition demo_round :: "int \<Rightarrow> sqlerr + 32 word \<Rightarrow> poll_env" where
  "demo_round t r = \<lparr>pe_poll = r, pe_open = Inr r, pe_now = t, pe_stat = Some (Inode 1 7)\<rparr>"

definition demo_rounds :: "poll_env list" where
  "demo_rounds = [demo_round 1 (Inr 4), demo_round 2 (Inr 5), demo_round 3 (Inl (SqliteFailure DatabaseBusy ''database is locked'')),
     demo_round 150 (Inr 6), demo_round 151 (Inr 6)]"

theorem poll_wakes_exact_witness:
  "pe_open (demo_round 0 (Inr 4)) = Inr (Inr 4) \<and> list_all (healthy (1, 7)) demo_rounds \<and>
   (\<exists>w. run_poll_loop (demo_round 0 (Inr 4)) demo_rounds = Some w \<and> w_conn w \<and> w_wakes w = 2 \<and> w_last w = 6)"
proof -
  have h: "list_all (healthy (1, 7)) demo_rounds"
    by (simp add: demo_rounds_def healthy_def demo_round_def stat_identity_def is_transient_lock_error_def)
  have v: "polled demo_rounds = [4, 5, 6, 6]"
    by (simp add: demo_rounds_def polled_def demo_round_def List.map_filter_simps)
  have "changes (4 # polled demo_rounds) = 2"
    by (simp add: v changes_def)
  then show ?thesis
    using poll_wakes_exact [of "demo_round 0 (Inr 4)" 4 "(1, 7)" demo_rounds] h
    by (simp add: v demo_round_def stat_identity_def)
qed

text \<open>A file that has been replaced ends the loop at the first check, which comes at most 100 ms after the last one.\<close>

lemma replaced_file_panics:
  assumes "stat_identity (pe_stat e) = Some current" "current \<noteq> w_identity w" "w_next_check w \<le> pe_now e"
  shows "check_identity e (poll_version e w) = None"
proof -
  have "w_next_check (poll_version e w) = w_next_check w" "w_identity (poll_version e w) = w_identity w"
    by (simp_all add: poll_defs split: sum.splits)
  then show ?thesis
    using assms by (simp add: check_identity_def)
qed

text \<open>
  After a failed poll the loop wakes once and drops its connection; the next round opens a new one and takes the version it reads there
  for the one already announced. A commit between the two rounds is therefore never announced: the only wake is the one of the
  failed round, whatever version \<open>v1\<close> the new connection reads and however long the loop goes on.
\<close>

theorem reconnect_misses_commit:
  "\<exists>w1 w. run_poll_loop (demo_round 0 (Inr v0)) [demo_round 1 (Inl (SqliteFailure (OtherCode 10) ''disk I/O error''))] = Some w1
     \<and> w_wakes w1 = 1 \<and> \<not> w_conn w1
     \<and> poll_rounds (demo_round 2 (Inr v1) # replicate n (demo_round 3 (Inr v1))) w1 = Some w
     \<and> w_wakes w = 1 \<and> w_conn w \<and> w_last w = v1"
proof -
  define w1 where "w1 = \<lparr>w_conn = False, w_last = v0, w_identity = (1, 7), w_next_check = 100, w_wakes = 1\<rparr>"
  define w2 where "w2 = w1\<lparr>w_last := v1, w_conn := True\<rparr>"
  have "run_poll_loop (demo_round 0 (Inr v0)) [demo_round 1 (Inl (SqliteFailure (OtherCode 10) ''disk I/O error''))] = Some w1"
    by (simp add: run_poll_loop_def poll_start_def poll_defs demo_round_def stat_identity_def is_transient_lock_error_def
        or_zero_def UPDATE_WATCHER_IDENTITY_INTERVAL_def w1_def)
  moreover have "check_identity (demo_round 2 (Inr v1)) (poll_version (demo_round 2 (Inr v1)) w1) = Some w2"
    by (simp add: poll_defs demo_round_def or_zero_def w1_def w2_def)
  moreover have "poll_rounds (replicate n (demo_round 3 (Inr v1))) w2 = Some w2"
    by (induction n) (simp_all add: poll_defs demo_round_def w1_def w2_def)
  ultimately show ?thesis
    by (simp add: w1_def w2_def)
qed

section \<open>The subscribers\<close>

lemmas shared_defs = subscribe_def unsubscribe_def fan_out_def thread_ends_def close_clear_def close_take_def recv_def
  drop_receiver_def without_id_def

inductive_cases shared_stepE: "shared_step s e s'"

text \<open>The map has one sender per id, each on a channel that exists, and no channel to come holds a tick.\<close>

definition shared_ok :: "shared \<Rightarrow> bool" where
  "shared_ok s \<longleftrightarrow> distinct (map fst (senders s)) \<and> (\<forall>c \<in> snd ` set (senders s). c < channels s)
     \<and> (\<forall>c. channels s \<le> c \<longrightarrow> \<not> ticks s c)"

lemma shared_ok_new: "shared_ok new_shared"
  by (simp add: shared_ok_def new_shared_def)

lemma distinct_fst_filter: "distinct (map fst xs) \<Longrightarrow> distinct (map fst (filter P xs))"
  by (induction xs) (auto simp: image_iff)

lemma shared_ok_step: "shared_step s e s' \<Longrightarrow> shared_ok s \<Longrightarrow> shared_ok s'"
  by (erule shared_stepE)
    (auto simp: shared_ok_def shared_defs Let_def distinct_fst_filter less_Suc_eq split: if_splits)

interpretation ok: kept_by_steps shared_step "\<lambda>_. True" shared_ok
  by unfold_locales (rule shared_ok_step)

text \<open>A tick stays until its receiver takes it.\<close>

lemma tick_stays_step: "shared_step s e s' \<Longrightarrow> ticks s c \<Longrightarrow> e \<noteq> Recv c \<Longrightarrow> ticks s' c"
  by (erule shared_stepE) (auto simp: shared_defs Let_def split: if_splits)

interpretation tick: kept_by_steps shared_step "\<lambda>e. e \<noteq> Recv c" "\<lambda>s. ticks s c" for c
  by unfold_locales (rule tick_stays_step)

lemma fan_out_tick: "(i, c) \<in> set (senders s) \<Longrightarrow> \<not> dropped s c \<Longrightarrow> ticks (fan_out s) c"
  by (force simp: fan_out_def)

lemma fan_out_keeps: "ticks s c \<Longrightarrow> ticks ((fan_out ^^ n) s) c"
  by (induction n) (auto simp: fan_out_def Let_def)

lemma fan_outs_tick: "(i, c) \<in> set (senders s) \<Longrightarrow> \<not> dropped s c \<Longrightarrow> 0 < n \<Longrightarrow> ticks ((fan_out ^^ n) s) c"
  by (cases n) (simp_all add: funpow_Suc_right fan_out_keeps fan_out_tick del: funpow.simps)

text \<open>
  From a commit to a subscriber: when a round of the thread reads a new version, every subscriber that is still listening receives a
  tick at its next \<open>recv\<close>, whatever the thread, the other subscribers and a close do before it, and even when the thread
  panics in that round.
\<close>

theorem commit_reaches_subscriber:
  assumes "w_conn w" "pe_poll e = Inr v" "v \<noteq> w_last w" "(i, c) \<in> set (senders s)" "\<not> dropped s c"
    "run shared_step (snd (watch_round e (w, s))) es s'" "Recv c \<notin> set es"
  shows "fst (recv c s') = Tick"
proof -
  have "w_wakes (poll_version e w) = w_wakes w + 1"
    using assms(1-3) by (simp add: poll_defs)
  moreover have "w_wakes (poll_version e w) \<le> w_wakes w'" if "check_identity e (poll_version e w) = Some w'" for w'
    using that by (auto simp: check_identity_def on_change_def Let_def split: if_splits option.splits)
  ultimately have "ticks (snd (watch_round e (w, s))) c"
    using assms(4,5)
    by (cases "check_identity e (poll_version e w)")
      (fastforce simp: watch_round_def thread_ends_def fan_outs_tick simp del: funpow.simps)+
  then show ?thesis
    using tick.run_keeps [OF assms(6)] assms(7) by (fastforce simp: recv_def list_all_iff)
qed

definition one_subscriber :: shared where
  "one_subscriber = snd (subscribe new_shared)"

theorem commit_reaches_subscriber_witness:
  "fst (recv 0 (close_clear (snd (subscribe (snd (watch_round (demo_round 1 (Inr 5)) (poll_start (demo_round 0 (Inr 4)), one_subscriber)))))))
     = Tick"
proof (rule commit_reaches_subscriber)
  show "w_conn (poll_start (demo_round 0 (Inr 4)))" "pe_poll (demo_round 1 (Inr 5)) = Inr 5"
    "5 \<noteq> w_last (poll_start (demo_round 0 (Inr 4)))"
    by (simp_all add: poll_start_def demo_round_def or_zero_def)
  show "(0, 0) \<in> set (senders one_subscriber)" "\<not> dropped one_subscriber 0"
    by (simp_all add: one_subscriber_def subscribe_def new_shared_def)
  show "run shared_step (snd (watch_round (demo_round 1 (Inr 5)) (poll_start (demo_round 0 (Inr 4)), one_subscriber))) [Subscribe, Clear]
    (close_clear (snd (subscribe (snd (watch_round (demo_round 1 (Inr 5)) (poll_start (demo_round 0 (Inr 4)), one_subscriber))))))"
    by (rule run_cons [where step = shared_step, OF step_subscribe run_cons [where step = shared_step, OF step_clear run_nil]])
qed simp

text \<open>A channel that has lost its sender never gets one again.\<close>

definition cut_off :: "nat \<Rightarrow> shared \<Rightarrow> bool" where
  "cut_off c s \<longleftrightarrow> c < channels s \<and> c \<notin> snd ` set (senders s)"

lemma cut_off_step: "shared_step s e s' \<Longrightarrow> cut_off c s \<Longrightarrow> cut_off c s'"
  by (erule shared_stepE) (auto simp: cut_off_def shared_defs Let_def split: if_splits)

interpretation cut: kept_by_steps shared_step "\<lambda>_. True" "cut_off c" for c
  by unfold_locales (rule cut_off_step)

lemma cut_off_recv: "cut_off c s \<Longrightarrow> fst (recv c s) \<noteq> Blocks"
  by (simp add: cut_off_def recv_def)

text \<open>Without the thread, no tick appears.\<close>

definition silent :: "nat \<Rightarrow> shared \<Rightarrow> bool" where
  "silent c s \<longleftrightarrow> thread s \<noteq> Running \<and> \<not> ticks s c"

lemma silent_step: "shared_step s e s' \<Longrightarrow> silent c s \<Longrightarrow> silent c s'"
  by (erule shared_stepE) (auto simp: silent_def shared_defs Let_def split: if_splits)

interpretation quiet: kept_by_steps shared_step "\<lambda>_. True" "silent c" for c
  by unfold_locales (rule silent_step)

lemma any_label: "list_all (\<lambda>_. True) ls"
  by (simp add: list_all_iff)

text \<open>
  When the thread has ended, by a stop or by a panic, no receiver that existed before blocks on \<open>recv\<close> any more, for all that happens
  later: it takes a tick that is left or learns that the watcher is gone.
\<close>

theorem thread_end_frees_receivers:
  assumes "shared_step s e s'" "e = Stops \<or> e = Panics" "c < channels s" "run shared_step s' es' s''"
  shows "fst (recv c s'') \<noteq> Blocks"
proof -
  have "cut_off c s'"
    using assms(1-3) by (auto elim!: shared_stepE simp: cut_off_def thread_ends_def)
  then show ?thesis
    by (rule cut_off_recv [OF cut.run_keeps [OF assms(4) any_label]])
qed

theorem thread_end_frees_receivers_witness:
  "fst (recv 0 (snd (subscribe (thread_ends Died one_subscriber)))) \<noteq> Blocks"
proof (rule thread_end_frees_receivers)
  show "shared_step one_subscriber Panics (thread_ends Died one_subscriber)"
    by (rule step_panics) (simp add: one_subscriber_def subscribe_def new_shared_def)
  show "0 < channels one_subscriber"
    by (simp add: one_subscriber_def subscribe_def new_shared_def)
  show "run shared_step (thread_ends Died one_subscriber) [Subscribe] (snd (subscribe (thread_ends Died one_subscriber)))"
    by (rule run_cons [where step = shared_step, OF step_subscribe run_nil])
qed simp

text \<open>
  A subscription made after the thread has ended is not refused and never learns of it: its first \<open>recv\<close> blocks, and it
  never gets a tick, whatever happens later.
\<close>

theorem subscribe_after_end_blocks:
  assumes "run shared_step new_shared es s" "thread s \<noteq> Running"
  shows "recv (channels s) (snd (subscribe s)) = (Blocks, snd (subscribe s))
    \<and> (\<forall>es' s'. run shared_step (snd (subscribe s)) es' s' \<longrightarrow> fst (recv (channels s) s') \<noteq> Tick)"
proof -
  have t: "\<not> ticks (snd (subscribe s)) (channels s)"
    using ok.run_keeps [OF assms(1) any_label shared_ok_new] by (simp add: shared_ok_def subscribe_def Let_def)
  have "silent (channels s) (snd (subscribe s))"
    using assms(2) t by (simp add: silent_def subscribe_def Let_def)
  then have "\<not> ticks s' (channels s)" if "run shared_step (snd (subscribe s)) es' s'" for es' s'
    using quiet.run_keeps [OF that any_label] by (simp add: silent_def)
  moreover have "channels s \<in> snd ` set (senders (snd (subscribe s)))"
    by (simp add: subscribe_def Let_def)
  ultimately show ?thesis
    using t by (simp add: recv_def)
qed

theorem subscribe_after_end_blocks_witness:
  "recv 0 (snd (subscribe (thread_ends Died new_shared))) = (Blocks, snd (subscribe (thread_ends Died new_shared)))
    \<and> (\<exists>s. thread s \<noteq> Running \<and> (\<forall>es' s'. run shared_step (snd (subscribe s)) es' s' \<longrightarrow> fst (recv (channels s) s') \<noteq> Tick))"
proof -
  have "run shared_step new_shared [Panics] (thread_ends Died new_shared)"
    by (rule run_cons [where step = shared_step, OF step_panics run_nil]) (simp add: new_shared_def)
  moreover have "thread (thread_ends Died new_shared) \<noteq> Running" "channels (thread_ends Died new_shared) = 0"
    by (simp_all add: thread_ends_def new_shared_def)
  ultimately show ?thesis
    using subscribe_after_end_blocks [of "[Panics]" "thread_ends Died new_shared"] by metis
qed

end
