(* ===== verification/Pools.thy ===== *)
theory Pools
  imports Traces
begin

text \<open>
  The connection pools of \<^verbatim>\<open>honker-core/src/lib.rs\<close>, \<^verbatim>\<open>Writer\<close> and \<^verbatim>\<open>Readers\<close>, as threads that run in any order. What a method does under its
  mutex is one step; the atomic flag \<^verbatim>\<open>closed\<close>, which is read and written outside the mutex, is a step of its own. A thread
  that waits on the condition variable goes on only when it is notified, as the crate \<^verbatim>\<open>parking_lot\<close> documents;
  which waiter \<open>notify_one\<close> picks is open.
\<close>

section \<open>The writer slot\<close>

text \<open>
  Where a thread is: outside; before the mutex in \<open>acquire\<close>; on the condition variable; the owner of the
  connection; past the check of the flag in \<open>try_acquire\<close>, in \<open>release\<close>, and past the store in \<open>close\<close>.
\<close>

datatype wpc = WIdle | WEnter | WWaits | WHolds | WTry | WReturns | WCloses

record writer =
  slot :: bool
  w_closed :: bool
  w_pc :: "nat \<Rightarrow> wpc"

definition writer_new :: writer where
  "writer_new = \<lparr>slot = True, w_closed = False, w_pc = (\<lambda>_. WIdle)\<rparr>"

definition w_goto :: "nat \<Rightarrow> wpc \<Rightarrow> writer \<Rightarrow> writer" where
  "w_goto t p s = s\<lparr>w_pc := (w_pc s)(t := p)\<rparr>"

text \<open>\<open>notify_one\<close> wakes one of the waiting threads if there is one, \<open>notify_all\<close> every one.\<close>

definition w_notify_one :: "nat option \<Rightarrow> writer \<Rightarrow> writer" where
  "w_notify_one w s = (case w of None \<Rightarrow> s | Some u \<Rightarrow> w_goto u WEnter s)"

definition w_may_notify :: "nat option \<Rightarrow> writer \<Rightarrow> bool" where
  "w_may_notify w s \<longleftrightarrow> (case w of None \<Rightarrow> \<not> someone (w_pc s) WWaits | Some u \<Rightarrow> w_pc s u = WWaits)"

definition w_notify_all :: "writer \<Rightarrow> writer" where
  "w_notify_all s = s\<lparr>w_pc := moved WWaits WEnter (w_pc s)\<rparr>"

definition writer_acquire :: "nat \<Rightarrow> writer \<Rightarrow> writer" where
  "writer_acquire t s =
     (if w_closed s then w_goto t WIdle s
      else if slot s then w_goto t WHolds (s\<lparr>slot := False\<rparr>)
      else w_goto t WWaits s)"

definition writer_try_acquire :: "nat \<Rightarrow> writer \<Rightarrow> writer" where
  "writer_try_acquire t s = (if w_closed s then s else w_goto t WTry s)"

definition writer_try_take :: "nat \<Rightarrow> writer \<Rightarrow> writer" where
  "writer_try_take t s = (if slot s then w_goto t WHolds (s\<lparr>slot := False\<rparr>) else w_goto t WIdle s)"

definition writer_release :: "nat \<Rightarrow> writer \<Rightarrow> writer" where
  "writer_release t s = w_goto t (if w_closed s then WIdle else WReturns) s"

definition writer_put_back :: "nat \<Rightarrow> nat option \<Rightarrow> writer \<Rightarrow> writer" where
  "writer_put_back t w s = w_notify_one w (w_goto t WIdle (s\<lparr>slot := True\<rparr>))"

definition writer_close :: "nat \<Rightarrow> writer \<Rightarrow> writer" where
  "writer_close t s = w_goto t WCloses (s\<lparr>w_closed := True\<rparr>)"

definition writer_clear :: "nat \<Rightarrow> writer \<Rightarrow> writer" where
  "writer_clear t s = w_notify_all (w_goto t WIdle (s\<lparr>slot := False\<rparr>))"

datatype writer_event =
  WCall nat | WAcquire nat | WTryCall nat | WTryTake nat | WRelease nat | WPutBack nat "nat option" | WClose nat | WClear nat

inductive writer_step :: "writer \<Rightarrow> writer_event \<Rightarrow> writer \<Rightarrow> bool" where
  w_call: "w_pc s t = WIdle \<Longrightarrow> writer_step s (WCall t) (w_goto t WEnter s)"
| w_acquire: "w_pc s t = WEnter \<Longrightarrow> writer_step s (WAcquire t) (writer_acquire t s)"
| w_try_call: "w_pc s t = WIdle \<Longrightarrow> writer_step s (WTryCall t) (writer_try_acquire t s)"
| w_try_take: "w_pc s t = WTry \<Longrightarrow> writer_step s (WTryTake t) (writer_try_take t s)"
| w_release: "w_pc s t = WHolds \<Longrightarrow> writer_step s (WRelease t) (writer_release t s)"
| w_put_back: "w_pc s t = WReturns \<Longrightarrow> w_may_notify w s \<Longrightarrow> writer_step s (WPutBack t w) (writer_put_back t w s)"
| w_close: "w_pc s t = WIdle \<Longrightarrow> writer_step s (WClose t) (writer_close t s)"
| w_clear: "w_pc s t = WCloses \<Longrightarrow> writer_step s (WClear t) (writer_clear t s)"

section \<open>The reader pool\<close>

text \<open>
  Where a thread is: outside; at the head of the loop of \<open>acquire\<close>; past the check of the flag, before the mutex; opening
  a connection in the place it reserved; about to give that place back; on the condition variable; the
  owner of a connection; past the check in \<open>release\<close>; past the store in \<open>close\<close>; about to notify.
\<close>

datatype rpc = RIdle | RLoop | REnter | ROpens | RGivesUp | RWaits | RHolds | RReturns | RCloses | RNotifies

record readers =
  pool :: nat
  outstanding :: int
  r_max :: int
  r_closed :: bool
  r_pc :: "nat \<Rightarrow> rpc"

definition readers_new :: "int \<Rightarrow> readers" where
  "readers_new n = \<lparr>pool = 0, outstanding = 0, r_max = max n 1, r_closed = False, r_pc = (\<lambda>_. RIdle)\<rparr>"

definition r_goto :: "nat \<Rightarrow> rpc \<Rightarrow> readers \<Rightarrow> readers" where
  "r_goto t p s = s\<lparr>r_pc := (r_pc s)(t := p)\<rparr>"

definition r_notify_one :: "nat option \<Rightarrow> readers \<Rightarrow> readers" where
  "r_notify_one w s = (case w of None \<Rightarrow> s | Some u \<Rightarrow> r_goto u RLoop s)"

definition r_may_notify :: "nat option \<Rightarrow> readers \<Rightarrow> bool" where
  "r_may_notify w s \<longleftrightarrow> (case w of None \<Rightarrow> \<not> someone (r_pc s) RWaits | Some u \<Rightarrow> r_pc s u = RWaits)"

definition r_notify_all :: "readers \<Rightarrow> readers" where
  "r_notify_all s = s\<lparr>r_pc := moved RWaits RLoop (r_pc s)\<rparr>"

definition readers_check :: "nat \<Rightarrow> readers \<Rightarrow> readers" where
  "readers_check t s = r_goto t (if r_closed s then RIdle else REnter) s"

definition readers_take :: "nat \<Rightarrow> readers \<Rightarrow> readers" where
  "readers_take t s =
     (if pool s > 0 then r_goto t RHolds (s\<lparr>pool := pool s - 1\<rparr>)
      else if outstanding s < r_max s then r_goto t ROpens (s\<lparr>outstanding := outstanding s + 1\<rparr>)
      else r_goto t RWaits s)"

text \<open>\<^verbatim>\<open>open_conn\<close> came back, with a connection or an error; the flag is read again before the connection is handed out.\<close>

definition readers_opened :: "nat \<Rightarrow> bool \<Rightarrow> readers \<Rightarrow> readers" where
  "readers_opened t success s = r_goto t (if success \<and> \<not> r_closed s then RHolds else RGivesUp) s"

definition readers_give_up :: "nat \<Rightarrow> readers \<Rightarrow> readers" where
  "readers_give_up t s = r_goto t RIdle (s\<lparr>outstanding := outstanding s - 1\<rparr>)"

definition readers_release :: "nat \<Rightarrow> readers \<Rightarrow> readers" where
  "readers_release t s = r_goto t (if r_closed s then RIdle else RReturns) s"

definition readers_put_back :: "nat \<Rightarrow> nat option \<Rightarrow> readers \<Rightarrow> readers" where
  "readers_put_back t w s = r_notify_one w (r_goto t RIdle (s\<lparr>pool := pool s + 1\<rparr>))"

definition readers_close :: "nat \<Rightarrow> readers \<Rightarrow> readers" where
  "readers_close t s = r_goto t RCloses (s\<lparr>r_closed := True\<rparr>)"

definition readers_clear :: "nat \<Rightarrow> readers \<Rightarrow> readers" where
  "readers_clear t s = r_goto t RNotifies (s\<lparr>pool := 0\<rparr>)"

definition readers_notify :: "nat \<Rightarrow> readers \<Rightarrow> readers" where
  "readers_notify t s = r_notify_all (r_goto t RIdle s)"

datatype readers_event =
  RCall nat | RCheck nat | RTake nat | ROpened nat bool | RGiveUp nat | RRelease nat | RPutBack nat "nat option"
| RClose nat | RClear nat | RNotify nat

inductive readers_step :: "readers \<Rightarrow> readers_event \<Rightarrow> readers \<Rightarrow> bool" where
  r_call: "r_pc s t = RIdle \<Longrightarrow> readers_step s (RCall t) (r_goto t RLoop s)"
| r_check: "r_pc s t = RLoop \<Longrightarrow> readers_step s (RCheck t) (readers_check t s)"
| r_take: "r_pc s t = REnter \<Longrightarrow> readers_step s (RTake t) (readers_take t s)"
| r_opened: "r_pc s t = ROpens \<Longrightarrow> readers_step s (ROpened t success) (readers_opened t success s)"
| r_give_up: "r_pc s t = RGivesUp \<Longrightarrow> readers_step s (RGiveUp t) (readers_give_up t s)"
| r_release: "r_pc s t = RHolds \<Longrightarrow> readers_step s (RRelease t) (readers_release t s)"
| r_put_back: "r_pc s t = RReturns \<Longrightarrow> r_may_notify w s \<Longrightarrow> readers_step s (RPutBack t w) (readers_put_back t w s)"
| r_close: "r_pc s t = RIdle \<Longrightarrow> readers_step s (RClose t) (readers_close t s)"
| r_clear: "r_pc s t = RCloses \<Longrightarrow> readers_step s (RClear t) (readers_clear t s)"
| r_notify: "r_pc s t = RNotifies \<Longrightarrow> readers_step s (RNotify t) (readers_notify t s)"

end
