(* ===== verification/Pools_Thms.thy ===== *)
theory Pools_Thms
  imports Pools
begin

text \<open>
  What the connection pools promise over every interleaving: exclusive use of the writer, no waiter that nobody will wake, the bound on
  open readers; and the interleavings in which a promise of the comments does not hold.
\<close>

section \<open>The writer slot\<close>

lemmas writer_defs = w_goto_def w_notify_one_def w_notify_all_def w_may_notify_def writer_acquire_def writer_try_acquire_def
  writer_try_take_def writer_release_def writer_put_back_def writer_close_def writer_clear_def

inductive_cases writer_stepE: "writer_step s l s'"

inductive_simps writer_step_simps: "writer_step s (WCall t) s'" "writer_step s (WAcquire t) s'" "writer_step s (WTryCall t) s'"
  "writer_step s (WTryTake t) s'" "writer_step s (WRelease t) s'" "writer_step s (WPutBack t w) s'" "writer_step s (WClose t) s'"
  "writer_step s (WClear t) s'"

definition w_has :: "writer \<Rightarrow> nat \<Rightarrow> bool" where
  "w_has s t \<longleftrightarrow> w_pc s t = WHolds \<or> w_pc s t = WReturns"

text \<open>The connection has one place at most.\<close>

definition w_single :: "writer \<Rightarrow> bool" where
  "w_single s \<longleftrightarrow> (\<forall>t u. w_has s t \<longrightarrow> w_has s u \<longrightarrow> t = u) \<and> (slot s \<longrightarrow> (\<forall>t. \<not> w_has s t))"

lemma w_single_step: "writer_step s l s' \<Longrightarrow> w_single s \<Longrightarrow> w_single s'"
  by (erule writer_stepE)
    (auto simp: w_single_def w_has_def writer_defs moved_def split: if_splits option.splits)

interpretation single: kept_by_steps writer_step "\<lambda>_. True" w_single
  by unfold_locales (rule w_single_step)

text \<open>Until a close the connection has a place, and whoever waits will be woken by a thread that is under way.\<close>

definition w_awake :: "writer \<Rightarrow> bool" where
  "w_awake s \<longleftrightarrow> (w_closed s \<or> slot s \<or> someone (w_pc s) WHolds \<or> someone (w_pc s) WReturns) \<and> (someone (w_pc s) WCloses \<longrightarrow> w_closed s)
     \<and> (someone (w_pc s) WWaits \<longrightarrow>
          (if w_closed s then someone (w_pc s) WCloses else slot s \<longrightarrow> someone (w_pc s) WEnter))"

lemma w_awake_step: "writer_step s l s' \<Longrightarrow> w_awake s \<Longrightarrow> w_awake s'"
  by (erule writer_stepE)
    (auto simp: w_awake_def writer_defs split: if_splits option.splits intro: someoneI)

interpretation awake: kept_by_steps writer_step "\<lambda>_. True" w_awake
  by unfold_locales (rule w_awake_step)

lemma any_step: "list_all (\<lambda>_. True) ls"
  by (simp add: list_all_iff)

lemma writer_new_ok: "w_single writer_new" "w_awake writer_new"
  by (simp_all add: w_single_def w_awake_def w_has_def writer_new_def someone_def)

text \<open>
  C8. Over every interleaving of \<open>acquire\<close>, \<open>try_acquire\<close>, \<open>release\<close> and \<open>close\<close>, at most one thread owns the writer connection, and none does
  while it is in the slot.
\<close>

theorem writer_exclusive:
  assumes "run writer_step writer_new ls s" "w_has s t"
  shows "(\<forall>u. w_has s u \<longrightarrow> u = t) \<and> \<not> slot s"
  using single.run_keeps [OF assms(1) any_step writer_new_ok(1)] assms(2) by (auto simp: w_single_def)

text \<open>Thread 0 takes the connection; thread 1 asks for it and waits.\<close>

definition contended :: writer where
  "contended = writer_acquire 1 (w_goto 1 WEnter (writer_acquire 0 (w_goto 0 WEnter writer_new)))"

lemma contended_run: "run writer_step writer_new [WCall 0, WAcquire 0, WCall 1, WAcquire 1] contended"
  unfolding contended_def
  by (simp add: writer_step_simps writer_defs writer_new_def)

theorem writer_exclusive_witness: "w_has contended 0 \<and> \<not> w_has contended 1 \<and> \<not> slot contended"
proof -
  have "w_has contended 0"
    by (simp add: contended_def w_has_def writer_defs writer_new_def)
  then show ?thesis
    using writer_exclusive [OF contended_run, of 0] by force
qed

text \<open>
  C34. No wake-up of the writer slot is lost: whenever a thread waits in \<open>acquire\<close>, another one is under way: it owns the connection or puts
  it back, is about to take the mutex of the slot, or closes the slot. So once all other threads are done, no thread is
  left waiting.
\<close>

theorem writer_waiter_not_stuck:
  assumes "run writer_step writer_new ls s" "w_pc s t = WWaits"
  shows "\<exists>u. w_pc s u \<in> {WHolds, WReturns, WEnter, WCloses}"
  using awake.run_keeps [OF assms(1) any_step writer_new_ok(2)] assms(2)
  by (auto simp: w_awake_def someone_def split: if_splits)

theorem writer_waiter_not_stuck_witness:
  "w_pc contended 1 = WWaits \<and> (\<exists>u. w_pc contended u \<in> {WHolds, WReturns, WEnter, WCloses})"
proof -
  have "w_pc contended 1 = WWaits"
    by (simp add: contended_def writer_defs writer_new_def)
  then show ?thesis
    using writer_waiter_not_stuck [OF contended_run] by blast
qed

text \<open>
  A \<open>release\<close> that has read the flag before a \<open>close\<close> puts the connection back after the slot was cleared: all calls have
  returned, the writer is closed, and its connection is still open in the slot, where no later \<open>acquire\<close>
  or \<open>try_acquire\<close> can get at it.
\<close>

theorem writer_close_leaves_connection:
  "\<exists>ls s. run writer_step writer_new ls s \<and> w_closed s \<and> slot s \<and> (\<forall>t. w_pc s t = WIdle)
     \<and> (\<forall>t. writer_acquire t (w_goto t WEnter s) = s \<and> writer_try_acquire t s = s)"
proof -
  have "run writer_step writer_new [WCall 0, WAcquire 0, WRelease 0, WClose 1, WClear 1, WPutBack 0 None] (writer_new\<lparr>w_closed := True\<rparr>)"
    by (auto simp: writer_step_simps writer_defs writer_new_def moved_def someone_def fun_eq_iff)
  moreover have "writer_acquire t (w_goto t WEnter (writer_new\<lparr>w_closed := True\<rparr>)) = writer_new\<lparr>w_closed := True\<rparr>
      \<and> writer_try_acquire t (writer_new\<lparr>w_closed := True\<rparr>) = writer_new\<lparr>w_closed := True\<rparr>" for t
    by (auto simp: writer_defs writer_new_def)
  moreover have "w_closed (writer_new\<lparr>w_closed := True\<rparr>)" "slot (writer_new\<lparr>w_closed := True\<rparr>)"
    "w_pc (writer_new\<lparr>w_closed := True\<rparr>) t = WIdle" for t
    by (simp_all add: writer_new_def)
  ultimately show ?thesis
    by blast
qed

section \<open>The reader pool\<close>

lemmas readers_defs = r_goto_def r_notify_one_def r_notify_all_def r_may_notify_def readers_check_def readers_take_def
  readers_opened_def readers_give_up_def readers_release_def readers_put_back_def readers_close_def readers_clear_def readers_notify_def

inductive_cases readers_stepE: "readers_step s l s'"

inductive_simps readers_step_simps: "readers_step s (RCall t) s'" "readers_step s (RCheck t) s'" "readers_step s (RTake t) s'"
  "readers_step s (ROpened t b) s'" "readers_step s (RGiveUp t) s'" "readers_step s (RRelease t) s'" "readers_step s (RPutBack t w) s'"
  "readers_step s (RClose t) s'" "readers_step s (RClear t) s'" "readers_step s (RNotify t) s'"

text \<open>The threads that own a connection or a reserved place.\<close>

abbreviation r_busy :: "rpc set" where
  "r_busy \<equiv> {RHolds, RReturns, ROpens, RGivesUp}"

definition r_bounded :: "readers \<Rightarrow> bool" where
  "r_bounded s \<longleftrightarrow> finite (members (r_pc s) r_busy) \<and> int (pool s) + headcount (r_pc s) r_busy \<le> outstanding s \<and> outstanding s \<le> r_max s"

lemma r_bounded_step: "readers_step s l s' \<Longrightarrow> r_bounded s \<Longrightarrow> r_bounded s'"
  by (erule readers_stepE)
    (auto simp: r_bounded_def readers_defs of_nat_diff split: if_splits option.splits)

interpretation bounded: kept_by_steps readers_step "\<lambda>_. True" r_bounded
  by unfold_locales (rule r_bounded_step)

lemma r_max_step: "readers_step s l s' \<Longrightarrow> r_max s = n \<Longrightarrow> r_max s' = n"
  by (erule readers_stepE) (auto simp: readers_defs split: if_splits option.splits)

interpretation same_max: kept_by_steps readers_step "\<lambda>_. True" "\<lambda>s. r_max s = n" for n
  by unfold_locales (rule r_max_step)

lemma readers_new_bounded: "r_bounded (readers_new n)" "r_max (readers_new n) = max n 1"
  by (simp_all add: r_bounded_def headcount_def members_def readers_new_def)

text \<open>
  C17. Over every interleaving, failed opens and a close included, the connections that threads own or are opening and those in the pool are together
  never more than the maximum, and the counter of places is never taken below zero.
\<close>

theorem readers_within_max:
  assumes "run readers_step (readers_new n) ls s"
  shows "int (pool s) + int (card {t. r_pc s t \<in> {RHolds, RReturns, ROpens}}) \<le> max n 1
    \<and> (r_pc s t = RGivesUp \<longrightarrow> 1 \<le> outstanding s) \<and> outstanding s \<le> max n 1"
proof -
  have b: "r_bounded s" and m: "r_max s = max n 1"
    using bounded.run_keeps [OF assms any_step] same_max.run_keeps [OF assms any_step] readers_new_bounded by blast+
  have "{t. r_pc s t \<in> {RHolds, RReturns, ROpens}} \<subseteq> members (r_pc s) r_busy"
    by (auto simp: members_def)
  then have "int (card {t. r_pc s t \<in> {RHolds, RReturns, ROpens}}) \<le> headcount (r_pc s) r_busy"
    using b by (auto simp: r_bounded_def headcount_def intro: card_mono)
  moreover have "headcount (r_pc s) r_busy > 0" if "r_pc s t = RGivesUp"
    using b that by (auto simp: r_bounded_def headcount_def card_gt_0_iff members_def)
  ultimately show ?thesis
    using b m by (auto simp: r_bounded_def)
qed

text \<open>A pool of one: thread 0 opens the connection and thread 1 waits for it.\<close>

definition full_pool :: readers where
  "full_pool = (readers_new 1)\<lparr>outstanding := 1, r_pc := (\<lambda>_. RIdle)(0 := RHolds, 1 := RWaits)\<rparr>"

definition full_pool_run :: "readers_event list" where
  "full_pool_run = [RCall 0, RCheck 0, RTake 0, ROpened 0 True, RCall 1, RCheck 1, RTake 1]"

lemma full_pool_reached: "run readers_step (readers_new 1) full_pool_run full_pool"
  by (simp add: full_pool_run_def full_pool_def readers_step_simps readers_defs readers_new_def)

theorem readers_within_max_witness:
  "int (pool full_pool) + int (card {t. r_pc full_pool t \<in> {RHolds, RReturns, ROpens}}) \<le> 1 \<and> outstanding full_pool = 1"
  using readers_within_max [OF full_pool_reached] by (simp add: full_pool_def)

text \<open>
  The steps of a run in which no open fails and nobody closes the pool; what then holds: every place is a
  connection or being opened, and whoever waits does so because all places are taken.
\<close>

definition r_smooth :: "readers_event \<Rightarrow> bool" where
  "r_smooth l = (case l of ROpened t success \<Rightarrow> success | RClose t \<Rightarrow> False | _ \<Rightarrow> True)"

abbreviation r_coming :: "rpc set" where
  "r_coming \<equiv> {RLoop, REnter}"

definition r_live :: "readers \<Rightarrow> bool" where
  "r_live s \<longleftrightarrow> finite (members (r_pc s) r_busy) \<and> finite (members (r_pc s) r_coming) \<and> \<not> r_closed s \<and> 1 \<le> r_max s
     \<and> \<not> someone (r_pc s) RCloses \<and> \<not> someone (r_pc s) RNotifies \<and> \<not> someone (r_pc s) RGivesUp
     \<and> outstanding s = int (pool s) + headcount (r_pc s) r_busy
     \<and> (someone (r_pc s) RWaits \<longrightarrow> r_max s \<le> outstanding s \<and> int (pool s) \<le> headcount (r_pc s) r_coming)"

lemma r_live_step: "readers_step s l s' \<Longrightarrow> r_smooth l \<Longrightarrow> r_live s \<Longrightarrow> r_live s'"
  by (erule readers_stepE)
    (auto simp: r_live_def r_smooth_def readers_defs of_nat_diff split: if_splits option.splits intro: someoneI headcount_posI)

interpretation live: kept_by_steps readers_step r_smooth r_live
  by unfold_locales (rule r_live_step)

lemma readers_new_live: "r_live (readers_new n)"
  by (simp add: r_live_def headcount_def members_def someone_def readers_new_def)

text \<open>
  As long as no open fails and nobody closes the pool, no wake-up of the reader pool is lost: whenever a thread waits for a reader, another
  one is under way that owns one, opens one, puts one back, or comes for one that is in the pool.
\<close>

theorem reader_waiter_not_stuck:
  assumes "run readers_step (readers_new n) ls s" "list_all r_smooth ls" "r_pc s t = RWaits"
  shows "\<exists>u. r_pc s u \<in> {RHolds, RReturns, ROpens, RLoop, REnter}"
proof -
  have live: "r_live s"
    using live.run_keeps [OF assms(1,2) readers_new_live] .
  then have "0 < headcount (r_pc s) r_busy \<or> 0 < headcount (r_pc s) r_coming"
    using assms(3) by (auto simp: r_live_def someone_def)
  then show ?thesis
    using live headcount_pos [of "r_pc s"] by (fastforce simp: r_live_def someone_def)
qed

theorem reader_waiter_not_stuck_witness:
  "r_pc full_pool 1 = RWaits \<and> (\<exists>u. r_pc full_pool u \<in> {RHolds, RReturns, ROpens, RLoop, REnter})"
proof -
  have "r_pc full_pool 1 = RWaits" "list_all r_smooth full_pool_run"
    by (simp_all add: full_pool_def full_pool_run_def r_smooth_def)
  then show ?thesis
    using reader_waiter_not_stuck [OF full_pool_reached] by blast
qed

text \<open>
  An open that fails gives its place back without waking anyone: a thread that waits for the place stays on the
  condition variable although the pool is open, nobody else is under way and a place is free.
\<close>

theorem failed_open_strands_waiter:
  "\<exists>ls s. run readers_step (readers_new 1) ls s \<and> r_pc s 1 = RWaits \<and> (\<forall>u. u \<noteq> 1 \<longrightarrow> r_pc s u = RIdle)
     \<and> \<not> r_closed s \<and> outstanding s < r_max s"
proof -
  let ?s = "(readers_new 1)\<lparr>r_pc := (\<lambda>_. RIdle)(1 := RWaits)\<rparr>"
  have "run readers_step (readers_new 1) [RCall 0, RCheck 0, RTake 0, RCall 1, RCheck 1, RTake 1, ROpened 0 False, RGiveUp 0] ?s"
    by (auto simp: readers_step_simps readers_defs readers_new_def fun_eq_iff)
  moreover have "r_pc ?s 1 = RWaits" "\<forall>u. u \<noteq> 1 \<longrightarrow> r_pc ?s u = RIdle" "\<not> r_closed ?s" "outstanding ?s < r_max ?s"
    by (simp_all add: readers_new_def)
  ultimately show ?thesis
    by blast
qed

text \<open>
  The flag is read before the mutex, so a \<open>close\<close> can run in between: the thread then waits on the condition variable
  of a pool that is closed and empty, and the \<open>release\<close> of the other connection, which finds the flag set, does not wake it. Every
  later release returns the same way.
\<close>

theorem close_strands_waiter:
  "\<exists>ls s. run readers_step (readers_new 1) ls s \<and> r_closed s \<and> r_pc s 1 = RWaits \<and> (\<forall>u. u \<noteq> 1 \<longrightarrow> r_pc s u = RIdle)
     \<and> (\<forall>u. readers_release u s = r_goto u RIdle s)"
proof -
  let ?s = "(readers_new 1)\<lparr>outstanding := 1, r_closed := True, r_pc := (\<lambda>_. RIdle)(1 := RWaits)\<rparr>"
  have "run readers_step (readers_new 1) [RCall 0, RCheck 0, RTake 0, ROpened 0 True, RCall 1, RCheck 1, RClose 2, RClear 2, RNotify 2,
      RTake 1, RRelease 0] ?s"
    by (auto simp: readers_step_simps readers_defs readers_new_def moved_def fun_eq_iff)
  moreover have "r_closed ?s" "r_pc ?s 1 = RWaits" "\<forall>u. u \<noteq> 1 \<longrightarrow> r_pc ?s u = RIdle" "\<forall>u. readers_release u ?s = r_goto u RIdle ?s"
    by (simp_all add: readers_new_def readers_release_def)
  ultimately show ?thesis
    by blast
qed

end
