(* ===== verification/Bootstrap.thy ===== *)
theory Bootstrap
  imports Schema Text
begin

text \<open>
  \<^verbatim>\<open>bootstrap_honker_schema\<close> of \<^verbatim>\<open>honker-core/src/lib.rs\<close>: the tables and indexes, the columns that older files lack, and the
  migration of the jobs of an older file. Here a database is what \<^verbatim>\<open>sqlite_master\<close> says of it, with the rows beside it. Another process
  may commit between two statements of its own transactions: what it does there is the argument \<open>rival\<close>.
\<close>

section \<open>The file\<close>

record dbfile =
  f_tables :: "string list"
  f_columns :: "string \<Rightarrow> string list"
  f_data :: honker_db

type_synonym 'a faction = "(dbfile, 'a) action"

text \<open>A column that the rows did not have takes its default, by \<open>fill\<close>.\<close>

datatype ddl =
    CreateTable string "string list"
  | CreateIndex string string "string list"

definition empty_table :: "string \<Rightarrow> honker_db \<Rightarrow> honker_db" where
  "empty_table t d =
     (if t = ''_honker_live'' then d\<lparr>live := [], live_seq := 0\<rparr>
      else if t = ''_honker_dead'' then d\<lparr>dead := []\<rparr>
      else if t = ''_honker_locks'' then d\<lparr>locks := []\<rparr>
      else if t = ''_honker_rate_limits'' then d\<lparr>rates := []\<rparr>
      else if t = ''_honker_scheduler_tasks'' then d\<lparr>tasks := []\<rparr>
      else if t = ''_honker_results'' then d\<lparr>results := []\<rparr>
      else if t = ''_honker_stream'' then d\<lparr>stream := [], stream_seq := 0\<rparr>
      else if t = ''_honker_stream_consumers'' then d\<lparr>consumers := []\<rparr>
      else d)"

definition sql_error :: "string \<Rightarrow> sqlerr" where
  "sql_error msg = SqliteFailure (OtherCode 1) msg"

text \<open>\<open>CREATE .. IF NOT EXISTS\<close>; an index needs its table and columns.\<close>

definition run_ddl :: "ddl \<Rightarrow> dbfile \<Rightarrow> sqlerr + unit \<times> dbfile" where
  "run_ddl s f = (case s of
       CreateTable t cols \<Rightarrow>
         if t \<in> set (f_tables f) then Inr ((), f)
         else Inr ((), f\<lparr>f_tables := f_tables f @ [t], f_columns := (f_columns f)(t := cols), f_data := empty_table t (f_data f)\<rparr>)
     | CreateIndex i t cols \<Rightarrow>
         if i \<in> set (indexes (f_data f)) then Inr ((), f)
         else if t \<notin> set (f_tables f) then Inl (sql_error (''no such table: main.'' @ t))
         else if \<not> list_all (\<lambda>c. c \<in> set (f_columns f t)) cols then Inl (sql_error ''no such column'')
         else Inr ((), f\<lparr>f_data := (f_data f)\<lparr>indexes := indexes (f_data f) @ [i]\<rparr>\<rparr>))"

definition BOOTSTRAP_HONKER_SQL :: "ddl list" where
  "BOOTSTRAP_HONKER_SQL = [
     CreateTable ''_honker_live'' [''id'', ''queue'', ''payload'', ''state'', ''priority'', ''run_at'', ''worker_id'',
       ''claim_expires_at'', ''attempts'', ''max_attempts'', ''created_at'', ''expires_at'', ''claimed_at''],
     CreateIndex ''_honker_live_ready'' ''_honker_live'' [''queue'', ''priority'', ''run_at'', ''id'', ''state''],
     CreateIndex ''_honker_live_scheduled'' ''_honker_live'' [''queue'', ''run_at'', ''state''],
     CreateIndex ''_honker_live_expiry'' ''_honker_live'' [''queue'', ''expires_at''],
     CreateIndex ''_honker_live_processing_deadline'' ''_honker_live'' [''queue'', ''claim_expires_at'', ''state''],
     CreateTable ''_honker_dead'' [''id'', ''queue'', ''payload'', ''priority'', ''run_at'', ''attempts'', ''max_attempts'',
       ''last_error'', ''created_at'', ''died_at''],
     CreateTable ''_honker_locks'' [''name'', ''owner'', ''expires_at''],
     CreateTable ''_honker_rate_limits'' [''name'', ''window_start'', ''count''],
     CreateTable ''_honker_scheduler_tasks'' [''name'', ''queue'', ''cron_expr'', ''payload'', ''priority'', ''expires_s'',
       ''next_fire_at'', ''enabled'', ''max_attempts''],
     CreateTable ''_honker_results'' [''job_id'', ''value'', ''created_at'', ''expires_at''],
     CreateTable ''_honker_stream'' [''offset'', ''topic'', ''key'', ''payload'', ''created_at''],
     CreateIndex ''_honker_stream_topic'' ''_honker_stream'' [''topic'', ''offset''],
     CreateTable ''_honker_stream_consumers'' [''name'', ''topic'', ''offset'']]"

section \<open>Bootstrap\<close>

text \<open>The moment before a statement of our own: outside a transaction the next statement sees what others committed.\<close>

definition gap :: "(nat \<Rightarrow> dbfile \<Rightarrow> dbfile) \<Rightarrow> nat \<Rightarrow> unit faction" where
  "gap rival n c = (Ok (), if is_autocommit c then c\<lparr>db := rival n (db c), disk := rival n (db c)\<rparr> else c)"

fun execute_ddl :: "(nat \<Rightarrow> dbfile \<Rightarrow> dbfile) \<Rightarrow> nat \<Rightarrow> ddl list \<Rightarrow> unit faction" where
  "execute_ddl rival n [] = sret ()"
| "execute_ddl rival n (s # ss) =
     sbind (gap rival n) (\<lambda>_. sbind (exec (\<lambda>_. run_ddl s)) (\<lambda>_. execute_ddl rival (Suc n) ss))"

text \<open>\<open>stmt.query_row(..).unwrap_or(false)\<close>: an error of the query reads as a column that is not there.\<close>

definition unwrap_or_false :: "bool faction \<Rightarrow> bool faction" where
  "unwrap_or_false m c = (case m c of (Err _, c') \<Rightarrow> (Ok False, c') | rc \<Rightarrow> rc)"

definition has_column :: "string \<Rightarrow> string \<Rightarrow> bool faction" where
  "has_column t col = sbind (decode ()) (\<lambda>_. unwrap_or_false (query (\<lambda>_ f. Inr (t \<in> set (f_tables f) \<and> col \<in> set (f_columns f t)))))"

definition alter_add :: "string \<Rightarrow> string \<Rightarrow> (honker_db \<Rightarrow> honker_db) \<Rightarrow> dbfile \<Rightarrow> sqlerr + unit \<times> dbfile" where
  "alter_add t col fill f =
     (if t \<notin> set (f_tables f) then Inl (sql_error (''no such table: '' @ t))
      else if col \<in> set (f_columns f t) then Inl (sql_error (''duplicate column name: '' @ col))
      else Inr ((), f\<lparr>f_columns := (f_columns f)(t := f_columns f t @ [col]), f_data := fill (f_data f)\<rparr>))"

definition is_duplicate_column :: "sqlerr \<Rightarrow> bool" where
  "is_duplicate_column e = (case e of
       SqliteFailure _ message \<Rightarrow> contains (to_lowercase message) ''duplicate column''
     | _ \<Rightarrow> False)"

definition swallow_duplicate :: "unit faction \<Rightarrow> unit faction" where
  "swallow_duplicate m c = (case m c of
       (Err e, c') \<Rightarrow> if is_duplicate_column e then (Ok (), c') else (Err e, c')
     | rc \<Rightarrow> rc)"

definition migrate_column ::
  "(nat \<Rightarrow> dbfile \<Rightarrow> dbfile) \<Rightarrow> nat \<Rightarrow> string \<Rightarrow> string \<Rightarrow> (honker_db \<Rightarrow> honker_db) \<Rightarrow> unit faction" where
  "migrate_column rival n t col fill =
     sbind (gap rival n) (\<lambda>_. sbind (has_column t col) (\<lambda>has.
       if has then sret ()
       else sbind (gap rival (Suc n)) (\<lambda>_. swallow_duplicate (exec (\<lambda>_. alter_add t col fill)))))"

section \<open>The jobs of an older file\<close>

definition LEGACY_CLAIM_INDEX :: string where
  "LEGACY_CLAIM_INDEX = ''_honker_live_claim''"

definition index_exists :: "string \<Rightarrow> bool faction" where
  "index_exists i = query (\<lambda>_ f. Inr (i \<in> set (indexes (f_data f))))"

definition on_data :: "(honker_db \<Rightarrow> sqlerr + 'a \<times> honker_db) \<Rightarrow> dbfile \<Rightarrow> sqlerr + 'a \<times> dbfile" where
  "on_data s f = (case s (f_data f) of Inl e \<Rightarrow> Inl e | Inr (a, d) \<Rightarrow> Inr (a, f\<lparr>f_data := d\<rparr>))"

text \<open>The five statements of the batch.\<close>

definition mark_scheduled :: "int \<Rightarrow> honker_db \<Rightarrow> sqlerr + unit \<times> honker_db" where
  "mark_scheduled now d = Inr ((), d\<lparr>live := upd_where (\<lambda>j. j_state j = Pending \<and> j_run_at j > now) (\<lambda>j. j\<lparr>j_state := Scheduled\<rparr>) (live d)\<rparr>)"

definition spent_row :: "job \<Rightarrow> bool" where
  "spent_row j \<longleftrightarrow> (j_state j = Pending \<or> j_state j = Scheduled) \<and> j_attempts j \<ge> j_max_attempts j"

definition copy_spent :: "int \<Rightarrow> honker_db \<Rightarrow> sqlerr + unit \<times> honker_db" where
  "copy_spent now d = (case insert_dead_rows (map (dead_of ''max attempts exceeded'' now) (filter spent_row (live d))) d of
       Inl e \<Rightarrow> Inl e | Inr (_, d') \<Rightarrow> Inr ((), d'))"

definition delete_spent :: "honker_db \<Rightarrow> sqlerr + unit \<times> honker_db" where
  "delete_spent d = Inr ((), d\<lparr>live := del_where spent_row (live d)\<rparr>)"

definition drop_index :: "bool \<Rightarrow> string \<Rightarrow> honker_db \<Rightarrow> sqlerr + unit \<times> honker_db" where
  "drop_index if_exists i d =
     (if i \<in> set (indexes d) \<or> if_exists then Inr ((), d\<lparr>indexes := removeAll i (indexes d)\<rparr>)
      else Inl (sql_error (''no such index: '' @ i)))"

definition migrate_batch :: "unit faction" where
  "migrate_batch =
     sbind (exec (\<lambda>t. on_data (mark_scheduled t))) (\<lambda>_.
     sbind (exec (\<lambda>t. on_data (copy_spent t))) (\<lambda>_.
     sbind (exec (\<lambda>_. on_data delete_spent)) (\<lambda>_.
     sbind (exec (\<lambda>_. on_data (drop_index False LEGACY_CLAIM_INDEX))) (\<lambda>_.
       exec (\<lambda>_. on_data (drop_index True ''_honker_live_pending_deadline''))))))"

definition migrate_body :: "unit faction" where
  "migrate_body =
     sbind (exec (\<lambda>_ f. Inr ((), f))) (\<lambda>_.
     sbind (index_exists LEGACY_CLAIM_INDEX) (\<lambda>there. if \<not> there then sret () else migrate_batch))"

text \<open>
  \<open>SAVEPOINT\<close> reads nothing, so what others commit before the first statement of the body is seen by it: the gap is
  put before the savepoint.
\<close>

definition migrate_claim_v2 :: "(nat \<Rightarrow> dbfile \<Rightarrow> dbfile) \<Rightarrow> nat \<Rightarrow> unit faction" where
  "migrate_claim_v2 rival n =
     sbind (gap rival n) (\<lambda>_. sbind (index_exists LEGACY_CLAIM_INDEX) (\<lambda>there.
       if \<not> there then sret ()
       else sbind (gap rival (Suc n)) (\<lambda>_. in_savepoint ''honker_bootstrap'' migrate_body)))"

definition bootstrap_columns :: "(nat \<Rightarrow> dbfile \<Rightarrow> dbfile) \<Rightarrow> unit faction" where
  "bootstrap_columns rival =
     sbind (migrate_column rival 20 ''_honker_scheduler_tasks'' ''enabled''
       (\<lambda>d. d\<lparr>tasks := map (\<lambda>r. r\<lparr>t_enabled := 1\<rparr>) (tasks d)\<rparr>)) (\<lambda>_.
     sbind (migrate_column rival 22 ''_honker_scheduler_tasks'' ''max_attempts''
       (\<lambda>d. d\<lparr>tasks := map (\<lambda>r. r\<lparr>t_max_attempts := 3\<rparr>) (tasks d)\<rparr>)) (\<lambda>_.
       migrate_column rival 24 ''_honker_live'' ''claimed_at''
         (\<lambda>d. d\<lparr>live := map (\<lambda>j. j\<lparr>j_claimed_at := None\<rparr>) (live d)\<rparr>)))"

definition bootstrap_honker_schema :: "(nat \<Rightarrow> dbfile \<Rightarrow> dbfile) \<Rightarrow> unit faction" where
  "bootstrap_honker_schema rival =
     sbind (execute_ddl rival 0 BOOTSTRAP_HONKER_SQL) (\<lambda>_.
     sbind (bootstrap_columns rival) (\<lambda>_. migrate_claim_v2 rival 26))"

end
