(* ===== verification/Bootstrap_Thms.thy ===== *)
theory Bootstrap_Thms
  imports Bootstrap
begin

text \<open>
  What a bootstrap leaves: a complete schema, also when another process bootstraps the same file at the same time; a file it has
  nothing to do for is not touched; and the migration of an older file loses no job.
\<close>

section \<open>Facts about a file\<close>

datatype fact = HasTable string | HasColumn string string | HasIndex string | NoLegacy

fun holds :: "fact \<Rightarrow> dbfile \<Rightarrow> bool" where
  "holds (HasTable t) f \<longleftrightarrow> t \<in> set (f_tables f)"
| "holds (HasColumn t c) f \<longleftrightarrow> t \<in> set (f_tables f) \<and> c \<in> set (f_columns f t)"
| "holds (HasIndex i) f \<longleftrightarrow> i \<in> set (indexes (f_data f))"
| "holds NoLegacy f \<longleftrightarrow> LEGACY_CLAIM_INDEX \<notin> set (indexes (f_data f))"

fun ddl_fact :: "ddl \<Rightarrow> fact" where
  "ddl_fact (CreateTable t cols) = HasTable t"
| "ddl_fact (CreateIndex i t cols) = HasIndex i"

text \<open>The schema the operations of the library rely on.\<close>

definition schema_facts :: "fact list" where
  "schema_facts = map ddl_fact BOOTSTRAP_HONKER_SQL @
     [HasColumn ''_honker_scheduler_tasks'' ''enabled'', HasColumn ''_honker_scheduler_tasks'' ''max_attempts'',
      HasColumn ''_honker_live'' ''claimed_at'', NoLegacy]"

definition complete :: "dbfile \<Rightarrow> bool" where
  "complete f \<longleftrightarrow> list_all (\<lambda>x. holds x f) schema_facts"

text \<open>What others may do to the file: anything that takes no part of the schema away.\<close>

definition grows :: "dbfile \<Rightarrow> dbfile \<Rightarrow> bool" where
  "grows f f' \<longleftrightarrow> list_all (\<lambda>x. holds x f \<longrightarrow> holds x f') schema_facts"

definition has :: "fact set \<Rightarrow> dbfile \<Rightarrow> bool" where
  "has A f \<longleftrightarrow> (\<forall>x \<in> A \<inter> set schema_facts. holds x f)"

lemma grows_refl [simp]: "grows f f"
  by (simp add: grows_def list_all_iff)

lemma grows_trans: "grows f g \<Longrightarrow> grows g h \<Longrightarrow> grows f h"
  by (auto simp: grows_def list_all_iff)

lemma grows_has: "grows f g \<Longrightarrow> has A f \<Longrightarrow> has A g"
  by (auto simp: grows_def has_def list_all_iff)

lemma has_Un [simp]: "has (A \<union> B) f \<longleftrightarrow> has A f \<and> has B f"
  by (auto simp: has_def)

lemma has_empty [simp]: "has {} f"
  by (simp add: has_def)

section \<open>Statements outside a transaction\<close>

text \<open>
  A connection that is not in a transaction. Its statements may fail, but SQLite reports a duplicate column only
  where there is one.
\<close>

definition honest :: "env_step list \<Rightarrow> bool" where
  "honest sc \<longleftrightarrow> list_all (\<lambda>e. case fault e of
       Some (FaultErr x) \<Rightarrow> \<not> is_duplicate_column x
     | Some (FaultRollback x) \<Rightarrow> \<not> is_duplicate_column x
     | _ \<Rightarrow> True) sc"

definition bootable :: "dbfile conn \<Rightarrow> bool" where
  "bootable c \<longleftrightarrow> tx c = NoTx \<and> frames c = [] \<and> disk c = db c \<and> honest (script c)"

lemma exec_bootable:
  assumes "bootable c" "exec stmt c = (r, c')"
  shows "bootable c' \<and> (case r of
      Ok v \<Rightarrow> \<exists>t. stmt t (db c) = Inr (v, db c')
    | Err e \<Rightarrow> db c' = db c \<and> (is_duplicate_column e \<longrightarrow> (\<exists>t. stmt t (db c) = Inl e))
    | Panicked \<Rightarrow> db c' = db c)"
proof (cases "script c")
  case Nil
  then show ?thesis
    using assms by (auto simp: bootable_def split: sum.splits)
next
  case (Cons e es)
  then have h: "honest es" "case fault e of Some (FaultErr x) \<Rightarrow> \<not> is_duplicate_column x
      | Some (FaultRollback x) \<Rightarrow> \<not> is_duplicate_column x | _ \<Rightarrow> True"
    using assms(1) by (simp_all add: bootable_def honest_def)
  show ?thesis
  proof (cases "fault e")
    case None
    then show ?thesis
      using assms h Cons by (auto simp: exec_def bootable_def split: sum.splits)
  next
    case (Some ft)
    then show ?thesis
      using assms h Cons by (cases ft) (auto simp: exec_def bootable_def abort_tx_def)
  qed
qed

text \<open>What a part of the bootstrap achieves when it returns, from the facts \<open>A\<close>.\<close>

definition secures :: "fact set \<Rightarrow> 'a faction \<Rightarrow> ('a \<Rightarrow> fact set) \<Rightarrow> bool" where
  "secures A m G \<longleftrightarrow> (\<forall>c v c'. bootable c \<longrightarrow> has A (db c) \<longrightarrow> m c = (Ok v, c') \<longrightarrow>
     bootable c' \<and> grows (db c) (db c') \<and> has (G v) (db c'))"

lemma secures_bind:
  assumes "secures A m F" "\<And>v. secures (A \<union> F v) (k v) G"
  shows "secures A (sbind m k) G"
  unfolding secures_def
proof (intro allI impI)
  fix c w c'
  assume c: "bootable c" "has A (db c)" "sbind m k c = (Ok w, c')"
  then obtain v c1 where m: "m c = (Ok v, c1)" and k: "k v c1 = (Ok w, c')"
    by (elim sbind_Ok)
  have c1: "bootable c1" "grows (db c) (db c1)" "has (A \<union> F v) (db c1)"
    using assms(1) c m by (auto simp: secures_def intro: grows_has)
  then have "bootable c'" "grows (db c1) (db c')" "has (G w) (db c')"
    using assms(2) [of v] k by (auto simp: secures_def)
  then show "bootable c' \<and> grows (db c) (db c') \<and> has (G w) (db c')"
    using c1 by (auto intro: grows_trans)
qed

lemma has_mono: "has A f \<Longrightarrow> B \<subseteq> A \<Longrightarrow> has B f"
  by (auto simp: has_def)

lemma secures_weaken:
  assumes "secures A m F" "\<And>v. G v \<subseteq> A \<union> F v"
  shows "secures A m G"
  unfolding secures_def
proof (intro allI impI)
  fix c v c'
  assume c: "bootable c" "has A (db c)" "m c = (Ok v, c')"
  with assms(1) have r: "bootable c'" "grows (db c) (db c')" "has (F v) (db c')"
    by (auto simp: secures_def)
  with c(2) have "has (A \<union> F v) (db c')"
    by (auto intro: grows_has)
  with r show "bootable c' \<and> grows (db c) (db c') \<and> has (G v) (db c')"
    using has_mono assms(2) [of v] by blast
qed

lemma secures_sret: "secures A (sret v) (\<lambda>_. A)"
  by (simp add: secures_def)

lemma secures_gap:
  assumes "\<And>n f. grows f (rival n f)" "secures A k G"
  shows "secures A (sbind (gap rival n) (\<lambda>_. k)) G"
proof (rule secures_bind)
  show "secures A (gap rival n) (\<lambda>_. {})"
    using assms(1) by (auto simp: secures_def gap_def bootable_def is_autocommit_def)
  show "secures (A \<union> {}) k G"
    using assms(2) by simp
qed

lemma secures_exec:
  assumes "\<And>t f v f'. stmt t f = Inr (v, f') \<Longrightarrow> has A f \<Longrightarrow> grows f f' \<and> has (G v) f'"
  shows "secures A (exec stmt) G"
  unfolding secures_def
proof (intro allI impI)
  fix c v c'
  assume c: "bootable c" "has A (db c)" "exec stmt c = (Ok v, c')"
  then obtain t where "stmt t (db c) = Inr (v, db c')" "bootable c'"
    using exec_bootable [OF c(1,3)] by auto
  with assms c(2) show "bootable c' \<and> grows (db c) (db c') \<and> has (G v) (db c')"
    by blast
qed

section \<open>The parts of the bootstrap\<close>

lemma indexes_empty_table [simp]: "indexes (empty_table t d) = indexes d"
  by (simp add: empty_table_def)

lemma run_ddl_facts:
  assumes "run_ddl s f = Inr ((), f')" "s \<in> set BOOTSTRAP_HONKER_SQL"
  shows "holds (ddl_fact s) f' \<and> (holds x f \<longrightarrow> holds x f')"
proof (cases s)
  case (CreateTable t cols)
  with assms(1) show ?thesis
    by (cases x) (auto simp: run_ddl_def split: if_splits)
next
  case (CreateIndex i t cols)
  then have "i \<noteq> LEGACY_CLAIM_INDEX"
    using assms(2) by (auto simp: BOOTSTRAP_HONKER_SQL_def LEGACY_CLAIM_INDEX_def)
  with assms(1) CreateIndex show ?thesis
    by (cases x) (auto simp: run_ddl_def split: if_splits)
qed

lemma secures_ddl:
  assumes "\<And>n f. grows f (rival n f)" "set ss \<subseteq> set BOOTSTRAP_HONKER_SQL"
  shows "secures A (execute_ddl rival n ss) (\<lambda>_. A \<union> ddl_fact ` set ss)"
  using assms(2)
proof (induction ss arbitrary: A n)
  case Nil
  then show ?case
    using secures_sret [of A "()"] by (simp del: sret_apply)
next
  case (Cons s ss)
  have "secures A (exec (\<lambda>_. run_ddl s)) (\<lambda>_. {ddl_fact s})"
    using Cons.prems by (intro secures_exec) (auto simp: grows_def list_all_iff has_def dest: run_ddl_facts)
  moreover have "secures (A \<union> {ddl_fact s}) (execute_ddl rival (Suc n) ss) (\<lambda>_. (A \<union> {ddl_fact s}) \<union> ddl_fact ` set ss)"
    by (rule Cons.IH) (use Cons.prems in auto)
  ultimately have "secures A (execute_ddl rival n (s # ss)) (\<lambda>_. (A \<union> {ddl_fact s}) \<union> ddl_fact ` set ss)"
    unfolding execute_ddl.simps by (intro secures_gap assms(1) secures_bind)
  then show ?case
    by (rule secures_weaken) auto
qed

lemma secures_has_column:
  "secures A (has_column t col) (\<lambda>b. if b then {HasColumn t col} else {})"
  unfolding secures_def
proof (intro allI impI)
  fix c b c'
  assume c: "bootable c" "has A (db c)" "has_column t col c = (Ok b, c')"
  then obtain u c1 where d: "decode () c = (Ok u, c1)"
    and q: "unwrap_or_false (query (\<lambda>_ f. Inr (t \<in> set (f_tables f) \<and> col \<in> set (f_columns f t)))) c1 = (Ok b, c')"
    unfolding has_column_def by (elim sbind_Ok)
  have c1: "bootable c1" "db c1 = db c"
    using exec_bootable [OF c(1) d [unfolded decode_def]] by auto
  obtain r where "query (\<lambda>_ f. Inr (t \<in> set (f_tables f) \<and> col \<in> set (f_columns f t))) c1 = (r, c')"
    and b: "r = Ok b \<or> (\<exists>e. r = Err e \<and> \<not> b)"
    using q by (auto simp: unwrap_or_false_def split: prod.splits res.splits)
  with exec_bootable [OF c1(1)] have "bootable c'" "db c' = db c1 \<and> (b \<longrightarrow> holds (HasColumn t col) (db c1))"
    unfolding query_def by (fastforce split: res.splits)+
  with c1 show "bootable c' \<and> grows (db c) (db c') \<and> has (if b then {HasColumn t col} else {}) (db c')"
    by (auto simp: has_def)
qed

lemma alter_add_facts:
  assumes "alter_add t col fill f = Inr (u, f')" "\<And>d. indexes (fill d) = indexes d"
  shows "holds (HasColumn t col) f' \<and> (holds x f \<longrightarrow> holds x f')"
  using assms by (cases x) (auto simp: alter_add_def split: if_splits)

lemma alter_add_duplicate:
  assumes "alter_add t col fill f = Inl e" "is_duplicate_column e" "t \<in> set (f_tables f)"
  shows "holds (HasColumn t col) f"
  using assms by (auto simp: alter_add_def split: if_splits)

lemma secures_alter:
  assumes "\<And>d. indexes (fill d) = indexes d" "HasTable t \<in> set schema_facts"
  shows "secures (A \<union> {HasTable t}) (swallow_duplicate (exec (\<lambda>_. alter_add t col fill))) (\<lambda>_. {HasColumn t col})"
  unfolding secures_def
proof (intro allI impI)
  fix c u c'
  assume c: "bootable c" "has (A \<union> {HasTable t}) (db c)" "swallow_duplicate (exec (\<lambda>_. alter_add t col fill)) c = (Ok u, c')"
  then obtain r where r: "exec (\<lambda>_. alter_add t col fill) c = (r, c')" "r = Ok () \<or> (\<exists>e. r = Err e \<and> is_duplicate_column e)"
    by (auto simp: swallow_duplicate_def split: prod.splits res.splits if_splits)
  have t: "t \<in> set (f_tables (db c))"
    using c(2) assms(2) by (auto simp: has_def)
  from r(2) have "bootable c' \<and> holds (HasColumn t col) (db c') \<and> grows (db c) (db c')"
  proof
    assume "r = Ok ()"
    then obtain u where "alter_add t col fill (db c) = Inr (u, db c')" "bootable c'"
      using exec_bootable [OF c(1) r(1)] by auto
    with alter_add_facts [OF this(1) assms(1)] show ?thesis
      by (auto simp: grows_def list_all_iff)
  next
    assume "\<exists>e. r = Err e \<and> is_duplicate_column e"
    then obtain e where "alter_add t col fill (db c) = Inl e" "is_duplicate_column e" "bootable c'" "db c' = db c"
      using exec_bootable [OF c(1) r(1)] by auto
    with alter_add_duplicate [OF _ _ t] show ?thesis
      by (metis grows_refl)
  qed
  then show "bootable c' \<and> grows (db c) (db c') \<and> has {HasColumn t col} (db c')"
    by (simp add: has_def)
qed

lemma secures_migrate_column:
  assumes "\<And>n f. grows f (rival n f)" "\<And>d. indexes (fill d) = indexes d" "HasTable t \<in> set schema_facts"
  shows "secures (A \<union> {HasTable t}) (migrate_column rival n t col fill) (\<lambda>_. {HasColumn t col})"
proof -
  let ?A = "A \<union> {HasTable t}" and ?C = "{HasColumn t col}"
  have "secures (?A \<union> (if b then ?C else {}))
      (if b then sret () else sbind (gap rival (Suc n)) (\<lambda>_. swallow_duplicate (exec (\<lambda>_. alter_add t col fill)))) (\<lambda>_. ?C)" for b
  proof (cases b)
    case True
    then show ?thesis
      using secures_weaken [OF secures_sret [of "?A \<union> ?C" "()"], of "\<lambda>_. ?C"] by (auto simp del: sret_apply)
  next
    case False
    then show ?thesis
      using secures_gap [OF assms(1) secures_alter [OF assms(2,3)]] by simp
  qed
  then show ?thesis
    unfolding migrate_column_def by (intro secures_gap assms(1)) (rule secures_bind [OF secures_has_column])
qed

text \<open>The three columns.\<close>

lemma secures_columns:
  assumes "\<And>n f. grows f (rival n f)"
  shows "secures (set (map ddl_fact BOOTSTRAP_HONKER_SQL)) (bootstrap_columns rival) (\<lambda>_. set schema_facts - {NoLegacy})"
proof -
  let ?T = "set (map ddl_fact BOOTSTRAP_HONKER_SQL)" and ?tasks = "''_honker_scheduler_tasks''"
  have t: "HasTable ?tasks \<in> ?T" "HasTable ''_honker_live'' \<in> ?T"
    by (simp_all add: BOOTSTRAP_HONKER_SQL_def)
  have in_T: "secures A m G \<Longrightarrow> A = B \<Longrightarrow> secures B m G" for A B :: "fact set" and m :: "unit faction" and G
    by simp
  have "secures ?T (bootstrap_columns rival) (\<lambda>_. {HasColumn ''_honker_live'' ''claimed_at''} \<union>
      (?T \<union> {HasColumn ?tasks ''enabled''} \<union> {HasColumn ?tasks ''max_attempts''}))"
    unfolding bootstrap_columns_def
  proof (intro secures_bind)
    show "secures ?T (migrate_column rival 20 ?tasks ''enabled'' (\<lambda>d. d\<lparr>tasks := map (\<lambda>r. r\<lparr>t_enabled := 1\<rparr>) (tasks d)\<rparr>))
        (\<lambda>_. {HasColumn ?tasks ''enabled''})"
      by (rule in_T [OF secures_migrate_column [OF assms, of _ _ ?T]]) (use t in \<open>auto simp: schema_facts_def\<close>)
    show "secures (?T \<union> {HasColumn ?tasks ''enabled''})
        (migrate_column rival 22 ?tasks ''max_attempts'' (\<lambda>d. d\<lparr>tasks := map (\<lambda>r. r\<lparr>t_max_attempts := 3\<rparr>) (tasks d)\<rparr>))
        (\<lambda>_. {HasColumn ?tasks ''max_attempts''})" for v
      by (rule in_T [OF secures_migrate_column [OF assms, of _ _ "?T \<union> {HasColumn ?tasks ''enabled''}"]])
        (use t in \<open>auto simp: schema_facts_def\<close>)
    show "secures (?T \<union> {HasColumn ?tasks ''enabled''} \<union> {HasColumn ?tasks ''max_attempts''})
        (migrate_column rival 24 ''_honker_live'' ''claimed_at'' (\<lambda>d. d\<lparr>live := map (\<lambda>j. j\<lparr>j_claimed_at := None\<rparr>) (live d)\<rparr>))
        (\<lambda>_. {HasColumn ''_honker_live'' ''claimed_at''} \<union> (?T \<union> {HasColumn ?tasks ''enabled''} \<union> {HasColumn ?tasks ''max_attempts''}))" for v w
      by (rule secures_weaken, rule in_T [OF secures_migrate_column [OF assms, of _ _ "?T \<union> {HasColumn ?tasks ''enabled''} \<union> {HasColumn ?tasks ''max_attempts''}"]])
        (use t in \<open>auto simp: schema_facts_def\<close>)
  qed
  then show ?thesis
    by (rule secures_weaken) (auto simp: schema_facts_def)
qed

section \<open>The migration\<close>

text \<open>The batch as one function of the two times it reads.\<close>

definition migrated :: "int \<Rightarrow> int \<Rightarrow> honker_db \<Rightarrow> honker_db" where
  "migrated t died d = (let jobs = upd_where (\<lambda>j. j_state j = Pending \<and> j_run_at j > t) (\<lambda>j. j\<lparr>j_state := Scheduled\<rparr>) (live d) in
     d\<lparr>live := del_where spent_row jobs, dead := dead d @ map (dead_of ''max attempts exceeded'' died) (filter spent_row jobs),
       indexes := removeAll ''_honker_live_pending_deadline'' (removeAll LEGACY_CLAIM_INDEX (indexes d))\<rparr>)"

lemma on_data_Inr: "on_data s f = Inr (a, f') \<longleftrightarrow> (\<exists>d. s (f_data f) = Inr (a, d) \<and> f' = f\<lparr>f_data := d\<rparr>)"
  by (auto simp: on_data_def split: sum.splits)

lemma exec_on_data_Ok:
  assumes "exec (\<lambda>t. on_data (s t)) c = (Ok u, c')"
  obtains d where "s (clock c') (f_data (db c)) = Inr (u, d)" "db c' = (db c)\<lparr>f_data := d\<rparr>"
  using assms by (auto elim!: exec_Ok simp: on_data_Inr)

lemma migrate_batch_Ok:
  assumes "migrate_batch c = (Ok u, c')"
  shows "\<exists>t died. db c' = (db c)\<lparr>f_data := migrated t died (f_data (db c))\<rparr> \<and> (forward c \<longrightarrow> clock c \<le> t \<and> t \<le> clock c')"
proof -
  obtain c1 c2 c3 c4 u1 u2 u3 u4 where
    s1: "exec (\<lambda>t. on_data (mark_scheduled t)) c = (Ok u1, c1)" and
    s2: "exec (\<lambda>t. on_data (copy_spent t)) c1 = (Ok u2, c2)" and
    s3: "exec (\<lambda>_. on_data delete_spent) c2 = (Ok u3, c3)" and
    s4: "exec (\<lambda>_. on_data (drop_index False LEGACY_CLAIM_INDEX)) c3 = (Ok u4, c4)" and
    s5: "exec (\<lambda>_. on_data (drop_index True ''_honker_live_pending_deadline'')) c4 = (Ok u, c')"
    using assms unfolding migrate_batch_def by (elim sbind_Ok)
  have time: "clock c \<le> clock c1 \<and> clock c1 \<le> clock c'" if "forward c"
    using timelyD [OF timely_exec that s1] timelyD [OF timely_exec _ s2] timelyD [OF timely_exec _ s3]
      timelyD [OF timely_exec _ s4] timelyD [OF timely_exec _ s5] by (auto simp: later_def)
  from s1 obtain d1 where 1: "mark_scheduled (clock c1) (f_data (db c)) = Inr (u1, d1)" "db c1 = (db c)\<lparr>f_data := d1\<rparr>"
    by (rule exec_on_data_Ok)
  from s2 obtain d2 where 2: "copy_spent (clock c2) (f_data (db c1)) = Inr (u2, d2)" "db c2 = (db c1)\<lparr>f_data := d2\<rparr>"
    by (rule exec_on_data_Ok)
  from s3 obtain d3 where 3: "delete_spent (f_data (db c2)) = Inr (u3, d3)" "db c3 = (db c2)\<lparr>f_data := d3\<rparr>"
    by (rule exec_on_data_Ok)
  from s4 obtain d4 where 4: "drop_index False LEGACY_CLAIM_INDEX (f_data (db c3)) = Inr (u4, d4)" "db c4 = (db c3)\<lparr>f_data := d4\<rparr>"
    by (rule exec_on_data_Ok)
  from s5 obtain d5 where 5: "drop_index True ''_honker_live_pending_deadline'' (f_data (db c4)) = Inr (u, d5)" "db c' = (db c4)\<lparr>f_data := d5\<rparr>"
    by (rule exec_on_data_Ok)
  have "d5 = migrated (clock c1) (clock c2) (f_data (db c))"
    using 1 2 3 4 5
    by (auto simp: mark_scheduled_def copy_spent_def delete_spent_def drop_index_def insert_dead_rows_def migrated_def Let_def
        split: if_splits)
  then show ?thesis
    using 1(2) 2(2) 3(2) 4(2) 5(2) time by auto
qed

lemma migrate_body_Ok:
  assumes "migrate_body c = (Ok u, c')"
  shows "if LEGACY_CLAIM_INDEX \<in> set (indexes (f_data (db c)))
    then \<exists>t died. db c' = (db c)\<lparr>f_data := migrated t died (f_data (db c))\<rparr> \<and> (forward c \<longrightarrow> clock c \<le> t \<and> t \<le> clock c')
    else db c' = db c"
proof -
  obtain u1 c1 b c2 where s1: "exec (\<lambda>_ f. Inr ((), f)) c = (Ok u1, c1)" and s2: "index_exists LEGACY_CLAIM_INDEX c1 = (Ok b, c2)"
    and rest: "(if \<not> b then sret () else migrate_batch) c2 = (Ok u, c')"
    using assms unfolding migrate_body_def by (elim sbind_Ok)
  have db1: "db c1 = db c"
    using s1 by (auto elim!: exec_Ok)
  have db2: "db c2 = db c1" "b \<longleftrightarrow> LEGACY_CLAIM_INDEX \<in> set (indexes (f_data (db c1)))"
    using s2 unfolding index_exists_def by (auto elim!: query_Ok)
  have fw: "forward c2 \<and> clock c \<le> clock c2" if "forward c"
    using timelyD [OF timely_exec that s1] timelyD [OF timely_query _ s2 [unfolded index_exists_def]] by (auto simp: later_def)
  show ?thesis
  proof (cases b)
    case True
    then obtain t died where "db c' = (db c2)\<lparr>f_data := migrated t died (f_data (db c2))\<rparr>" "forward c2 \<longrightarrow> clock c2 \<le> t \<and> t \<le> clock c'"
      using migrate_batch_Ok [of c2 u c'] rest by auto
    with True db1 db2 fw show ?thesis
      by (metis order_trans)
  qed (use db1 db2 rest in auto)
qed

lemma tame_migrate_body: "tame migrate_body"
  unfolding migrate_body_def migrate_batch_def index_exists_def by (auto intro!: tame_intros)

interpretation migration: savepoint_body migrate_body
  by unfold_locales (rule tame_migrate_body)

lemma migrated_jobs: "all_jobs (migrated t died d) = all_jobs d"
proof -
  let ?jobs = "upd_where (\<lambda>j. j_state j = Pending \<and> j_run_at j > t) (\<lambda>j. j\<lparr>j_state := Scheduled\<rparr>) (live d)"
  have "map core ?jobs = map core (live d)"
    by (rule map_upd_where) (simp add: core_def)
  from arg_cong [OF this, of mset] have a: "image_mset core (mset (live d)) = image_mset core (mset ?jobs)"
    by simp
  have b: "mset ?jobs = mset (del_where spent_row ?jobs) + mset (filter spent_row ?jobs)"
    by (rule mset_del_where)
  have "image_mset core (mset (live d)) = image_mset core (mset (del_where spent_row ?jobs)) + image_mset core (mset (filter spent_row ?jobs))"
    unfolding a by (subst b) (rule image_mset_union)
  then show ?thesis
    by (simp add: all_jobs_def migrated_def Let_def multiset.map_comp comp_def del: mset_filter)
qed

lemma migrated_live:
  assumes "j \<in> set (live (migrated t died d))"
  shows "(j_state j = Pending \<longrightarrow> j_run_at j \<le> t) \<and> \<not> spent_row j"
  using assms by (auto simp: migrated_def Let_def upd_where_def)

lemma migrated_indexes: "indexes (migrated t died d) = removeAll ''_honker_live_pending_deadline'' (removeAll LEGACY_CLAIM_INDEX (indexes d))"
  by (simp add: migrated_def Let_def)

lemma migrated_grows: "grows f (f\<lparr>f_data := migrated t died (f_data f)\<rparr>)"
proof -
  have "holds x (f\<lparr>f_data := migrated t died (f_data f)\<rparr>)" if "x \<in> set schema_facts" "holds x f" for x
  proof (cases x)
    case (HasIndex i)
    then have "i \<noteq> LEGACY_CLAIM_INDEX" "i \<noteq> ''_honker_live_pending_deadline''"
      using that(1) by (auto simp: schema_facts_def BOOTSTRAP_HONKER_SQL_def LEGACY_CLAIM_INDEX_def)
    with that(2) HasIndex show ?thesis
      by (simp add: migrated_indexes)
  qed (use that(2) in \<open>auto simp: migrated_indexes\<close>)
  then show ?thesis
    by (simp add: grows_def list_all_iff)
qed

lemma gap_alone: "conn_ok c \<Longrightarrow> gap (\<lambda>_ f. f) n c = (Ok (), c)"
  by (cases c) (auto simp: gap_def conn_ok_def is_autocommit_def)

lemma timely_migrate_body: "timely migrate_body"
  unfolding migrate_body_def migrate_batch_def index_exists_def by (auto intro!: timely_intros)

lemma index_exists_runs:
  assumes "conn_ok c" "index_exists i c = (r, c')"
  shows "case r of Ok b \<Rightarrow> b = (i \<in> set (indexes (f_data (db c)))) \<and> db c' = db c \<and> kept c c' | _ \<Rightarrow> undone r c c'"
proof -
  have "atomic_action (index_exists i) (\<lambda>f b f'. b = (i \<in> set (indexes (f_data f))) \<and> f' = f)"
    unfolding index_exists_def by (rule atomic_query) auto
  then show ?thesis
    using assms by (cases r) (auto dest: atomic_action.act_Ok atomic_action.act_fail)
qed

text \<open>
  C38. The migration of an older file is atomic and loses no job: when it returns, the marker index is gone, every job is in the live or in the
  dead table exactly as often as before, every pending row was due when the call returned and every row that waits for a claim
  has an attempt left. When it fails, by an error or a panic at any statement, the file is as before.
\<close>

theorem migration_atomic:
  assumes "conn_ok c" "forward c" "LEGACY_CLAIM_INDEX \<in> set (indexes (f_data (db c)))" "migrate_claim_v2 (\<lambda>_ f. f) n c = (r, c')"
  shows "case r of
      Ok _ \<Rightarrow> all_jobs (f_data (db c')) = all_jobs (f_data (db c)) \<and> LEGACY_CLAIM_INDEX \<notin> set (indexes (f_data (db c')))
        \<and> (\<forall>j \<in> set (live (f_data (db c'))). (j_state j = Pending \<longrightarrow> j_run_at j \<le> clock c')
            \<and> (j_state j = Pending \<or> j_state j = Scheduled \<longrightarrow> j_attempts j < j_max_attempts j))
    | _ \<Rightarrow> disk c' = disk c"
proof -
  have run: "sbind (index_exists LEGACY_CLAIM_INDEX) (\<lambda>there. if \<not> there then sret ()
      else sbind (gap (\<lambda>_ f. f) (Suc n)) (\<lambda>_. in_savepoint ''honker_bootstrap'' migrate_body)) c = (r, c')"
    using assms(4) gap_alone [OF assms(1), of n] by (simp add: migrate_claim_v2_def)
  obtain q c1 where q: "index_exists LEGACY_CLAIM_INDEX c = (q, c1)"
    by fastforce
  show ?thesis
  proof (cases q)
    case (Ok b)
    with index_exists_runs [OF assms(1) q] assms(3) have c1: "b" "db c1 = db c" "kept c c1"
      by auto
    then have ok1: "conn_ok c1" "disk c1 = disk c"
      using assms(1) by (auto simp: kept_def conn_ok_def)
    have fw: "forward c1"
      using timelyD [OF timely_query assms(2) q [unfolded index_exists_def]] by (rule later_forward)
    have sp: "in_savepoint ''honker_bootstrap'' migrate_body c1 = (r, c')"
      using run q Ok c1(1) gap_alone [OF ok1(1), of "Suc n"] by simp
    show ?thesis
    proof (cases "\<exists>u. r = Ok u")
      case True
      with sp have "in_savepoint ''honker_bootstrap'' migrate_body c1 = (Ok (), c')"
        by auto
      then obtain c2 c3 where b: "migrate_body c2 = (Ok (), c3)" "db c2 = db c1" "forward c2" "clock c3 \<le> clock c'" "db c' = db c3"
        using in_savepoint_time [OF _ fw timely_migrate_body] tame_migrate_body by metis
      then obtain t died where "db c' = (db c)\<lparr>f_data := migrated t died (f_data (db c))\<rparr>" "t \<le> clock c'"
        using migrate_body_Ok [OF b(1)] assms(3) c1(2) by auto
      with True show ?thesis
        by (auto simp: migrated_jobs migrated_indexes spent_row_def dest!: migrated_live)
    next
      case False
      with migration.savepoint_fail [OF ok1(1) sp] ok1(2) show ?thesis
        by (auto split: res.splits)
    qed
  qed (use run q index_exists_runs [OF assms(1) q] in \<open>auto simp: undone_def\<close>)
qed

text \<open>A file of an older build: a job that is not due, one without attempts, and the marker index.\<close>

definition old_job :: "int \<Rightarrow> int \<Rightarrow> int \<Rightarrow> job" where
  "old_job i run_at attempts = \<lparr>j_id = i, j_queue = ''q'', j_payload = ''p'', j_state = Pending, j_priority = 0, j_run_at = run_at,
     j_worker_id = None, j_claim_expires_at = None, j_attempts = attempts, j_max_attempts = 3, j_created_at = 0,
     j_expires_at = None, j_claimed_at = None\<rparr>"

definition old_file :: dbfile where
  "old_file = \<lparr>f_tables = [''_honker_live'', ''_honker_dead''],
     f_columns = (\<lambda>t. if t = ''_honker_live'' then [''id'', ''queue'', ''payload'', ''state'', ''priority'', ''run_at'', ''worker_id'',
       ''claim_expires_at'', ''attempts'', ''max_attempts'', ''created_at'', ''expires_at''] else []),
     f_data = empty_db\<lparr>live := [old_job 1 500 0, old_job 2 5 3, old_job 3 5 1], indexes := [LEGACY_CLAIM_INDEX]\<rparr>\<rparr>"

definition old_conn :: "dbfile conn" where
  "old_conn = fresh_conn old_file 100 []"

theorem migration_atomic_witness:
  "fst (migrate_claim_v2 (\<lambda>_ f. f) 0 old_conn) = Ok ()
   \<and> all_jobs (f_data (db (snd (migrate_claim_v2 (\<lambda>_ f. f) 0 old_conn)))) = all_jobs (f_data old_file)"
proof -
  let ?run = "migrate_claim_v2 (\<lambda>_ f. f) 0 old_conn"
  have r: "fst ?run = Ok ()"
    by code_simp
  then have run: "?run = (Ok (), snd ?run)"
    by (metis prod.collapse)
  have "conn_ok old_conn" "forward old_conn" "LEGACY_CLAIM_INDEX \<in> set (indexes (f_data (db old_conn)))" "db old_conn = old_file"
    by (simp_all add: old_conn_def old_file_def)
  with migration_atomic [OF this(1-3) run] r show ?thesis
    by simp
qed

section \<open>The whole bootstrap\<close>

lemma migrate_completes:
  assumes "\<And>n f. grows f (rival n f)" "bootable c" "has (set schema_facts - {NoLegacy}) (db c)" "migrate_claim_v2 rival n c = (Ok u, c')"
  shows "complete (db c') \<and> disk c' = db c' \<and> tx c' = NoTx"
proof -
  have gaps: "bootable c2 \<and> has A (db c2)" if "gap rival k c1 = (Ok v, c2)" "bootable c1" "has A (db c1)" for k c1 v c2 A
    using that grows_has [OF assms(1)] by (auto simp: gap_def bootable_def is_autocommit_def)
  have "has (set schema_facts - {NoLegacy}) f \<Longrightarrow> holds NoLegacy f \<Longrightarrow> complete f" for f
    by (auto simp: has_def complete_def list_all_iff)
  note all_facts = this
  obtain u1 c1 b c2 where s1: "gap rival n c = (Ok u1, c1)" and s2: "index_exists LEGACY_CLAIM_INDEX c1 = (Ok b, c2)"
    and rest: "(if \<not> b then sret () else sbind (gap rival (Suc n)) (\<lambda>_. in_savepoint ''honker_bootstrap'' migrate_body)) c2 = (Ok u, c')"
    using assms(4) unfolding migrate_claim_v2_def by (elim sbind_Ok)
  have c1: "bootable c1" "has (set schema_facts - {NoLegacy}) (db c1)"
    using gaps [OF s1 assms(2,3)] by auto
  have c2: "bootable c2" "db c2 = db c1" "b \<longleftrightarrow> LEGACY_CLAIM_INDEX \<in> set (indexes (f_data (db c1)))"
    using exec_bootable [OF c1(1) s2 [unfolded index_exists_def query_def]] by auto
  show ?thesis
  proof (cases b)
    case False
    with rest c2 c1 all_facts show ?thesis
      by (auto simp: bootable_def)
  next
    case True
    then obtain u3 c3 where g: "gap rival (Suc n) c2 = (Ok u3, c3)" and sp: "in_savepoint ''honker_bootstrap'' migrate_body c3 = (Ok u, c')"
      using rest by (auto elim: sbind_Ok)
    have c3: "bootable c3" "has (set schema_facts - {NoLegacy}) (db c3)"
      using gaps [OF g c2(1)] c1(2) c2(2) by auto
    then have "conn_ok c3" "tx c3 = NoTx"
      by (auto simp: bootable_def conn_ok_def)
    then obtain c4 c5 where b: "migrate_body c4 = (Ok u, c5)" "db c4 = db c3" "db c' = db c5" "tx c' = NoTx" "disk c' = db c'"
      using migration.savepoint_Ok [OF _ sp] by (metis (no_types, lifting))
    have "holds NoLegacy (db c') \<and> grows (db c3) (db c')"
      using migrate_body_Ok [OF b(1)] b(2,3) migrated_grows [of "db c3"] by (auto simp: migrated_indexes split: if_splits)
    with b c3 all_facts show ?thesis
      by (metis grows_has)
  qed
qed

text \<open>
  C13. A bootstrap that returns leaves a complete schema on disk: every table, every index, the three columns that older files lack, and no
  marker of the old layout. Other processes may change the file before each of its statements, in any way that takes no part of the
  schema away, and its own statements may fail.
\<close>

theorem bootstrap_complete:
  assumes "\<And>n f. grows f (rival n f)" "bootable c" "bootstrap_honker_schema rival c = (Ok u, c')"
  shows "complete (disk c') \<and> tx c' = NoTx"
proof -
  obtain u1 c1 u2 c2 where s1: "execute_ddl rival 0 BOOTSTRAP_HONKER_SQL c = (Ok u1, c1)" and s2: "bootstrap_columns rival c1 = (Ok u2, c2)"
    and s3: "migrate_claim_v2 rival 26 c2 = (Ok u, c')"
    using assms(3) unfolding bootstrap_honker_schema_def by (elim sbind_Ok)
  have "bootable c1 \<and> has (set (map ddl_fact BOOTSTRAP_HONKER_SQL)) (db c1)"
    using secures_ddl [where rival = rival and A = "{}" and n = 0 and ss = BOOTSTRAP_HONKER_SQL, OF assms(1)] assms(2) s1 by (auto simp: secures_def)
  then have "bootable c2 \<and> has (set schema_facts - {NoLegacy}) (db c2)"
    using secures_columns [where rival = rival, OF assms(1)] s2 by (auto simp: secures_def)
  then show ?thesis
    using migrate_completes [where rival = rival, OF assms(1) _ _ s3] by auto
qed

text \<open>Another process adds the columns between the check and the \<open>ALTER TABLE\<close>.\<close>

definition racing :: "nat \<Rightarrow> dbfile \<Rightarrow> dbfile" where
  "racing n f = (if n = 25 then f\<lparr>f_columns := (f_columns f)(''_honker_live'' := f_columns f ''_honker_live'' @ [''claimed_at''])\<rparr> else f)"

lemma racing_grows: "grows f (racing n f)"
proof -
  have "holds x f \<longrightarrow> holds x (racing n f)" for x
    by (cases x) (auto simp: racing_def)
  then show ?thesis
    by (simp add: grows_def list_all_iff)
qed

theorem bootstrap_complete_witness:
  "fst (bootstrap_honker_schema racing old_conn) = Ok () \<and> complete (disk (snd (bootstrap_honker_schema racing old_conn)))"
proof -
  have r: "fst (bootstrap_honker_schema racing old_conn) = Ok ()"
    by code_simp
  have "bootable old_conn"
    by (simp add: bootable_def old_conn_def honest_def)
  with bootstrap_complete [where rival = racing and c = old_conn and u = "()", OF racing_grows] r show ?thesis
    by (metis prod.collapse)
qed

section \<open>A second bootstrap\<close>

text \<open>A part that leaves a complete file alone, also when it fails.\<close>

definition still :: "'a faction \<Rightarrow> bool" where
  "still m \<longleftrightarrow> (\<forall>c r c'. bootable c \<longrightarrow> complete (db c) \<longrightarrow> m c = (r, c') \<longrightarrow> bootable c' \<and> db c' = db c)"

lemma stillI: "(\<And>c r c'. bootable c \<Longrightarrow> complete (db c) \<Longrightarrow> m c = (r, c') \<Longrightarrow> bootable c' \<and> db c' = db c) \<Longrightarrow> still m"
  unfolding still_def by blast

lemma stillD: "still m \<Longrightarrow> bootable c \<Longrightarrow> complete (db c) \<Longrightarrow> bootable (snd (m c)) \<and> db (snd (m c)) = db c"
  unfolding still_def by (metis prod.collapse)

lemma still_bind:
  assumes "still m" "\<And>v. still (k v)"
  shows "still (sbind m k)"
proof (rule stillI)
  fix c r c'
  assume c: "bootable c" "complete (db c)" "sbind m k c = (r, c')"
  obtain q c1 where m: "m c = (q, c1)"
    by fastforce
  have c1: "bootable c1" "db c1 = db c"
    using stillD [OF assms(1) c(1,2)] m by simp_all
  show "bootable c' \<and> db c' = db c"
  proof (cases q)
    case (Ok v)
    with c(3) m have "k v c1 = (r, c')"
      by simp
    with stillD [OF assms(2) c1(1), of v] c(2) c1(2) show ?thesis
      by simp
  qed (use c(3) m c1 in auto)
qed

lemma still_sret: "still (sret v)"
  by (simp add: still_def)

lemma still_gap: "still (gap (\<lambda>_ f. f) n)"
  by (auto simp: still_def gap_def bootable_def)

lemma still_exec: "(\<And>t f v f'. complete f \<Longrightarrow> stmt t f = Inr (v, f') \<Longrightarrow> f' = f) \<Longrightarrow> still (exec stmt)"
  unfolding still_def by (fastforce dest: exec_bootable split: res.splits)

lemma complete_fact: "complete f \<Longrightarrow> x \<in> set schema_facts \<Longrightarrow> holds x f"
  by (simp add: complete_def list_all_iff)

lemma still_ddl: "set ss \<subseteq> set BOOTSTRAP_HONKER_SQL \<Longrightarrow> still (execute_ddl (\<lambda>_ f. f) n ss)"
proof (induction ss arbitrary: n)
  case (Cons s ss)
  have "run_ddl s f = Inr ((), f)" if "complete f" for f
  proof -
    have "ddl_fact s \<in> set schema_facts"
      using Cons.prems by (simp add: schema_facts_def)
    from complete_fact [OF that this] show ?thesis
      by (cases s) (auto simp: run_ddl_def)
  qed
  with Cons show ?case
    by (auto intro!: still_bind still_gap still_exec)
qed (simp add: still_sret [unfolded sret_def] still_def)

lemma still_same_conn: "still m \<Longrightarrow> (\<And>c. snd (m' c) = snd (m c)) \<Longrightarrow> still m'"
  by (rule stillI) (metis snd_conv stillD)

lemma still_unwrap: "still m \<Longrightarrow> still (unwrap_or_false m)"
  by (erule still_same_conn) (simp add: unwrap_or_false_def split: prod.splits res.splits)

lemma still_swallow: "still m \<Longrightarrow> still (swallow_duplicate m)"
  by (erule still_same_conn) (simp add: swallow_duplicate_def split: prod.splits res.splits)

lemma still_has_column: "still (has_column t col)"
proof -
  have "still (query (\<lambda>_ f. Inr (t \<in> set (f_tables f) \<and> col \<in> set (f_columns f t))))"
    unfolding query_def by (rule still_exec) auto
  then have "still (unwrap_or_false (query (\<lambda>_ f. Inr (t \<in> set (f_tables f) \<and> col \<in> set (f_columns f t)))))"
    by (rule still_unwrap)
  then show ?thesis
    unfolding has_column_def decode_def by (auto intro!: still_bind still_exec)
qed

lemma still_migrate_column:
  assumes "HasTable t \<in> set schema_facts" "HasColumn t col \<in> set schema_facts"
  shows "still (migrate_column (\<lambda>_ f. f) n t col fill)"
proof -
  have "still (exec (\<lambda>_. alter_add t col fill))"
    using complete_fact [OF _ assms(2)] by (intro still_exec) (auto simp: alter_add_def split: if_splits)
  then have "still (swallow_duplicate (exec (\<lambda>_. alter_add t col fill)))"
    by (rule still_swallow)
  then have "still (if b then sret () else sbind (gap (\<lambda>_ f. f) (Suc n)) (\<lambda>_. swallow_duplicate (exec (\<lambda>_. alter_add t col fill))))" for b
    using still_sret [of "()"] still_bind [OF still_gap] by (cases b) (auto simp del: sret_apply)
  then show ?thesis
    unfolding migrate_column_def by (intro still_bind still_gap still_has_column)
qed

text \<open>
  A second bootstrap does nothing: on a file whose schema is complete it changes neither the file nor the connection's view of it,
  whether it returns or one of its statements fails, also when the check of a column fails and is read as a missing column.
\<close>

theorem bootstrap_idempotent:
  assumes "bootable c" "complete (db c)" "bootstrap_honker_schema (\<lambda>_ f. f) c = (r, c')"
  shows "db c' = db c \<and> disk c' = disk c"
proof -
  have "still (bootstrap_columns (\<lambda>_ f. f))"
    unfolding bootstrap_columns_def
    by (intro still_bind still_migrate_column) (simp_all add: schema_facts_def BOOTSTRAP_HONKER_SQL_def)
  moreover have "still (migrate_claim_v2 (\<lambda>_ f. f) 26)"
  proof (rule stillI)
    fix c r c'
    assume c: "bootable c" "complete (db c)" "migrate_claim_v2 (\<lambda>_ f. f) 26 c = (r, c')"
    then have "gap (\<lambda>_ f. f) 26 c = (Ok (), c)"
      by (intro gap_alone) (auto simp: bootable_def conn_ok_def)
    with c(3) have run: "sbind (index_exists LEGACY_CLAIM_INDEX) (\<lambda>there. if \<not> there then sret ()
        else sbind (gap (\<lambda>_ f. f) (Suc 26)) (\<lambda>_. in_savepoint ''honker_bootstrap'' migrate_body)) c = (r, c')"
      by (simp add: migrate_claim_v2_def)
    obtain q c1 where q: "index_exists LEGACY_CLAIM_INDEX c = (q, c1)"
      by fastforce
    have "\<not> LEGACY_CLAIM_INDEX \<in> set (indexes (f_data (db c)))"
      using complete_fact [OF c(2), of NoLegacy] by (simp add: schema_facts_def)
    with exec_bootable [OF c(1) q [unfolded index_exists_def query_def]] run q
    show "bootable c' \<and> db c' = db c"
      by (cases q) auto
  qed
  ultimately have "still (bootstrap_honker_schema (\<lambda>_ f. f))"
    unfolding bootstrap_honker_schema_def by (intro still_bind still_ddl) auto
  from stillD [OF this assms(1,2)] assms show ?thesis
    by (simp add: bootable_def)
qed

text \<open>The file of the example after its first bootstrap; in the second one the check of the first column fails.\<close>

definition new_conn :: "dbfile conn" where
  "new_conn = fresh_conn (disk (snd (bootstrap_honker_schema (\<lambda>_ f. f) old_conn))) 200
     (replicate 14 \<lparr>tick = 0, fault = None\<rparr> @ [\<lparr>tick = 0, fault = Some (FaultErr (SqliteFailure DatabaseBusy ''database is locked''))\<rparr>])"

theorem bootstrap_idempotent_witness:
  "complete (db new_conn) \<and> db (snd (bootstrap_honker_schema (\<lambda>_ f. f) new_conn)) = db new_conn"
proof -
  have c: "complete (db new_conn)"
    by code_simp
  have "\<not> is_duplicate_column (SqliteFailure DatabaseBusy ''database is locked'')"
    by code_simp
  then have "bootable new_conn"
    by (simp add: bootable_def new_conn_def honest_def list_all_iff)
  with c bootstrap_idempotent [of new_conn "fst (bootstrap_honker_schema (\<lambda>_ f. f) new_conn)" "snd (bootstrap_honker_schema (\<lambda>_ f. f) new_conn)"]
  show ?thesis
    by simp
qed

end
