(* ===== verification/Shm.thy ===== *)
theory Shm
  imports Watcher
begin

text \<open>
  The experimental backend of \<^verbatim>\<open>honker-core/src/shm_watcher.rs\<close>, as built on Unix: the process-wide registry of descriptors of \<open>-shm\<close> files and
  the loop that reads the change counter of the WAL index. What the file system answers is an argument of each call.
\<close>

section \<open>The registry of descriptors\<close>

text \<open>
  A descriptor is an \<^verbatim>\<open>Arc<File>\<close>: the registry keeps one reference, \<open>held\<close> counts those outside. It is closed when the last
  one goes.
\<close>

record registry =
  reg_live :: "(identity \<times> nat) list"
  reg_extra :: "nat list"
  held :: "nat \<Rightarrow> nat"
  next_fd :: nat

definition no_registry :: registry where
  "no_registry = \<lparr>reg_live = [], reg_extra = [], held = (\<lambda>_. 0), next_fd = 0\<rparr>"

definition MAX_RETAINED_SHM_FDS :: nat where
  "MAX_RETAINED_SHM_FDS = 256"

definition registered :: "registry \<Rightarrow> nat list" where
  "registered r = map snd (reg_live r) @ reg_extra r"

definition strong_count :: "registry \<Rightarrow> nat \<Rightarrow> nat" where
  "strong_count r fd = count_list (registered r) fd + held r fd"

text \<open>
  What the file system answers during one acquisition: the identity of the path, the link counts of the open files
  (\<open>None\<close> where \<^verbatim>\<open>fstat\<close> fails), the inode a new descriptor is opened on, and whether that one can be identified.
\<close>

record shm_os =
  os_stat :: "identity option"
  os_links :: "nat \<Rightarrow> nat option"
  os_open :: "identity option"
  os_fstat :: bool

definition reclaim_unlinked :: "(nat \<Rightarrow> nat option) \<Rightarrow> registry \<Rightarrow> registry" where
  "reclaim_unlinked links r = (let keep = (\<lambda>fd. strong_count r fd > 1 \<or> links fd \<noteq> Some 0) in
     r\<lparr>reg_live := filter (\<lambda>(i, fd). keep fd) (reg_live r), reg_extra := filter keep (reg_extra r)\<rparr>)"

definition retained :: "registry \<Rightarrow> nat" where
  "retained r = length (reg_live r) + length (reg_extra r)"

definition hand_out :: "nat \<Rightarrow> registry \<Rightarrow> registry" where
  "hand_out fd r = r\<lparr>held := (held r)(fd := Suc (held r fd))\<rparr>"

definition drop_fd :: "nat \<Rightarrow> registry \<Rightarrow> registry" where
  "drop_fd fd r = r\<lparr>held := (held r)(fd := held r fd - 1)\<rparr>"

text \<open>\<open>None\<close> is an \<^verbatim>\<open>io::Error\<close>: the registry is full or the file does not open.\<close>

definition acquire_shm_fd :: "shm_os \<Rightarrow> registry \<Rightarrow> nat option \<times> registry" where
  "acquire_shm_fd os r0 = (let r = reclaim_unlinked (os_links os) r0 in
     case (case os_stat os of None \<Rightarrow> None | Some i \<Rightarrow> map_of (reg_live r) i) of
       Some fd \<Rightarrow> (Some fd, hand_out fd r)
     | None \<Rightarrow>
         if retained r \<ge> MAX_RETAINED_SHM_FDS then (None, r)
         else (case os_open os of
             None \<Rightarrow> (None, r)
           | Some i \<Rightarrow>
               let fd = next_fd r; r = r\<lparr>next_fd := Suc fd\<rparr> in
               if \<not> os_fstat os then (Some fd, hand_out fd (r\<lparr>reg_extra := reg_extra r @ [fd]\<rparr>))
               else (case map_of (reg_live r) i of
                   Some winner \<Rightarrow> (Some winner, hand_out winner (r\<lparr>reg_extra := reg_extra r @ [fd]\<rparr>))
                 | None \<Rightarrow> (Some fd, hand_out fd (r\<lparr>reg_live := (i, fd) # reg_live r\<rparr>)))))"

text \<open>The calls of all watchers of the process: the registry is behind a mutex, so they come one after the other.\<close>

datatype shm_event = Acquire shm_os | DropFd nat

inductive shm_step :: "registry \<Rightarrow> shm_event \<Rightarrow> registry \<Rightarrow> bool" where
  shm_acquire: "shm_step r (Acquire os) (snd (acquire_shm_fd os r))"
| shm_drop: "0 < held r fd \<Longrightarrow> shm_step r (DropFd fd) (drop_fd fd r)"

section \<open>The WAL index header\<close>

type_synonym header = "8 word list"

definition from_le_bytes :: "8 word list \<Rightarrow> 32 word" where
  "from_le_bytes bs = foldr (\<lambda>b n. ucast b OR push_bit 8 n) bs 0"

definition WALINDEX_MAX_VERSION :: "32 word" where
  "WALINDEX_MAX_VERSION = 3007000"

definition ICHANGE_OFFSET :: nat where
  "ICHANGE_OFFSET = 8"

definition iversion :: "header \<Rightarrow> 32 word" where
  "iversion h = from_le_bytes (take 4 h)"

definition read_ichange_from_header :: "header \<Rightarrow> 32 word" where
  "read_ichange_from_header h = from_le_bytes (take 4 (drop ICHANGE_OFFSET h))"

text \<open>
  \<^verbatim>\<open>read_wal_index_header\<close> reads the first 12 bytes of the file, or fails when there are fewer; \<open>None\<close> is any error.
\<close>

definition read_wal_index_header :: "8 word list option \<Rightarrow> header option" where
  "read_wal_index_header content = (case content of
       None \<Rightarrow> None
     | Some bytes \<Rightarrow> if length bytes < 12 then None else Some (take 12 bytes))"

record reopen_env =
  ro_os :: shm_os
  ro_content :: "8 word list option"
  ro_stat :: "identity option"

definition reopen_shm_header :: "reopen_env \<Rightarrow> registry \<Rightarrow> (nat \<times> header \<times> identity) option \<times> registry" where
  "reopen_shm_header e r = (case acquire_shm_fd (ro_os e) r of
       (None, r1) \<Rightarrow> (None, r1)
     | (Some fd, r1) \<Rightarrow>
         (case read_wal_index_header (ro_content e) of
            None \<Rightarrow> (None, drop_fd fd r1)
          | Some h \<Rightarrow> (case ro_stat e of None \<Rightarrow> (None, drop_fd fd r1) | Some i \<Rightarrow> (Some (fd, h, i), r1))))"

text \<open>\<^verbatim>\<open>wait_for_initial_shm_header\<close>: at most 200 tries; each entry says whether \<open>stop\<close> was set and what a try meets.\<close>

fun wait_tries :: "nat \<Rightarrow> (nat \<Rightarrow> bool \<times> reopen_env) \<Rightarrow> nat \<Rightarrow> registry \<Rightarrow> (nat \<times> header \<times> identity) option \<times> registry" where
  "wait_tries 0 env i r = (None, r)"
| "wait_tries (Suc n) env i r =
     (if fst (env i) then (None, r)
      else (case reopen_shm_header (snd (env i)) r of
          (Some parts, r1) \<Rightarrow> (Some parts, r1)
        | (None, r1) \<Rightarrow> wait_tries n env (Suc i) r1))"

definition wait_for_initial_shm_header :: "(nat \<Rightarrow> bool \<times> reopen_env) \<Rightarrow> registry \<Rightarrow> (nat \<times> header \<times> identity) option \<times> registry" where
  "wait_for_initial_shm_header env r = wait_tries 200 env 0 r"

datatype probe_err = BigEndian | ShmUnavailable | ShmUnreadable | WrongVersion "32 word"

definition probe :: "bool \<Rightarrow> shm_os \<Rightarrow> 8 word list option \<Rightarrow> registry \<Rightarrow> (probe_err + unit) \<times> registry" where
  "probe big_endian os content r =
     (if big_endian then (Inl BigEndian, r)
      else (case acquire_shm_fd os r of
          (None, r1) \<Rightarrow> (Inl ShmUnavailable, r1)
        | (Some fd, r1) \<Rightarrow>
            (case read_wal_index_header content of
               None \<Rightarrow> (Inl ShmUnreadable, drop_fd fd r1)
             | Some h \<Rightarrow>
                 (if iversion h \<noteq> WALINDEX_MAX_VERSION then (Inl (WrongVersion (iversion h)), drop_fd fd r1)
                  else (Inr (), drop_fd fd r1)))))"

section \<open>The loop\<close>

record shm_loop =
  sl_fd :: nat
  sl_last :: "32 word"
  sl_shm_id :: identity
  sl_db_id :: identity
  sl_next_check :: int
  sl_wakes :: nat

definition IDENTITY_CHECK_INTERVAL :: int where
  "IDENTITY_CHECK_INTERVAL = 100"

record shm_env =
  sr_content :: "8 word list option"
  sr_reopen :: reopen_env
  sr_now :: int
  sr_db :: "identity option"
  sr_shm :: "identity option"

definition shm_wake :: "shm_loop \<Rightarrow> shm_loop" where
  "shm_wake l = l\<lparr>sl_wakes := sl_wakes l + 1\<rparr>"

text \<open>The assignments after a successful reopen; the old descriptor is dropped.\<close>

definition rebase :: "nat \<times> header \<times> identity \<Rightarrow> shm_loop \<Rightarrow> shm_loop" where
  "rebase parts l = (case parts of (fd, h, i) \<Rightarrow> l\<lparr>sl_fd := fd, sl_shm_id := i, sl_last := read_ichange_from_header h\<rparr>)"

definition shm_start :: "nat \<times> header \<times> identity \<Rightarrow> shm_env \<Rightarrow> shm_loop option" where
  "shm_start parts e = (case parts of (fd, h, i) \<Rightarrow>
     if iversion h \<noteq> WALINDEX_MAX_VERSION then None
     else Some \<lparr>sl_fd = fd, sl_last = read_ichange_from_header h, sl_shm_id = i,
       sl_db_id = (case sr_db e of None \<Rightarrow> (0, 0) | Some d \<Rightarrow> d),
       sl_next_check = sr_now e + IDENTITY_CHECK_INTERVAL, sl_wakes = 0\<rparr>)"

text \<open>\<open>None\<close> is the panic of a replaced database; otherwise whether the file could not be looked up.\<close>

definition check_db_identity :: "identity option \<Rightarrow> identity \<Rightarrow> bool option" where
  "check_db_identity current initial = (case current of
       Some i \<Rightarrow> if i \<noteq> initial then None else Some False
     | None \<Rightarrow> Some True)"

definition shm_check :: "shm_env \<Rightarrow> shm_loop \<Rightarrow> registry \<Rightarrow> shm_loop option \<times> registry" where
  "shm_check e l0 r =
     (if sr_now e \<ge> sl_next_check l0 then
        (let l = l0\<lparr>sl_next_check := sr_now e + IDENTITY_CHECK_INTERVAL\<rparr> in
         case check_db_identity (sr_db e) (sl_db_id l) of
           None \<Rightarrow> (None, r)
         | Some db_stat_err \<Rightarrow>
             (case (case sr_shm e of
                  None \<Rightarrow> (shm_wake l, r)
                | Some i \<Rightarrow>
                    if i \<noteq> sl_shm_id l then
                      (case reopen_shm_header (sr_reopen e) r of
                         (None, r1) \<Rightarrow> (shm_wake l, r1)
                       | (Some parts, r1) \<Rightarrow> (shm_wake (rebase parts l), drop_fd (sl_fd l) r1))
                    else (l, r)) of
                (l1, r1) \<Rightarrow> (Some (if db_stat_err then shm_wake l1 else l1), r1)))
      else (Some l0, r))"

definition shm_round :: "shm_env \<Rightarrow> shm_loop \<Rightarrow> registry \<Rightarrow> shm_loop option \<times> registry" where
  "shm_round e l r = (case read_wal_index_header (sr_content e) of
       None \<Rightarrow>
         (case reopen_shm_header (sr_reopen e) r of
            (Some parts, r1) \<Rightarrow> (Some (shm_wake (rebase parts l)), drop_fd (sl_fd l) r1)
          | (None, r1) \<Rightarrow> (Some (shm_wake l), r1))
     | Some h \<Rightarrow>
         (let current = read_ichange_from_header h in
          shm_check e (if current \<noteq> sl_last l then shm_wake (l\<lparr>sl_last := current\<rparr>) else l) r))"

fun shm_rounds :: "shm_env list \<Rightarrow> shm_loop \<Rightarrow> registry \<Rightarrow> shm_loop option \<times> registry" where
  "shm_rounds [] l r = (Some l, r)"
| "shm_rounds (e # es) l r = (case shm_round e l r of
       (None, r1) \<Rightarrow> (None, drop_fd (sl_fd l) r1)
     | (Some l1, r1) \<Rightarrow> shm_rounds es l1 r1)"

text \<open>The loop until \<open>stop\<close>; leaving the function drops the descriptor.\<close>

definition run_shm_fast_path_loop ::
  "bool \<Rightarrow> (nat \<Rightarrow> bool \<times> reopen_env) \<Rightarrow> shm_env \<Rightarrow> shm_env list \<Rightarrow> registry \<Rightarrow> shm_loop option \<times> registry" where
  "run_shm_fast_path_loop big_endian wait e0 es r =
     (if big_endian then (None, r)
      else (case wait_for_initial_shm_header wait r of
          (None, r1) \<Rightarrow> (None, r1)
        | (Some parts, r1) \<Rightarrow>
            (case shm_start parts e0 of
               None \<Rightarrow> (None, drop_fd (fst parts) r1)
             | Some l \<Rightarrow> (case shm_rounds es l r1 of
                   (None, r2) \<Rightarrow> (None, r2)
                 | (Some l', r2) \<Rightarrow> (Some l', drop_fd (sl_fd l') r2)))))"

end
