(* ===== verification/Shm_Thms.thy ===== *)
theory Shm_Thms
  imports Shm
begin

text \<open>
  The registry never closes a descriptor of a \<open>-shm\<close> file that still has a name, keeps a bounded number of them, and the loop gives
  back every reference it takes; a round without a wake has read the change counter and found it unchanged.
\<close>

section \<open>The registry\<close>

inductive_cases shm_stepE: "shm_step r e r'"

definition shm_ok :: "registry \<Rightarrow> bool" where
  "shm_ok r \<longleftrightarrow> distinct (registered r) \<and> (\<forall>fd \<in> set (registered r). fd < next_fd r)
     \<and> (\<forall>fd. 0 < held r fd \<longrightarrow> fd \<in> set (registered r))
     \<and> distinct (map fst (reg_live r)) \<and> retained r \<le> MAX_RETAINED_SHM_FDS"

lemma retained_registered: "retained r = length (registered r)"
  by (simp add: retained_def registered_def)

text \<open>The descriptors the process has open.\<close>

definition open_fds :: "registry \<Rightarrow> nat set" where
  "open_fds r = set (registered r) \<union> {fd. 0 < held r fd}"

lemma registered_reclaim:
  "registered (reclaim_unlinked links r) = filter (\<lambda>fd. strong_count r fd > 1 \<or> links fd \<noteq> Some 0) (registered r)"
  by (simp add: registered_def reclaim_unlinked_def Let_def filter_map comp_def case_prod_unfold)

lemma reclaim_simps [simp]:
  "held (reclaim_unlinked links r) = held r" "next_fd (reclaim_unlinked links r) = next_fd r"
  by (simp_all add: reclaim_unlinked_def Let_def)

lemma count_list_distinct: "distinct xs \<Longrightarrow> x \<in> set xs \<Longrightarrow> count_list xs x = 1"
  by (induction xs) auto

lemma strong_count_registered: "fd \<in> set (registered r) \<Longrightarrow> distinct (registered r) \<Longrightarrow> strong_count r fd = Suc (held r fd)"
  using count_list_distinct [of "registered r" fd] by (simp add: strong_count_def)

lemma shm_ok_reclaim: "shm_ok r \<Longrightarrow> shm_ok (reclaim_unlinked links r)"
proof -
  assume ok: "shm_ok r"
  then have "fd \<in> set (registered (reclaim_unlinked links r))" if "0 < held r fd" for fd
    using that strong_count_registered [of fd r] by (auto simp: shm_ok_def registered_reclaim)
  moreover have "distinct (map fst (reg_live (reclaim_unlinked links r)))"
    using ok by (simp add: shm_ok_def reclaim_unlinked_def Let_def distinct_map_filter)
  moreover have "length (registered (reclaim_unlinked links r)) \<le> length (registered r)"
    by (simp add: registered_reclaim)
  ultimately show ?thesis
    using ok by (auto simp: shm_ok_def registered_reclaim retained_registered simp del: length_filter_le)
qed

text \<open>The ways an acquisition can end.\<close>

lemma acquire_cases:
  obtains (found) fd where "acquire_shm_fd os r = (Some fd, hand_out fd (reclaim_unlinked (os_links os) r))"
      "fd \<in> snd ` set (reg_live (reclaim_unlinked (os_links os) r))"
  | (refused) "acquire_shm_fd os r = (None, reclaim_unlinked (os_links os) r)"
  | (extra) fd r1 where "acquire_shm_fd os r = (Some fd, hand_out fd r1)" "fd \<in> set (registered r1)"
      "r1 = (reclaim_unlinked (os_links os) r)\<lparr>next_fd := Suc (next_fd r), reg_extra := reg_extra (reclaim_unlinked (os_links os) r) @ [next_fd r]\<rparr>"
      "retained (reclaim_unlinked (os_links os) r) < MAX_RETAINED_SHM_FDS"
  | (live) i where "acquire_shm_fd os r = (Some (next_fd r), hand_out (next_fd r) ((reclaim_unlinked (os_links os) r)\<lparr>next_fd := Suc (next_fd r),
        reg_live := (i, next_fd r) # reg_live (reclaim_unlinked (os_links os) r)\<rparr>))"
      "i \<notin> fst ` set (reg_live (reclaim_unlinked (os_links os) r))"
      "retained (reclaim_unlinked (os_links os) r) < MAX_RETAINED_SHM_FDS"
proof -
  let ?r = "reclaim_unlinked (os_links os) r"
  show ?thesis
  proof (cases "case os_stat os of None \<Rightarrow> None | Some i \<Rightarrow> map_of (reg_live ?r) i")
    case (Some fd)
    then show ?thesis
      using found [of fd] by (force simp: acquire_shm_fd_def Let_def split: option.splits dest: map_of_SomeD)
  next
    case None
    note miss = this
    show ?thesis
    proof (cases "retained ?r \<ge> MAX_RETAINED_SHM_FDS \<or> os_open os = None")
      case True
      then show ?thesis
        using refused miss by (auto simp: acquire_shm_fd_def Let_def)
    next
      case False
      then obtain i where i: "os_open os = Some i" "retained ?r < MAX_RETAINED_SHM_FDS"
        by auto
      show ?thesis
      proof (cases "os_fstat os")
        case False
        then show ?thesis
          using extra [of "next_fd r"] miss i by (simp add: acquire_shm_fd_def Let_def registered_def)
      next
        case True
        show ?thesis
        proof (cases "map_of (reg_live ?r) i")
          case None
          then have "i \<notin> fst ` set (reg_live ?r)"
            by (simp add: map_of_eq_None_iff)
          then show ?thesis
            using live [of i] miss i True None by (simp add: acquire_shm_fd_def Let_def)
        next
          case (Some w)
          then have "w \<in> set (registered (?r\<lparr>next_fd := Suc (next_fd r), reg_extra := reg_extra ?r @ [next_fd r]\<rparr>))"
            by (force simp: registered_def dest: map_of_SomeD)
          with Some show ?thesis
            using extra [of w] miss i True by (simp add: acquire_shm_fd_def Let_def)
        qed
      qed
    qed
  qed
qed

lemma hand_out_simps [simp]:
  "registered (hand_out fd r) = registered r" "reg_live (hand_out fd r) = reg_live r" "next_fd (hand_out fd r) = next_fd r"
  "retained (hand_out fd r) = retained r" "held (hand_out fd r) = (held r)(fd := Suc (held r fd))"
  by (simp_all add: hand_out_def registered_def retained_def)

lemma registered_new:
  "registered (r\<lparr>next_fd := n, reg_extra := reg_extra r @ [fd]\<rparr>) = registered r @ [fd]"
  "registered (r\<lparr>next_fd := n, reg_live := (i, fd) # reg_live r\<rparr>) = fd # registered r"
  by (simp_all add: registered_def)

lemma shm_ok_hand_out: "shm_ok r \<Longrightarrow> fd \<in> set (registered r) \<Longrightarrow> shm_ok (hand_out fd r)"
  by (auto simp: shm_ok_def)

lemma shm_ok_acquire:
  assumes "shm_ok r"
  shows "shm_ok (snd (acquire_shm_fd os r))"
proof -
  let ?r = "reclaim_unlinked (os_links os) r"
  have ok: "shm_ok ?r"
    using assms by (rule shm_ok_reclaim)
  then have fresh: "next_fd r \<notin> set (registered ?r)"
    by (auto simp: shm_ok_def)
  show ?thesis
  proof (cases rule: acquire_cases [of os r])
    case (found fd)
    then have "fd \<in> set (registered ?r)"
      by (auto simp: registered_def)
    then show ?thesis
      using ok found(1) by (simp add: shm_ok_hand_out)
  next
    case refused
    then show ?thesis
      using ok by simp
  next
    case (extra fd r1)
    have "shm_ok r1"
      using ok fresh extra(3,4) by (auto simp: shm_ok_def registered_def retained_def less_Suc_eq)
    then show ?thesis
      using extra(1,2) by (simp add: shm_ok_hand_out)
  next
    case (live i)
    have "shm_ok (?r\<lparr>next_fd := Suc (next_fd r), reg_live := (i, next_fd r) # reg_live ?r\<rparr>)"
      using ok fresh live(2,3) by (auto simp: shm_ok_def registered_def retained_def less_Suc_eq)
    then show ?thesis
      using live(1) by (simp add: shm_ok_hand_out registered_def)
  qed
qed

lemma shm_ok_step: "shm_step r e r' \<Longrightarrow> shm_ok r \<Longrightarrow> shm_ok r'"
proof (erule shm_stepE)
  fix fd
  assume "r' = drop_fd fd r" "shm_ok r"
  then show "shm_ok r'"
    by (auto simp: shm_ok_def drop_fd_def registered_def retained_def)
qed (simp add: shm_ok_acquire)

interpretation registry: kept_by_steps shm_step "\<lambda>_. True" shm_ok
  by unfold_locales (rule shm_ok_step)

lemma shm_ok_new: "shm_ok no_registry"
  by (simp add: shm_ok_def no_registry_def registered_def retained_def MAX_RETAINED_SHM_FDS_def)

lemma acquire_keeps_open:
  assumes "fd \<in> set (registered (reclaim_unlinked (os_links os) r))"
  shows "fd \<in> set (registered (snd (acquire_shm_fd os r)))"
  using assms by (cases rule: acquire_cases [of os r]) (auto simp: registered_new)

text \<open>
  C14. However the watchers of a process acquire and drop descriptors of \<open>-shm\<close> files, and whatever the file system answers: a descriptor is closed
  only by a later acquisition that found its file without a name and no watcher holding it, so the locks SQLite has on a
  file in use are never dropped; and at most 256 descriptors are kept, one per file.
\<close>

theorem shm_closes_only_unlinked:
  assumes "run shm_step no_registry es r" "shm_step r e r'"
  shows "(\<forall>fd \<in> open_fds r - open_fds r'. held r fd = 0 \<and> (\<exists>os. e = Acquire os \<and> os_links os fd = Some 0))
    \<and> card (open_fds r') \<le> 256 \<and> distinct (map fst (reg_live r'))"
proof -
  have ok: "shm_ok r"
    using registry.run_keeps [OF assms(1) _ shm_ok_new] by (simp add: list_all_iff)
  then have ok': "shm_ok r'"
    using shm_ok_step assms(2) by blast
  have open_eq: "open_fds x = set (registered x)" if "shm_ok x" for x
    using that by (auto simp: open_fds_def shm_ok_def)
  have "card (open_fds r') \<le> 256"
    using ok' card_length [of "registered r'"] open_eq [OF ok']
    by (simp add: shm_ok_def retained_registered MAX_RETAINED_SHM_FDS_def)
  moreover have "held r fd = 0 \<and> (\<exists>os. e = Acquire os \<and> os_links os fd = Some 0)" if "fd \<in> open_fds r - open_fds r'" for fd
    using assms(2)
  proof (rule shm_stepE)
    fix os
    assume e: "e = Acquire os" "r' = snd (acquire_shm_fd os r)"
    have fd: "fd \<in> set (registered r)" "fd \<notin> set (registered r')"
      using that open_eq [OF ok] open_eq [OF ok'] by auto
    with e have "fd \<notin> set (registered (reclaim_unlinked (os_links os) r))"
      using acquire_keeps_open by blast
    with fd(1) ok e show ?thesis
      using strong_count_registered [of fd r] by (auto simp: registered_reclaim shm_ok_def)
  next
    fix x
    assume "r' = drop_fd x r"
    then have "registered r' = registered r"
      by (simp add: drop_fd_def registered_def)
    with that show ?thesis
      using open_eq [OF ok] open_eq [OF ok'] by auto
  qed
  ultimately show ?thesis
    using ok' by (simp add: shm_ok_def)
qed

text \<open>The same path twice; then its file is unlinked and both references are dropped, and a new file appears under the name.\<close>

definition demo_os :: "identity \<Rightarrow> (nat \<Rightarrow> nat option) \<Rightarrow> shm_os" where
  "demo_os i links = \<lparr>os_stat = Some i, os_links = links, os_open = Some i, os_fstat = True\<rparr>"

definition demo_registry :: registry where
  "demo_registry = drop_fd 0 (drop_fd 0 (snd (acquire_shm_fd (demo_os (1, 5) (\<lambda>_. Some 1)) (snd (acquire_shm_fd (demo_os (1, 5) (\<lambda>_. Some 1)) no_registry)))))"

lemma demo_registry_eq: "demo_registry = \<lparr>reg_live = [((1, 5), 0)], reg_extra = [], held = (\<lambda>_. 0), next_fd = 1\<rparr>"
  by (simp add: demo_registry_def drop_fd_def hand_out_def acquire_shm_fd_def reclaim_unlinked_def retained_def MAX_RETAINED_SHM_FDS_def
      demo_os_def no_registry_def strong_count_def registered_def Let_def fun_eq_iff)

lemma demo_registry_run: "run shm_step no_registry [Acquire (demo_os (1, 5) (\<lambda>_. Some 1)), Acquire (demo_os (1, 5) (\<lambda>_. Some 1)), DropFd 0, DropFd 0] demo_registry"
proof -
  have "0 < held (snd (acquire_shm_fd (demo_os (1, 5) (\<lambda>_. Some 1)) (snd (acquire_shm_fd (demo_os (1, 5) (\<lambda>_. Some 1)) no_registry)))) 0"
    "0 < held (drop_fd 0 (snd (acquire_shm_fd (demo_os (1, 5) (\<lambda>_. Some 1)) (snd (acquire_shm_fd (demo_os (1, 5) (\<lambda>_. Some 1)) no_registry))))) 0"
    by (simp_all add: drop_fd_def hand_out_def acquire_shm_fd_def reclaim_unlinked_def retained_def MAX_RETAINED_SHM_FDS_def
        demo_os_def no_registry_def strong_count_def registered_def Let_def)
  then show ?thesis
    unfolding demo_registry_def by (blast intro: run.intros shm_acquire shm_drop)
qed

theorem shm_closes_only_unlinked_witness:
  "0 \<in> open_fds demo_registry - open_fds (snd (acquire_shm_fd (demo_os (1, 6) (\<lambda>_. Some 0)) demo_registry))
   \<and> held demo_registry 0 = 0 \<and> card (open_fds (snd (acquire_shm_fd (demo_os (1, 6) (\<lambda>_. Some 0)) demo_registry))) \<le> 256"
proof -
  let ?r' = "snd (acquire_shm_fd (demo_os (1, 6) (\<lambda>_. Some 0)) demo_registry)"
  have "0 \<in> open_fds demo_registry - open_fds ?r'"
    by (simp add: demo_registry_eq open_fds_def drop_fd_def hand_out_def acquire_shm_fd_def reclaim_unlinked_def retained_def
        MAX_RETAINED_SHM_FDS_def demo_os_def strong_count_def registered_def Let_def)
  then show ?thesis
    using shm_closes_only_unlinked [OF demo_registry_run shm_acquire, of "demo_os (1, 6) (\<lambda>_. Some 0)"] by blast
qed

section \<open>The loop\<close>

text \<open>One reference more to a descriptor; and a registry that was reached by acquisitions and drops.\<close>

definition plus_one :: "nat \<Rightarrow> (nat \<Rightarrow> nat) \<Rightarrow> nat \<Rightarrow> nat" where
  "plus_one fd b = b(fd := Suc (b fd))"

definition via :: "registry \<Rightarrow> registry \<Rightarrow> bool" where
  "via r r' \<longleftrightarrow> (\<exists>es. run shm_step r es r')"

lemma via_refl [simp]: "via r r"
  by (auto simp: via_def intro: run.intros)

lemma via_step: "shm_step r e r' \<Longrightarrow> via r r'"
  unfolding via_def by (intro exI [of _ "[e]"]) simp

lemma via_trans: "via r s \<Longrightarrow> via s t \<Longrightarrow> via r t"
  unfolding via_def by (blast intro: run_append)

lemma via_drop: "held r = plus_one fd b \<Longrightarrow> via r (drop_fd fd r) \<and> held (drop_fd fd r) = b"
proof -
  assume h: "held r = plus_one fd b"
  then have "via r (drop_fd fd r)"
    by (intro via_step [OF shm_drop]) (simp add: plus_one_def)
  then show ?thesis
    using h by (auto simp: drop_fd_def plus_one_def)
qed

lemma plus_one_swap: "plus_one a (plus_one b f) = plus_one b (plus_one a f)"
  by (auto simp: plus_one_def fun_eq_iff)

lemma acquire_effect:
  assumes "acquire_shm_fd os r = (res, r')"
  shows "via r r' \<and> held r' = (case res of None \<Rightarrow> held r | Some fd \<Rightarrow> plus_one fd (held r))"
proof -
  have "via r (snd (acquire_shm_fd os r))"
    by (rule via_step) (rule shm_acquire)
  moreover have "held r' = (case res of None \<Rightarrow> held r | Some fd \<Rightarrow> plus_one fd (held r))"
    using assms by (cases rule: acquire_cases [of os r]) (auto simp: plus_one_def)
  ultimately show ?thesis
    using assms by simp
qed

lemma reopen_effect:
  assumes "reopen_shm_header e r = (res, r')"
  shows "via r r' \<and> held r' = (case res of None \<Rightarrow> held r | Some parts \<Rightarrow> plus_one (fst parts) (held r))"
proof -
  obtain q r1 where a: "acquire_shm_fd (ro_os e) r = (q, r1)"
    by fastforce
  show ?thesis
  proof (cases q)
    case None
    then show ?thesis
      using assms a acquire_effect [OF a] by (auto simp: reopen_shm_header_def)
  next
    case (Some fd)
    then have r1: "via r r1" "held r1 = plus_one fd (held r)"
      using acquire_effect [OF a] by auto
    show ?thesis
      using assms a Some r1 via_drop [OF r1(2)]
      by (auto simp: reopen_shm_header_def split: option.splits intro: via_trans)
  qed
qed

lemma wait_effect:
  "wait_tries n env i r = (res, r') \<Longrightarrow>
     via r r' \<and> held r' = (case res of None \<Rightarrow> held r | Some parts \<Rightarrow> plus_one (fst parts) (held r))"
proof (induction n arbitrary: i r)
  case (Suc n)
  show ?case
  proof (cases "fst (env i)")
    case False
    obtain q r1 where a: "reopen_shm_header (snd (env i)) r = (q, r1)"
      by fastforce
    from reopen_effect [OF a] have r1: "via r r1" "held r1 = (case q of None \<Rightarrow> held r | Some parts \<Rightarrow> plus_one (fst parts) (held r))"
      by auto
    show ?thesis
    proof (cases q)
      case None
      with Suc.prems False a have "wait_tries n env (Suc i) r1 = (res, r')"
        by simp
      from Suc.IH [OF this] r1 None show ?thesis
        by (auto intro: via_trans split: option.splits)
    next
      case (Some parts)
      with Suc.prems False a r1 show ?thesis
        by auto
    qed
  qed (use Suc.prems in auto)
qed simp

lemma rebase_effect:
  assumes "reopen_shm_header e r = (Some parts, r1)" "held r = plus_one (sl_fd l) b"
  shows "via r (drop_fd (sl_fd l) r1) \<and> held (drop_fd (sl_fd l) r1) = plus_one (fst parts) b"
proof -
  have "via r r1" "held r1 = plus_one (sl_fd l) (plus_one (fst parts) b)"
    using reopen_effect [OF assms(1)] assms(2) by (auto simp: plus_one_swap)
  then show ?thesis
    using via_drop via_trans by blast
qed

lemma loop_simps [simp]:
  "sl_fd (shm_wake l) = sl_fd l" "sl_fd (rebase parts l) = fst parts" "sl_last (shm_wake l) = sl_last l"
  "sl_wakes (rebase parts l) = sl_wakes l" "sl_wakes (shm_wake l) = Suc (sl_wakes l)"
  by (simp_all add: shm_wake_def rebase_def split: prod.splits)

lemma check_effect:
  assumes "shm_check e l r = (res, r')" "held r = plus_one (sl_fd l) b"
  shows "via r r' \<and> held r' = plus_one (case res of None \<Rightarrow> sl_fd l | Some l' \<Rightarrow> sl_fd l') b"
proof -
  obtain q r1 where a: "reopen_shm_header (sr_reopen e) r = (q, r1)"
    by fastforce
  have "via r r1 \<and> held r1 = plus_one (sl_fd l) b" if "q = None"
    using reopen_effect [OF a] assms(2) that by simp
  moreover have "via r (drop_fd (sl_fd l) r1) \<and> held (drop_fd (sl_fd l) r1) = plus_one (fst parts) b" if "q = Some parts" for parts
    using rebase_effect [OF _ assms(2)] a that by blast
  ultimately show ?thesis
    using assms a
    by (cases q) (auto simp: shm_check_def Let_def split: if_splits option.splits)
qed

lemma round_effect:
  assumes "shm_round e l r = (res, r')" "held r = plus_one (sl_fd l) b"
  shows "via r r' \<and> held r' = plus_one (case res of None \<Rightarrow> sl_fd l | Some l' \<Rightarrow> sl_fd l') b"
proof (cases "read_wal_index_header (sr_content e)")
  case None
  obtain q r1 where a: "reopen_shm_header (sr_reopen e) r = (q, r1)"
    by fastforce
  then show ?thesis
    using assms None reopen_effect [OF a] rebase_effect [OF _ assms(2), of "sr_reopen e"]
    by (cases q) (auto simp: shm_round_def)
next
  case (Some h)
  let ?l = "if read_ichange_from_header h \<noteq> sl_last l then shm_wake (l\<lparr>sl_last := read_ichange_from_header h\<rparr>) else l"
  have l: "sl_fd ?l = sl_fd l"
    by simp
  have "shm_check e ?l r = (res, r')"
    using assms(1) Some by (simp add: shm_round_def Let_def)
  from check_effect [OF this, of b] assms(2) show ?thesis
    unfolding l .
qed

lemma rounds_effect:
  "shm_rounds es l r = (res, r') \<Longrightarrow> held r = plus_one (sl_fd l) b \<Longrightarrow>
     via r r' \<and> held r' = (case res of None \<Rightarrow> b | Some l' \<Rightarrow> plus_one (sl_fd l') b)"
proof (induction es arbitrary: l r)
  case (Cons e es)
  obtain q r1 where a: "shm_round e l r = (q, r1)"
    by fastforce
  note r1 = round_effect [OF a Cons.prems(2)]
  show ?case
  proof (cases q)
    case None
    with r1 have "via r r1" "held r1 = plus_one (sl_fd l) b"
      by auto
    with via_drop [OF this(2)] Cons.prems(1) a None show ?thesis
      by (auto intro: via_trans)
  next
    case (Some l1)
    with r1 have "via r r1" "held r1 = plus_one (sl_fd l1) b"
      by auto
    with Cons.IH [OF _ this(2)] Cons.prems(1) a Some show ?thesis
      by (auto intro: via_trans)
  qed
qed auto

text \<open>
  The loop uses descriptors only by acquiring and dropping them through the registry, and when it ends, by a stop, a panic or
  because it could not start, it has given back every reference it took.
\<close>

theorem shm_loop_gives_back:
  "(\<exists>evs. run shm_step r evs (snd (run_shm_fast_path_loop big_endian wait e0 es r)))
   \<and> held (snd (run_shm_fast_path_loop big_endian wait e0 es r)) = held r"
proof -
  obtain q r1 where w: "wait_tries 200 wait 0 r = (q, r1)"
    by fastforce
  note r1 = wait_effect [OF w]
  have "via r (snd (run_shm_fast_path_loop big_endian wait e0 es r)) \<and> held (snd (run_shm_fast_path_loop big_endian wait e0 es r)) = held r"
  proof (cases q)
    case None
    with w r1 show ?thesis
      by (simp add: run_shm_fast_path_loop_def wait_for_initial_shm_header_def)
  next
    case (Some parts)
    with r1 have r1: "via r r1" "held r1 = plus_one (fst parts) (held r)"
      by auto
    show ?thesis
    proof (cases "big_endian \<or> shm_start parts e0 = None")
      case True
      with w Some r1 via_drop [OF r1(2)] show ?thesis
        by (auto simp: run_shm_fast_path_loop_def wait_for_initial_shm_header_def intro: via_trans)
    next
      case False
      then obtain l where l: "shm_start parts e0 = Some l"
        by auto
      then have "sl_fd l = fst parts"
        by (auto simp: shm_start_def split: prod.splits if_splits)
      moreover obtain p r2 where p: "shm_rounds es l r1 = (p, r2)"
        by fastforce
      ultimately have r2: "via r1 r2" "held r2 = (case p of None \<Rightarrow> held r | Some l' \<Rightarrow> plus_one (sl_fd l') (held r))"
        using rounds_effect [OF p] r1(2) by auto
      show ?thesis
      proof (cases p)
        case None
        with False w Some l p r1 r2 show ?thesis
          by (auto simp: run_shm_fast_path_loop_def wait_for_initial_shm_header_def intro: via_trans)
      next
        case (Some l')
        with r2 have "via r2 (drop_fd (sl_fd l') r2) \<and> held (drop_fd (sl_fd l') r2) = held r"
          using via_drop by simp
        moreover have "run_shm_fast_path_loop big_endian wait e0 es r = (Some l', drop_fd (sl_fd l') r2)"
          using False w \<open>q = Some parts\<close> l p Some by (simp add: run_shm_fast_path_loop_def wait_for_initial_shm_header_def)
        ultimately show ?thesis
          using r1(1) r2(1) by (auto intro: via_trans)
      qed
    qed
  qed
  then show ?thesis
    by (simp add: via_def)
qed

section \<open>What a quiet round has seen\<close>

lemma check_wakes:
  assumes "shm_check e l r = (Some l', r')"
  shows "sl_wakes l \<le> sl_wakes l' \<and> (sl_wakes l' = sl_wakes l \<longrightarrow> sl_last l' = sl_last l)"
proof -
  obtain q r1 where "reopen_shm_header (sr_reopen e) r = (q, r1)"
    by fastforce
  then show ?thesis
    using assms by (cases q) (auto simp: shm_check_def Let_def split: if_splits option.splits)
qed

lemma round_wakes:
  assumes "shm_round e l r = (Some l', r')"
  shows "sl_wakes l \<le> sl_wakes l' \<and> (sl_wakes l' = sl_wakes l \<longrightarrow> sl_last l' = sl_last l
    \<and> (\<exists>h. read_wal_index_header (sr_content e) = Some h \<and> read_ichange_from_header h = sl_last l))"
proof (cases "read_wal_index_header (sr_content e)")
  case None
  obtain q r1 where "reopen_shm_header (sr_reopen e) r = (q, r1)"
    by fastforce
  then show ?thesis
    using assms None by (cases q) (auto simp: shm_round_def)
next
  case (Some h)
  then have "shm_check e (if read_ichange_from_header h \<noteq> sl_last l then shm_wake (l\<lparr>sl_last := read_ichange_from_header h\<rparr>) else l) r = (Some l', r')"
    using assms by (simp add: shm_round_def Let_def)
  from check_wakes [OF this] Some show ?thesis
    by (auto split: if_splits)
qed

text \<open>
  The loop passes over no change: if it ran for any number of rounds without a wake, it has read the change counter in each of
  them, and each time it was the one it started with. So a round that cannot read the counter, a file that was replaced and a
  new base all come with a wake.
\<close>

theorem shm_quiet_rounds_saw_no_change:
  assumes "shm_rounds es l r = (Some l', r')" "sl_wakes l' = sl_wakes l"
  shows "sl_last l' = sl_last l
    \<and> list_all (\<lambda>e. \<exists>h. read_wal_index_header (sr_content e) = Some h \<and> read_ichange_from_header h = sl_last l) es"
proof -
  have mono: "shm_rounds es l r = (Some l', r') \<Longrightarrow> sl_wakes l \<le> sl_wakes l'" for es l r
  proof (induction es arbitrary: l r)
    case (Cons e es)
    then obtain l1 r1 where a: "shm_round e l r = (Some l1, r1)" and "shm_rounds es l1 r1 = (Some l', r')"
      by (auto split: prod.splits option.splits)
    with Cons.IH [of l1 r1] round_wakes [OF a] show ?case
      by simp
  qed simp
  show ?thesis
    using assms
  proof (induction es arbitrary: l r)
    case (Cons e es)
    then obtain l1 r1 where a: "shm_round e l r = (Some l1, r1)" and b: "shm_rounds es l1 r1 = (Some l', r')"
      by (auto split: prod.splits option.splits)
    have same: "sl_wakes l1 = sl_wakes l"
      using round_wakes [OF a] mono [OF b] Cons.prems(2) by linarith
    with round_wakes [OF a] have "sl_last l1 = sl_last l" "\<exists>h. read_wal_index_header (sr_content e) = Some h \<and> read_ichange_from_header h = sl_last l"
      by auto
    with Cons.IH [OF b] Cons.prems(2) same show ?case
      by simp
  qed simp
qed

definition demo_header :: "8 word \<Rightarrow> 8 word list" where
  "demo_header n = [24, 226, 45, 0, 0, 0, 0, 0, n, 0, 0, 0, 99]"

definition demo_loop :: shm_loop where
  "demo_loop = \<lparr>sl_fd = 0, sl_last = 7, sl_shm_id = (1, 5), sl_db_id = (1, 4), sl_next_check = 100, sl_wakes = 0\<rparr>"

definition demo_shm_env :: "8 word \<Rightarrow> shm_env" where
  "demo_shm_env n = \<lparr>sr_content = Some (demo_header n), sr_reopen = \<lparr>ro_os = demo_os (1, 5) (\<lambda>_. Some 1), ro_content = None, ro_stat = None\<rparr>,
     sr_now = 150, sr_db = Some (1, 4), sr_shm = Some (1, 5)\<rparr>"

theorem shm_quiet_rounds_saw_no_change_witness:
  "\<exists>l' r'. shm_rounds [demo_shm_env 7, demo_shm_env 7] demo_loop demo_registry = (Some l', r') \<and> sl_last l' = 7
     \<and> sl_wakes l' = 0"
proof -
  have h: "read_ichange_from_header [24, 226, 45, 0, 0, 0, 0, 0, 7, 0, 0, 0] = 7"
    by code_simp
  define l' where "l' = demo_loop\<lparr>sl_next_check := 250\<rparr>"
  have "shm_rounds [demo_shm_env 7, demo_shm_env 7] demo_loop demo_registry = (Some l', demo_registry)"
    by (simp add: l'_def shm_round_def shm_check_def check_db_identity_def read_wal_index_header_def demo_shm_env_def demo_loop_def
        IDENTITY_CHECK_INTERVAL_def Let_def h demo_header_def)
  with shm_quiet_rounds_saw_no_change [OF this] show ?thesis
    by (auto simp: l'_def demo_loop_def)
qed

end
