(* ===== verification/Kernel.thy ===== *)
theory Kernel
  imports Shm "HOL-Library.AList"
begin

text \<open>
  The experimental backend of \<^verbatim>\<open>honker-core/src/kernel_watcher.rs\<close>: the loop over file system events of the crate \<^verbatim>\<open>notify\<close>, and the one
  over \<^verbatim>\<open>kqueue\<close> on macOS, which opens a descriptor for each file it watches. Paths are strings; the file system and the
  event source are arguments of each round.
\<close>

section \<open>Paths\<close>

text \<open>\<^verbatim>\<open>Path::parent\<close> of a path without doubled or trailing slashes.\<close>

definition parent :: "string \<Rightarrow> string option" where
  "parent s = (if s = [] \<or> s = ''/'' then None
     else (case dropWhile (\<lambda>c. c \<noteq> CHR ''/'') (rev s) of
         [] \<Rightarrow> Some []
       | [_] \<Rightarrow> Some ''/''
       | _ # r \<Rightarrow> Some (rev r)))"

text \<open>The directory to watch: \<open>unwrap_or\<close> in the loop over \<^verbatim>\<open>notify\<close>, a \<open>match\<close> on macOS.\<close>

definition notify_dir :: "string \<Rightarrow> string" where
  "notify_dir db_path = (case parent db_path of None \<Rightarrow> ''.'' | Some p \<Rightarrow> p)"

definition watch_dir :: "string \<Rightarrow> string" where
  "watch_dir db_path = (case parent db_path of Some p \<Rightarrow> if p \<noteq> [] then p else ''.'' | None \<Rightarrow> ''.'')"

section \<open>The loop over \<^verbatim>\<open>notify\<close>\<close>

definition notify_watch_targets :: "bool \<Rightarrow> string \<Rightarrow> string list" where
  "notify_watch_targets kqueue_platform db_path =
     (if kqueue_platform then [notify_dir db_path, db_path @ ''-wal'', db_path @ ''-journal'']
      else [notify_dir db_path, db_path, db_path @ ''-wal'', db_path @ ''-shm'', db_path @ ''-journal''])"

definition attach_watch :: "(string \<Rightarrow> bool) \<Rightarrow> string \<Rightarrow> string list \<Rightarrow> bool \<times> string list" where
  "attach_watch watch_ok path watched =
     (if path \<in> set watched then (False, watched)
      else if watch_ok path then (True, path # watched)
      else (False, watched))"

fun attach_all :: "(string \<Rightarrow> bool) \<Rightarrow> string list \<Rightarrow> string list \<Rightarrow> nat \<times> string list" where
  "attach_all ok [] watched = (0, watched)"
| "attach_all ok (p # ps) watched = (case attach_watch ok p watched of (new, w1) \<Rightarrow>
     (case attach_all ok ps w1 of (n, w2) \<Rightarrow> ((if new then Suc n else n), w2)))"

datatype notify_event = Event | EventError | Timeout | Disconnect

record kernel_env =
  ke_event :: notify_event
  ke_watch :: "string \<Rightarrow> bool"
  ke_now :: int
  ke_db :: "identity option"

record kernel_loop =
  kl_watched :: "string list"
  kl_db_id :: identity
  kl_last_check :: int
  kl_wakes :: nat

definition IDENTITY_CHECK_MS :: int where
  "IDENTITY_CHECK_MS = 100"

definition kernel_wake :: "kernel_loop \<Rightarrow> kernel_loop" where
  "kernel_wake k = k\<lparr>kl_wakes := kl_wakes k + 1\<rparr>"

definition reattach :: "string list \<Rightarrow> kernel_env \<Rightarrow> kernel_loop \<Rightarrow> kernel_loop" where
  "reattach targets e k = k\<lparr>kl_watched := snd (attach_all (ke_watch e) targets (kl_watched k))\<rparr>"

text \<open>How a round ends: the loop goes on, the event source is gone, or the thread panics on a replaced database.\<close>

datatype 'k round = Goes 'k | Breaks 'k | Dies

definition kernel_check :: "string list \<Rightarrow> kernel_env \<Rightarrow> kernel_loop \<Rightarrow> kernel_loop round" where
  "kernel_check targets e k =
     (if ke_now e - kl_last_check k \<ge> IDENTITY_CHECK_MS then
        (let k = reattach targets e k in
         case check_db_identity (ke_db e) (kl_db_id k) of
           None \<Rightarrow> Dies
         | Some err \<Rightarrow> Goes ((if err then kernel_wake k else k)\<lparr>kl_last_check := ke_now e\<rparr>))
      else Goes k)"

definition kernel_round :: "string list \<Rightarrow> kernel_env \<Rightarrow> kernel_loop \<Rightarrow> kernel_loop round" where
  "kernel_round targets e k = (case ke_event e of
       Event \<Rightarrow> kernel_check targets e (kernel_wake (reattach targets e k))
     | EventError \<Rightarrow> kernel_check targets e (kernel_wake k)
     | Timeout \<Rightarrow> kernel_check targets e k
     | Disconnect \<Rightarrow> Breaks k)"

fun kernel_rounds :: "string list \<Rightarrow> kernel_env list \<Rightarrow> kernel_loop \<Rightarrow> kernel_loop round" where
  "kernel_rounds targets [] k = Goes k"
| "kernel_rounds targets (e # es) k = (case kernel_round targets e k of
       Goes k1 \<Rightarrow> kernel_rounds targets es k1
     | Breaks k1 \<Rightarrow> Breaks k1
     | Dies \<Rightarrow> Dies)"

text \<open>\<open>None\<close>: the backend is disabled because nothing could be attached, or the crate failed to start.\<close>

definition run_notify_loop :: "bool \<Rightarrow> bool \<Rightarrow> string \<Rightarrow> kernel_env \<Rightarrow> kernel_env list \<Rightarrow> kernel_loop round option" where
  "run_notify_loop kqueue_platform init_ok db_path e0 es =
     (if \<not> init_ok then None
      else (let targets = notify_watch_targets kqueue_platform db_path in
        case attach_all (ke_watch e0) targets [] of (attached, watched) \<Rightarrow>
          if attached = 0 then None
          else Some (kernel_rounds targets es
            \<lparr>kl_watched = watched, kl_db_id = (case ke_db e0 of None \<Rightarrow> (0, 0) | Some i \<Rightarrow> i),
             kl_last_check = ke_now e0, kl_wakes = 0\<rparr>)))"

definition probe_notify :: "bool \<Rightarrow> (string \<Rightarrow> bool) \<Rightarrow> string \<Rightarrow> bool" where
  "probe_notify init_ok watch_ok db_path \<longleftrightarrow> init_ok \<and> watch_ok (notify_dir db_path)"

section \<open>The loop over \<^verbatim>\<open>kqueue\<close>\<close>

definition candidate_paths :: "string \<Rightarrow> string list" where
  "candidate_paths db_path = [watch_dir db_path, db_path @ ''-wal'', db_path @ ''-journal'']"

text \<open>
  The descriptors of the process: those on a path the loop watches, the one of the loop's \<^verbatim>\<open>kqueue\<close>, and those of everyone else, such as
  SQLite. \<^verbatim>\<open>open\<close> and \<^verbatim>\<open>kqueue\<close> return the lowest number that is not in use.
\<close>

datatype fd_owner = OnPath string | OnQueue | Foreign

type_synonym fd_table = "(nat \<times> fd_owner) list"

definition lowest_fd :: "fd_table \<Rightarrow> nat" where
  "lowest_fd t = hd (filter (\<lambda>n. n \<notin> fst ` set t) [0..<Suc (length t)])"

text \<open>What other threads do with descriptors: they open one, or close one of their own.\<close>

datatype fd_move = ForeignOpen | ForeignClose nat

fun foreign_move :: "fd_move \<Rightarrow> fd_table \<Rightarrow> fd_table" where
  "foreign_move ForeignOpen t = (lowest_fd t, Foreign) # t"
| "foreign_move (ForeignClose fd) t = (if map_of t fd = Some Foreign then AList.delete fd t else t)"

text \<open>
  The loop: its \<^verbatim>\<open>kqueue\<close>, the table, the descriptors on which events are registered, the watched paths, and for every \<^verbatim>\<open>close\<close> the loop has called
  the number and what it was open on, if anything.
\<close>

record kqueue_loop =
  kq_fd :: "nat option"
  kq_fds :: fd_table
  kq_knotes :: "nat list"
  kq_watched :: "(string \<times> nat) list"
  kq_closed :: "(nat \<times> fd_owner option) list"
  kq_db_id :: identity
  kq_last_check :: int
  kq_wakes :: nat

text \<open>An event carries the descriptor it is for and whether one of the flags delete, rename or revoke is set.\<close>

datatype kq_wait = KEvent nat bool | KNothing | KError

text \<open>What a round meets: its event, which calls succeed, the clock, the identity of the file and what other threads did.\<close>

record kqueue_env =
  kq_wait :: kq_wait
  kq_exists :: "string \<Rightarrow> bool"
  kq_open :: "string \<Rightarrow> bool"
  kq_add :: "string \<Rightarrow> bool"
  kq_now :: int
  kq_db :: "identity option"
  kq_foreign :: "fd_move list"

text \<open>\<^verbatim>\<open>libc::close\<close>: the number is free again, and the kernel forgets the events registered on it.\<close>

definition close_fd :: "nat \<Rightarrow> kqueue_loop \<Rightarrow> kqueue_loop" where
  "close_fd fd k = k\<lparr>kq_fds := AList.delete fd (kq_fds k), kq_knotes := filter (\<lambda>n. n \<noteq> fd) (kq_knotes k),
     kq_closed := (fd, map_of (kq_fds k) fd) # kq_closed k\<rparr>"

definition kqueue_new :: "bool \<Rightarrow> kqueue_loop \<Rightarrow> kqueue_loop option" where
  "kqueue_new init_ok k = (if init_ok then (let fd = lowest_fd (kq_fds k) in
     Some (k\<lparr>kq_fd := Some fd, kq_fds := (fd, OnQueue) # kq_fds k\<rparr>)) else None)"

definition kqueue_drop :: "kqueue_loop \<Rightarrow> kqueue_loop" where
  "kqueue_drop k = (case kq_fd k of None \<Rightarrow> k | Some fd \<Rightarrow> close_fd fd (k\<lparr>kq_fd := None\<rparr>))"

text \<open>A path with a NUL byte has no \<^verbatim>\<open>CString\<close>.\<close>

definition open_event_fd :: "kqueue_env \<Rightarrow> string \<Rightarrow> kqueue_loop \<Rightarrow> nat option \<times> kqueue_loop" where
  "open_event_fd e path k =
     (if CHR 0x00 \<in> set path \<or> \<not> kq_open e path then (None, k)
      else (let fd = lowest_fd (kq_fds k) in (Some fd, k\<lparr>kq_fds := (fd, OnPath path) # kq_fds k\<rparr>)))"

definition add_vnode :: "bool \<Rightarrow> nat \<Rightarrow> kqueue_loop \<Rightarrow> kqueue_loop option" where
  "add_vnode ok fd k = (if ok then Some (k\<lparr>kq_knotes := fd # kq_knotes k\<rparr>) else None)"

definition attach_path :: "kqueue_env \<Rightarrow> string \<Rightarrow> kqueue_loop \<Rightarrow> bool \<times> kqueue_loop" where
  "attach_path e path k =
     (if path \<in> fst ` set (kq_watched k) then (False, k)
      else (case open_event_fd e path k of
          (None, k1) \<Rightarrow> (False, k1)
        | (Some fd, k1) \<Rightarrow>
            (case add_vnode (kq_add e path) fd k1 of
               None \<Rightarrow> (False, close_fd fd k1)
             | Some k2 \<Rightarrow> (True, k2\<lparr>kq_watched := kq_watched k2 @ [(path, fd)]\<rparr>))))"

fun attach_paths :: "kqueue_env \<Rightarrow> string list \<Rightarrow> kqueue_loop \<Rightarrow> nat \<times> kqueue_loop" where
  "attach_paths e [] k = (0, k)"
| "attach_paths e (p # ps) k =
     (if kq_exists e p then
        (case attach_path e p k of (new, k1) \<Rightarrow>
           (case attach_paths e ps k1 of (n, k2) \<Rightarrow> ((if new then Suc n else n), k2)))
      else attach_paths e ps k)"

definition attach_existing :: "kqueue_env \<Rightarrow> string \<Rightarrow> kqueue_loop \<Rightarrow> nat \<times> kqueue_loop" where
  "attach_existing e db_path k = attach_paths e (candidate_paths db_path) k"

text \<open>Dropping a \<^verbatim>\<open>WatchedPath\<close> closes its descriptor; \<^verbatim>\<open>retain\<close> drops the elements it removes.\<close>

definition drop_watched :: "(string \<times> nat \<Rightarrow> bool) \<Rightarrow> kqueue_loop \<Rightarrow> kqueue_loop" where
  "drop_watched P k = fold (\<lambda>(p, fd). close_fd fd) (filter P (kq_watched k)) (k\<lparr>kq_watched := filter (\<lambda>w. \<not> P w) (kq_watched k)\<rparr>)"

definition prune_deleted :: "nat \<Rightarrow> bool \<Rightarrow> kqueue_loop \<Rightarrow> kqueue_loop" where
  "prune_deleted ident deleted k = (if \<not> deleted then k else drop_watched (\<lambda>(p, fd). fd = ident) k)"

definition kqueue_wake :: "kqueue_loop \<Rightarrow> kqueue_loop" where
  "kqueue_wake k = k\<lparr>kq_wakes := kq_wakes k + 1\<rparr>"

text \<open>Leaving the function drops what is watched and then the \<^verbatim>\<open>kqueue\<close>.\<close>

definition close_watched :: "kqueue_loop \<Rightarrow> kqueue_loop" where
  "close_watched k = kqueue_drop (drop_watched (\<lambda>_. True) k)"

definition kqueue_event :: "kqueue_env \<Rightarrow> string \<Rightarrow> kqueue_loop \<Rightarrow> kqueue_loop" where
  "kqueue_event e db_path k = (case kq_wait e of
       KEvent ident deleted \<Rightarrow> kqueue_wake (snd (attach_existing e db_path (prune_deleted ident deleted k)))
     | KNothing \<Rightarrow> snd (attach_existing e db_path k)
     | KError \<Rightarrow> kqueue_wake k)"

definition kqueue_check :: "kqueue_env \<Rightarrow> kqueue_loop \<Rightarrow> kqueue_loop option" where
  "kqueue_check e k =
     (if kq_now e - kq_last_check k \<ge> IDENTITY_CHECK_MS then
        (case check_db_identity (kq_db e) (kq_db_id k) of
           None \<Rightarrow> None
         | Some err \<Rightarrow> Some ((if err then kqueue_wake k else k)\<lparr>kq_last_check := kq_now e\<rparr>))
      else Some k)"

definition foreign_moves :: "kqueue_env \<Rightarrow> kqueue_loop \<Rightarrow> kqueue_loop" where
  "foreign_moves e k = k\<lparr>kq_fds := fold foreign_move (kq_foreign e) (kq_fds k)\<rparr>"

text \<open>The state of the loop when it ends, by \<open>stop\<close> or by a panic, which drops what is watched too.\<close>

fun kqueue_rounds :: "string \<Rightarrow> kqueue_env list \<Rightarrow> kqueue_loop \<Rightarrow> kqueue_loop" where
  "kqueue_rounds db_path [] k = close_watched k"
| "kqueue_rounds db_path (e # es) k = (let k0 = kqueue_event e db_path (foreign_moves e k) in
     case kqueue_check e k0 of
       None \<Rightarrow> close_watched k0
     | Some k1 \<Rightarrow> kqueue_rounds db_path es k1)"

definition kqueue_idle :: "fd_table \<Rightarrow> kqueue_env \<Rightarrow> kqueue_loop" where
  "kqueue_idle t e0 = \<lparr>kq_fd = None, kq_fds = t, kq_knotes = [], kq_watched = [], kq_closed = [],
     kq_db_id = (case kq_db e0 of None \<Rightarrow> (0, 0) | Some i \<Rightarrow> i), kq_last_check = kq_now e0, kq_wakes = 0\<rparr>"

definition run_kqueue_loop :: "bool \<Rightarrow> string \<Rightarrow> fd_table \<Rightarrow> kqueue_env \<Rightarrow> kqueue_env list \<Rightarrow> kqueue_loop" where
  "run_kqueue_loop init_ok db_path t e0 es =
     (case kqueue_new init_ok (kqueue_idle t e0) of
        None \<Rightarrow> kqueue_idle t e0
      | Some k0 \<Rightarrow>
          (case attach_existing e0 db_path k0 of (attached, k) \<Rightarrow>
             if attached = 0 then close_watched k else kqueue_rounds db_path es k))"

text \<open>The probe on macOS: what it answers, and the descriptors after it.\<close>

definition probe_kqueue :: "bool \<Rightarrow> fd_table \<Rightarrow> kqueue_env \<Rightarrow> string \<Rightarrow> bool \<times> kqueue_loop" where
  "probe_kqueue init_ok t e db_path =
     (case kqueue_new init_ok (kqueue_idle t e) of
        None \<Rightarrow> (False, kqueue_idle t e)
      | Some k0 \<Rightarrow>
          (case open_event_fd e (watch_dir db_path) k0 of
             (None, k1) \<Rightarrow> (False, kqueue_drop k1)
           | (Some dir_fd, k1) \<Rightarrow>
               (case add_vnode (kq_add e (watch_dir db_path)) dir_fd k1 of
                  None \<Rightarrow> (False, kqueue_drop (close_fd dir_fd k1))
                | Some k2 \<Rightarrow> (True, kqueue_drop (close_fd dir_fd k2)))))"

end
