(* ===== verification/Kernel_Thms.thy ===== *)
theory Kernel_Thms
  imports Kernel
begin

text \<open>
  The kernel backends: no event passes without a wake, the descriptors of the \<^verbatim>\<open>kqueue\<close> loop are never on a file that carries
  SQLite's locks, and where the two ways to find the directory of a database differ.
\<close>

section \<open>Wakes\<close>

lemma reattach_wakes [simp]: "kl_wakes (reattach targets e k) = kl_wakes k"
  by (simp add: reattach_def)

lemma kernel_wake_wakes [simp]: "kl_wakes (kernel_wake k) = Suc (kl_wakes k)"
  by (simp add: kernel_wake_def)

lemma kernel_check_wakes: "kernel_check targets e k = Goes k' \<Longrightarrow> kl_wakes k \<le> kl_wakes k'"
  by (auto simp: kernel_check_def Let_def split: if_splits option.splits)

definition is_event :: "kernel_env \<Rightarrow> bool" where
  "is_event e \<longleftrightarrow> ke_event e = Event \<or> ke_event e = EventError"

lemma kernel_round_wakes:
  assumes "kernel_round targets e k = Goes k'"
  shows "kl_wakes k + (if is_event e then 1 else 0) \<le> kl_wakes k'"
  using assms by (auto simp: kernel_round_def is_event_def split: notify_event.splits dest!: kernel_check_wakes)

text \<open>Every event the loop received was announced.\<close>

lemma kernel_events_wake:
  "kernel_rounds targets es k = Goes k' \<Longrightarrow> kl_wakes k + length (filter is_event es) \<le> kl_wakes k'"
proof (induction es arbitrary: k)
  case (Cons e es)
  then obtain k1 where k1: "kernel_round targets e k = Goes k1" "kernel_rounds targets es k1 = Goes k'"
    by (auto split: round.splits)
  with kernel_round_wakes [OF k1(1)] Cons.IH [OF k1(2)] show ?case
    by auto
qed simp

section \<open>Descriptors\<close>

lemma parent_shorter: "parent s = Some p \<Longrightarrow> length p < length s \<or> p = ''/''"
proof -
  assume p: "parent s = Some p"
  have "length (dropWhile (\<lambda>c. c \<noteq> CHR ''/'') (rev s)) \<le> length s"
    by (metis length_dropWhile_le length_rev)
  with p show ?thesis
    by (auto simp: parent_def split: if_splits list.splits)
qed

lemma parent_root: "parent s = Some ''/'' \<Longrightarrow> s \<noteq> ''/''"
  by (auto simp: parent_def)

lemma watch_dir_not_db: "s \<noteq> ''.'' \<Longrightarrow> watch_dir s \<noteq> s"
  using parent_shorter [of s] parent_root [of s] by (auto simp: watch_dir_def split: option.splits if_splits)

lemma watch_dir_not_shm: "watch_dir s \<noteq> s @ ''-shm''"
proof
  assume eq: "watch_dir s = s @ ''-shm''"
  then have len: "length (watch_dir s) = length s + 4"
    by simp
  show False
    using parent_shorter [of s] len by (auto simp: watch_dir_def split: option.splits if_splits)
qed

text \<open>The paths on which a descriptor of the loop is open or has been closed.\<close>

definition touched :: "kqueue_loop \<Rightarrow> string set" where
  "touched k = {p. OnPath p \<in> snd ` set (kq_fds k)} \<union> {p. Some (OnPath p) \<in> snd ` set (kq_closed k)}"

lemma touched_wake [simp]: "touched (kqueue_wake k) = touched k"
  by (simp add: touched_def kqueue_wake_def)

lemma map_of_snd: "map_of t x = Some h \<Longrightarrow> h \<in> snd ` set t"
  by (metis map_of_SomeD image_eqI snd_conv)

lemma delete_snd: "snd ` set (AList.delete x t) \<subseteq> snd ` set t"
  by (auto simp: AList.delete_eq)

lemma touched_close: "touched (close_fd fd k) \<subseteq> touched k"
  using map_of_snd [of "kq_fds k" fd] delete_snd [of fd "kq_fds k"]
  unfolding touched_def close_fd_def by auto

lemma touched_new: "kqueue_new ok k = Some k' \<Longrightarrow> touched k' = touched k"
  by (auto simp: kqueue_new_def touched_def Let_def split: if_splits)

lemma touched_queue [simp]: "touched (k\<lparr>kq_fd := x\<rparr>) = touched k"
  by (simp add: touched_def)

lemma touched_drop: "touched (kqueue_drop k) \<subseteq> touched k"
  using touched_close [of _ "k\<lparr>kq_fd := None\<rparr>"] by (auto simp: kqueue_drop_def split: option.splits)

lemma touched_fold_close: "touched (fold (\<lambda>(p, fd). close_fd fd) ws k) \<subseteq> touched k"
proof (induction ws arbitrary: k)
  case (Cons w ws)
  show ?case
    using Cons.IH [of "close_fd (snd w) k"] touched_close [of "snd w" k] by (auto simp: case_prod_beta)
qed simp

lemma touched_drop_watched: "touched (drop_watched P k) \<subseteq> touched k"
  using touched_fold_close [of "filter P (kq_watched k)" "k\<lparr>kq_watched := filter (\<lambda>w. \<not> P w) (kq_watched k)\<rparr>"]
  by (auto simp: drop_watched_def touched_def)

lemma touched_close_watched: "touched (close_watched k) \<subseteq> touched k"
  using touched_drop touched_drop_watched unfolding close_watched_def by blast

lemma touched_open: "open_event_fd e p k = (r, k') \<Longrightarrow> touched k' \<subseteq> insert p (touched k)"
  by (auto simp: open_event_fd_def touched_def Let_def split: if_splits)

lemma touched_add: "add_vnode ok fd k = Some k' \<Longrightarrow> touched k' = touched k"
  by (auto simp: add_vnode_def touched_def split: if_splits)

lemma touched_watched [simp]: "touched (k\<lparr>kq_watched := ws\<rparr>) = touched k"
  by (simp add: touched_def)

lemma touched_attach: "touched (snd (attach_path e p k)) \<subseteq> insert p (touched k)"
proof -
  obtain r k1 where k1: "open_event_fd e p k = (r, k1)"
    by fastforce
  show ?thesis
    using touched_open [OF k1] touched_close [of _ k1] touched_add [of _ _ k1]
    by (auto simp: attach_path_def k1 split: option.splits)
qed

lemma touched_attach_paths: "touched (snd (attach_paths e ps k)) \<subseteq> set ps \<union> touched k"
proof (induction ps arbitrary: k)
  case (Cons p ps)
  show ?case
    using touched_attach [of e p k] Cons.IH [of "snd (attach_path e p k)"] Cons.IH [of k]
    by (auto split: prod.splits)
qed simp

lemma touched_prune: "touched (prune_deleted i d k) \<subseteq> touched k"
  using touched_drop_watched by (auto simp: prune_deleted_def)

lemma foreign_move_paths: "OnPath p \<in> snd ` set (fold foreign_move ms t) \<Longrightarrow> OnPath p \<in> snd ` set t"
proof (induction ms arbitrary: t)
  case (Cons m ms)
  then have "OnPath p \<in> snd ` set (foreign_move m t)"
    by simp
  then show ?case
    by (cases m) (auto simp: AList.delete_eq split: if_splits)
qed simp

lemma touched_foreign: "touched (foreign_moves e k) \<subseteq> touched k"
  using foreign_move_paths [of _ "kq_foreign e" "kq_fds k"] unfolding foreign_moves_def touched_def by auto

lemma touched_event: "touched (kqueue_event e db k) \<subseteq> set (candidate_paths db) \<union> touched k"
  using touched_attach_paths [of e "candidate_paths db"] touched_prune
  by (fastforce simp: kqueue_event_def attach_existing_def split: kq_wait.splits)

lemma touched_check: "kqueue_check e k = Some k' \<Longrightarrow> touched k' = touched k"
  by (auto simp: kqueue_check_def touched_def kqueue_wake_def split: if_splits option.splits)

lemma touched_rounds: "touched (kqueue_rounds db es k) \<subseteq> set (candidate_paths db) \<union> touched k"
proof (induction es arbitrary: k)
  case Nil
  show ?case
    using touched_close_watched by auto
next
  case (Cons e es)
  define k0 where "k0 = kqueue_event e db (foreign_moves e k)"
  have k0: "touched k0 \<subseteq> set (candidate_paths db) \<union> touched k"
    using touched_event [of e db "foreign_moves e k"] touched_foreign [of e k] by (auto simp: k0_def)
  show ?case
  proof (cases "kqueue_check e k0")
    case None
    then show ?thesis
      using k0 touched_close_watched [of k0] by (auto simp: k0_def Let_def)
  next
    case (Some k1)
    then show ?thesis
      using k0 touched_check [OF Some] Cons.IH [of k1] by (auto simp: k0_def Let_def)
  qed
qed

text \<open>The process before the loop starts: all its descriptors belong to others.\<close>

definition foreign_table :: "nat list \<Rightarrow> fd_table" where
  "foreign_table ns = map (\<lambda>n. (n, Foreign)) ns"

lemma touched_idle [simp]: "touched (kqueue_idle (foreign_table ns) e) = {}"
  by (auto simp: touched_def kqueue_idle_def foreign_table_def)

lemma touched_run: "touched (run_kqueue_loop init_ok db (foreign_table ns) e0 es) \<subseteq> set (candidate_paths db)"
proof (cases "kqueue_new init_ok (kqueue_idle (foreign_table ns) e0)")
  case (Some k0)
  obtain n k where k: "attach_existing e0 db k0 = (n, k)"
    by fastforce
  have "touched k \<subseteq> set (candidate_paths db)"
    using touched_attach_paths [of e0 "candidate_paths db" k0] touched_new [OF Some] k by (simp add: attach_existing_def)
  then show ?thesis
    using touched_rounds [of db es k] touched_close_watched [of k] k Some by (auto simp: run_kqueue_loop_def)
qed (simp add: run_kqueue_loop_def)

lemma touched_probe: "touched (snd (probe_kqueue init_ok (foreign_table ns) e db)) \<subseteq> {watch_dir db}"
proof (cases "kqueue_new init_ok (kqueue_idle (foreign_table ns) e)")
  case (Some k0)
  obtain r k1 where k1: "open_event_fd e (watch_dir db) k0 = (r, k1)"
    by fastforce
  have "touched k1 \<subseteq> {watch_dir db}"
    using touched_open [OF k1] touched_new [OF Some] by simp
  then show ?thesis
    using k1 Some touched_drop touched_close touched_add [of _ _ k1]
    by (auto simp: probe_kqueue_def split: option.splits) blast+
qed (simp add: probe_kqueue_def)

text \<open>
  C15. The loop over \<^verbatim>\<open>kqueue\<close> and its probe open and close descriptors on the directory, the \<open>-wal\<close> and the \<open>-journal\<close> file only: never on the
  database or its \<open>-shm\<close> file, where closing one would drop the locks of every SQLite connection of the process. This holds for every
  sequence of events and failures, also when the loop panics.
\<close>

theorem kqueue_spares_lock_files:
  assumes "db \<noteq> ''.''"
  shows "db \<notin> touched (run_kqueue_loop init_ok db (foreign_table ns) e0 es)
    \<and> db @ ''-shm'' \<notin> touched (run_kqueue_loop init_ok db (foreign_table ns) e0 es)
    \<and> db \<notin> touched (snd (probe_kqueue init_ok (foreign_table ns) e0 db))
    \<and> db @ ''-shm'' \<notin> touched (snd (probe_kqueue init_ok (foreign_table ns) e0 db))"
proof -
  have "db \<notin> set (candidate_paths db)" "db @ ''-shm'' \<notin> set (candidate_paths db)"
    using watch_dir_not_db [OF assms] watch_dir_not_shm [of db] by (auto simp: candidate_paths_def)
  moreover have "watch_dir db \<in> set (candidate_paths db)"
    by (simp add: candidate_paths_def)
  ultimately show ?thesis
    using touched_run [of init_ok db ns e0 es] touched_probe [of init_ok ns e0 db] by auto
qed

definition demo_kq :: "kq_wait \<Rightarrow> kqueue_env" where
  "demo_kq w = \<lparr>kq_wait = w, kq_exists = (\<lambda>_. True), kq_open = (\<lambda>_. True), kq_add = (\<lambda>_. True), kq_now = 0, kq_db = Some (1, 2),
     kq_foreign = [ForeignClose 1, ForeignOpen]\<rparr>"

theorem kqueue_spares_lock_files_witness:
  "''d/a.db-wal'' \<in> touched (run_kqueue_loop True ''d/a.db'' (foreign_table [0, 1, 2]) (demo_kq KNothing) [demo_kq (KEvent 5 True)])
   \<and> ''d/a.db'' \<notin> touched (run_kqueue_loop True ''d/a.db'' (foreign_table [0, 1, 2]) (demo_kq KNothing) [demo_kq (KEvent 5 True)])"
proof -
  have "''d/a.db-wal'' \<in> touched (run_kqueue_loop True ''d/a.db'' (foreign_table [0, 1, 2]) (demo_kq KNothing) [demo_kq (KEvent 5 True)])"
    unfolding touched_def Un_iff mem_Collect_eq by code_simp
  moreover have "''d/a.db'' \<noteq> ''.''"
    by simp
  ultimately show ?thesis
    using kqueue_spares_lock_files [of "''d/a.db''"] by blast
qed

section \<open>No descriptor is lost\<close>

lemma lowest_fd_free: "map_of t (lowest_fd t) = None"
proof -
  have "\<not> {0..<Suc (length t)} \<subseteq> fst ` set t"
  proof
    assume "{0..<Suc (length t)} \<subseteq> fst ` set t"
    then have "Suc (length t) \<le> card (fst ` set t)"
      using card_mono [of "fst ` set t" "{0..<Suc (length t)}"] by simp
    also have "\<dots> \<le> length t"
      by (metis card_length length_map list.set_map)
    finally show False
      by simp
  qed
  then have "filter (\<lambda>n. n \<notin> fst ` set t) [0..<Suc (length t)] \<noteq> []"
    unfolding filter_empty_conv by (metis atLeastLessThan_upt subsetI)
  from hd_in_set [OF this] have "lowest_fd t \<notin> fst ` set t"
    unfolding lowest_fd_def set_filter mem_Collect_eq by (rule conjunct2)
  then show ?thesis
    by (simp add: map_of_eq_None_iff)
qed

text \<open>
  The descriptors on paths are exactly those of \<open>ws\<close>, each with its events registered, the one on a queue is the loop's, and no call
  of \<open>close\<close> met a number that was free or belonged to someone else.
\<close>

definition fds_ok :: "(string \<times> nat) list \<Rightarrow> kqueue_loop \<Rightarrow> bool" where
  "fds_ok ws k \<longleftrightarrow> distinct (map snd ws)
     \<and> (\<forall>p fd. map_of (kq_fds k) fd = Some (OnPath p) \<longleftrightarrow> (p, fd) \<in> set ws)
     \<and> (\<forall>fd. map_of (kq_fds k) fd = Some OnQueue \<longleftrightarrow> kq_fd k = Some fd)
     \<and> set (kq_knotes k) = snd ` set ws
     \<and> (\<forall>h \<in> snd ` set (kq_closed k). h \<noteq> None \<and> h \<noteq> Some Foreign)"

lemma fds_ok_reorder: "fds_ok ws k \<Longrightarrow> set ws' = set ws \<Longrightarrow> distinct (map snd ws') \<Longrightarrow> fds_ok ws' k"
  by (simp add: fds_ok_def)

lemma fds_ok_other_fields [simp]:
  "fds_ok ws (k\<lparr>kq_watched := x\<rparr>) = fds_ok ws k" "fds_ok ws (kqueue_wake k) = fds_ok ws k" "fds_ok ws (k\<lparr>kq_last_check := n\<rparr>) = fds_ok ws k"
  by (simp_all add: fds_ok_def kqueue_wake_def)

lemma fds_ok_path: "fds_ok ws k \<Longrightarrow> map_of (kq_fds k) fd = Some (OnPath p) \<longleftrightarrow> (p, fd) \<in> set ws"
  by (simp add: fds_ok_def)

lemma fds_ok_queue: "fds_ok ws k \<Longrightarrow> map_of (kq_fds k) fd = Some OnQueue \<longleftrightarrow> kq_fd k = Some fd"
  by (simp add: fds_ok_def)

lemma fds_ok_apart: "fds_ok ws k \<Longrightarrow> kq_fd k = Some fd \<Longrightarrow> (p, fd) \<notin> set ws"
  using fds_ok_path [of ws k fd p] fds_ok_queue [of ws k fd] by simp

text \<open>Closing one of the loop's own descriptors, of a path or of the queue.\<close>

lemma fds_ok_closing:
  assumes "fds_ok vs k" "map_of (kq_fds k) fd = Some h" "h \<noteq> Foreign"
    and "distinct (map snd ws)" "\<And>p n. (p, n) \<in> set ws \<longleftrightarrow> (p, n) \<in> set vs \<and> n \<noteq> fd" "kq_fd k' = (if kq_fd k = Some fd then None else kq_fd k)"
    and "kq_fds k' = kq_fds k" "kq_knotes k' = kq_knotes k" "kq_closed k' = kq_closed k"
  shows "fds_ok ws (close_fd fd k')"
  unfolding fds_ok_def
proof (intro conjI allI)
  have "set (kq_knotes k) = snd ` set vs"
    using assms(1) by (simp add: fds_ok_def)
  then show "set (kq_knotes (close_fd fd k')) = snd ` set ws"
    using assms(5,8) by (force simp: close_fd_def)
  show "\<forall>h \<in> snd ` set (kq_closed (close_fd fd k')). h \<noteq> None \<and> h \<noteq> Some Foreign"
    using assms(1,2,3,7,9) by (simp add: close_fd_def fds_ok_def)
qed (use assms fds_ok_path [OF assms(1)] fds_ok_queue [OF assms(1)] in \<open>auto simp: close_fd_def AList.delete_conv\<close>)

lemma fds_ok_close:
  assumes "fds_ok ((p, fd) # ws) k"
  shows "fds_ok ws (close_fd fd k)"
proof (rule fds_ok_closing [OF assms])
  have d: "distinct (map snd ((p, fd) # ws))"
    using assms by (simp add: fds_ok_def)
  then show "distinct (map snd ws)"
    by simp
  show "(q, n) \<in> set ws \<longleftrightarrow> (q, n) \<in> set ((p, fd) # ws) \<and> n \<noteq> fd" for q n
    using d by force
  show "map_of (kq_fds k) fd = Some (OnPath p)"
    using fds_ok_path [OF assms] by simp
  show "kq_fd k = (if kq_fd k = Some fd then None else kq_fd k)"
    using fds_ok_apart [OF assms] by auto
qed simp_all

lemma fds_ok_fold_close: "fds_ok (vs @ ws) k \<Longrightarrow> fds_ok ws (fold (\<lambda>(p, fd). close_fd fd) vs k)"
  by (induction vs arbitrary: k) (auto dest: fds_ok_close)

lemma watched_fold_close [simp]: "kq_watched (fold (\<lambda>(p, fd). close_fd fd) vs k) = kq_watched k"
  by (induction vs arbitrary: k) (auto simp: close_fd_def)

definition loop_ok :: "kqueue_loop \<Rightarrow> bool" where
  "loop_ok k \<longleftrightarrow> fds_ok (kq_watched k) k"

lemma loop_ok_simps [simp]: "loop_ok (kqueue_wake k) = loop_ok k" "loop_ok (k\<lparr>kq_last_check := n\<rparr>) = loop_ok k"
  by (simp_all add: loop_ok_def) (simp add: kqueue_wake_def)

lemma distinct_partition:
  "distinct (map f xs) \<Longrightarrow> distinct (map f (filter P xs @ filter (\<lambda>x. \<not> P x) xs))"
  by (induction xs) auto

lemma loop_ok_drop_watched:
  assumes "loop_ok k"
  shows "loop_ok (drop_watched P k)"
proof -
  let ?vs = "filter P (kq_watched k)" and ?ws = "filter (\<lambda>w. \<not> P w) (kq_watched k)"
  have "distinct (map snd (kq_watched k))"
    using assms by (simp add: loop_ok_def fds_ok_def)
  moreover have "set (?vs @ ?ws) = set (kq_watched k)"
    by auto
  ultimately have "fds_ok (?vs @ ?ws) k"
    using assms fds_ok_reorder distinct_partition unfolding loop_ok_def by blast
  then show ?thesis
    by (simp add: loop_ok_def drop_watched_def fds_ok_fold_close)
qed

lemma fds_ok_queue_drop:
  assumes "fds_ok ws k"
  shows "fds_ok ws (kqueue_drop k)"
proof (cases "kq_fd k")
  case (Some fd)
  have "fds_ok ws (close_fd fd (k\<lparr>kq_fd := None\<rparr>))"
  proof (rule fds_ok_closing [OF assms])
    show "map_of (kq_fds k) fd = Some OnQueue"
      using fds_ok_queue [OF assms] Some by simp
    show "distinct (map snd ws)"
      using assms by (simp add: fds_ok_def)
    show "(p, n) \<in> set ws \<longleftrightarrow> (p, n) \<in> set ws \<and> n \<noteq> fd" for p n
      using fds_ok_apart [OF assms] Some by auto
  qed (simp_all add: Some)
  then show ?thesis
    by (simp add: kqueue_drop_def Some)
qed (simp add: kqueue_drop_def assms)

lemma kqueue_drop_none [simp]: "kq_fd (kqueue_drop k) = None" "kq_watched (kqueue_drop k) = kq_watched k"
  by (simp_all add: kqueue_drop_def close_fd_def split: option.splits)

lemma loop_ok_open:
  assumes "loop_ok k" "open_event_fd e p k = (Some fd, k1)"
  shows "fds_ok (kq_watched k @ [(p, fd)]) (k1\<lparr>kq_knotes := fd # kq_knotes k1\<rparr>)" "fds_ok (kq_watched k) (close_fd fd k1)"
proof -
  note ok = assms(1) [unfolded loop_ok_def]
  have fd: "fd = lowest_fd (kq_fds k)" "k1 = k\<lparr>kq_fds := (fd, OnPath p) # kq_fds k\<rparr>"
    using assms(2) by (auto simp: open_event_fd_def Let_def split: if_splits)
  have free: "map_of (kq_fds k) fd = None"
    using lowest_fd_free fd(1) by simp
  have new: "(q, fd) \<notin> set (kq_watched k)" for q
    using fds_ok_path [OF ok, of fd q] free by simp
  have queue: "kq_fd k \<noteq> Some fd"
    using fds_ok_queue [OF ok, of fd] free by simp
  show opened: "fds_ok (kq_watched k @ [(p, fd)]) (k1\<lparr>kq_knotes := fd # kq_knotes k1\<rparr>)"
    unfolding fds_ok_def
  proof (intro conjI allI)
    show "map_of (kq_fds (k1\<lparr>kq_knotes := fd # kq_knotes k1\<rparr>)) n = Some (OnPath q) \<longleftrightarrow> (q, n) \<in> set (kq_watched k @ [(p, fd)])" for q n
      using fds_ok_path [OF ok, of n q] new by (auto simp: fd(2))
    show "map_of (kq_fds (k1\<lparr>kq_knotes := fd # kq_knotes k1\<rparr>)) n = Some OnQueue
      \<longleftrightarrow> kq_fd (k1\<lparr>kq_knotes := fd # kq_knotes k1\<rparr>) = Some n" for n
      using fds_ok_queue [OF ok, of n] queue by (auto simp: fd(2))
  qed (use ok new in \<open>force simp: fds_ok_def fd(2)\<close>)+
  have moved: "distinct (map snd ((p, fd) # kq_watched k))"
    using opened by (simp add: fds_ok_def)
  have "close_fd fd k1 = close_fd fd (k1\<lparr>kq_knotes := fd # kq_knotes k1\<rparr>)"
    by (simp add: close_fd_def)
  then show "fds_ok (kq_watched k) (close_fd fd k1)"
    using fds_ok_close [OF fds_ok_reorder [OF opened, of "(p, fd) # kq_watched k"]] moved by simp
qed

lemma loop_ok_attach: "loop_ok k \<Longrightarrow> loop_ok (snd (attach_path e p k))"
proof (cases "open_event_fd e p k")
  case (Pair r k1)
  assume ok: "loop_ok k"
  have k1: "kq_watched k1 = kq_watched k" "r = None \<Longrightarrow> k1 = k"
    using Pair by (auto simp: open_event_fd_def Let_def split: if_splits)
  have "kq_watched (close_fd fd k1) = kq_watched k" for fd
    by (simp add: close_fd_def k1)
  then show ?thesis
    using ok loop_ok_open [OF ok] Pair k1
    by (auto simp: attach_path_def add_vnode_def loop_ok_def split: option.splits)
qed

lemma loop_ok_attach_paths: "loop_ok k \<Longrightarrow> loop_ok (snd (attach_paths e ps k))"
proof (induction ps arbitrary: k)
  case (Cons p ps)
  show ?case
    using Cons.IH [OF loop_ok_attach [OF Cons.prems, of e p]] Cons.IH [OF Cons.prems] by (auto split: prod.splits)
qed simp

lemma foreign_move_ours:
  "h \<noteq> Foreign \<Longrightarrow> map_of (foreign_move m t) fd = Some h \<longleftrightarrow> map_of t fd = Some h"
  using lowest_fd_free [of t] by (cases m) (auto simp: AList.delete_conv)

lemma foreign_fold_ours: "h \<noteq> Foreign \<Longrightarrow> map_of (fold foreign_move ms t) fd = Some h \<longleftrightarrow> map_of t fd = Some h"
  by (induction ms arbitrary: t) (simp_all add: foreign_move_ours)

lemma loop_ok_foreign: "loop_ok k \<Longrightarrow> loop_ok (foreign_moves e k)"
  by (simp add: loop_ok_def fds_ok_def foreign_moves_def foreign_fold_ours)

lemma loop_ok_event: "loop_ok k \<Longrightarrow> loop_ok (kqueue_event e db k)"
  by (auto simp: kqueue_event_def attach_existing_def prune_deleted_def loop_ok_attach_paths loop_ok_drop_watched split: kq_wait.splits)

lemma loop_ok_check: "kqueue_check e k = Some k' \<Longrightarrow> loop_ok k \<Longrightarrow> loop_ok k'"
  by (auto simp: kqueue_check_def split: if_splits option.splits)

text \<open>The loop is over: nothing of it is left.\<close>

definition all_closed :: "kqueue_loop \<Rightarrow> bool" where
  "all_closed k \<longleftrightarrow> ran (map_of (kq_fds k)) \<subseteq> {Foreign} \<and> kq_knotes k = [] \<and> snd ` set (kq_closed k) \<subseteq> Some ` (- {Foreign})"

lemma all_closedI: "fds_ok [] k \<Longrightarrow> kq_fd k = None \<Longrightarrow> all_closed k"
proof -
  assume ok: "fds_ok [] k" and none: "kq_fd k = None"
  have "h = Foreign" if "map_of (kq_fds k) fd = Some h" for fd h
    using that fds_ok_path [OF ok, of fd] fds_ok_queue [OF ok, of fd] none by (cases h) auto
  moreover have "h \<in> Some ` (- {Foreign})" if "h \<in> snd ` set (kq_closed k)" for h
    using that ok by (cases h) (auto simp: fds_ok_def)
  ultimately show ?thesis
    using ok by (auto simp: all_closed_def fds_ok_def ran_def)
qed

lemma drop_watched_all: "kq_watched (drop_watched (\<lambda>_. True) k) = []"
  by (simp add: drop_watched_def)

lemma all_closed_watched: "loop_ok k \<Longrightarrow> all_closed (close_watched k)"
  using loop_ok_drop_watched [of k "\<lambda>_. True"] unfolding close_watched_def loop_ok_def drop_watched_all
  by (intro all_closedI fds_ok_queue_drop) simp_all

lemma all_closed_rounds: "loop_ok k \<Longrightarrow> all_closed (kqueue_rounds db es k)"
proof (induction es arbitrary: k)
  case (Cons e es)
  have "loop_ok (kqueue_event e db (foreign_moves e k))"
    using Cons.prems by (simp add: loop_ok_event loop_ok_foreign)
  then show ?case
    using Cons.IH loop_ok_check by (auto simp: Let_def all_closed_watched split: option.splits)
qed (simp add: all_closed_watched)

lemma idle_closed: "fds_ok [] (kqueue_idle (foreign_table ns) e)"
  by (auto simp: fds_ok_def kqueue_idle_def foreign_table_def dest: map_of_SomeD)

lemma kqueue_new_ok:
  assumes "kqueue_new ok (kqueue_idle (foreign_table ns) e) = Some k"
  shows "loop_ok k"
  using assms idle_closed [of ns e] lowest_fd_free [of "kq_fds (kqueue_idle (foreign_table ns) e)"]
  by (auto simp: kqueue_new_def loop_ok_def fds_ok_def kqueue_idle_def Let_def split: if_splits)

text \<open>
  C16. C13b. However the loop over \<^verbatim>\<open>kqueue\<close> ends (at its start, on \<open>stop\<close>, by a panic) and whatever failed on the way, every descriptor it opened has been
  closed, no event is registered any more, and each of its calls of \<^verbatim>\<open>close\<close> met a descriptor that it had opened itself: never one that was closed before
  and never one of SQLite or another thread, also though numbers are used again. The same holds of the probe.
\<close>

theorem kqueue_closes_exactly_its_own:
  "all_closed (run_kqueue_loop init_ok db (foreign_table ns) e0 es) \<and> all_closed (snd (probe_kqueue init_ok (foreign_table ns) e0 db))"
proof (cases "kqueue_new init_ok (kqueue_idle (foreign_table ns) e0)")
  case None
  have "all_closed (kqueue_idle (foreign_table ns) e0)"
    by (rule all_closedI [OF idle_closed]) (simp add: kqueue_idle_def)
  then show ?thesis
    using None by (simp add: run_kqueue_loop_def probe_kqueue_def)
next
  case (Some k0)
  note ok = kqueue_new_ok [OF Some]
  have w: "kq_watched k0 = []"
    using Some by (auto simp: kqueue_new_def kqueue_idle_def Let_def split: if_splits)
  have "loop_ok (snd (attach_existing e0 db k0))"
    using ok by (simp add: attach_existing_def loop_ok_attach_paths)
  then have run: "all_closed (run_kqueue_loop init_ok db (foreign_table ns) e0 es)"
    using Some by (auto simp: run_kqueue_loop_def all_closed_watched all_closed_rounds split: prod.splits)
  obtain r k1 where k1: "open_event_fd e0 (watch_dir db) k0 = (r, k1)"
    by fastforce
  have "all_closed (snd (probe_kqueue init_ok (foreign_table ns) e0 db))"
  proof (cases r)
    case None
    then have "k1 = k0"
      using k1 by (auto simp: open_event_fd_def Let_def split: if_splits)
    then show ?thesis
      using Some k1 None ok w by (auto simp: probe_kqueue_def loop_ok_def intro!: all_closedI fds_ok_queue_drop)
  next
    case (Some fd)
    have "fds_ok [] (close_fd fd k1)" "fds_ok [] (close_fd fd (k1\<lparr>kq_knotes := fd # kq_knotes k1\<rparr>))"
      using loop_ok_open [OF ok, of e0 "watch_dir db" fd k1] k1 Some w fds_ok_close by auto
    then show ?thesis
      using \<open>kqueue_new init_ok _ = Some k0\<close> k1 Some
      by (auto simp: probe_kqueue_def add_vnode_def intro!: all_closedI fds_ok_queue_drop)
  qed
  with run show ?thesis
    by simp
qed

section \<open>A database in the working directory\<close>

text \<open>
  For a file name without a directory the loop over \<^verbatim>\<open>notify\<close> and its probe ask for the empty path, which is no directory, while the macOS code
  asks for the working directory: with the same file system the probe refuses on one platform what it accepts on the other.
\<close>

theorem bare_name_not_watched:
  assumes "CHR ''/'' \<notin> set db" "db \<noteq> []" "\<not> watch_ok []" "kq_open e ''.''" "kq_add e ''.''"
  shows "notify_dir db = [] \<and> \<not> probe_notify True watch_ok db \<and> fst (probe_kqueue True t e db)"
proof -
  have none: "dropWhile (\<lambda>c. c \<noteq> CHR ''/'') (rev db) = []"
    using assms(1) by (auto simp: dropWhile_eq_Nil_conv)
  moreover have "db \<noteq> ''/''"
    using assms(1) by auto
  ultimately have "parent db = Some []"
    unfolding parent_def none using assms(2) by simp
  then show ?thesis
    using assms(3-5) by (auto simp: notify_dir_def watch_dir_def probe_notify_def probe_kqueue_def kqueue_new_def open_event_fd_def add_vnode_def Let_def)
qed

end
