(* ===== verification/Client.thy ===== *)
theory Client
  imports Sql_Api Watcher
begin

text \<open>
  The Rust client \<^verbatim>\<open>packages/honker-rs\<close>: every call runs one SQL function of the core on the one connection behind the
  mutex of \<^verbatim>\<open>Inner\<close>, reads the column it returns and, where that is JSON, the rows in it. What \<^verbatim>\<open>serde_json\<close> makes of a
  text the core did not print is a parameter, and so is what it makes of the caller's payload. The loops over these calls
  are in the theories \<open>Feeds\<close>, \<open>Workers\<close> and \<open>Leader\<close>.
\<close>

section \<open>Results\<close>

text \<open>\<^verbatim>\<open>Error\<close>; a message the client composes is named by its constructor.\<close>

datatype client_err =
    Sqlite sqlerr
  | JsonError
  | Core string
  | OutboxAckFailed int
  | OutboxRetryFailed int
  | UpdateClosed

type_synonym 'a caction = "hconn \<Rightarrow> (client_err + 'a) \<times> hconn"

definition cret :: "'a \<Rightarrow> 'a caction" where
  "cret a c = (Inr a, c)"

definition cfail :: "client_err \<Rightarrow> 'a caction" where
  "cfail e c = (Inl e, c)"

definition cbind :: "'a caction \<Rightarrow> ('a \<Rightarrow> 'b caction) \<Rightarrow> 'b caction" where
  "cbind m k c = (case m c of (Inl e, c') \<Rightarrow> (Inl e, c') | (Inr a, c') \<Rightarrow> k a c')"

text \<open>A call on the locked connection. The panic of a SQL function comes back as an error of its statement.\<close>

definition with_conn :: "'a haction \<Rightarrow> 'a caction" where
  "with_conn m c = (case m c of
       (Ok a, c') \<Rightarrow> (Inr a, c')
     | (Err e, c') \<Rightarrow> (Inl (Sqlite e), c')
     | (Panicked, c') \<Rightarrow> (Inl (Sqlite (SqliteFailure (OtherCode 1) ''unwinding panic'')), c'))"

record client_env =
  ce_sql :: sql_env
  ce_serde :: "string \<Rightarrow> json option"

text \<open>\<^verbatim>\<open>c.query_row("SELECT fn(..)", params![..], |r| r.get(0))\<close>\<close>

definition query_row :: "client_env \<Rightarrow> string \<Rightarrow> sqlval list \<Rightarrow> (sqlresult \<Rightarrow> 'a option) \<Rightarrow> 'a caction" where
  "query_row ce fn args get = with_conn (sbind (sql_call (ce_sql ce) fn args)
     (\<lambda>v. case get v of None \<Rightarrow> sfail ConversionError | Some a \<Rightarrow> sret a))"

definition col_i64 :: "sqlresult \<Rightarrow> int option" where
  "col_i64 v = (case v of SInt n \<Rightarrow> Some n | _ \<Rightarrow> None)"

definition col_text :: "sqlresult \<Rightarrow> sqlresult option" where
  "col_text v = (case v of SText s \<Rightarrow> Some v | SJson j \<Rightarrow> Some v | _ \<Rightarrow> None)"

definition col_opt_string :: "sqlresult \<Rightarrow> string option option" where
  "col_opt_string v = (case v of SNull \<Rightarrow> Some None | SText s \<Rightarrow> Some (Some s) | _ \<Rightarrow> None)"

definition col_any :: "sqlresult \<Rightarrow> unit option" where
  "col_any v = Some ()"

definition opt_int :: "int option \<Rightarrow> sqlval" where
  "opt_int v = (case v of None \<Rightarrow> VNull | Some n \<Rightarrow> VInt n)"

definition opt_str :: "string option \<Rightarrow> sqlval" where
  "opt_str v = (case v of None \<Rightarrow> VNull | Some s \<Rightarrow> VText s)"

text \<open>A payload is what \<^verbatim>\<open>serde_json::to_string\<close> makes of the caller's value, if it makes anything of it.\<close>

definition to_string :: "string option \<Rightarrow> string caction" where
  "to_string payload = (case payload of None \<Rightarrow> cfail JsonError | Some s \<Rightarrow> cret s)"

section \<open>Reading JSON into structs\<close>

text \<open>
  \<^verbatim>\<open>serde_json::from_str\<close> and the derived \<^verbatim>\<open>Deserialize\<close>: a field must be there with the right type, except that an
  \<^verbatim>\<open>Option\<close> may be absent or null; other fields are ignored.
\<close>

definition from_str :: "client_env \<Rightarrow> (json \<Rightarrow> 'a option) \<Rightarrow> sqlresult \<Rightarrow> 'a caction" where
  "from_str ce read v =
     (case (case v of SJson j \<Rightarrow> Some j | SText s \<Rightarrow> ce_serde ce s | _ \<Rightarrow> None) of
        None \<Rightarrow> cfail JsonError
      | Some j \<Rightarrow> (case read j of None \<Rightarrow> cfail JsonError | Some a \<Rightarrow> cret a))"

fun as_i64 :: "json \<Rightarrow> int option" where
  "as_i64 (JInt n) = (if in_i64 n then Some n else None)"
| "as_i64 _ = None"

fun as_str :: "json \<Rightarrow> string option" where
  "as_str (JStr s) = Some s"
| "as_str _ = None"

fun as_bool :: "json \<Rightarrow> bool option" where
  "as_bool (JBool b) = Some b"
| "as_bool _ = None"

fun as_vec :: "(json \<Rightarrow> 'a option) \<Rightarrow> json \<Rightarrow> 'a list option" where
  "as_vec f (JArr xs) = those (map f xs)"
| "as_vec f _ = None"

definition req_field :: "string \<Rightarrow> (json \<Rightarrow> 'a option) \<Rightarrow> json \<Rightarrow> 'a option" where
  "req_field k f j = Option.bind (jfield k j) f"

definition opt_field :: "string \<Rightarrow> (json \<Rightarrow> 'a option) \<Rightarrow> json \<Rightarrow> 'a option option" where
  "opt_field k f j = (case jfield k j of
       None \<Rightarrow> Some None
     | Some JNull \<Rightarrow> Some None
     | Some v \<Rightarrow> map_option Some (f v))"

section \<open>Transactions\<close>

text \<open>
  \<^verbatim>\<open>Database::transaction\<close> holds the mutex until the \<^verbatim>\<open>Transaction\<close> is gone. \<^verbatim>\<open>commit\<close> and \<^verbatim>\<open>rollback\<close> consume it, so its
  \<^verbatim>\<open>drop\<close> runs at their end as well.
\<close>

definition transaction :: "unit caction" where
  "transaction c = (case sql_begin c of (Inl e, c1) \<Rightarrow> (Inl (Sqlite e), c1) | (Inr _, c1) \<Rightarrow> (Inr (), c1))"

definition tx_drop :: "bool \<Rightarrow> hconn \<Rightarrow> hconn" where
  "tx_drop finished c = (if finished then c else snd (sql_rollback c))"

definition tx_commit :: "unit caction" where
  "tx_commit c = (case sql_commit c of
       (Inl e, c1) \<Rightarrow> (Inl (Sqlite e), tx_drop False c1)
     | (Inr _, c1) \<Rightarrow> (Inr (), tx_drop True c1))"

definition tx_rollback :: "unit caction" where
  "tx_rollback c = (case sql_rollback c of
       (Inl e, c1) \<Rightarrow> (Inl (Sqlite e), tx_drop False c1)
     | (Inr _, c1) \<Rightarrow> (Inr (), tx_drop True c1))"

text \<open>A caller that begins, runs its calls, leaves early on an error of theirs and commits at the end.\<close>

definition in_transaction :: "'a caction \<Rightarrow> 'a caction" where
  "in_transaction body c = (case transaction c of
       (Inl e, c1) \<Rightarrow> (Inl e, c1)
     | (Inr _, c1) \<Rightarrow> (case body c1 of
          (Inl e, c2) \<Rightarrow> (Inl e, tx_drop False c2)
        | (Inr a, c2) \<Rightarrow> (case tx_commit c2 of
             (Inl e, c3) \<Rightarrow> (Inl e, c3)
           | (Inr _, c3) \<Rightarrow> (Inr a, c3))))"

section \<open>Calls on the database\<close>

definition db_notify :: "client_env \<Rightarrow> string \<Rightarrow> string option \<Rightarrow> int caction" where
  "db_notify ce channel payload = cbind (to_string payload) (\<lambda>json.
     query_row ce ''notify'' [VText channel, VText json] col_i64)"

text \<open>The \<^verbatim>\<open>_tx\<close> forms of a call run the same statement on the connection of the transaction.\<close>

definition notify_tx :: "client_env \<Rightarrow> string \<Rightarrow> string option \<Rightarrow> int caction" where
  "notify_tx ce channel payload = cbind (to_string payload) (\<lambda>json.
     query_row ce ''notify'' [VText channel, VText json] col_i64)"

definition try_rate_limit :: "client_env \<Rightarrow> string \<Rightarrow> int \<Rightarrow> int \<Rightarrow> bool caction" where
  "try_rate_limit ce name limit per = cbind (query_row ce ''honker_rate_limit_try'' [VText name, VInt limit, VInt per] col_i64)
     (\<lambda>ok. cret (ok = 1))"

definition save_result :: "client_env \<Rightarrow> int \<Rightarrow> string \<Rightarrow> int \<Rightarrow> unit caction" where
  "save_result ce job_id val ttl_s = query_row ce ''honker_result_save'' [VInt job_id, VText val, VInt ttl_s] col_any"

definition get_result :: "client_env \<Rightarrow> int \<Rightarrow> string option caction" where
  "get_result ce job_id = query_row ce ''honker_result_get'' [VInt job_id] col_opt_string"

definition sweep_results :: "client_env \<Rightarrow> int caction" where
  "sweep_results ce = query_row ce ''honker_result_sweep'' [] col_i64"

definition too_old :: "int \<Rightarrow> int \<Rightarrow> notification_row \<Rightarrow> bool" where
  "too_old t older_than_s r \<longleftrightarrow> n_created_at r < t - older_than_s"

definition prune_notifications :: "int \<Rightarrow> int caction" where
  "prune_notifications older_than_s = with_conn (exec (\<lambda>t d.
     Inr (count_where (too_old t older_than_s) (notifications d),
       d\<lparr>notifications := del_where (too_old t older_than_s) (notifications d)\<rparr>)))"

text \<open>The id of the row after the \<open>max_keep\<close> newest ones; no row, no id, nothing to delete.\<close>

definition prune_below :: "int \<Rightarrow> notification_row list \<Rightarrow> int option" where
  "prune_below max_keep rows = opt_hd (drop (nat max_keep) (map n_id (order_by (\<lambda>r. - n_id r) rows)))"

definition beyond :: "int \<Rightarrow> notification_row list \<Rightarrow> notification_row \<Rightarrow> bool" where
  "beyond max_keep rows r = (case prune_below max_keep rows of None \<Rightarrow> False | Some i \<Rightarrow> n_id r \<le> i)"

definition prune_notifications_keep_latest :: "int \<Rightarrow> int caction" where
  "prune_notifications_keep_latest max_keep =
     (if max_keep < 0 then cfail (Core ''max_keep must not be negative'')
      else with_conn (exec (\<lambda>t d. let p = beyond max_keep (notifications d) in
        Inr (count_where p (notifications d), d\<lparr>notifications := del_where p (notifications d)\<rparr>))))"

section \<open>Queues\<close>

record queue_opts =
  visibility_timeout_s :: int
  opt_max_attempts :: int

definition default_queue_opts :: queue_opts where
  "default_queue_opts = \<lparr>visibility_timeout_s = 300, opt_max_attempts = 3\<rparr>"

record enqueue_opts =
  eo_delay :: "int option"
  eo_run_at :: "int option"
  eo_priority :: int
  eo_expires :: "int option"

record queue_handle =
  q_name :: string
  q_opts :: queue_opts

definition enqueue_on :: "client_env \<Rightarrow> string \<Rightarrow> string \<Rightarrow> int \<Rightarrow> enqueue_opts \<Rightarrow> int caction" where
  "enqueue_on ce queue payload_json max_attempts opts = query_row ce ''honker_enqueue''
     [VText queue, VText payload_json, opt_int (eo_run_at opts), opt_int (eo_delay opts), VInt (eo_priority opts),
      VInt max_attempts, opt_int (eo_expires opts)] col_i64"

definition queue_enqueue :: "client_env \<Rightarrow> queue_handle \<Rightarrow> string option \<Rightarrow> enqueue_opts \<Rightarrow> int caction" where
  "queue_enqueue ce q payload opts = cbind (to_string payload) (\<lambda>json.
     enqueue_on ce (q_name q) json (opt_max_attempts (q_opts q)) opts)"

definition enqueue_tx :: "client_env \<Rightarrow> queue_handle \<Rightarrow> string option \<Rightarrow> enqueue_opts \<Rightarrow> int caction" where
  "enqueue_tx ce q payload opts = cbind (to_string payload) (\<lambda>json.
     enqueue_on ce (q_name q) json (opt_max_attempts (q_opts q)) opts)"

text \<open>\<^verbatim>\<open>RawJob\<close> and \<^verbatim>\<open>Job\<close>, \<^verbatim>\<open>JobRow\<close>\<close>

record client_job =
  cj_id :: int
  cj_queue :: string
  cj_payload :: string
  cj_worker_id :: string
  cj_attempts :: int

definition raw_job :: "json \<Rightarrow> client_job option" where
  "raw_job j = Option.bind (req_field ''id'' as_i64 j) (\<lambda>i. Option.bind (req_field ''queue'' as_str j) (\<lambda>q.
     Option.bind (req_field ''payload'' as_str j) (\<lambda>p. Option.bind (req_field ''worker_id'' as_str j) (\<lambda>w.
     Option.bind (req_field ''attempts'' as_i64 j) (\<lambda>a. Option.bind (req_field ''claim_expires_at'' as_i64 j) (\<lambda>_.
       Some \<lparr>cj_id = i, cj_queue = q, cj_payload = p, cj_worker_id = w, cj_attempts = a\<rparr>))))))"

record job_row =
  jr_id :: int
  jr_queue :: string
  jr_payload :: string
  jr_state :: string
  jr_priority :: int
  jr_run_at :: int
  jr_worker_id :: "string option"
  jr_claim_expires_at :: "int option"
  jr_attempts :: int
  jr_max_attempts :: int
  jr_created_at :: int
  jr_expires_at :: "int option"

definition read_job_row :: "json \<Rightarrow> job_row option" where
  "read_job_row j = Option.bind (req_field ''id'' as_i64 j) (\<lambda>i. Option.bind (req_field ''queue'' as_str j) (\<lambda>q.
     Option.bind (req_field ''payload'' as_str j) (\<lambda>p. Option.bind (req_field ''state'' as_str j) (\<lambda>s.
     Option.bind (req_field ''priority'' as_i64 j) (\<lambda>pr. Option.bind (req_field ''run_at'' as_i64 j) (\<lambda>ra.
     Option.bind (opt_field ''worker_id'' as_str j) (\<lambda>w. Option.bind (opt_field ''claim_expires_at'' as_i64 j) (\<lambda>ce.
     Option.bind (req_field ''attempts'' as_i64 j) (\<lambda>a. Option.bind (req_field ''max_attempts'' as_i64 j) (\<lambda>m.
     Option.bind (req_field ''created_at'' as_i64 j) (\<lambda>ca. Option.bind (opt_field ''expires_at'' as_i64 j) (\<lambda>ea.
       Some \<lparr>jr_id = i, jr_queue = q, jr_payload = p, jr_state = s, jr_priority = pr, jr_run_at = ra, jr_worker_id = w,
         jr_claim_expires_at = ce, jr_attempts = a, jr_max_attempts = m, jr_created_at = ca, jr_expires_at = ea\<rparr>))))))))))))"

definition claim_jobs :: "client_env \<Rightarrow> string \<Rightarrow> string \<Rightarrow> int \<Rightarrow> int \<Rightarrow> client_job list caction" where
  "claim_jobs ce name worker_id n timeout_s =
     cbind (query_row ce ''honker_claim_batch'' [VText name, VText worker_id, VInt n, VInt timeout_s] col_text)
       (from_str ce (as_vec raw_job))"

definition queue_claim_batch :: "client_env \<Rightarrow> queue_handle \<Rightarrow> string \<Rightarrow> int \<Rightarrow> client_job list caction" where
  "queue_claim_batch ce q worker_id n = claim_jobs ce (q_name q) worker_id n (visibility_timeout_s (q_opts q))"

definition queue_claim_one :: "client_env \<Rightarrow> queue_handle \<Rightarrow> string \<Rightarrow> client_job option caction" where
  "queue_claim_one ce q worker_id = cbind (queue_claim_batch ce q worker_id 1) (\<lambda>jobs. cret (opt_hd jobs))"

text \<open>The ids travel as the text \<^verbatim>\<open>serde_json\<close> prints for them, an argument here.\<close>

definition queue_ack_batch :: "client_env \<Rightarrow> string \<Rightarrow> string \<Rightarrow> int caction" where
  "queue_ack_batch ce ids_json worker_id = query_row ce ''honker_ack_batch'' [VText ids_json, VText worker_id] col_i64"

definition queue_cancel :: "client_env \<Rightarrow> int \<Rightarrow> bool caction" where
  "queue_cancel ce job_id = cbind (query_row ce ''honker_cancel'' [VInt job_id] col_i64) (\<lambda>n. cret (n > 0))"

definition queue_get_job :: "client_env \<Rightarrow> int \<Rightarrow> job_row option caction" where
  "queue_get_job ce job_id = cbind (query_row ce ''honker_get_job'' [VInt job_id] col_text) (\<lambda>json.
     if json = SText [] then cret None else cbind (from_str ce read_job_row json) (\<lambda>r. cret (Some r)))"

definition queue_sweep_expired :: "client_env \<Rightarrow> queue_handle \<Rightarrow> int caction" where
  "queue_sweep_expired ce q = query_row ce ''honker_sweep_expired'' [VText (q_name q)] col_i64"

text \<open>The methods of a claimed \<^verbatim>\<open>Job\<close>; none of them passes the attempt number.\<close>

definition job_ack :: "client_env \<Rightarrow> client_job \<Rightarrow> bool caction" where
  "job_ack ce j = cbind (query_row ce ''honker_ack'' [VInt (cj_id j), VText (cj_worker_id j)] col_i64) (\<lambda>n. cret (n > 0))"

definition job_retry :: "client_env \<Rightarrow> client_job \<Rightarrow> int \<Rightarrow> string \<Rightarrow> bool caction" where
  "job_retry ce j delay_s err = cbind (query_row ce ''honker_retry''
     [VInt (cj_id j), VText (cj_worker_id j), VInt delay_s, VText err] col_i64) (\<lambda>n. cret (n > 0))"

definition job_fail :: "client_env \<Rightarrow> client_job \<Rightarrow> string \<Rightarrow> bool caction" where
  "job_fail ce j err = cbind (query_row ce ''honker_fail'' [VInt (cj_id j), VText (cj_worker_id j), VText err] col_i64)
     (\<lambda>n. cret (n > 0))"

definition job_heartbeat :: "client_env \<Rightarrow> client_job \<Rightarrow> int \<Rightarrow> bool caction" where
  "job_heartbeat ce j extend_s = cbind (query_row ce ''honker_heartbeat'' [VInt (cj_id j), VText (cj_worker_id j), VInt extend_s] col_i64)
     (\<lambda>n. cret (n > 0))"

section \<open>Streams\<close>

record stream_event =
  ev_offset :: int
  ev_topic :: string
  ev_key :: "string option"
  ev_payload :: string
  ev_created_at :: int

definition raw_stream_event :: "json \<Rightarrow> stream_event option" where
  "raw_stream_event j = Option.bind (req_field ''offset'' as_i64 j) (\<lambda>off. Option.bind (req_field ''topic'' as_str j) (\<lambda>tp.
     Option.bind (opt_field ''key'' as_str j) (\<lambda>k. Option.bind (req_field ''payload'' as_str j) (\<lambda>p.
     Option.bind (req_field ''created_at'' as_i64 j) (\<lambda>ca.
       Some \<lparr>ev_offset = off, ev_topic = tp, ev_key = k, ev_payload = p, ev_created_at = ca\<rparr>)))))"

definition publish_with_key_opt :: "client_env \<Rightarrow> string \<Rightarrow> string option \<Rightarrow> string option \<Rightarrow> int caction" where
  "publish_with_key_opt ce topic key payload = cbind (to_string payload) (\<lambda>json.
     query_row ce ''honker_stream_publish'' [VText topic, opt_str key, VText json] col_i64)"

definition publish :: "client_env \<Rightarrow> string \<Rightarrow> string option \<Rightarrow> int caction" where
  "publish ce topic payload = publish_with_key_opt ce topic None payload"

definition publish_with_key :: "client_env \<Rightarrow> string \<Rightarrow> string \<Rightarrow> string option \<Rightarrow> int caction" where
  "publish_with_key ce topic key payload = publish_with_key_opt ce topic (Some key) payload"

definition publish_tx :: "client_env \<Rightarrow> string \<Rightarrow> string option \<Rightarrow> int caction" where
  "publish_tx ce topic payload = cbind (to_string payload) (\<lambda>json.
     query_row ce ''honker_stream_publish'' [VText topic, VNull, VText json] col_i64)"

definition read_since :: "client_env \<Rightarrow> string \<Rightarrow> int \<Rightarrow> int \<Rightarrow> stream_event list caction" where
  "read_since ce topic offset limit =
     cbind (query_row ce ''honker_stream_read_since'' [VText topic, VInt offset, VInt limit] col_text)
       (from_str ce (as_vec raw_stream_event))"

definition get_offset :: "client_env \<Rightarrow> string \<Rightarrow> string \<Rightarrow> int caction" where
  "get_offset ce topic consumer = query_row ce ''honker_stream_get_offset'' [VText consumer, VText topic] col_i64"

definition read_from_consumer :: "client_env \<Rightarrow> string \<Rightarrow> string \<Rightarrow> int \<Rightarrow> stream_event list caction" where
  "read_from_consumer ce topic consumer limit = cbind (get_offset ce topic consumer) (\<lambda>offset. read_since ce topic offset limit)"

definition save_offset :: "client_env \<Rightarrow> string \<Rightarrow> string \<Rightarrow> int \<Rightarrow> bool caction" where
  "save_offset ce topic consumer offset =
     cbind (query_row ce ''honker_stream_save_offset'' [VText consumer, VText topic, VInt offset] col_i64) (\<lambda>n. cret (n > 0))"

definition save_offset_tx :: "client_env \<Rightarrow> string \<Rightarrow> string \<Rightarrow> int \<Rightarrow> bool caction" where
  "save_offset_tx ce topic consumer offset =
     cbind (query_row ce ''honker_stream_save_offset'' [VText consumer, VText topic, VInt offset] col_i64) (\<lambda>n. cret (n > 0))"

section \<open>Locks\<close>

text \<open>\<^verbatim>\<open>Lock\<close>: \<^verbatim>\<open>release\<close> consumes the value and \<^verbatim>\<open>drop\<close> then finds \<open>released\<close>; an error of the release leaves it unset.\<close>

definition lock_try_acquire :: "client_env \<Rightarrow> string \<Rightarrow> string \<Rightarrow> int \<Rightarrow> bool caction" where
  "lock_try_acquire ce name owner ttl_s =
     cbind (query_row ce ''honker_lock_acquire'' [VText name, VText owner, VInt ttl_s] col_i64) (\<lambda>n. cret (n = 1))"

record client_lock =
  lk_name :: string
  lk_owner :: string
  lk_released :: bool

definition try_lock :: "client_env \<Rightarrow> string \<Rightarrow> string \<Rightarrow> int \<Rightarrow> client_lock option caction" where
  "try_lock ce name owner ttl_s =
     cbind (query_row ce ''honker_lock_acquire'' [VText name, VText owner, VInt ttl_s] col_i64)
       (\<lambda>acquired. cret (if acquired = 1 then Some \<lparr>lk_name = name, lk_owner = owner, lk_released = False\<rparr> else None))"

definition client_lock_release :: "client_env \<Rightarrow> string \<Rightarrow> string \<Rightarrow> bool caction" where
  "client_lock_release ce name owner =
     cbind (query_row ce ''honker_lock_release'' [VText name, VText owner] col_i64) (\<lambda>n. cret (n > 0))"

definition lock_drop :: "client_env \<Rightarrow> string \<Rightarrow> string \<Rightarrow> bool \<Rightarrow> hconn \<Rightarrow> hconn" where
  "lock_drop ce name owner released c =
     (if released then c else snd (query_row ce ''honker_lock_release'' [VText name, VText owner] col_any c))"

definition release_lock :: "client_env \<Rightarrow> string \<Rightarrow> string \<Rightarrow> bool caction" where
  "release_lock ce name owner c = (case client_lock_release ce name owner c of
       (Inl e, c1) \<Rightarrow> (Inl e, lock_drop ce name owner False c1)
     | (Inr held, c1) \<Rightarrow> (Inr held, lock_drop ce name owner True c1))"

definition lock_heartbeat :: "client_env \<Rightarrow> string \<Rightarrow> string \<Rightarrow> int \<Rightarrow> bool caction" where
  "lock_heartbeat ce name owner ttl_s =
     cbind (query_row ce ''honker_lock_renew'' [VText name, VText owner, VInt ttl_s] col_i64) (\<lambda>n. cret (n > 0))"

section \<open>The scheduler\<close>

record scheduled_task =
  st_name :: string
  st_queue :: string
  st_schedule :: string
  st_payload :: "string option"
  st_priority :: int
  st_expires_s :: "int option"

record scheduled_fire =
  sf_name :: string
  sf_queue :: string
  sf_fire_at :: int
  sf_job_id :: int

definition read_fire :: "json \<Rightarrow> scheduled_fire option" where
  "read_fire j = Option.bind (req_field ''name'' as_str j) (\<lambda>n. Option.bind (req_field ''queue'' as_str j) (\<lambda>q.
     Option.bind (req_field ''fire_at'' as_i64 j) (\<lambda>f. Option.bind (req_field ''job_id'' as_i64 j) (\<lambda>i.
       Some \<lparr>sf_name = n, sf_queue = q, sf_fire_at = f, sf_job_id = i\<rparr>))))"

record schedule_row =
  sr_name :: string
  sr_queue :: string
  sr_cron_expr :: string
  sr_payload :: string
  sr_priority :: int
  sr_expires_s :: "int option"
  sr_next_fire_at :: int
  sr_enabled :: bool
  sr_max_attempts :: int

definition read_schedule_row :: "json \<Rightarrow> schedule_row option" where
  "read_schedule_row j = Option.bind (req_field ''name'' as_str j) (\<lambda>n. Option.bind (req_field ''queue'' as_str j) (\<lambda>q.
     Option.bind (req_field ''cron_expr'' as_str j) (\<lambda>ce. Option.bind (req_field ''payload'' as_str j) (\<lambda>p.
     Option.bind (req_field ''priority'' as_i64 j) (\<lambda>pr. Option.bind (opt_field ''expires_s'' as_i64 j) (\<lambda>ex.
     Option.bind (req_field ''next_fire_at'' as_i64 j) (\<lambda>nf. Option.bind (req_field ''enabled'' as_bool j) (\<lambda>en.
     Option.bind (req_field ''max_attempts'' as_i64 j) (\<lambda>m.
       Some \<lparr>sr_name = n, sr_queue = q, sr_cron_expr = ce, sr_payload = p, sr_priority = pr, sr_expires_s = ex,
         sr_next_fire_at = nf, sr_enabled = en, sr_max_attempts = m\<rparr>)))))))))"

definition add_with_max_attempts :: "client_env \<Rightarrow> scheduled_task \<Rightarrow> int \<Rightarrow> unit caction" where
  "add_with_max_attempts ce task max_attempts = cbind (to_string (st_payload task)) (\<lambda>payload_json.
     query_row ce ''honker_scheduler_register'' [VText (st_name task), VText (st_queue task), VText (st_schedule task),
       VText payload_json, VInt (st_priority task), opt_int (st_expires_s task), VInt max_attempts] col_any)"

definition client_add :: "client_env \<Rightarrow> scheduled_task \<Rightarrow> unit caction" where
  "client_add ce task = add_with_max_attempts ce task 3"

definition client_remove :: "client_env \<Rightarrow> string \<Rightarrow> int caction" where
  "client_remove ce name = query_row ce ''honker_scheduler_unregister'' [VText name] col_i64"

text \<open>The tick passes the time the client reads itself, here \<open>now\<close>.\<close>

definition client_tick :: "client_env \<Rightarrow> int \<Rightarrow> scheduled_fire list caction" where
  "client_tick ce now = cbind (query_row ce ''honker_scheduler_tick'' [VInt now] col_text) (from_str ce (as_vec read_fire))"

definition client_soonest :: "client_env \<Rightarrow> int caction" where
  "client_soonest ce = query_row ce ''honker_scheduler_soonest'' [] col_i64"

definition client_pause :: "client_env \<Rightarrow> string \<Rightarrow> bool caction" where
  "client_pause ce name = cbind (query_row ce ''honker_scheduler_pause'' [VText name] col_i64) (\<lambda>n. cret (n > 0))"

definition client_resume :: "client_env \<Rightarrow> string \<Rightarrow> bool caction" where
  "client_resume ce name = cbind (query_row ce ''honker_scheduler_resume'' [VText name] col_i64) (\<lambda>n. cret (n > 0))"

definition client_list :: "client_env \<Rightarrow> schedule_row list caction" where
  "client_list ce = cbind (query_row ce ''honker_scheduler_list'' [] col_text) (from_str ce (as_vec read_schedule_row))"

text \<open>An update of nothing asks nothing; the doubly optional \<open>expires_s\<close> becomes a value and a flag.\<close>

record schedule_update =
  su_cron_expr :: "string option"
  su_payload :: "string option option"
  su_priority :: "int option"
  su_expires_s :: "int option option"

definition client_update :: "client_env \<Rightarrow> string \<Rightarrow> schedule_update \<Rightarrow> bool caction" where
  "client_update ce name opts =
     (if su_cron_expr opts = None \<and> su_payload opts = None \<and> su_priority opts = None \<and> su_expires_s opts = None then cret False
      else cbind (case su_payload opts of None \<Rightarrow> cret None | Some v \<Rightarrow> cbind (to_string v) (\<lambda>s. cret (Some s))) (\<lambda>payload_json.
        cbind (query_row ce ''honker_scheduler_update''
          [VText name, opt_str (su_cron_expr opts), opt_str payload_json, opt_int (su_priority opts),
           opt_int (case su_expires_s opts of None \<Rightarrow> None | Some v \<Rightarrow> v),
           VInt (if su_expires_s opts = None then 0 else 1)] col_i64) (\<lambda>n. cret (n > 0))))"

definition update_max_attempts :: "client_env \<Rightarrow> string \<Rightarrow> int \<Rightarrow> bool caction" where
  "update_max_attempts ce name max_attempts = cbind (query_row ce ''honker_scheduler_update''
     [VText name, VNull, VNull, VNull, VNull, VInt 0, VInt max_attempts, VInt 1] col_i64) (\<lambda>n. cret (n > 0))"

end
