(* ===== verification/Client_Thms.thy ===== *)
theory Client_Thms
  imports Client History
begin

text \<open>
  What the plain calls of the Rust client do: which operation of the core each of them runs, that the rows the core prints
  are read back as they were, and that a transaction happens whole or not at all.
\<close>

named_theorems client_calls \<open>the operation of the core behind a call of the client\<close>
named_theorems ctame_intros \<open>a call of the client keeps the transaction it runs in\<close>

section \<open>Sequences of calls\<close>

lemma run_pair: "fst p = a \<Longrightarrow> p = (a, snd p)"
  by (cases p) simp

lemma cbind_Inr:
  assumes "cbind m k c = (Inr b, c')"
  obtains a c1 where "m c = (Inr a, c1)" "k a c1 = (Inr b, c')"
  using assms by (auto simp: cbind_def split: prod.splits sum.splits)

lemma cret_apply [simp]: "cret a c = (Inr a, c)"
  by (simp add: cret_def)

lemma cfail_apply [simp]: "cfail e c = (Inl e, c)"
  by (simp add: cfail_def)

lemma cbind_simps [simp]:
  "cbind (cret a) k = k a"
  "cbind (cfail e) k = cfail e"
  "m c = (Inr a, c') \<Longrightarrow> cbind m k c = k a c'"
  "m c = (Inl e, c') \<Longrightarrow> cbind m k c = (Inl e, c')"
  by (simp_all add: cbind_def cret_def cfail_def fun_eq_iff)

section \<open>Which operation a call runs\<close>

text \<open>
  What the client relies on in \<^verbatim>\<open>rusqlite\<close>: a bound string and a bound integer arrive in the function as they are.
\<close>

definition binds :: "client_env \<Rightarrow> bool" where
  "binds ce \<longleftrightarrow> (\<forall>s. env_text (ce_sql ce) (VText s) = Some s) \<and> (\<forall>n. env_i64 (ce_sql ce) (VInt n) = Some n)"

lemma binds_args [simp]:
  assumes "binds ce"
  shows "get_text (ce_sql ce) i (VText s) = sret s" "arg_i64 (ce_sql ce) i (VInt n) = sret n"
    "arg_opt_i64 (ce_sql ce) i (opt_int v) = sret v" "get_opt (get_text (ce_sql ce) i) (opt_str w) = sret w"
  using assms by (auto simp: binds_def get_text_def arg_i64_def get_i64_def arg_opt_i64_def get_opt_def opt_int_def opt_str_def split: option.split)

lemmas dispatch = sql_call_def sql_function_def List.map_filter_def sql_queue_def sql_locks_def sql_scheduler_def sql_results_def
  sql_jobs_def sql_streams_def with_claim_def sql_enqueue_def

lemma job_calls [client_calls]:
  assumes "binds ce"
  shows "sql_call (ce_sql ce) ''honker_claim_batch'' [VText q, VText w, VInt n, VInt to] = to_sql_err SJson (claim_batch q w n to)"
    and "sql_call (ce_sql ce) ''honker_ack'' [VInt i, VText w] = to_sql_err SInt (ack i w)"
    and "sql_call (ce_sql ce) ''honker_retry'' [VInt i, VText w, VInt ds, VText err] = to_sql_err SInt (retry i w ds err)"
    and "sql_call (ce_sql ce) ''honker_queue_next_claim_at'' [VText q] = to_sql_err SInt (queue_next_claim_at q)"
    and "sql_call (ce_sql ce) ''honker_enqueue'' [VText q, VText p, opt_int r, opt_int dl, VInt pr, VInt m, opt_int ex]
      = to_sql_err SInt (enqueue q p r dl pr m ex)"
  using assms by (simp_all add: dispatch)

lemma stream_calls [client_calls]:
  assumes "binds ce"
  shows "sql_call (ce_sql ce) ''honker_stream_publish'' [VText tp, opt_str k, VText p] = to_sql_err SInt (stream_publish tp k p)"
    and "sql_call (ce_sql ce) ''honker_stream_read_since'' [VText tp, VInt off, VInt lim] = to_sql_err SJson (stream_read_since tp off lim)"
    and "sql_call (ce_sql ce) ''honker_stream_save_offset'' [VText co, VText tp, VInt off] = to_sql_err SInt (stream_save_offset co tp off)"
    and "sql_call (ce_sql ce) ''honker_stream_get_offset'' [VText co, VText tp] = to_sql_err SInt (stream_get_offset co tp)"
    and "sql_call (ce_sql ce) ''notify'' [VText ch, VText p] = sbind (notify ch p) (\<lambda>n. sret (SInt n))"
  using assms by (simp_all add: dispatch)

lemma lock_calls [client_calls]:
  assumes "binds ce"
  shows "sql_call (ce_sql ce) ''honker_lock_acquire'' [VText nm, VText ow, VInt ttl] = to_sql_err SInt (lock_acquire nm ow ttl)"
    and "sql_call (ce_sql ce) ''honker_lock_renew'' [VText nm, VText ow, VInt ttl] = to_sql_err SInt (lock_renew nm ow ttl)"
    and "sql_call (ce_sql ce) ''honker_lock_release'' [VText nm, VText ow] = to_sql_err SInt (lock_release nm ow)"
    and "sql_call (ce_sql ce) ''honker_scheduler_tick'' [VInt now]
      = to_sql_err SJson (scheduler_tick (env_cal (ce_sql ce)) (env_tz (ce_sql ce)) now)"
    and "sql_call (ce_sql ce) ''honker_scheduler_soonest'' [] = to_sql_err SInt scheduler_soonest"
  using assms by (simp_all add: dispatch)

text \<open>A call returns the value of its operation, or fails and says why.\<close>

lemma query_row_Inr:
  "query_row ce fn args get c = (Inr a, c') \<longleftrightarrow> (\<exists>v. sql_call (ce_sql ce) fn args c = (Ok v, c') \<and> get v = Some a)"
  by (auto simp: query_row_def with_conn_def sbind_def split: prod.splits res.splits option.splits)

lemma query_row_fails:
  assumes "query_row ce fn args get c = (Inl e, c')"
  obtains r where "sql_call (ce_sql ce) fn args c = (r, c')" "\<And>v. r = Ok v \<Longrightarrow> get v = None" "e \<noteq> JsonError"
  using assms by (auto simp: query_row_def with_conn_def sbind_def split: prod.splits res.splits option.splits)

lemma to_sql_err_Ok: "to_sql_err f m c = (Ok v, c') \<longleftrightarrow> (\<exists>a. m c = (Ok a, c') \<and> v = f a)"
  by (auto simp: to_sql_err_def split: prod.splits res.splits)

lemma to_sql_err_not_Ok:
  "to_sql_err f m c = (r, c') \<Longrightarrow> (\<And>v. r \<noteq> Ok v) \<Longrightarrow> \<exists>r'. m c = (r', c') \<and> (\<forall>v. r' \<noteq> Ok v)"
  by (auto simp: to_sql_err_def split: prod.splits res.splits)

lemma col_simps [simp]: "col_i64 (SInt n) = Some n" "col_text (SJson j) = Some (SJson j)" "col_any v = Some ()"
  by (simp_all add: col_i64_def col_text_def col_any_def)

text \<open>A call that reads an integer, and one that reads rows.\<close>

lemma int_call:
  assumes "sql_call (ce_sql ce) fn args = to_sql_err SInt act" "query_row ce fn args col_i64 c = (r, c')"
  obtains (ok) n where "r = Inr n" "act c = (Ok n, c')"
  | (failed) e r' where "r = Inl e" "e \<noteq> JsonError" "act c = (r', c')" "\<And>v. r' \<noteq> Ok v"
proof (cases r)
  case (Inr n)
  with assms that(1) show thesis by (auto simp: query_row_Inr to_sql_err_Ok)
next
  case (Inl e)
  with assms(2) obtain r' where r': "sql_call (ce_sql ce) fn args c = (r', c')" "\<And>v. r' = Ok v \<Longrightarrow> col_i64 v = None" "e \<noteq> JsonError"
    by (auto elim: query_row_fails)
  have "r' \<noteq> Ok v" for v
    using r'(1,2) assms(1) by (auto simp: to_sql_err_Ok)
  with r'(1) assms(1) to_sql_err_not_Ok obtain r'' where "act c = (r'', c')" "\<forall>v. r'' \<noteq> Ok v"
    by metis
  with Inl r'(3) that(2) show thesis by blast
qed

lemma json_call:
  assumes "sql_call (ce_sql ce) fn args = to_sql_err SJson act"
    and "cbind (query_row ce fn args col_text) (from_str ce read) c = (r, c')"
  obtains (ok) out where "act c = (Ok out, c')" "r = (case read out of None \<Rightarrow> Inl JsonError | Some a \<Rightarrow> Inr a)"
  | (failed) e r' where "r = Inl e" "e \<noteq> JsonError" "act c = (r', c')" "\<And>v. r' \<noteq> Ok v"
proof -
  obtain r1 c1 where q: "query_row ce fn args col_text c = (r1, c1)" by fastforce
  show thesis
  proof (cases r1)
    case (Inr v)
    with q assms(1) obtain out where "act c = (Ok out, c1)" "v = SJson out"
      by (auto simp: query_row_Inr to_sql_err_Ok)
    with assms(2) q Inr that(1) show thesis by (auto simp: from_str_def split: option.splits)
  next
    case (Inl e)
    with q obtain r' where r': "sql_call (ce_sql ce) fn args c = (r', c1)" "\<And>v. r' = Ok v \<Longrightarrow> col_text v = None" "e \<noteq> JsonError"
      by (auto elim: query_row_fails)
    have "r' \<noteq> Ok v" for v
      using r'(1,2) assms(1) by (auto simp: to_sql_err_Ok)
    with r'(1) assms(1) to_sql_err_not_Ok obtain r'' where "act c = (r'', c1)" "\<forall>v. r'' \<noteq> Ok v"
      by metis
    with Inl r'(3) assms(2) q that(2) show thesis by auto
  qed
qed

section \<open>Reading rows\<close>

lemma those_map_Some: "(\<And>x. x \<in> set xs \<Longrightarrow> f x = Some (g x)) \<Longrightarrow> those (map f xs) = Some (map g xs)"
  by (induction xs) auto

lemma field_simps' [simp]:
  "req_field k f (JObj kvs) = Option.bind (map_of kvs k) f"
  "opt_field k f (JObj kvs) = (case map_of kvs k of None \<Rightarrow> Some None | Some JNull \<Rightarrow> Some None | Some v \<Rightarrow> map_option Some (f v))"
  by (simp_all add: req_field_def opt_field_def)

lemma as_opt_i64: "(case jopt JInt v of JNull \<Rightarrow> Some None | w \<Rightarrow> map_option Some (as_i64 w))
    = (case v of None \<Rightarrow> Some None | Some n \<Rightarrow> if in_i64 n then Some (Some n) else None)"
  by (cases v) (auto simp: jopt_def)

lemma as_opt_str: "(case jopt JStr v of JNull \<Rightarrow> Some None | w \<Rightarrow> map_option Some (as_str w)) = Some v"
  by (cases v) (auto simp: jopt_def)

definition opt_fits :: "int option \<Rightarrow> bool" where
  "opt_fits v = (case v of None \<Rightarrow> True | Some n \<Rightarrow> in_i64 n)"

text \<open>The struct a row of the database is read into, and the rows whose integers fit 64 bits, as SQLite stores them.\<close>

definition job_of :: "job \<Rightarrow> client_job" where
  "job_of j = \<lparr>cj_id = j_id j, cj_queue = j_queue j, cj_payload = j_payload j, cj_worker_id = the (j_worker_id j), cj_attempts = j_attempts j\<rparr>"

definition job_fits :: "job \<Rightarrow> bool" where
  "job_fits j \<longleftrightarrow> in_i64 (j_id j) \<and> in_i64 (j_priority j) \<and> in_i64 (j_run_at j) \<and> in_i64 (j_attempts j) \<and> in_i64 (j_max_attempts j)
     \<and> in_i64 (j_created_at j) \<and> opt_fits (j_claim_expires_at j) \<and> opt_fits (j_expires_at j)"

definition job_row_of :: "job \<Rightarrow> job_row" where
  "job_row_of j = \<lparr>jr_id = j_id j, jr_queue = j_queue j, jr_payload = j_payload j, jr_state = state_text (j_state j),
     jr_priority = j_priority j, jr_run_at = j_run_at j, jr_worker_id = j_worker_id j, jr_claim_expires_at = j_claim_expires_at j,
     jr_attempts = j_attempts j, jr_max_attempts = j_max_attempts j, jr_created_at = j_created_at j, jr_expires_at = j_expires_at j\<rparr>"

definition event_of :: "stream_row \<Rightarrow> stream_event" where
  "event_of e = \<lparr>ev_offset = e_offset e, ev_topic = e_topic e, ev_key = e_key e, ev_payload = e_payload e, ev_created_at = e_created_at e\<rparr>"

definition event_fits :: "stream_row \<Rightarrow> bool" where
  "event_fits e \<longleftrightarrow> in_i64 (e_offset e) \<and> in_i64 (e_created_at e)"

definition schedule_row_of :: "task_row \<Rightarrow> schedule_row" where
  "schedule_row_of r = \<lparr>sr_name = t_name r, sr_queue = t_queue r, sr_cron_expr = t_cron_expr r, sr_payload = t_payload r,
     sr_priority = t_priority r, sr_expires_s = t_expires_s r, sr_next_fire_at = t_next_fire_at r, sr_enabled = (t_enabled r \<noteq> 0),
     sr_max_attempts = t_max_attempts r\<rparr>"

definition task_fits :: "task_row \<Rightarrow> bool" where
  "task_fits r \<longleftrightarrow> in_i64 (t_priority r) \<and> opt_fits (t_expires_s r) \<and> in_i64 (t_next_fire_at r) \<and> in_i64 (t_max_attempts r)"

lemma raw_job_exact:
  "job_fits j \<Longrightarrow> j_worker_id j \<noteq> None \<Longrightarrow> j_claim_expires_at j \<noteq> None \<Longrightarrow> raw_job (claim_json j) = Some (job_of j)"
  by (auto simp: raw_job_def claim_json_def job_of_def job_fits_def opt_fits_def jopt_def)

lemma read_job_row_exact: "job_fits j \<Longrightarrow> read_job_row (job_json j) = Some (job_row_of j)"
  by (auto simp: read_job_row_def job_json_def job_row_of_def job_fits_def opt_fits_def as_opt_i64 as_opt_str split: option.splits)

lemma raw_event_exact: "event_fits e \<Longrightarrow> raw_stream_event (event_json e) = Some (event_of e)"
  by (auto simp: raw_stream_event_def event_json_def event_of_def event_fits_def as_opt_str)

lemma read_schedule_row_exact: "task_fits r \<Longrightarrow> read_schedule_row (task_json r) = Some (schedule_row_of r)"
  by (auto simp: read_schedule_row_def task_json_def schedule_row_of_def task_fits_def opt_fits_def as_opt_i64 split: option.splits)

lemma read_fire_exact:
  "in_i64 at \<Longrightarrow> in_i64 i \<Longrightarrow>
     read_fire (fire_json task at i) = Some \<lparr>sf_name = t_name task, sf_queue = t_queue task, sf_fire_at = at, sf_job_id = i\<rparr>"
  by (auto simp: read_fire_def fire_json_def)

lemma as_vec_map: "(\<And>x. x \<in> set xs \<Longrightarrow> f (g x) = Some (h x)) \<Longrightarrow> as_vec f (JArr (map g xs)) = Some (map h xs)"
  using those_map_Some [of xs "f \<circ> g" h] by simp

section \<open>A claim through the client\<close>


section \<open>Transactions\<close>

text \<open>A call that runs in a transaction leaves it as it is, or SQLite rolled it back and the call says so.\<close>

definition ctame :: "'a caction \<Rightarrow> bool" where
  "ctame m \<longleftrightarrow> (\<forall>c r c'. tx c \<noteq> NoTx \<longrightarrow> m c = (r, c') \<longrightarrow> same_tx c c' \<or> (rolled_back c c' \<and> (\<exists>e. r = Inl e)))"

lemma ctameD: "ctame m \<Longrightarrow> tx c \<noteq> NoTx \<Longrightarrow> m c = (r, c') \<Longrightarrow> same_tx c c' \<or> (rolled_back c c' \<and> (\<exists>e. r = Inl e))"
  by (auto simp: ctame_def)

lemma ctame_cret [ctame_intros]: "ctame (cret a)"
  by (simp add: ctame_def)

lemma ctame_cfail [ctame_intros]: "ctame (cfail e)"
  by (simp add: ctame_def)

lemma ctame_to_string [ctame_intros]: "ctame (to_string p)"
  by (simp add: to_string_def ctame_cret ctame_cfail split: option.split)

lemma ctame_with_conn:
  assumes "tame m"
  shows "ctame (with_conn m)"
  unfolding ctame_def
proof (intro allI impI)
  fix c r c' assume "tx c \<noteq> NoTx" "with_conn m c = (r, c')"
  moreover obtain r1 c1 where "m c = (r1, c1)" by fastforce
  ultimately show "same_tx c c' \<or> (rolled_back c c' \<and> (\<exists>e. r = Inl e))"
    using tameD [OF assms, of c r1 c1] by (cases r1) (auto simp: with_conn_def)
qed

lemma ctame_cbind [ctame_intros]:
  assumes "ctame m" "\<And>a. ctame (k a)"
  shows "ctame (cbind m k)"
  unfolding ctame_def
proof (intro allI impI)
  fix c r c' assume tx: "tx c \<noteq> NoTx" and run: "cbind m k c = (r, c')"
  obtain r1 c1 where m1: "m c = (r1, c1)" by fastforce
  show "same_tx c c' \<or> (rolled_back c c' \<and> (\<exists>e. r = Inl e))"
  proof (cases r1)
    case (Inl e)
    with run m1 ctameD [OF assms(1) tx m1] show ?thesis by auto
  next
    case (Inr a)
    with ctameD [OF assms(1) tx m1] have same: "same_tx c c1" by simp
    then have "tx c1 \<noteq> NoTx" using tx by (simp add: same_tx_def)
    with assms(2) run m1 Inr have "same_tx c1 c' \<or> (rolled_back c1 c' \<and> (\<exists>e. r = Inl e))"
      by (auto dest: ctameD)
    with same show ?thesis by (auto dest: same_tx_trans same_tx_rolled_back)
  qed
qed

lemma ctame_from_str [ctame_intros]: "ctame (from_str ce read v)"
  by (simp add: from_str_def ctame_cret ctame_cfail split: option.split)

lemma tame_to_sql_err [tame_intros]: "tame m \<Longrightarrow> tame (to_sql_err f m)"
  by (fastforce simp: tame_def to_sql_err_def split: prod.splits res.splits)

text \<open>The calls a transaction is meant for.\<close>

lemma tame_ops [tame_intros]:
  "tame (enqueue q p r dl pr m ex)" "tame (stream_publish tp k p)" "tame (stream_save_offset co tp off)" "tame (notify ch p)"
  "tame (stream_get_offset co tp)" "tame (stream_read_since tp off lim)"
  unfolding enqueue_def enqueue_at_def stream_publish_def stream_save_offset_def notify_def check_max_attempts_def
    stream_get_offset_def stream_read_since_def
  by (intro tame_intros)+

lemma ctame_query_row: "tame (sql_call (ce_sql ce) fn args) \<Longrightarrow> ctame (query_row ce fn args get)"
  unfolding query_row_def by (intro ctame_with_conn tame_intros)

lemma ctame_tx_calls [ctame_intros]:
  assumes "binds ce"
  shows "ctame (queue_enqueue ce q payload opts)" "ctame (publish_tx ce topic payload)"
    "ctame (save_offset ce topic consumer offset)" "ctame (db_notify ce channel payload)"
    "ctame (enqueue_tx ce q payload opts)" "ctame (save_offset_tx ce topic consumer offset)" "ctame (notify_tx ce channel payload)"
  unfolding queue_enqueue_def publish_tx_def save_offset_def db_notify_def enqueue_on_def enqueue_tx_def save_offset_tx_def notify_tx_def
  using client_calls [OF assms] stream_calls(1) [OF assms, where k = None]
  by (intro ctame_intros ctame_query_row; simp add: tame_intros opt_str_def)+

text \<open>The three ways out of a transaction.\<close>

lemma begin_cases:
  assumes "transaction c = (r, c1)" "conn_ok c" "tx c = NoTx"
  obtains (failed) e where "r = Inl e" "restored c c1"
  | (begun) "r = Inr ()" "db c1 = db c" "disk c1 = disk c" "tx c1 = Explicit"
proof -
  obtain r1 where b: "sql_begin c = (r1, c1)"
    using assms(1) by (auto simp: transaction_def split: prod.splits sum.splits)
  from b [unfolded sql_begin_def] show thesis
  proof (cases rule: control_cases)
    case (fail e)
    then show thesis
      using that(1) assms(1) b by (auto simp: transaction_def restored_def)
  next
    case (rolled e)
    then show thesis
      using that(1) assms b rolled_back_restored by (auto simp: transaction_def)
  next
    case (ok c2)
    then show thesis
      using that(2) assms b by (auto simp: transaction_def is_autocommit_def split: if_splits)
  qed
qed

lemma drop_cases:
  assumes "tx c \<noteq> NoTx" "conn_ok c"
  shows "disk (tx_drop False c) = disk c
    \<and> (rolled_back c (tx_drop False c) \<or> (\<exists>e. sql_rollback c = (Inl e, tx_drop False c)))"
proof -
  obtain r c1 where rb: "sql_rollback c = (r, c1)" by fastforce
  from rb assms(1) show ?thesis
    by (cases rule: rollback_cases) (auto simp: tx_drop_def rb same_tx_def rolled_back_def)
qed

lemma drop_rolled_back: "tx c = NoTx \<Longrightarrow> conn_ok c \<Longrightarrow> rolled_back c (tx_drop False c)"
  by (cases "sql_rollback c")
    (auto simp: tx_drop_def sql_rollback_def is_autocommit_def rolled_back_def conn_ok_def elim!: control_cases)

text \<open>How a transaction that was not committed leaves the connection: as before, or still open because its \<open>ROLLBACK\<close> failed.\<close>

definition left_alone :: "hconn \<Rightarrow> hconn \<Rightarrow> bool" where
  "left_alone c c' \<longleftrightarrow> disk c' = disk c
     \<and> (tx c' = NoTx \<and> db c' = db c \<or> (\<exists>c2 e. tx c2 \<noteq> NoTx \<and> sql_rollback c2 = (Inl e, c')))"

lemma drop_leaves_alone:
  assumes "conn_ok c" "tx c = NoTx" "disk c2 = disk c" "tx c2 = NoTx \<longrightarrow> db c2 = disk c2 \<and> frames c2 = []"
  shows "left_alone c (tx_drop False c2)"
proof (cases "tx c2 = NoTx")
  case True
  with drop_rolled_back [of c2] assms show ?thesis
    by (auto simp: left_alone_def rolled_back_def conn_ok_def)
next
  case False
  obtain r c3 where rb: "sql_rollback c2 = (r, c3)" by fastforce
  from rb False show ?thesis
    using assms(1-3) False
    by (cases rule: rollback_cases) (auto simp: left_alone_def tx_drop_def rb same_tx_def rolled_back_def conn_ok_def)
qed

lemma commit_cases:
  assumes "tx_commit c2 = (r, c')" "conn_ok c" "tx c = NoTx" "disk c2 = disk c" "tx c2 \<noteq> NoTx"
  obtains (failed) e where "r = Inl e" "left_alone c c'"
  | (committed) "r = Inr ()" "tx c' = NoTx" "disk c' = db c2" "db c' = db c2"
proof -
  obtain r1 c3 where cm: "sql_commit c2 = (r1, c3)" by fastforce
  from cm [unfolded sql_commit_def] show thesis
  proof (cases rule: control_cases)
    case (fail e)
    then show thesis
      using that(1) assms cm drop_leaves_alone [of c c3] by (auto simp: tx_commit_def)
  next
    case (rolled e)
    then show thesis
      using that(1) assms cm drop_leaves_alone [of c c3] by (auto simp: tx_commit_def rolled_back_def)
  next
    case (ok c4)
    then show thesis
      using that(2) assms cm by (auto simp: tx_commit_def tx_drop_def is_autocommit_def commit_tx_def split: if_splits)
  qed
qed

text \<open>
  C18. A transaction of the client happens whole or not at all. Whatever calls run in it and whichever statement fails,
  when the caller gets a value the changes of the calls are committed together; when it gets an error nothing durable has changed,
  and the connection is out of the transaction unless the very \<open>ROLLBACK\<close> of the drop failed.
\<close>

theorem transaction_all_or_nothing:
  assumes "conn_ok c" "tx c = NoTx" "ctame body" "in_transaction body c = (r, c')"
  shows "case r of
      Inr a \<Rightarrow> (\<exists>c1 c2. body c1 = (Inr a, c2) \<and> db c1 = db c \<and> tx c1 = Explicit
        \<and> disk c1 = disk c2 \<and> disk c' = db c2 \<and> db c' = db c2 \<and> tx c' = NoTx)
    | Inl e \<Rightarrow> left_alone c c'"
proof -
  obtain r1 c1 where b: "transaction c = (r1, c1)" by fastforce
  from b assms(1,2) show ?thesis
  proof (cases rule: begin_cases)
    case (failed e)
    then show ?thesis
      using assms(2,4) b by (auto simp: in_transaction_def left_alone_def restored_def)
  next
    case begun
    obtain r2 c2 where bd: "body c1 = (r2, c2)" by fastforce
    have out: "same_tx c1 c2 \<or> (rolled_back c1 c2 \<and> (\<exists>e. r2 = Inl e))"
      using ctameD [OF assms(3) _ bd] begun by simp
    show ?thesis
    proof (cases r2)
      case (Inl e)
      have "left_alone c (tx_drop False c2)"
        using out begun assms(1,2) by (intro drop_leaves_alone) (auto simp: same_tx_def rolled_back_def)
      with Inl assms(4) b begun bd show ?thesis
        by (auto simp: in_transaction_def)
    next
      case (Inr a)
      with out have same: "same_tx c1 c2" by simp
      obtain r3 c3 where cm: "tx_commit c2 = (r3, c3)" by fastforce
      have open2: "disk c2 = disk c" "tx c2 \<noteq> NoTx"
        using same begun by (simp_all add: same_tx_def)
      show ?thesis
        using cm assms(1,2) open2
      proof (cases rule: commit_cases)
        case (failed e)
        with assms(4) b begun bd Inr cm show ?thesis
          by (auto simp: in_transaction_def)
      next
        case committed
        with assms(4) b begun bd Inr cm same have "r = Inr a" "c' = c3" "disk c1 = disk c2"
          by (auto simp: in_transaction_def same_tx_def)
        moreover have "body c1 = (Inr a, c2)" using bd Inr by simp
        ultimately show ?thesis using committed begun by auto
      qed
    qed
  qed
qed

section \<open>Witnesses\<close>

definition demo_client :: client_env where
  "demo_client = \<lparr>ce_sql = demo_env, ce_serde = (\<lambda>s. Some (JStr s))\<rparr>"

lemma demo_client_binds: "binds demo_client"
  by (simp add: binds_def demo_client_def demo_env_def)

definition demo_handle :: queue_handle where
  "demo_handle = \<lparr>q_name = ''q'', q_opts = default_queue_opts\<rparr>"

definition plain_opts :: enqueue_opts where
  "plain_opts = \<lparr>eo_delay = None, eo_run_at = None, eo_priority = 0, eo_expires = None\<rparr>"

text \<open>An enqueue and a publication in one transaction.\<close>

definition tx_body :: "int caction" where
  "tx_body = cbind (enqueue_tx demo_client demo_handle (Some ''p'') plain_opts) (\<lambda>_. publish_tx demo_client ''t'' (Some ''x''))"

lemma tx_body_ctame: "ctame tx_body"
  unfolding tx_body_def by (intro ctame_intros demo_client_binds)


theorem transaction_all_or_nothing_witness:
  "let c' = snd (in_transaction tx_body (fresh_conn empty_db 5 [])) in
     length (live (disk c')) = 1 \<and> length (stream (disk c')) = 1 \<and> tx c' = NoTx"
proof -
  let ?run = "in_transaction tx_body (fresh_conn empty_db 5 [])"
  have "fst ?run = Inr 1" by code_simp
  then have run: "?run = (Inr 1, snd ?run)" by (rule run_pair)
  have "tx (snd ?run) = NoTx"
    using transaction_all_or_nothing [OF _ _ tx_body_ctame run] by auto
  moreover have "length (live (disk (snd ?run))) = 1" "length (stream (disk (snd ?run))) = 1" by code_simp+
  ultimately show ?thesis by (simp add: Let_def)
qed

end
