(* ===== verification/Feeds.thy ===== *)
theory Feeds
  imports Client Traces
begin

text \<open>
  The blocking readers of the Rust client: \<^verbatim>\<open>StreamSubscription\<close>, \<^verbatim>\<open>Subscription\<close> (of \<^verbatim>\<open>listen\<close>) and \<^verbatim>\<open>UpdateEvents\<close>. A
  loop is given the rounds it runs through: what others commit before the round reads the tables, and what the channel of the watcher
  holds when the round finds nothing. A loop that has used up its rounds is \<open>Unfinished\<close>; one that waits on an empty
  channel is \<open>Blocked\<close>.
\<close>

section \<open>What happens around a loop\<close>

definition meanwhile :: "(honker_db \<Rightarrow> honker_db) \<Rightarrow> hconn \<Rightarrow> hconn" where
  "meanwhile f c = (if is_autocommit c then c\<lparr>db := f (db c), disk := f (db c)\<rparr> else c)"

record round =
  rd_others :: "honker_db \<Rightarrow> honker_db"
  rd_recv :: recv_res

datatype 'a yielded = Yields "client_err + 'a" | Ends | Blocked | Unfinished

section \<open>Stream subscriptions\<close>

record stream_sub =
  ss_topic :: string
  ss_consumer :: string
  ss_last_offset :: int
  ss_last_saved :: int
  ss_save_every_n :: int
  ss_pending :: "stream_event list"

definition stream_subscribe :: "client_env \<Rightarrow> string \<Rightarrow> string \<Rightarrow> stream_sub caction" where
  "stream_subscribe ce topic consumer = cbind (get_offset ce topic consumer) (\<lambda>offset.
     cret \<lparr>ss_topic = topic, ss_consumer = consumer, ss_last_offset = offset, ss_last_saved = offset,
       ss_save_every_n = 1000, ss_pending = []\<rparr>)"

definition save_every :: "int \<Rightarrow> stream_sub \<Rightarrow> stream_sub" where
  "save_every n s = s\<lparr>ss_save_every_n := n\<rparr>"

definition sub_save_offset :: "client_env \<Rightarrow> stream_sub \<Rightarrow> hconn \<Rightarrow> (client_err + unit) \<times> stream_sub \<times> hconn" where
  "sub_save_offset ce s c =
     (if ss_last_offset s > ss_last_saved s then
        (case query_row ce ''honker_stream_save_offset'' [VText (ss_consumer s), VText (ss_topic s), VInt (ss_last_offset s)] col_i64 c of
           (Inl e, c1) \<Rightarrow> (Inl e, s, c1)
         | (Inr n, c1) \<Rightarrow> (Inr (), if n > 0 then s\<lparr>ss_last_saved := ss_last_offset s\<rparr> else s, c1))
      else (Inr (), s, c))"

definition sub_refill :: "client_env \<Rightarrow> stream_sub \<Rightarrow> hconn \<Rightarrow> (client_err + unit) \<times> stream_sub \<times> hconn" where
  "sub_refill ce s c = (case read_since ce (ss_topic s) (ss_last_offset s) 100 c of
       (Inl e, c1) \<Rightarrow> (Inl e, s, c1)
     | (Inr evs, c1) \<Rightarrow> (Inr (), s\<lparr>ss_pending := ss_pending s @ evs\<rparr>, c1))"

text \<open>The body of \<open>if let Some(ev) = self.pending.pop_front()\<close>.\<close>

definition sub_pop :: "client_env \<Rightarrow> stream_event \<Rightarrow> stream_event list \<Rightarrow> stream_sub \<Rightarrow> hconn \<Rightarrow> stream_event yielded \<times> stream_sub \<times> hconn" where
  "sub_pop ce ev rest s c =
     (let s1 = s\<lparr>ss_pending := rest, ss_last_offset := ev_offset ev\<rparr> in
      if ss_save_every_n s1 > 0 \<and> wrap_i64 (ss_last_offset s1 - ss_last_saved s1) \<ge> ss_save_every_n s1 then
        (case sub_save_offset ce s1 c of
           (Inl e, s2, c2) \<Rightarrow> (Yields (Inl e), s2, c2)
         | (Inr _, s2, c2) \<Rightarrow> (Yields (Inr ev), s2, c2))
      else (Yields (Inr ev), s1, c))"

fun sub_next :: "client_env \<Rightarrow> round list \<Rightarrow> stream_sub \<Rightarrow> hconn \<Rightarrow> stream_event yielded \<times> stream_sub \<times> hconn" where
  "sub_next ce rounds s c = (case ss_pending s of
       ev # rest \<Rightarrow> sub_pop ce ev rest s c
     | [] \<Rightarrow> (case rounds of
          [] \<Rightarrow> (Unfinished, s, c)
        | e # es \<Rightarrow> (case sub_refill ce s (meanwhile (rd_others e) c) of
             (Inl err, s1, c1) \<Rightarrow> (Yields (Inl err), s1, c1)
           | (Inr _, s1, c1) \<Rightarrow> (case ss_pending s1 of
                ev # rest \<Rightarrow> sub_pop ce ev rest s1 c1
              | [] \<Rightarrow> (case rd_recv e of
                   Tick \<Rightarrow> sub_next ce es s1 c1
                 | Disconnected \<Rightarrow> (Ends, s1, c1)
                 | Blocks \<Rightarrow> (Blocked, s1, c1))))))"

declare sub_next.simps [simp del]

text \<open>\<open>Drop\<close> saves once more and ignores the outcome; taking the sender out of the watcher is \<open>unsubscribe\<close>.\<close>

definition sub_drop :: "client_env \<Rightarrow> stream_sub \<Rightarrow> hconn \<Rightarrow> hconn" where
  "sub_drop ce s c = snd (snd (sub_save_offset ce s c))"

section \<open>Listeners\<close>

record notification =
  nt_id :: int
  nt_channel :: string
  nt_payload :: string

record listener =
  ls_channel :: string
  ls_last_id :: int
  ls_pending :: "notification list"
  ls_closed :: bool

definition notification_of :: "notification_row \<Rightarrow> notification" where
  "notification_of r = \<lparr>nt_id = n_id r, nt_channel = n_channel r, nt_payload = n_payload r\<rparr>"

text \<open>\<^verbatim>\<open>SELECT COALESCE(MAX(id), 0)\<close>\<close>

definition max_notification_id :: "notification_row list \<Rightarrow> int" where
  "max_notification_id rows = (case map n_id rows of [] \<Rightarrow> 0 | i # is \<Rightarrow> fold max is i)"

definition listen :: "string \<Rightarrow> listener caction" where
  "listen channel = cbind (with_conn (query (\<lambda>t d. Inr (max_notification_id (notifications d))))) (\<lambda>last_id.
     cret \<lparr>ls_channel = channel, ls_last_id = last_id, ls_pending = [], ls_closed = False\<rparr>)"

definition notifications_since :: "string \<Rightarrow> int \<Rightarrow> notification_row list \<Rightarrow> notification_row list" where
  "notifications_since channel last_id rows =
     sql_limit 1000 (order_by n_id (filter (\<lambda>r. n_id r > last_id \<and> n_channel r = channel) rows))"

definition listener_refill :: "listener \<Rightarrow> hconn \<Rightarrow> (client_err + unit) \<times> listener \<times> hconn" where
  "listener_refill l c =
     (case with_conn (sbind (query (\<lambda>t d. Inr (notifications_since (ls_channel l) (ls_last_id l) (notifications d)))) decode) c of
        (Inl e, c1) \<Rightarrow> (Inl e, l, c1)
      | (Inr rows, c1) \<Rightarrow> (Inr (), l\<lparr>ls_pending := ls_pending l @ map notification_of rows\<rparr>, c1))"

definition listener_pop :: "notification \<Rightarrow> notification list \<Rightarrow> listener \<Rightarrow> listener" where
  "listener_pop n rest l = l\<lparr>ls_pending := rest, ls_last_id := nt_id n\<rparr>"

text \<open>The loop of \<^verbatim>\<open>recv\<close>, and \<^verbatim>\<open>recv\<close> itself, which \<^verbatim>\<open>Iterator::next\<close> calls.\<close>

fun recv_loop :: "round list \<Rightarrow> listener \<Rightarrow> hconn \<Rightarrow> notification yielded \<times> listener \<times> hconn" where
  "recv_loop rounds l c = (case ls_pending l of
       n # rest \<Rightarrow> (Yields (Inr n), listener_pop n rest l, c)
     | [] \<Rightarrow> (case rounds of
          [] \<Rightarrow> (Unfinished, l, c)
        | e # es \<Rightarrow> (case listener_refill l (meanwhile (rd_others e) c) of
             (Inl err, l1, c1) \<Rightarrow> (Yields (Inl err), l1, c1)
           | (Inr _, l1, c1) \<Rightarrow> (case ls_pending l1 of
                n # rest \<Rightarrow> (Yields (Inr n), listener_pop n rest l1, c1)
              | [] \<Rightarrow> (case rd_recv e of
                   Tick \<Rightarrow> recv_loop es l1 c1
                 | Disconnected \<Rightarrow> (Ends, l1\<lparr>ls_closed := True\<rparr>, c1)
                 | Blocks \<Rightarrow> (Blocked, l1, c1))))))"

declare recv_loop.simps [simp del]

definition listener_recv :: "round list \<Rightarrow> listener \<Rightarrow> hconn \<Rightarrow> notification yielded \<times> listener \<times> hconn" where
  "listener_recv rounds l c = (if ls_closed l then (Ends, l, c) else recv_loop rounds l c)"

definition listener_try_next :: "listener \<Rightarrow> hconn \<Rightarrow> (client_err + notification option) \<times> listener \<times> hconn" where
  "listener_try_next l c = (case ls_pending l of
       n # rest \<Rightarrow> (Inr (Some n), listener_pop n rest l, c)
     | [] \<Rightarrow> (case listener_refill l c of
          (Inl err, l1, c1) \<Rightarrow> (Inl err, l1, c1)
        | (Inr _, l1, c1) \<Rightarrow> (case ls_pending l1 of
             n # rest \<Rightarrow> (Inr (Some n), listener_pop n rest l1, c1)
           | [] \<Rightarrow> (Inr None, l1, c1))))"

text \<open>
  \<^verbatim>\<open>recv_timeout\<close>: a round also says whether the deadline has passed when it looks at the clock; \<open>Blocks\<close> is here the
  timeout of the channel. \<open>Inr None\<close> is the result on a timeout and on a closed channel.
\<close>

fun recv_timeout_loop :: "(round \<times> bool) list \<Rightarrow> listener \<Rightarrow> hconn \<Rightarrow> (client_err + notification option) option \<times> listener \<times> hconn" where
  "recv_timeout_loop [] l c = (None, l, c)"
| "recv_timeout_loop ((e, late) # es) l c = (case listener_refill l (meanwhile (rd_others e) c) of
       (Inl err, l1, c1) \<Rightarrow> (Some (Inl err), l1, c1)
     | (Inr _, l1, c1) \<Rightarrow> (case ls_pending l1 of
          n # rest \<Rightarrow> (Some (Inr (Some n)), listener_pop n rest l1, c1)
        | [] \<Rightarrow> if late then (Some (Inr None), l1, c1)
             else (case rd_recv e of
                 Tick \<Rightarrow> recv_timeout_loop es l1 c1
               | Blocks \<Rightarrow> (Some (Inr None), l1, c1)
               | Disconnected \<Rightarrow> (Some (Inr None), l1\<lparr>ls_closed := True\<rparr>, c1))))"

definition listener_recv_timeout :: "(round \<times> bool) list \<Rightarrow> listener \<Rightarrow> hconn \<Rightarrow> (client_err + notification option) option \<times> listener \<times> hconn" where
  "listener_recv_timeout rounds l c = (case ls_pending l of
       n # rest \<Rightarrow> (Some (Inr (Some n)), listener_pop n rest l, c)
     | [] \<Rightarrow> recv_timeout_loop rounds l c)"

section \<open>Raw update events\<close>

text \<open>\<open>None\<close> while \<^verbatim>\<open>recv\<close> blocks; the channel is the one \<open>subscribe\<close> made.\<close>

definition update_recv :: "nat \<Rightarrow> shared \<Rightarrow> (client_err + unit) option \<times> shared" where
  "update_recv ch s = (case recv ch s of
       (Tick, s') \<Rightarrow> (Some (Inr ()), s')
     | (Disconnected, s') \<Rightarrow> (Some (Inl UpdateClosed), s')
     | (Blocks, s') \<Rightarrow> (None, s'))"

definition update_try_recv :: "nat \<Rightarrow> shared \<Rightarrow> bool \<times> shared" where
  "update_try_recv ch s = (case recv ch s of (r, s') \<Rightarrow> (r = Tick, s'))"

definition update_recv_timeout :: "nat \<Rightarrow> shared \<Rightarrow> (client_err + bool) \<times> shared" where
  "update_recv_timeout ch s = (case recv ch s of
       (Tick, s') \<Rightarrow> (Inr True, s')
     | (Disconnected, s') \<Rightarrow> (Inl UpdateClosed, s')
     | (Blocks, s') \<Rightarrow> (Inr False, s'))"

end
