(* ===== verification/Feeds_Thms.thy ===== *)
theory Feeds_Thms
  imports Feeds Client_Thms "HOL-Library.Sublist"
begin

text \<open>
  A reader that keeps a cursor and a buffer misses nothing and repeats nothing. The contract of the table it reads is the locale
  \<open>cursor_feed\<close>; the streams and the notifications are its two instances.
\<close>

section \<open>Cursors\<close>

definition ahead :: "('r \<Rightarrow> int) \<Rightarrow> int \<Rightarrow> 'r list \<Rightarrow> 'r list" where
  "ahead key k rows = filter (\<lambda>r. k < key r) rows"

text \<open>What was handed out and what is buffered is the beginning of what lies after the start, and the cursor is at the last row handed out.\<close>

definition caught :: "('r \<Rightarrow> int) \<Rightarrow> 'r list \<Rightarrow> int \<Rightarrow> 'r list \<Rightarrow> 'r list \<Rightarrow> int \<Rightarrow> bool" where
  "caught key rows start out pending cur \<longleftrightarrow>
     prefix (out @ pending) (ahead key start rows) \<and> cur = (if out = [] then start else key (last out))"

lemma caught_start [simp]: "caught key rows start [] [] start"
  by (simp add: caught_def)

lemma caught_pop: "caught key rows start out (r # rest) cur \<Longrightarrow> caught key rows start (out @ [r]) rest (key r)"
  by (simp add: caught_def)

lemma caught_grow: "caught key rows start out pending cur \<Longrightarrow> prefix rows rows' \<Longrightarrow> caught key rows' start out pending cur"
  unfolding caught_def ahead_def by (auto intro: prefix_order.trans filter_mono_prefix)

lemma caught_resume:
  assumes "sorted_wrt (<) (map key rows)" "caught key rows start out [] cur"
  shows "out @ ahead key cur rows = ahead key start rows"
proof (cases "out = []")
  case True
  with assms(2) show ?thesis by (simp add: caught_def)
next
  case False
  let ?all = "ahead key start rows"
  from assms(2) obtain rest where all: "?all = out @ rest"
    by (auto simp: caught_def prefix_def)
  have cur: "cur = key (?all ! (length out - 1))"
    using assms(2) False all by (simp add: caught_def last_conv_nth nth_append)
  have "last out \<in> set ?all" using False all by simp
  then have "start < cur" using assms(2) False by (simp add: caught_def ahead_def)
  then have "ahead key cur rows = ahead key cur ?all"
    by (auto simp: ahead_def intro!: filter_cong)
  also have "sorted_wrt (<) (map key ?all)"
    using assms(1) by (induction rows) (auto simp: ahead_def)
  then have "ahead key cur ?all = drop (length out) ?all"
    unfolding cur ahead_def [of key "key _"] using False all by (intro sorted_take_drop_offset) auto
  finally show ?thesis by (simp add: all)
qed

locale cursor_feed =
  fixes ok :: "honker_db \<Rightarrow> bool" and rows :: "honker_db \<Rightarrow> 'r list" and key :: "'r \<Rightarrow> int" and read :: "int \<Rightarrow> honker_db \<Rightarrow> 'r list"
    and lim :: nat
  assumes ascending: "ok d \<Longrightarrow> sorted_wrt (<) (map key (rows d))"
    and read_rows: "ok d \<Longrightarrow> read k d = take lim (ahead key k (rows d))"
    and lim_pos: "0 < lim"
begin

lemma refill_catches:
  assumes "ok d" "caught key (rows d) start out [] cur"
  shows "caught key (rows d) start out (read cur d) cur"
proof -
  have "prefix (out @ read cur d) (out @ ahead key cur (rows d))"
    using assms(1) by (simp add: read_rows take_is_prefix)
  also have "out @ ahead key cur (rows d) = ahead key start (rows d)"
    using assms by (intro caught_resume ascending)
  finally show ?thesis
    using assms(2) by (simp add: caught_def)
qed

lemma nothing_ahead: "ok d \<Longrightarrow> read k d = [] \<longleftrightarrow> ahead key k (rows d) = []"
  using lim_pos by (simp add: read_rows)

end

section \<open>The two feeds\<close>

definition stream_feed_ok :: "honker_db \<Rightarrow> bool" where
  "stream_feed_ok d \<longleftrightarrow> stream_ok d \<and> list_all event_fits (stream d)"

definition topic_events :: "string \<Rightarrow> honker_db \<Rightarrow> stream_event list" where
  "topic_events topic d = map event_of (filter (\<lambda>e. e_topic e = topic) (stream d))"

definition notif_ok :: "honker_db \<Rightarrow> bool" where
  "notif_ok d \<longleftrightarrow> sorted_wrt (<) (map n_id (notifications d)) \<and> 0 \<le> notif_seq d
     \<and> (\<forall>r\<in>set (notifications d). 0 < n_id r \<and> n_id r \<le> notif_seq d)"

definition channel_notifications :: "string \<Rightarrow> honker_db \<Rightarrow> notification list" where
  "channel_notifications channel d = map notification_of (filter (\<lambda>r. n_channel r = channel) (notifications d))"

lemma sorted_map_filter: "sorted_wrt (<) (map g rows) \<Longrightarrow> sorted_wrt (<) (map g (filter p rows))"
  by (induction rows) auto

lemma order_by_ascending: "sorted_wrt (<) (map g rows) \<Longrightarrow> order_by g (filter p rows) = filter p rows"
  using sorted_map_filter [of g rows p]
  by (simp add: order_by_def sort_key_id_if_sorted strict_sorted_imp_sorted)

interpretation events: cursor_feed stream_feed_ok "topic_events topic" ev_offset
    "\<lambda>k d. map event_of (events_since topic k 100 (stream d))" 100 for topic
proof
  show "sorted_wrt (<) (map ev_offset (topic_events topic d))" if "stream_feed_ok d" for d
    using that sorted_map_filter [of e_offset "stream d"]
    by (simp add: stream_feed_ok_def stream_ok_def topic_events_def event_of_def comp_def)
  show "map event_of (events_since topic k 100 (stream d)) = take 100 (ahead ev_offset k (topic_events topic d))"
    if "stream_feed_ok d" for k d
  proof -
    have "events_since topic k 100 (stream d) = take 100 (filter (\<lambda>e. e_topic e = topic \<and> k < e_offset e) (stream d))"
      using that by (simp add: events_since_filter stream_feed_ok_def stream_ok_def sql_limit_def)
    then show ?thesis
      by (simp add: ahead_def topic_events_def filter_map comp_def event_of_def take_map conj_commute)
  qed
qed simp

interpretation bulletins: cursor_feed notif_ok "channel_notifications channel" nt_id
    "\<lambda>k d. map notification_of (notifications_since channel k (notifications d))" 1000 for channel
proof
  show "sorted_wrt (<) (map nt_id (channel_notifications channel d))" if "notif_ok d" for d
    using that sorted_map_filter [of n_id "notifications d"]
    by (simp add: notif_ok_def channel_notifications_def notification_of_def comp_def)
  show "map notification_of (notifications_since channel k (notifications d)) = take 1000 (ahead nt_id k (channel_notifications channel d))"
    if "notif_ok d" for k d
  proof -
    have "notifications_since channel k (notifications d) = take 1000 (filter (\<lambda>r. k < n_id r \<and> n_channel r = channel) (notifications d))"
      using that by (simp add: notifications_since_def notif_ok_def order_by_ascending sql_limit_def)
    then show ?thesis
      by (simp add: ahead_def channel_notifications_def filter_map comp_def notification_of_def take_map conj_commute)
  qed
qed simp

section \<open>What the calls of a reader do\<close>

text \<open>Outside a transaction a query leaves the connection as it is, and one statement either fails or runs.\<close>

definition idle :: "hconn \<Rightarrow> bool" where
  "idle c \<longleftrightarrow> tx c = NoTx \<and> conn_ok c"

lemma exec_idle:
  assumes "exec stmt c = (r, c')" "idle c"
  shows "idle c' \<and> (db c' = db c \<or> (\<exists>t a. r = Ok a \<and> stmt t (db c) = Inr (a, db c')))"
  using assms
  by (auto simp: exec_def idle_def conn_ok_def put_db_def is_autocommit_def dest!: next_env_Pair
      split: prod.splits option.splits fault.splits sum.splits)

lemma query_idle:
  assumes "query q c = (r, c')" "idle c"
  shows "idle c' \<and> db c' = db c"
  using exec_idle [OF assms(1) [unfolded query_def] assms(2)] by (auto split: sum.splits) (metis sum.exhaust)

lemma meanwhile_idle: "idle c \<Longrightarrow> idle (meanwhile f c) \<and> db (meanwhile f c) = f (db c)"
  by (simp add: idle_def meanwhile_def is_autocommit_def conn_ok_def)

lemma read_since_effect:
  assumes "binds ce" "idle c" "stream_feed_ok (db c)" "read_since ce topic k lim c = (r, c')"
  shows "idle c' \<and> db c' = db c \<and> (\<forall>evs. r = Inr evs \<longrightarrow> evs = map event_of (events_since topic k lim (stream (db c))))"
  using stream_calls(2) [OF assms(1)] assms(4) [unfolded read_since_def]
proof (cases rule: json_call)
  case (failed e r')
  with assms(2) query_idle show ?thesis by (auto simp: stream_read_since_def)
next
  case (ok out)
  then have out: "out = JArr (map event_json (events_since topic k lim (stream (db c))))"
    using stream_read_Ok by blast
  have "set (events_since topic k lim (stream (db c))) \<subseteq> set (stream (db c))"
    unfolding events_since_def using sql_limit_set by fastforce
  then have "as_vec raw_stream_event out = Some (map event_of (events_since topic k lim (stream (db c))))"
    unfolding out using assms(3) by (intro as_vec_map raw_event_exact) (auto simp: stream_feed_ok_def list_all_iff)
  with ok assms(2) query_idle show ?thesis by (auto simp: stream_read_since_def)
qed

lemma save_call_effect:
  assumes "binds ce" "idle c"
    and "query_row ce ''honker_stream_save_offset'' [VText co, VText tp, VInt off] col_i64 c = (r, c')"
  shows "idle c' \<and> stream (db c') = stream (db c) \<and> stream_seq (db c') = stream_seq (db c)"
proof -
  from stream_calls(3) [OF assms(1)] assms(3) obtain r' where "stream_save_offset co tp off c = (r', c')"
    by (cases rule: int_call) auto
  then obtain r'' where "exec (\<lambda>t d. Inr (upsert_offset co tp off d)) c = (r'', c')"
    by (auto simp: stream_save_offset_def sbind_def split: prod.splits res.splits)
  from exec_idle [OF this assms(2)] show ?thesis
    by (auto simp: upsert_offset_def Let_def split: if_splits dest!: sym [of _ "db c'"])
qed

section \<open>A subscription to a stream\<close>

text \<open>What a sequence of calls gave out, and its errors.\<close>

definition given :: "'a yielded list \<Rightarrow> 'a list" where
  "given ys = concat (map (\<lambda>y. case y of Yields (Inr a) \<Rightarrow> [a] | _ \<Rightarrow> []) ys)"

definition errors :: "'a yielded list \<Rightarrow> client_err list" where
  "errors ys = concat (map (\<lambda>y. case y of Yields (Inl e) \<Rightarrow> [e] | _ \<Rightarrow> []) ys)"

lemma given_simps [simp]:
  "given [] = []" "given (ys @ zs) = given ys @ given zs" "given [Yields (Inr a)] = [a]" "given [Yields (Inl e)] = []"
  "given [Ends] = []" "given [Blocked] = []" "given [Unfinished] = []"
  by (simp_all add: given_def)

lemma errors_simps [simp]:
  "errors [] = []" "errors (ys @ zs) = errors ys @ errors zs" "errors [Yields (Inr a)] = []" "errors [Yields (Inl e)] = [e]"
  "errors [Ends] = []" "errors [Blocked] = []" "errors [Unfinished] = []"
  by (simp_all add: errors_def)

text \<open>The subscriber calls \<^verbatim>\<open>next\<close> and \<^verbatim>\<open>save_offset\<close>; others commit in between.\<close>

datatype sub_move = Others "honker_db \<Rightarrow> honker_db" | Next "round list" | SaveOffset

inductive sub_step :: "client_env \<Rightarrow> stream_sub \<times> hconn \<times> stream_event yielded list \<Rightarrow> sub_move
    \<Rightarrow> stream_sub \<times> hconn \<times> stream_event yielded list \<Rightarrow> bool" for ce where
  sub_others: "sub_step ce (s, c, ys) (Others f) (s, meanwhile f c, ys)"
| sub_nexts: "sub_next ce rounds s c = (y, s', c') \<Longrightarrow> sub_step ce (s, c, ys) (Next rounds) (s', c', ys @ [y])"
| sub_saves: "sub_save_offset ce s c = (r, s', c') \<Longrightarrow> sub_step ce (s, c, ys) SaveOffset (s', c', ys)"

inductive_simps sub_step_simps [simp]: "sub_step ce (s, c, ys) m t"

text \<open>The others only append to the stream, as every publication does.\<close>

definition publishes :: "(honker_db \<Rightarrow> honker_db) \<Rightarrow> bool" where
  "publishes f \<longleftrightarrow> (\<forall>d. stream_feed_ok d \<longrightarrow> stream_feed_ok (f d) \<and> prefix (stream d) (stream (f d)))"

definition sub_polite :: "sub_move \<Rightarrow> bool" where
  "sub_polite m = (case m of Others f \<Rightarrow> publishes f | Next rounds \<Rightarrow> list_all (publishes \<circ> rd_others) rounds | SaveOffset \<Rightarrow> True)"

definition following :: "string \<Rightarrow> int \<Rightarrow> stream_sub \<times> hconn \<times> stream_event yielded list \<Rightarrow> bool" where
  "following topic start = (\<lambda>(s, c, ys). idle c \<and> stream_feed_ok (db c) \<and> ss_topic s = topic
     \<and> (\<exists>popped. caught ev_offset (topic_events topic (db c)) start popped (ss_pending s) (ss_last_offset s)
          \<and> subseq (given ys) popped \<and> length popped \<le> length (given ys) + length (errors ys)))"

lemma following_others:
  assumes "following topic start (s, c, ys)" "publishes f"
  shows "following topic start (s, meanwhile f c, ys)"
proof -
  have "prefix (topic_events topic (db c)) (topic_events topic (f (db c)))"
    using assms by (auto simp: following_def publishes_def topic_events_def intro: filter_mono_prefix map_mono_prefix)
  with assms meanwhile_idle [of c f] show ?thesis
    by (auto simp: following_def publishes_def intro: caught_grow)
qed

lemma sub_save_effect:
  assumes "binds ce" "sub_save_offset ce s c = (r, s', c')" "idle c"
  shows "idle c' \<and> stream (db c') = stream (db c) \<and> stream_seq (db c') = stream_seq (db c)
    \<and> ss_pending s' = ss_pending s \<and> ss_last_offset s' = ss_last_offset s \<and> ss_topic s' = ss_topic s"
  using assms(2,3) save_call_effect [OF assms(1,3)]
  by (auto simp: sub_save_offset_def split: if_splits prod.splits sum.splits)

lemma same_stream:
  assumes "stream d' = stream d" "stream_seq d' = stream_seq d"
  shows "stream_feed_ok d' = stream_feed_ok d" "topic_events topic d' = topic_events topic d"
  using assms by (simp_all add: stream_feed_ok_def stream_ok_def topic_events_def)

lemma following_save:
  assumes "binds ce" "following topic start (s, c, ys)" "sub_save_offset ce s c = (r, s', c')"
  shows "following topic start (s', c', ys)"
  using assms(2) sub_save_effect [OF assms(1,3)] same_stream [of "db c'" "db c"]
  by (auto simp: following_def)

lemma following_refill:
  assumes "binds ce" "following topic start (s, c, ys)" "ss_pending s = []" "sub_refill ce s c = (r, s', c')"
  shows "following topic start (s', c', ys)
    \<and> (r = Inr () \<longrightarrow> ss_pending s' = [] \<longrightarrow> ahead ev_offset (ss_last_offset s') (topic_events topic (db c')) = [])"
proof -
  obtain r1 c1 where rd: "read_since ce topic (ss_last_offset s) 100 c = (r1, c1)" by fastforce
  have ok: "idle c" "stream_feed_ok (db c)" "ss_topic s = topic"
    using assms(2) by (auto simp: following_def)
  note eff = read_since_effect [OF assms(1) ok(1,2) rd]
  from assms(2,3) obtain popped where p: "caught ev_offset (topic_events topic (db c)) start popped [] (ss_last_offset s)"
      "subseq (given ys) popped" "length popped \<le> length (given ys) + length (errors ys)"
    by (auto simp: following_def)
  show ?thesis
  proof (cases r1)
    case (Inl e)
    with assms(4) rd ok eff have "s' = s" "c' = c1" "r \<noteq> Inr ()"
      by (auto simp: sub_refill_def)
    with assms(2) eff show ?thesis by (auto simp: following_def)
  next
    case (Inr evs)
    let ?evs = "map event_of (events_since topic (ss_last_offset s) 100 (stream (db c)))"
    have s': "s' = s\<lparr>ss_pending := ?evs\<rparr>" "c' = c1"
      using assms(3,4) rd ok eff Inr by (auto simp: sub_refill_def)
    have "caught ev_offset (topic_events topic (db c)) start popped ?evs (ss_last_offset s)"
      by (rule events.refill_catches [OF ok(2) p(1)])
    moreover have "?evs = [] \<longleftrightarrow> ahead ev_offset (ss_last_offset s) (topic_events topic (db c)) = []"
      by (rule events.nothing_ahead [OF ok(2)])
    ultimately show ?thesis
      using s' eff ok p by (auto simp: following_def)
  qed
qed

lemma following_pop:
  assumes "binds ce" "following topic start (s, c, ys)" "ss_pending s = ev # rest" "sub_pop ce ev rest s c = (y, s', c')"
  shows "following topic start (s', c', ys @ [y])"
proof -
  let ?s = "s\<lparr>ss_pending := rest, ss_last_offset := ev_offset ev\<rparr>"
  from assms(2,3) obtain popped where p: "caught ev_offset (topic_events topic (db c)) start popped (ev # rest) (ss_last_offset s)"
      "subseq (given ys) popped" "length popped \<le> length (given ys) + length (errors ys)"
    by (auto simp: following_def)
  have ok: "idle c" "stream_feed_ok (db c)" "ss_topic s = topic"
    using assms(2) by (auto simp: following_def)
  obtain r1 s1 c1 where sv: "sub_save_offset ce ?s c = (r1, s1, c1)" by (cases "sub_save_offset ce ?s c")
  have y: "y = Yields (Inr ev) \<or> (\<exists>e. y = Yields (Inl e))"
    and eff: "idle c' \<and> stream (db c') = stream (db c) \<and> stream_seq (db c') = stream_seq (db c)
      \<and> ss_pending s' = rest \<and> ss_last_offset s' = ev_offset ev \<and> ss_topic s' = topic"
    using assms(4) sv sub_save_effect [OF assms(1) sv ok(1)] ok
    by (auto simp: sub_pop_def Let_def split: if_splits sum.splits)
  have "caught ev_offset (topic_events topic (db c')) start (popped @ [ev]) (ss_pending s') (ss_last_offset s')"
    using caught_pop [OF p(1)] eff same_stream [of "db c'" "db c"] by simp
  moreover have "subseq (given (ys @ [y])) (popped @ [ev])"
    using y p(2) by (auto intro: list_emb_append_mono list_emb_prefix)
  moreover have "length (popped @ [ev]) \<le> length (given (ys @ [y])) + length (errors (ys @ [y]))"
    using y p(3) by auto
  ultimately show ?thesis
    using eff ok same_stream [of "db c'" "db c"] unfolding following_def by blast
qed

lemma following_quiet:
  "following topic start (s, c, ys) \<Longrightarrow> y \<in> {Ends, Blocked, Unfinished} \<Longrightarrow> following topic start (s, c, ys @ [y])"
  by (auto simp: following_def)

lemma following_error: "following topic start (s, c, ys) \<Longrightarrow> following topic start (s, c, ys @ [Yields (Inl e)])"
  by (auto simp: following_def)

text \<open>How the loop of \<^verbatim>\<open>next\<close> goes on.\<close>

lemma sub_next_pending: "ss_pending s = ev # rest \<Longrightarrow> sub_next ce rounds s c = sub_pop ce ev rest s c"
  by (simp add: sub_next.simps)

lemma sub_next_again:
  assumes "ss_pending s = []" "sub_refill ce s (meanwhile (rd_others e) c) = (Inr u, s1, c1)" "ss_pending s1 \<noteq> [] \<or> rd_recv e = Tick"
  shows "sub_next ce (e # es) s c = sub_next ce es s1 c1"
  using assms by (cases "ss_pending s1") (simp_all add: sub_next.simps [of ce "e # es"] sub_next_pending)

lemma sub_pop_yields: "sub_pop ce ev rest s c = (y, s', c') \<Longrightarrow> y \<noteq> Blocked"
  by (auto simp: sub_pop_def Let_def split: if_splits prod.splits sum.splits)

text \<open>A call of \<^verbatim>\<open>next\<close> keeps the reader on track and blocks only when nothing lies ahead.\<close>

lemma following_next:
  assumes "binds ce" "following topic start (s, c, ys)" "list_all (publishes \<circ> rd_others) rounds"
    and "sub_next ce rounds s c = (y, s', c')"
  shows "following topic start (s', c', ys @ [y])
    \<and> (y = Blocked \<longrightarrow> ss_pending s' = [] \<and> ahead ev_offset (ss_last_offset s') (topic_events topic (db c')) = [])"
  using assms(2-4)
proof (induction rounds arbitrary: s c)
  case Nil
  then show ?case
    using following_pop [OF assms(1) Nil.prems(1)] sub_pop_yields
    by (cases "ss_pending s") (auto simp: sub_next.simps intro: following_quiet)
next
  case (Cons e es)
  let ?c = "meanwhile (rd_others e) c"
  obtain r s1 c1 where rf: "sub_refill ce s ?c = (r, s1, c1)" by (cases "sub_refill ce s ?c")
  consider (pending) ev rest where "ss_pending s = ev # rest" | (empty) "ss_pending s = []" by (cases "ss_pending s")
  then show ?case
  proof cases
    case pending
    with Cons.prems(3) show ?thesis
      using following_pop [OF assms(1) Cons.prems(1)] sub_pop_yields by (auto simp: sub_next_pending)
  next
    case empty
    have "following topic start (s, ?c, ys)"
      using Cons.prems(1,2) by (intro following_others) auto
    note f1 = following_refill [OF assms(1) this empty rf]
    consider (err) e' where "r = Inl e'" | (again) "r = Inr ()" "ss_pending s1 \<noteq> [] \<or> rd_recv e = Tick"
      | (stop) "r = Inr ()" "ss_pending s1 = []" "rd_recv e \<noteq> Tick" by (cases r) auto
    then show ?thesis
    proof cases
      case err
      with Cons.prems(3) empty rf f1 show ?thesis
        by (auto simp: sub_next.simps intro: following_error)
    next
      case again
      with Cons.prems(3) empty rf have "sub_next ce es s1 c1 = (y, s', c')"
        by (simp add: sub_next_again)
      from Cons.IH [OF conjunct1 [OF f1] _ this] Cons.prems(2) show ?thesis by simp
    next
      case stop
      with Cons.prems(3) empty rf f1 show ?thesis
        by (cases "rd_recv e") (auto simp: sub_next.simps intro: following_quiet)
    qed
  qed
qed

lemma following_step:
  assumes "binds ce" "following topic start t" "sub_polite m" "sub_step ce t m t'"
  shows "following topic start t'"
  using assms(4,2,3)
proof (cases rule: sub_step.cases)
  case (sub_others s c ys f)
  with assms(2,3) show ?thesis by (auto simp: sub_polite_def intro: following_others)
next
  case (sub_nexts rounds s c y s' c' ys)
  with assms(2,3) following_next [OF assms(1)] show ?thesis by (simp add: sub_polite_def)
next
  case (sub_saves s c r s' c' ys)
  with assms(2) following_save [OF assms(1)] show ?thesis by simp
qed

interpretation follow: kept_by_steps "sub_step ce" "\<lambda>m. binds ce \<and> sub_polite m" "following topic start" for ce topic start
  by unfold_locales (auto intro: following_step)

lemma subscribe_follows:
  assumes "binds ce" "idle c0" "stream_feed_ok (db c0)" "stream_subscribe ce topic consumer c0 = (Inr s0, c1)"
  shows "following topic (saved_offset consumer topic (db c0)) (save_every n s0, c1, [])"
proof -
  obtain off where g: "get_offset ce topic consumer c0 = (Inr off, c1)"
    and s0: "s0 = \<lparr>ss_topic = topic, ss_consumer = consumer, ss_last_offset = off, ss_last_saved = off, ss_save_every_n = 1000, ss_pending = []\<rparr>"
    using assms(4) unfolding stream_subscribe_def by (elim cbind_Inr) simp
  from stream_calls(4) [OF assms(1)] g [unfolded get_offset_def] have q: "stream_get_offset consumer topic c0 = (Ok off, c1)"
    by (cases rule: int_call) auto
  have "off = saved_offset consumer topic (db c0)"
    using q unfolding stream_get_offset_def by (elim query_Ok) simp
  with q query_idle [of _ c0 "Ok off" c1] assms(2,3) show ?thesis
    by (auto simp: following_def s0 save_every_def stream_get_offset_def)
qed

lemma following_run:
  assumes "binds ce" "idle c0" "stream_feed_ok (db c0)" "stream_subscribe ce topic consumer c0 = (Inr s0, c1)"
    and "run (sub_step ce) (save_every n s0, c1, []) ms (s, c, ys)" "list_all sub_polite ms"
  shows "following topic (saved_offset consumer topic (db c0)) (s, c, ys)"
  using follow.run_keeps [OF assms(5)] subscribe_follows [OF assms(1-4)] assms(1,6) by (simp add: list_all_iff)

lemma no_error_no_loss: "subseq (given ys) popped \<Longrightarrow> length popped \<le> length (given ys) + length (errors ys) \<Longrightarrow> errors ys = [] \<Longrightarrow> popped = given ys"
  by (metis add.right_neutral le_antisym list.size(3) list_emb_length subseq_same_length)

text \<open>
  C21. A subscription to a stream follows it from the saved position of its consumer: over every sequence of calls, whatever fails and whatever others
  publish in between, the events it takes from its buffer, with those still in it, are the first events of the topic after that
  position, in order and each once. It hands them out in that order; for every event it takes and does not
  hand out it returns an error, so without errors it hands out all of them.
\<close>

theorem stream_subscription_exact:
  assumes "binds ce" "idle c0" "stream_feed_ok (db c0)" "stream_subscribe ce topic consumer c0 = (Inr s0, c1)"
    and "run (sub_step ce) (save_every n s0, c1, []) ms (s, c, ys)" "list_all sub_polite ms"
  shows "\<exists>popped. prefix (popped @ ss_pending s) (ahead ev_offset (saved_offset consumer topic (db c0)) (topic_events topic (db c)))
    \<and> subseq (given ys) popped \<and> length popped \<le> length (given ys) + length (errors ys) \<and> (errors ys = [] \<longrightarrow> popped = given ys)"
  using following_run [OF assms] no_error_no_loss by (auto simp: following_def caught_def)

text \<open>
  A subscription waits only when it has handed out everything: when \<^verbatim>\<open>next\<close> blocks after calls without errors, the events it has given are
  all events of the topic after the saved position that are in the database at that moment.
\<close>

theorem stream_next_blocks_when_drained:
  assumes "binds ce" "idle c0" "stream_feed_ok (db c0)" "stream_subscribe ce topic consumer c0 = (Inr s0, c1)"
    and "run (sub_step ce) (save_every n s0, c1, []) ms (s, c, ys)" "list_all sub_polite ms"
    and "sub_next ce rounds s c = (Blocked, s', c')" "list_all (publishes \<circ> rd_others) rounds" "errors ys = []"
  shows "given ys = ahead ev_offset (saved_offset consumer topic (db c0)) (topic_events topic (db c'))"
proof -
  let ?start = "saved_offset consumer topic (db c0)"
  have f: "following topic ?start (s', c', ys @ [Blocked])" and
    empty: "ss_pending s' = []" "ahead ev_offset (ss_last_offset s') (topic_events topic (db c')) = []"
    using following_next [OF assms(1) following_run [OF assms(1-6)] assms(8,7)] by auto
  then obtain popped where p: "caught ev_offset (topic_events topic (db c')) ?start popped [] (ss_last_offset s')"
      "subseq (given ys) popped" "length popped \<le> length (given ys) + length (errors ys)" and ok: "stream_feed_ok (db c')"
    by (auto simp: following_def)
  from caught_resume [OF events.ascending [OF ok] p(1)] empty(2) no_error_no_loss [OF p(2,3) assms(9)] show ?thesis by simp
qed

text \<open>A consumer without a saved position reads the three events of its topic and then waits.\<close>

definition quiet_round :: round where
  "quiet_round = \<lparr>rd_others = (\<lambda>d. d), rd_recv = Blocks\<rparr>"

definition sub_call :: "stream_sub \<times> hconn \<times> stream_event yielded list \<Rightarrow> stream_sub \<times> hconn \<times> stream_event yielded list" where
  "sub_call = (\<lambda>(s, c, ys). case sub_next demo_client [quiet_round] s c of (y, s', c') \<Rightarrow> (s', c', ys @ [y]))"

definition demo_subscribed :: "(client_err + stream_sub) \<times> hconn" where
  "demo_subscribed = stream_subscribe demo_client ''a'' ''k'' (fresh_conn sample_events 9 [])"

definition demo_sub :: "nat \<Rightarrow> stream_sub \<times> hconn \<times> stream_event yielded list" where
  "demo_sub n = (sub_call ^^ n) (save_every 1000 (projr (fst demo_subscribed)), snd demo_subscribed, [])"

lemma sub_call_run: "run (sub_step demo_client) t (replicate n (Next [quiet_round])) ((sub_call ^^ n) t)"
proof (induction n arbitrary: t)
  case (Suc n)
  have "sub_step demo_client t (Next [quiet_round]) (sub_call t)"
    by (cases t) (auto simp: sub_call_def split: prod.splits)
  then show ?case
    unfolding replicate_Suc funpow_Suc_right comp_apply using Suc.IH by (rule run_cons)
qed simp

lemma quiet_publishes: "publishes (rd_others quiet_round)"
  by (simp add: publishes_def quiet_round_def)

lemma demo_premises:
  "idle (fresh_conn sample_events 9 [])" "stream_feed_ok (db (fresh_conn sample_events 9 []))"
  "stream_subscribe demo_client ''a'' ''k'' (fresh_conn sample_events 9 []) = (Inr (projr (fst demo_subscribed)), snd demo_subscribed)"
  "run (sub_step demo_client) (save_every 1000 (projr (fst demo_subscribed)), snd demo_subscribed, []) (replicate n (Next [quiet_round])) (demo_sub n)"
  "list_all sub_polite (replicate n (Next [quiet_round]))"
proof -
  have "isl (fst demo_subscribed) = False" by code_simp
  then have "fst demo_subscribed = Inr (projr (fst demo_subscribed))" by (cases "fst demo_subscribed") auto
  then show "stream_subscribe demo_client ''a'' ''k'' (fresh_conn sample_events 9 []) = (Inr (projr (fst demo_subscribed)), snd demo_subscribed)"
    unfolding demo_subscribed_def by (rule run_pair)
  show "stream_feed_ok (db (fresh_conn sample_events 9 []))" by code_simp
  show "run (sub_step demo_client) (save_every 1000 (projr (fst demo_subscribed)), snd demo_subscribed, []) (replicate n (Next [quiet_round])) (demo_sub n)"
    unfolding demo_sub_def by (rule sub_call_run)
  show "list_all sub_polite (replicate n (Next [quiet_round]))"
    using quiet_publishes by (induction n) (auto simp: sub_polite_def)
qed (simp add: idle_def)

theorem stream_subscription_exact_witness:
  "\<exists>popped. prefix (popped @ ss_pending (fst (demo_sub 2))) (ahead ev_offset 0 (topic_events ''a'' (db (fst (snd (demo_sub 2)))))) \<and> map ev_offset popped = [1, 3]"
proof -
  obtain s c ys where d: "demo_sub 2 = (s, c, ys)" by (cases "demo_sub 2")
  have "errors (snd (snd (demo_sub 2))) = []" "map ev_offset (given (snd (snd (demo_sub 2)))) = [1, 3]" by code_simp+
  then have "errors ys = []" "map ev_offset (given ys) = [1, 3]" by (simp_all add: d)
  moreover have "saved_offset ''k'' ''a'' (db (fresh_conn sample_events 9 [])) = 0" by code_simp
  ultimately show ?thesis
    using stream_subscription_exact [OF demo_client_binds demo_premises(1-3) demo_premises(4) [of 2, unfolded d] demo_premises(5)]
    by (auto simp: d)
qed

theorem stream_next_blocks_when_drained_witness:
  "fst (sub_next demo_client [quiet_round] (fst (demo_sub 3)) (fst (snd (demo_sub 3)))) = Blocked
   \<and> given (snd (snd (demo_sub 3))) = ahead ev_offset 0 (topic_events ''a'' sample_events)"
proof -
  obtain s c ys where d: "demo_sub 3 = (s, c, ys)" by (cases "demo_sub 3")
  obtain y s' c' where n: "sub_next demo_client [quiet_round] s c = (y, s', c')" by (cases "sub_next demo_client [quiet_round] s c")
  have "fst (sub_next demo_client [quiet_round] (fst (demo_sub 3)) (fst (snd (demo_sub 3)))) = Blocked" by code_simp
  then have y: "y = Blocked" by (simp add: d n)
  have "errors (snd (snd (demo_sub 3))) = []" by code_simp
  then have e: "errors ys = []" by (simp add: d)
  have "db (snd (snd (sub_next demo_client [quiet_round] (fst (demo_sub 3)) (fst (snd (demo_sub 3)))))) = sample_events" by code_simp
  then have "db c' = sample_events" by (simp add: d n)
  moreover have "saved_offset ''k'' ''a'' (db (fresh_conn sample_events 9 [])) = 0" by code_simp
  ultimately show ?thesis
    using stream_next_blocks_when_drained [OF demo_client_binds demo_premises(1-3) demo_premises(4) [of 3, unfolded d] demo_premises(5) n [unfolded y] _ e]
      quiet_publishes n y d by simp
qed

section \<open>An event that is lost\<close>

text \<open>
  The event at which an automatic save fails is not handed out: \<^verbatim>\<open>next\<close> has taken it from the buffer and returns the
  error instead. The next call hands out the event after it and saves a position behind both, so the consumer never
  sees it. And with automatic saving turned off, dropping the subscription still saves.
\<close>

definition failing_save :: "env_step list" where
  "failing_save = [\<lparr>tick = 0, fault = None\<rparr>, \<lparr>tick = 0, fault = None\<rparr>, \<lparr>tick = 0, fault = Some (FaultErr (SqliteFailure DatabaseBusy ''busy''))\<rparr>]"

definition saving_sub :: "stream_sub \<times> hconn \<times> stream_event yielded list" where
  "saving_sub = (case stream_subscribe demo_client ''a'' ''k'' (fresh_conn sample_events 9 failing_save) of
     (r, c) \<Rightarrow> (save_every 1 (projr r), c, []))"

theorem failing_save_loses_event:
  "let (s, c, ys) = sub_call (sub_call saving_sub) in
     map ev_offset (given ys) = [3] \<and> length (errors ys) = 1 \<and> saved_offset ''k'' ''a'' (disk c) = 3
     \<and> map ev_offset (ss_pending s) = [5]"
  by code_simp

theorem drop_saves_although_turned_off:
  "let (s, c, ys) = demo_sub 2 in saved_offset ''k'' ''a'' (disk c) = 0
     \<and> saved_offset ''k'' ''a'' (disk (sub_drop demo_client (save_every 0 s) c)) = 3"
  by code_simp

end
