(* ===== verification/Listener_Thms.thy ===== *)
theory Listener_Thms
  imports Feeds_Thms
begin

text \<open>
  Listeners of a channel: what one of them is given, over any sequence of its calls. An invariant of a listener is an instance of the locale
  \<open>listener_invariant\<close>: it has to survive what others commit, a refill of the buffer and a pop, and then every call keeps it.
\<close>

section \<open>Calls of a listener\<close>

datatype listener_move = ListenerOthers "honker_db \<Rightarrow> honker_db" | Recv "round list" | TryNext | RecvTimeout "(round \<times> bool) list"

text \<open>The outcome of the calls that do not block, in the terms of \<^verbatim>\<open>recv\<close>.\<close>

fun as_yield :: "(client_err + 'a option) option \<Rightarrow> 'a yielded" where
  "as_yield None = Unfinished"
| "as_yield (Some (Inl e)) = Yields (Inl e)"
| "as_yield (Some (Inr None)) = Ends"
| "as_yield (Some (Inr (Some a))) = Yields (Inr a)"

inductive listener_step :: "listener \<times> hconn \<times> notification yielded list \<Rightarrow> listener_move \<Rightarrow> listener \<times> hconn \<times> notification yielded list \<Rightarrow> bool" where
  l_others: "listener_step (l, c, ys) (ListenerOthers f) (l, meanwhile f c, ys)"
| l_recv: "listener_recv rounds l c = (y, l', c') \<Longrightarrow> listener_step (l, c, ys) (Recv rounds) (l', c', ys @ [y])"
| l_try: "listener_try_next l c = (r, l', c') \<Longrightarrow> listener_step (l, c, ys) TryNext (l', c', ys @ [as_yield (Some r)])"
| l_timeout: "listener_recv_timeout rounds l c = (r, l', c') \<Longrightarrow> listener_step (l, c, ys) (RecvTimeout rounds) (l', c', ys @ [as_yield r])"

definition all_others :: "((honker_db \<Rightarrow> honker_db) \<Rightarrow> bool) \<Rightarrow> listener_move \<Rightarrow> bool" where
  "all_others allowed m = (case m of
       ListenerOthers f \<Rightarrow> allowed f
     | Recv rounds \<Rightarrow> list_all (allowed \<circ> rd_others) rounds
     | TryNext \<Rightarrow> True
     | RecvTimeout rounds \<Rightarrow> list_all (allowed \<circ> rd_others \<circ> fst) rounds)"

locale listener_invariant =
  fixes I :: "listener \<Rightarrow> hconn \<Rightarrow> notification list \<Rightarrow> bool" and allowed :: "(honker_db \<Rightarrow> honker_db) \<Rightarrow> bool"
  assumes others: "I l c out \<Longrightarrow> allowed f \<Longrightarrow> I l (meanwhile f c) out"
    and refill: "I l c out \<Longrightarrow> ls_pending l = [] \<Longrightarrow> listener_refill l c = (r, l', c') \<Longrightarrow> I l' c' out"
    and pop: "I l c out \<Longrightarrow> ls_pending l = n # rest \<Longrightarrow> I (listener_pop n rest l) c (out @ [n])"
    and closing: "I l c out \<Longrightarrow> I (l\<lparr>ls_closed := b\<rparr>) c out"
begin

lemma recv_loop_keeps:
  assumes "I l c out" "list_all (allowed \<circ> rd_others) rounds" "recv_loop rounds l c = (y, l', c')"
  shows "I l' c' (out @ given [y])
    \<and> (y = Blocked \<longrightarrow> (\<exists>l1 c1. I l1 c1 out \<and> ls_pending l1 = [] \<and> listener_refill l1 c1 = (Inr (), l', c') \<and> ls_pending l' = []))"
  using assms
proof (induction rounds arbitrary: l c)
  case Nil
  then show ?case
    using pop [OF Nil.prems(1)] by (cases "ls_pending l") (auto simp: recv_loop.simps)
next
  case (Cons e es)
  let ?c = "meanwhile (rd_others e) c"
  have i: "I l ?c out" using Cons.prems(1,2) others by simp
  obtain r l1 c1 where rf: "listener_refill l ?c = (r, l1, c1)" by (cases "listener_refill l ?c")
  show ?case
  proof (cases "ls_pending l")
    case (Cons n rest)
    with Cons.prems pop [OF Cons.prems(1)] show ?thesis by (auto simp: recv_loop.simps)
  next
    case empty: Nil
    have i1: "I l1 c1 out" using i empty rf by (rule refill)
    consider (err) e' where "r = Inl e'" | (found) n rest where "r = Inr ()" "ls_pending l1 = n # rest"
      | (none) "r = Inr ()" "ls_pending l1 = []" by (cases r; cases "ls_pending l1") auto
    then show ?thesis
    proof cases
      case none
      show ?thesis
      proof (cases "rd_recv e")
        case Tick
        with Cons.prems(3) empty rf none have "recv_loop es l1 c1 = (y, l', c')" by (simp add: recv_loop.simps [of "e # es"])
        from Cons.IH [OF i1 _ this] Cons.prems(2) show ?thesis by simp
      qed (use Cons.prems(3) empty rf none i i1 closing in \<open>auto simp: recv_loop.simps\<close>)
    qed (use Cons.prems(3) empty rf i1 pop [OF i1] in \<open>auto simp: recv_loop.simps\<close>)
  qed
qed

lemma recv_keeps: "I l c out \<Longrightarrow> list_all (allowed \<circ> rd_others) rounds \<Longrightarrow> listener_recv rounds l c = (y, l', c') \<Longrightarrow> I l' c' (out @ given [y])"
  using recv_loop_keeps by (auto simp: listener_recv_def split: if_splits)

lemma try_keeps:
  assumes "I l c out" "listener_try_next l c = (r, l', c')"
  shows "I l' c' (out @ given [as_yield (Some r)])"
proof (cases "ls_pending l")
  case (Cons n rest)
  with assms pop [OF assms(1)] show ?thesis by (auto simp: listener_try_next_def)
next
  case Nil
  obtain r1 l1 c1 where rf: "listener_refill l c = (r1, l1, c1)" by (cases "listener_refill l c")
  have "I l1 c1 out" using assms(1) Nil rf by (rule refill)
  with assms(2) Nil rf pop [OF this] show ?thesis
    by (cases r1; cases "ls_pending l1") (auto simp: listener_try_next_def)
qed

lemma timeout_loop_keeps:
  assumes "I l c out" "ls_pending l = []" "list_all (allowed \<circ> rd_others \<circ> fst) rounds" "recv_timeout_loop rounds l c = (r, l', c')"
  shows "I l' c' (out @ given [as_yield r])"
  using assms
proof (induction rounds arbitrary: l c)
  case (Cons el es)
  obtain e late where el: "el = (e, late)" by (cases el)
  let ?c = "meanwhile (rd_others e) c"
  obtain r1 l1 c1 where rf: "listener_refill l ?c = (r1, l1, c1)" by (cases "listener_refill l ?c")
  have "I l ?c out" using Cons.prems(1,3) others by (simp add: el)
  then have i1: "I l1 c1 out" using Cons.prems(2) rf by (rule refill)
  with Cons.prems(3,4) rf Cons.IH [OF i1] pop [OF i1] closing [OF i1, of True] show ?case
    by (cases r1; cases "ls_pending l1"; cases "rd_recv e") (auto simp: el split: if_splits)
qed simp

lemma timeout_keeps:
  "I l c out \<Longrightarrow> list_all (allowed \<circ> rd_others \<circ> fst) rounds \<Longrightarrow> listener_recv_timeout rounds l c = (r, l', c') \<Longrightarrow> I l' c' (out @ given [as_yield r])"
  using timeout_loop_keeps pop by (cases "ls_pending l") (auto simp: listener_recv_timeout_def)

lemma step_keeps_inv:
  "listener_step (l, c, ys) m (l', c', ys') \<Longrightarrow> all_others allowed m \<Longrightarrow> I l c (given ys) \<Longrightarrow> I l' c' (given ys')"
  by (erule listener_step.cases) (auto simp: all_others_def intro: others recv_keeps try_keeps timeout_keeps)

end

sublocale listener_invariant \<subseteq> calls: kept_by_steps listener_step "all_others allowed" "\<lambda>(l, c, ys). I l c (given ys)"
  by unfold_locales (auto intro: step_keeps_inv)
section \<open>A listener is given everything, once and in order\<close>

lemma listener_refill_effect:
  assumes "idle c" "listener_refill l c = (r, l', c')"
  shows "idle c' \<and> db c' = db c \<and> ls_channel l' = ls_channel l \<and> ls_last_id l' = ls_last_id l
    \<and> (case r of Inl e \<Rightarrow> l' = l
       | Inr _ \<Rightarrow> ls_pending l' = ls_pending l @ map notification_of (notifications_since (ls_channel l) (ls_last_id l) (notifications (db c))))"
proof -
  let ?q = "query (\<lambda>t d. Inr (notifications_since (ls_channel l) (ls_last_id l) (notifications d))) :: notification_row list haction"
  obtain r1 c1 where q: "?q c = (r1, c1)" by fastforce
  note i = query_idle [OF q assms(1)]
  show ?thesis
  proof (cases r1)
    case (Ok rows)
    obtain r2 c2 where d: "decode rows c1 = (r2, c2)" by fastforce
    have "idle c2 \<and> db c2 = db c1"
      using exec_idle [OF d [unfolded decode_def]] i by auto
    moreover have "rows = notifications_since (ls_channel l) (ls_last_id l) (notifications (db c))"
      using q Ok by (auto elim: query_Ok)
    moreover have "r2 = Ok rows \<or> (\<forall>a. r2 \<noteq> Ok a)"
      using d by (cases r2) (auto elim: decode_Ok)
    ultimately show ?thesis
      using assms(2) q d Ok i by (cases r2) (auto simp: listener_refill_def with_conn_def)
  qed (use assms(2) q i in \<open>auto simp: listener_refill_def with_conn_def\<close>)
qed

text \<open>Others append to the table, as every \<^verbatim>\<open>notify\<close> does, or also prune it.\<close>

definition announces :: "(honker_db \<Rightarrow> honker_db) \<Rightarrow> bool" where
  "announces f \<longleftrightarrow> (\<forall>d. notif_ok d \<longrightarrow> notif_ok (f d) \<and> prefix (notifications d) (notifications (f d)))"

definition tidies :: "(honker_db \<Rightarrow> honker_db) \<Rightarrow> bool" where
  "tidies f \<longleftrightarrow> (\<forall>d. notif_ok d \<longrightarrow> notif_ok (f d))"

definition hearing :: "string \<Rightarrow> honker_db \<Rightarrow> listener \<Rightarrow> hconn \<Rightarrow> notification list \<Rightarrow> bool" where
  "hearing channel d0 l c out \<longleftrightarrow> idle c \<and> notif_ok (db c) \<and> prefix (notifications d0) (notifications (db c)) \<and> ls_channel l = channel
     \<and> caught nt_id (channel_notifications channel (db c)) (max_notification_id (notifications d0)) out (ls_pending l) (ls_last_id l)"

definition in_order :: "int \<Rightarrow> listener \<Rightarrow> hconn \<Rightarrow> notification list \<Rightarrow> bool" where
  "in_order start l c out \<longleftrightarrow> idle c \<and> notif_ok (db c) \<and> sorted_wrt (<) (start # map nt_id (out @ ls_pending l))
     \<and> ls_last_id l = (if out = [] then start else nt_id (last out))"

interpretation hears: listener_invariant "hearing channel d0" announces for channel d0
proof
  show "hearing channel d0 l (meanwhile f c) out" if "hearing channel d0 l c out" "announces f" for l c out f
  proof -
    have "prefix (channel_notifications channel (db c)) (channel_notifications channel (f (db c)))"
      using that by (auto simp: hearing_def announces_def channel_notifications_def intro: filter_mono_prefix map_mono_prefix)
    with that meanwhile_idle [of c f] show ?thesis
      by (auto simp: hearing_def announces_def intro: caught_grow prefix_order.trans)
  qed
  show "hearing channel d0 l' c' out" if "hearing channel d0 l c out" "ls_pending l = []" "listener_refill l c = (r, l', c')" for l c out r l' c'
    using listener_refill_effect [OF _ that(3)] that bulletins.refill_catches [of "db c" channel _ out "ls_last_id l"]
    by (cases r) (auto simp: hearing_def)
  show "hearing channel d0 (listener_pop n rest l) c (out @ [n])" if "hearing channel d0 l c out" "ls_pending l = n # rest" for l c out n rest
    using that caught_pop by (auto simp: hearing_def listener_pop_def)
qed (simp add: hearing_def)

lemma ahead_sorted: "notif_ok d \<Longrightarrow> sorted_wrt (<) (k # map nt_id (take n (ahead nt_id k (channel_notifications channel d))))"
  using bulletins.ascending [of d channel]
  by (auto simp: ahead_def sorted_wrt_take sorted_map_filter simp flip: take_map dest!: in_set_takeD)

lemma sorted_wrt_extend:
  "sorted_wrt (<) xs \<Longrightarrow> sorted_wrt (<) (k # ys) \<Longrightarrow> (\<And>x. x \<in> set xs \<Longrightarrow> x \<le> k) \<Longrightarrow> sorted_wrt (<) (xs @ (ys :: int list))"
  by (fastforce simp: sorted_wrt_append)

interpretation orders: listener_invariant "in_order start" tidies for start
proof
  show "in_order start l (meanwhile f c) out" if "in_order start l c out" "tidies f" for l c out f
    using that meanwhile_idle [of c f] by (auto simp: in_order_def tidies_def)
  show "in_order start l' c' out" if "in_order start l c out" "ls_pending l = []" "listener_refill l c = (r, l', c')" for l c out r l' c'
  proof (cases r)
    case (Inl e)
    with listener_refill_effect [OF _ that(3)] that(1) show ?thesis by (auto simp: in_order_def)
  next
    case (Inr u)
    let ?new = "map notification_of (notifications_since (ls_channel l) (ls_last_id l) (notifications (db c)))"
    have "sorted_wrt (<) (ls_last_id l # map nt_id ?new)"
      using that(1) bulletins.read_rows [of "db c" "ls_channel l" "ls_last_id l"] ahead_sorted [of "db c" "ls_last_id l" 1000 "ls_channel l"]
      by (simp add: in_order_def)
    moreover have "x \<le> ls_last_id l" if "x \<in> set (start # map nt_id out)" for x
      using that \<open>in_order start l c out\<close>
      by (cases out rule: rev_cases) (auto simp: in_order_def sorted_wrt_append less_imp_le)
    ultimately have "sorted_wrt (<) ((start # map nt_id out) @ map nt_id ?new)"
      using that(1,2) by (intro sorted_wrt_extend [of _ "ls_last_id l"]) (auto simp: in_order_def)
    moreover have "idle c" using that(1) by (simp add: in_order_def)
    then have "idle c' \<and> db c' = db c \<and> ls_last_id l' = ls_last_id l \<and> ls_pending l' = ?new"
      using listener_refill_effect [OF _ that(3)] that(2) Inr by simp
    ultimately show ?thesis
      using that(1) by (simp add: in_order_def)
  qed
  show "in_order start (listener_pop n rest l) c (out @ [n])" if "in_order start l c out" "ls_pending l = n # rest" for l c out n rest
    using that by (auto simp: in_order_def listener_pop_def)
qed (simp add: in_order_def)

text \<open>Publishing and pruning are what the interfaces allow others to do.\<close>

lemma notify_announces: "announces (\<lambda>d. case insert_notification channel payload t d of Inl _ \<Rightarrow> d | Inr (_, d') \<Rightarrow> d')"
  by (force simp: announces_def notif_ok_def insert_notification_def sorted_wrt_append split: sum.splits)

lemma prune_tidies: "tidies (\<lambda>d. d\<lparr>notifications := del_where p (notifications d)\<rparr>)"
  using sorted_map_filter [of n_id _ "\<lambda>r. \<not> p r"] by (auto simp: tidies_def notif_ok_def del_where_def)

text \<open>\<open>MAX(id)\<close> separates what was there from what comes.\<close>

lemma max_notification_id_Max: "rows \<noteq> [] \<Longrightarrow> max_notification_id rows = Max (set (map n_id rows))"
  by (cases rows) (simp_all add: max_notification_id_def Max.set_eq_fold del: list.set_map set_map set_simps)

lemma max_notification_id_bound: "r \<in> set rows \<Longrightarrow> n_id r \<le> max_notification_id rows"
  by (cases "rows = []") (auto simp: max_notification_id_Max)

lemma max_notification_id_in: "rows \<noteq> [] \<Longrightarrow> max_notification_id rows \<in> set (map n_id rows)"
  using Max_in [of "set (map n_id rows)"] by (simp add: max_notification_id_Max)

lemma ahead_of_max:
  assumes "notif_ok d" "notifications d = old @ new"
  shows "ahead nt_id (max_notification_id old) (channel_notifications channel d) = map notification_of (filter (\<lambda>r. n_channel r = channel) new)"
proof -
  have "max_notification_id old < n_id r" if "r \<in> set new" for r
    using assms that max_notification_id_in [of old]
    by (cases "old = []") (auto simp: notif_ok_def sorted_wrt_append max_notification_id_def)
  moreover have "\<not> max_notification_id old < n_id r" if "r \<in> set old" for r
    using max_notification_id_bound [OF that] by simp
  ultimately show ?thesis
    by (auto simp: ahead_def channel_notifications_def assms(2) filter_map comp_def notification_of_def filter_empty_conv intro!: map_cong filter_cong)
qed

lemma listen_hears:
  assumes "idle c0" "notif_ok (db c0)" "listen channel c0 = (Inr l0, c1)"
  shows "hearing channel (db c0) l0 c1 []" "in_order (max_notification_id (notifications (db c0))) l0 c1 []"
proof -
  let ?q = "query (\<lambda>t d. Inr (max_notification_id (notifications d))) :: int haction"
  obtain i where q: "?q c0 = (Ok i, c1)" and l0: "l0 = \<lparr>ls_channel = channel, ls_last_id = i, ls_pending = [], ls_closed = False\<rparr>"
    using assms(3) unfolding listen_def
    by (elim cbind_Inr) (auto simp: with_conn_def split: prod.splits res.splits)
  have "i = max_notification_id (notifications (db c0))" using q by (auto elim: query_Ok)
  with query_idle [OF q assms(1)] assms(2) show "hearing channel (db c0) l0 c1 []" "in_order (max_notification_id (notifications (db c0))) l0 c1 []"
    by (simp_all add: hearing_def in_order_def l0)
qed

text \<open>
  C20. A listener is given every notification of its channel, once and in order: over every sequence of its calls, blocking or not, with any
  failures, while others go on to notify, what it was given and still has buffered is the beginning of what was committed on its channel after it began to listen.
\<close>

theorem listener_given_all:
  assumes "idle c0" "notif_ok (db c0)" "listen channel c0 = (Inr l0, c1)"
    and "run listener_step (l0, c1, []) ms (l, c, ys)" "list_all (all_others announces) ms"
  shows "\<exists>new. notifications (db c) = notifications (db c0) @ new
    \<and> prefix (given ys @ ls_pending l) (map notification_of (filter (\<lambda>r. n_channel r = channel) new))"
proof -
  have h: "hearing channel (db c0) l c (given ys)"
    using hears.calls.run_keeps [OF assms(4,5)] listen_hears(1) [OF assms(1-3)] by simp
  then obtain new where "notifications (db c) = notifications (db c0) @ new"
    by (auto simp: hearing_def prefix_def)
  with h ahead_of_max [of "db c" "notifications (db c0)" new channel] show ?thesis
    by (auto simp: hearing_def caught_def)
qed

text \<open>
  A listener waits only when it has been given everything: when \<^verbatim>\<open>recv\<close> blocks, the listener has all notifications that were committed on its
  channel after it began to listen and that are in the database at that moment.
\<close>

theorem listener_waits_when_drained:
  assumes "idle c0" "notif_ok (db c0)" "listen channel c0 = (Inr l0, c1)"
    and "run listener_step (l0, c1, []) ms (l, c, ys)" "list_all (all_others announces) ms"
    and "listener_recv rounds l c = (Blocked, l', c')" "list_all (announces \<circ> rd_others) rounds"
  shows "\<exists>new. notifications (db c') = notifications (db c0) @ new
    \<and> given ys = map notification_of (filter (\<lambda>r. n_channel r = channel) new)"
proof -
  have h: "hearing channel (db c0) l c (given ys)"
    using hears.calls.run_keeps [OF assms(4,5)] listen_hears(1) [OF assms(1-3)] by simp
  have "recv_loop rounds l c = (Blocked, l', c')"
    using assms(6) by (auto simp: listener_recv_def split: if_splits)
  from hears.recv_loop_keeps [OF h assms(7) this] obtain l1 c1 where i: "hearing channel (db c0) l' c' (given ys)" "hearing channel (db c0) l1 c1 (given ys)"
    and rf: "ls_pending l1 = []" "listener_refill l1 c1 = (Inr (), l', c')" "ls_pending l' = []" by auto
  have "ahead nt_id (ls_last_id l') (channel_notifications channel (db c')) = []"
    using listener_refill_effect [OF _ rf(2)] rf i bulletins.nothing_ahead [of "db c'" channel "ls_last_id l'"]
    by (auto simp: hearing_def)
  then have all: "given ys = ahead nt_id (max_notification_id (notifications (db c0))) (channel_notifications channel (db c'))"
    using caught_resume [OF bulletins.ascending] i(1) rf(3) by (fastforce simp: hearing_def)
  from i(1) obtain new where "notifications (db c') = notifications (db c0) @ new"
    by (auto simp: hearing_def prefix_def)
  with i(1) all ahead_of_max [of "db c'" "notifications (db c0)" new channel] show ?thesis
    by (auto simp: hearing_def)
qed

text \<open>Also with pruning going on a listener sees no notification twice and none out of order.\<close>

theorem listener_in_order:
  assumes "idle c0" "notif_ok (db c0)" "listen channel c0 = (Inr l0, c1)"
    and "run listener_step (l0, c1, []) ms (l, c, ys)" "list_all (all_others tidies) ms"
  shows "sorted_wrt (<) (map nt_id (given ys))"
  using orders.calls.run_keeps [OF assms(4,5)] listen_hears(2) [OF assms(1-3)] by (auto simp: in_order_def sorted_wrt_append)

text \<open>A listener of channel \<open>a\<close> reads what was notified after it came, and waits.\<close>

definition one_more :: "honker_db \<Rightarrow> honker_db" where
  "one_more d = (case insert_notification ''a'' ''new'' 9 d of Inl _ \<Rightarrow> d | Inr (_, d') \<Rightarrow> d')"

definition noisy_db :: honker_db where
  "noisy_db = one_more (empty_db\<lparr>notif_seq := 3\<rparr>)"

definition demo_listened :: "(client_err + listener) \<times> hconn" where
  "demo_listened = listen ''a'' (fresh_conn noisy_db 9 [])"

definition demo_received :: "notification yielded \<times> listener \<times> hconn" where
  "demo_received = listener_recv [\<lparr>rd_others = one_more, rd_recv = Blocks\<rparr>] (projr (fst demo_listened)) (snd demo_listened)"

lemma listener_demo:
  "idle (fresh_conn noisy_db 9 [])" "notif_ok (db (fresh_conn noisy_db 9 []))"
  "listen ''a'' (fresh_conn noisy_db 9 []) = (Inr (projr (fst demo_listened)), snd demo_listened)"
  "run listener_step (projr (fst demo_listened), snd demo_listened, []) [Recv [\<lparr>rd_others = one_more, rd_recv = Blocks\<rparr>]]
     (fst (snd demo_received), snd (snd demo_received), [fst demo_received])"
  "list_all (all_others announces) [Recv [\<lparr>rd_others = one_more, rd_recv = Blocks\<rparr>]]"
proof -
  have "isl (fst demo_listened) = False" by code_simp
  then have "fst demo_listened = Inr (projr (fst demo_listened))" by (cases "fst demo_listened") auto
  then show "listen ''a'' (fresh_conn noisy_db 9 []) = (Inr (projr (fst demo_listened)), snd demo_listened)"
    unfolding demo_listened_def by (rule run_pair)
  show "notif_ok (db (fresh_conn noisy_db 9 []))" by code_simp
  have "listener_step (projr (fst demo_listened), snd demo_listened, []) (Recv [\<lparr>rd_others = one_more, rd_recv = Blocks\<rparr>])
      (fst (snd demo_received), snd (snd demo_received), [] @ [fst demo_received])"
    by (rule l_recv) (simp add: demo_received_def)
  then show "run listener_step (projr (fst demo_listened), snd demo_listened, []) [Recv [\<lparr>rd_others = one_more, rd_recv = Blocks\<rparr>]]
     (fst (snd demo_received), snd (snd demo_received), [fst demo_received])" by (auto intro: run_cons run_nil)
  show "list_all (all_others announces) [Recv [\<lparr>rd_others = one_more, rd_recv = Blocks\<rparr>]]"
    using notify_announces [of "''a''" "''new''" 9] by (simp add: all_others_def one_more_def [abs_def])
qed (simp add: idle_def)

theorem listener_given_all_witness:
  "\<exists>new. notifications (db (snd (snd demo_received))) = notifications noisy_db @ new \<and> length new = 1 \<and> map nt_id (given [fst demo_received]) = [5]
    \<and> prefix (given [fst demo_received]) (map notification_of (filter (\<lambda>r. n_channel r = ''a'') new))"
proof -
  from listener_given_all [OF listener_demo] obtain new where new: "notifications (db (snd (snd demo_received))) = notifications noisy_db @ new"
    "prefix (given [fst demo_received] @ ls_pending (fst (snd demo_received))) (map notification_of (filter (\<lambda>r. n_channel r = ''a'') new))" by auto
  have "length (notifications (db (snd (snd demo_received)))) = 2" "length (notifications noisy_db) = 1"
    "map nt_id (given [fst demo_received]) = [5]" "ls_pending (fst (snd demo_received)) = []" by code_simp+
  with new show ?thesis by auto
qed

theorem listener_waits_when_drained_witness:
  "\<exists>new. notifications (db (snd (snd demo_received))) = notifications noisy_db @ new
    \<and> given [fst demo_received] = map notification_of (filter (\<lambda>r. n_channel r = ''a'') new)"
proof -
  let ?rounds = "[\<lparr>rd_others = (\<lambda>d. d), rd_recv = Blocks\<rparr>]"
  let ?call = "listener_recv ?rounds (fst (snd demo_received)) (snd (snd demo_received))"
  have "fst ?call = Blocked" by code_simp
  then have call: "?call = (Blocked, fst (snd ?call), snd (snd ?call))" by (metis prod.collapse)
  have "list_all (announces \<circ> rd_others) ?rounds" by (simp add: announces_def)
  from listener_waits_when_drained [OF listener_demo call this]
  obtain new where "notifications (db (snd (snd ?call))) = notifications noisy_db @ new"
    "given [fst demo_received] = map notification_of (filter (\<lambda>r. n_channel r = ''a'') new)" by auto
  moreover have "notifications (db (snd (snd ?call))) = notifications (db (snd (snd demo_received)))" by code_simp
  ultimately show ?thesis by auto
qed

end
