(* ===== verification/Workers.thy ===== *)
theory Workers
  imports Feeds
begin

text \<open>
  The two workers of the Rust client: \<^verbatim>\<open>ClaimWaker\<close>, which waits for the next job of a queue, and \<^verbatim>\<open>Outbox\<close>, which claims a job,
  hands its payload to the caller's delivery function and acknowledges or retries it.
\<close>

section \<open>Waiting for a job\<close>

text \<open>
  One pass of the loop of \<^verbatim>\<open>ClaimWaker::next\<close>: what others commit before the claim and before the lookup, the time
  \<^verbatim>\<open>chrono_like_now\<close> reads, and what the channel brings while it waits.
\<close>

record wake_round =
  wr_before :: "honker_db \<Rightarrow> honker_db"
  wr_between :: "honker_db \<Rightarrow> honker_db"
  wr_now :: int
  wr_recv :: recv_res

text \<open>
  \<^verbatim>\<open>recv_until\<close>: without a time it waits for good, otherwise until that time; its result, and the seconds it is ready to wait.
\<close>

datatype until_res = Woken | TimedOut | HungUp | StillWaiting

definition recv_until :: "recv_res \<Rightarrow> int \<Rightarrow> until_res" where
  "recv_until r unix_sec = (case r of
       Tick \<Rightarrow> Woken
     | Disconnected \<Rightarrow> HungUp
     | Blocks \<Rightarrow> if unix_sec \<le> 0 then StillWaiting else TimedOut)"

definition until_seconds :: "int \<Rightarrow> int \<Rightarrow> int" where
  "until_seconds now unix_sec = (if unix_sec \<le> now then 0 else unix_sec - now)"

datatype waker_res = GotJob client_job | WatcherGone | WakerFailed client_err | WakerBlocked | WakerUnfinished

fun waker_next :: "client_env \<Rightarrow> string \<Rightarrow> int \<Rightarrow> string \<Rightarrow> wake_round list \<Rightarrow> hconn \<Rightarrow> waker_res \<times> hconn" where
  "waker_next ce name timeout_s worker_id [] c = (WakerUnfinished, c)"
| "waker_next ce name timeout_s worker_id (e # es) c =
     (case claim_jobs ce name worker_id 1 timeout_s (meanwhile (wr_before e) c) of
        (Inl err, c1) \<Rightarrow> (WakerFailed err, c1)
      | (Inr (job # jobs), c1) \<Rightarrow> (GotJob job, c1)
      | (Inr [], c1) \<Rightarrow>
          (case query_row ce ''honker_queue_next_claim_at'' [VText name] col_i64 (meanwhile (wr_between e) c1) of
             (Inl err, c2) \<Rightarrow> (WakerFailed err, c2)
           | (Inr next_at, c2) \<Rightarrow>
               if next_at > 0 \<and> next_at \<le> wr_now e then waker_next ce name timeout_s worker_id es c2
               else (case recv_until (wr_recv e) next_at of
                   HungUp \<Rightarrow> (WatcherGone, c2)
                 | StillWaiting \<Rightarrow> (WakerBlocked, c2)
                 | _ \<Rightarrow> waker_next ce name timeout_s worker_id es c2)))"

definition waker_try_next :: "client_env \<Rightarrow> string \<Rightarrow> int \<Rightarrow> string \<Rightarrow> client_job option caction" where
  "waker_try_next ce name timeout_s worker_id = cbind (claim_jobs ce name worker_id 1 timeout_s) (\<lambda>jobs. cret (opt_hd jobs))"

section \<open>The outbox\<close>

record outbox_opts =
  ob_visibility_timeout_s :: int
  ob_max_attempts :: int
  ob_base_backoff :: int

definition default_outbox_opts :: outbox_opts where
  "default_outbox_opts = \<lparr>ob_visibility_timeout_s = 60, ob_max_attempts = 5, ob_base_backoff = 5\<rparr>"

record outbox =
  ob_name :: string
  ob_queue :: queue_handle
  base_backoff_s :: int

definition outbox_new :: "string \<Rightarrow> outbox_opts \<Rightarrow> outbox" where
  "outbox_new name opts = \<lparr>ob_name = name,
     ob_queue = \<lparr>q_name = ''_outbox:'' @ name, q_opts = \<lparr>visibility_timeout_s = ob_visibility_timeout_s opts, opt_max_attempts = ob_max_attempts opts\<rparr>\<rparr>,
     base_backoff_s = ob_base_backoff opts\<rparr>"

definition outbox_enqueue :: "client_env \<Rightarrow> outbox \<Rightarrow> string option \<Rightarrow> enqueue_opts \<Rightarrow> int caction" where
  "outbox_enqueue ce o' payload opts = queue_enqueue ce (ob_queue o') payload opts"

definition outbox_enqueue_tx :: "client_env \<Rightarrow> outbox \<Rightarrow> string option \<Rightarrow> enqueue_opts \<Rightarrow> int caction" where
  "outbox_enqueue_tx ce o' payload opts = enqueue_tx ce (ob_queue o') payload opts"

text \<open>\<^verbatim>\<open>2_i64.saturating_pow(attempts.saturating_sub(1) as u32)\<close>: the cast keeps the low 32 bits.\<close>

definition retry_delay :: "int \<Rightarrow> int \<Rightarrow> int" where
  "retry_delay base attempts =
     (if base \<le> 0 then 0 else saturating_i64 (base * saturating_i64 (2 ^ nat (saturating_i64 (attempts - 1) mod 2 ^ 32))))"

text \<open>The delivery returns \<open>Inl\<close> its error as text; \<open>others\<close> is what happens to the tables while it runs.\<close>

definition settle :: "client_env \<Rightarrow> outbox \<Rightarrow> client_job \<Rightarrow> string + unit \<Rightarrow> bool caction" where
  "settle ce o' job outcome = (case outcome of
       Inr _ \<Rightarrow> cbind (job_ack ce job) (\<lambda>acked. if acked then cret True else cfail (OutboxAckFailed (cj_id job)))
     | Inl err \<Rightarrow> cbind (job_retry ce job (retry_delay (base_backoff_s o') (cj_attempts job)) err)
         (\<lambda>retried. if retried then cret True else cfail (OutboxRetryFailed (cj_id job))))"

definition run_once ::
  "client_env \<Rightarrow> outbox \<Rightarrow> string \<Rightarrow> (json \<Rightarrow> string + unit) \<Rightarrow> (honker_db \<Rightarrow> honker_db) \<Rightarrow> bool caction" where
  "run_once ce o' worker_id delivery others = cbind (queue_claim_one ce (ob_queue o') worker_id) (\<lambda>job. case job of
       None \<Rightarrow> cret False
     | Some job \<Rightarrow> (case ce_serde ce (cj_payload job) of
          None \<Rightarrow> cfail JsonError
        | Some payload \<Rightarrow> (\<lambda>c. settle ce o' job (delivery payload) (meanwhile others c))))"

end
