(* ===== verification/Workers_Thms.thy ===== *)
theory Workers_Thms
  imports Workers Feeds_Thms Wake_Thms
begin

text \<open>
  The outbox loses no job it has not delivered, its delays stay in range, and a waiting worker does not sleep through a job as long as no
  lease lapses between its claim and its lookup.
\<close>

section \<open>The delay before a retry\<close>

lemma saturating_low: "0 \<le> x \<Longrightarrow> saturating_i64 x = min i64_max x"
  by (auto simp: saturating_i64_def i64_min_def i64_max_def)

lemma retry_delay_value:
  assumes "0 < base" "1 \<le> a" "a \<le> 2 ^ 32"
  shows "retry_delay base a = min i64_max (base * 2 ^ nat (a - 1))"
proof -
  have exp: "saturating_i64 (a - 1) mod 2 ^ 32 = a - 1"
    using assms by (simp add: saturating_i64_def i64_min_def i64_max_def)
  have pow: "saturating_i64 (2 ^ nat (a - 1)) = min i64_max (2 ^ nat (a - 1))"
    by (intro saturating_low) simp
  have "retry_delay base a = min i64_max (base * min i64_max (2 ^ nat (a - 1)))"
    unfolding retry_delay_def exp pow using assms(1) by (subst saturating_low) (auto simp: i64_max_def)
  also have "\<dots> = min i64_max (base * 2 ^ nat (a - 1))"
  proof (cases "2 ^ nat (a - 1) \<le> i64_max")
    case False
    have "i64_max \<le> base * i64_max" "2 ^ nat (a - 1) \<le> base * 2 ^ nat (a - 1)"
      using assms(1) mult_right_mono [of 1 base i64_max] mult_right_mono [of 1 base "2 ^ nat (a - 1)"] by (simp_all add: i64_max_def)
    with False have "i64_max \<le> base * i64_max" "i64_max \<le> base * 2 ^ nat (a - 1)" by linarith+
    with False show ?thesis by (simp only: min_def if_True if_False not_le less_imp_le)
  qed (simp add: min_def)
  finally show ?thesis .
qed

text \<open>
  The delay of the outbox is exponential and saturates: for every attempt number that a claim can hand out below the wrap-around of the cast to 32
  bits it is the base times a power of two, cut off at the largest 64-bit integer; it never is negative, and it never
  shrinks from one attempt to the next.
\<close>

theorem retry_delay_exact:
  assumes "0 < base" "1 \<le> attempts" "attempts \<le> later_attempts" "later_attempts \<le> 2 ^ 32"
  shows "retry_delay base attempts = min i64_max (base * 2 ^ nat (attempts - 1))
    \<and> 0 \<le> retry_delay base attempts \<and> retry_delay base attempts \<le> retry_delay base later_attempts"
proof -
  have "base * 2 ^ nat (attempts - 1) \<le> base * 2 ^ nat (later_attempts - 1)"
    using assms by (intro mult_left_mono power_increasing nat_mono) simp_all
  moreover have "0 \<le> base * 2 ^ nat (attempts - 1)"
    using assms(1) by simp
  moreover have "0 \<le> i64_max"
    by (simp add: i64_max_def)
  ultimately show ?thesis
    using assms retry_delay_value [of base attempts] retry_delay_value [of base later_attempts] by linarith
qed

theorem retry_delay_exact_witness: "retry_delay 5 4 = 40 \<and> retry_delay 5 4 \<le> retry_delay 5 70"
proof -
  have "retry_delay 5 4 = min i64_max (5 * 2 ^ nat (4 - 1)) \<and> 0 \<le> retry_delay 5 4 \<and> retry_delay 5 4 \<le> retry_delay 5 70"
    by (rule retry_delay_exact) simp_all
  then show ?thesis by (simp add: i64_max_def)
qed

section \<open>The outbox keeps what it has not delivered\<close>

lemma kept_idle: "idle c \<Longrightarrow> kept c c' \<Longrightarrow> idle c' \<and> disk c' = db c'"
  by (simp add: idle_def kept_def conn_ok_def)

lemma all_jobs_ids: "x \<in># all_jobs d \<Longrightarrow> fst x \<in> set (queue_ids d)"
  by (auto simp: all_jobs_def queue_ids_def core_def dcore_def)

lemma all_jobs_unique:
  assumes "queue_wf d" "x \<in># all_jobs d" "y \<in># all_jobs d" "fst x = fst y"
  shows "x = y"
proof -
  have "distinct (map fst (map core (live d) @ map dcore (dead d)))"
    using assms(1) by (simp add: queue_wf_def queue_ids_def core_def dcore_def comp_def)
  moreover have "x \<in> set (map core (live d) @ map dcore (dead d))" "y \<in> set (map core (live d) @ map dcore (dead d))"
    using assms(2,3) by (auto simp: all_jobs_def)
  ultimately show ?thesis
    using assms(4) by (auto simp only: distinct_map dest: inj_onD)
qed

lemma raw_job_row: "raw_job (claim_json j) = Some job \<Longrightarrow> cj_id job = j_id j \<and> cj_payload job = j_payload j"
  by (auto simp: raw_job_def claim_json_def split: bind_splits if_splits)

lemma those_member: "those xs = Some ys \<Longrightarrow> y \<in> set ys \<Longrightarrow> Some y \<in> set xs"
  by (induction xs arbitrary: ys) (auto split: option.splits)

text \<open>A claim of the client leaves the same jobs in the tables, and the job it returns is one of them.\<close>

lemma claim_jobs_effect:
  assumes "binds ce" "idle c" "queue_wf (db c)" "claim_jobs ce queue worker_id n timeout_s c = (r, c')"
  shows "case r of
      Inl e \<Rightarrow> all_jobs (disk c') = all_jobs (db c)
    | Inr jobs \<Rightarrow> idle c' \<and> queue_wf (db c') \<and> all_jobs (db c') = all_jobs (db c)
        \<and> (\<forall>job\<in>set jobs. \<exists>j. core j \<in># all_jobs (db c') \<and> j_id j = cj_id job \<and> j_payload j = cj_payload job)"
  using job_calls(1) [OF assms(1)] assms(4) [unfolded claim_jobs_def]
proof (cases rule: json_call)
  case (failed e r')
  with claim_op.act_fail [OF _ failed(3)] assms(2) show ?thesis
    by (auto simp: undone_def idle_def conn_ok_def)
next
  case (ok out)
  have rel: "claim_rel queue worker_id n timeout_s (db c) out (db c')" and k: "kept c c'"
    using claim_op.act_Ok [OF _ ok(1)] assms(2) by (auto simp: idle_def)
  then have same: "all_jobs (db c') = all_jobs (db c)" by (intro all_jobs_claim)
  from rel obtain now where at: "claim_at queue worker_id n timeout_s now (db c) out (db c')"
    by (auto simp: claim_rel_def)
  have wf: "queue_wf (db c')" using assms(3) rel by (rule wf.keep_claim)
  have "\<exists>j. core j \<in># all_jobs (db c') \<and> j_id j = cj_id job \<and> j_payload j = cj_payload job"
    if "as_vec raw_job out = Some jobs" "job \<in> set jobs" for jobs job
  proof -
    let ?rows = "claimed_rows queue worker_id n timeout_s now (housekeep queue now (db c))"
    have out: "out = JArr (map claim_json ?rows)" and d': "db c' = claim_upd queue worker_id n timeout_s now (housekeep queue now (db c))"
      using at by (simp_all add: claim_at_def Let_def)
    with that those_member obtain j where j: "j \<in> set ?rows" "raw_job (claim_json j) = Some job" by fastforce
    then have "j \<in> set (live (db c'))"
      by (auto simp: d' claim_upd_def claimed_rows_def set_upd_where)
    with raw_job_row [OF j(2)] show ?thesis by (auto simp: all_jobs_def)
  qed
  with ok(2) kept_idle [OF assms(2) k] same wf show ?thesis by (auto split: option.split)
qed

lemma ack_effect:
  assumes "binds ce" "idle c" "job_ack ce job c = (r, c')"
  shows "if r = Inr True then (\<exists>t. disk c' = (db c)\<lparr>live := del_where (holds_lease t (cj_id job) (cj_worker_id job)) (live (db c))\<rparr>)
    else disk c' = db c"
proof -
  let ?call = "query_row ce ''honker_ack'' [VInt (cj_id job), VText (cj_worker_id job)] col_i64"
  obtain r1 c1 where q: "?call c = (r1, c1)" by fastforce
  from job_calls(2) [OF assms(1)] q show ?thesis
  proof (cases rule: int_call)
    case (failed e r')
    with ack_op.act_fail [OF _ failed(3)] assms(2,3) q show ?thesis
      by (auto simp: job_ack_def undone_def idle_def conn_ok_def)
  next
    case (ok n)
    with ack_op.act_Ok [OF _ ok(2)] assms(2) have "del_rel (\<lambda>t. holds_lease t (cj_id job) (cj_worker_id job)) (db c) n (db c1)" "kept c c1"
      by (auto simp: idle_def)
    moreover from this have "disk c1 = db c1" using kept_idle assms(2) by blast
    ultimately show ?thesis
      using assms(3) q ok(1) count_where_0 [of _ "live (db c)"] count_where_pos [of _ "live (db c)"]
      by (force simp: job_ack_def del_rel_def del_where_none)
  qed
qed

lemma retry_effect:
  assumes "binds ce" "idle c" "queue_wf (db c)" "job_retry ce job delay err c = (r, c')"
  shows "all_jobs (disk c') = all_jobs (db c)"
proof -
  let ?call = "query_row ce ''honker_retry'' [VInt (cj_id job), VText (cj_worker_id job), VInt delay, VText err] col_i64"
  obtain r1 c1 where q: "?call c = (r1, c1)" by fastforce
  have c1: "c' = c1" using assms(4) q by (cases r1) (auto simp: job_retry_def)
  from job_calls(3) [OF assms(1)] q show ?thesis
  proof (cases rule: int_call)
    case (failed e r')
    with retry_op.act_fail [OF _ failed(3) [unfolded retry_def]] assms(2) c1 show ?thesis
      by (auto simp: undone_def idle_def conn_ok_def)
  next
    case (ok n)
    with retry_op.act_Ok [OF _ ok(2) [unfolded retry_def]] assms(2)
    have "retry_rel (cj_id job) (cj_worker_id job) delay err None (db c) n (db c1)" "kept c c1"
      by (auto simp: idle_def)
    with all_jobs_retry queue_wf_distinct [OF assms(3)] kept_idle [OF assms(2)] c1 show ?thesis by metis
  qed
qed

text \<open>The delivery ends in an ack or a retry; only the ack of a delivered job takes it out.\<close>

lemma settle_effect:
  assumes "binds ce" "idle c" "queue_wf (db c)" "settle ce o' job outcome c = (r, c')"
    and "x \<in># all_jobs (db c)" "x \<notin># all_jobs (disk c')"
  shows "fst x = cj_id job \<and> outcome = Inr ()"
proof (cases outcome)
  case (Inl err)
  then obtain r1 where "job_retry ce job (retry_delay (base_backoff_s o') (cj_attempts job)) err c = (r1, c')"
    using assms(4) by (auto simp: settle_def cbind_def split: prod.splits sum.splits if_splits)
  from retry_effect [OF assms(1-3) this] assms(5,6) show ?thesis by simp
next
  case (Inr u)
  then obtain r1 where a: "job_ack ce job c = (r1, c')"
    using assms(4) by (auto simp: settle_def cbind_def split: prod.splits sum.splits if_splits)
  from ack_effect [OF assms(1,2) a] assms(5,6) obtain t
    where d': "disk c' = (db c)\<lparr>live := del_where (holds_lease t (cj_id job) (cj_worker_id job)) (live (db c))\<rparr>"
    by (auto split: if_splits)
  have "fst x = cj_id job"
    using assms(5,6) by (auto simp: d' all_jobs_def del_where_def holds_lease_def core_def)
  with Inr show ?thesis by simp
qed

text \<open>
  C22. The outbox delivers at least once: whatever fails during a call, and whatever others do with the tables meanwhile short of removing jobs, a job that is
  gone afterwards is one whose payload the delivery function accepted in this call.
\<close>

theorem outbox_removes_only_delivered:
  assumes "binds ce" "idle c" "queue_wf (db c)"
    and "\<And>d. queue_wf d \<Longrightarrow> queue_wf (others d) \<and> all_jobs d \<subseteq># all_jobs (others d)"
    and "run_once ce o' worker_id delivery others c = (r, c')"
    and "core j \<in># all_jobs (db c)" "core j \<notin># all_jobs (disk c')"
  shows "\<exists>payload. ce_serde ce (j_payload j) = Some payload \<and> delivery payload = Inr ()"
proof -
  let ?claim = "claim_jobs ce (q_name (ob_queue o')) worker_id 1 (visibility_timeout_s (q_opts (ob_queue o')))"
  obtain r1 c1 where cl: "?claim c = (r1, c1)" by fastforce
  note eff = claim_jobs_effect [OF assms(1-3) cl]
  note run = assms(5) [unfolded run_once_def queue_claim_one_def queue_claim_batch_def]
  from eff run cl assms(6,7) obtain job jobs payload
    where jobs: "r1 = Inr (job # jobs)" "ce_serde ce (cj_payload job) = Some payload"
      and st: "settle ce o' job (delivery payload) (meanwhile others c1) = (r, c')"
    by (cases r1) (auto simp: cbind_def opt_hd_def idle_def conn_ok_def split: list.splits option.splits)
  from eff jobs obtain k where c1: "idle c1" "queue_wf (db c1)" "all_jobs (db c1) = all_jobs (db c)"
    and k: "core k \<in># all_jobs (db c1)" "j_id k = cj_id job" "j_payload k = cj_payload job" by auto
  have m: "idle (meanwhile others c1)" "db (meanwhile others c1) = others (db c1)"
    using meanwhile_idle [OF c1(1)] by auto
  have o: "queue_wf (others (db c1))" "all_jobs (db c1) \<subseteq># all_jobs (others (db c1))"
    using assms(4) c1(2) by auto
  have j: "core j \<in># all_jobs (others (db c1))" "core k \<in># all_jobs (others (db c1))"
    using o(2) c1(3) assms(6) k(1) by (auto dest: mset_subset_eqD)
  have "fst (core j) = cj_id job \<and> delivery payload = Inr ()"
    by (rule settle_effect [OF assms(1) m(1) o(1) [folded m(2)] st j(1) [folded m(2)] assms(7)])
  moreover from this have "core j = core k"
    using all_jobs_unique [OF o(1) j] k(2) by simp
  ultimately show ?thesis
    using jobs(2) k(3) by (auto simp: core_def)
qed

text \<open>A job of the outbox is delivered and gone.\<close>

definition demo_outbox :: outbox where
  "demo_outbox = outbox_new ''o'' default_outbox_opts"

definition outbox_job :: job where
  "outbox_job = (sample_job 1 0)\<lparr>j_queue := ''_outbox:o''\<rparr>"

definition outbox_conn :: hconn where
  "outbox_conn = fresh_conn (empty_db\<lparr>live := [outbox_job], live_seq := 1\<rparr>) 100 []"

theorem outbox_removes_only_delivered_witness:
  "\<exists>payload. ce_serde demo_client ''p'' = Some payload \<and> (\<lambda>v. if v = JStr ''p'' then Inr () else Inl ''no'') payload = (Inr () :: string + unit)"
proof -
  let ?del = "\<lambda>v. if v = JStr ''p'' then Inr () else Inl ''no'' :: string + unit"
  let ?run = "run_once demo_client demo_outbox ''w'' ?del (\<lambda>d. d) outbox_conn"
  have "queue_wf (db outbox_conn)" "core outbox_job \<in># all_jobs (db outbox_conn)" "core outbox_job \<notin># all_jobs (disk (snd ?run))" by code_simp+
  moreover have "idle outbox_conn" by (simp add: idle_def outbox_conn_def)
  ultimately have "\<exists>payload. ce_serde demo_client (j_payload outbox_job) = Some payload \<and> ?del payload = Inr ()"
    using outbox_removes_only_delivered [OF demo_client_binds _ _ _ prod.collapse [symmetric, of ?run]] by simp
  moreover have "j_payload outbox_job = ''p''" by (simp add: outbox_job_def sample_job_def new_job_def)
  ultimately show ?thesis by simp
qed

section \<open>Waiting for a job\<close>

lemma claim_batch_later:
  assumes "claim_batch queue worker_id n timeout_s c = (Ok out, c')" "forward c"
  shows "later c c'"
proof -
  from assms(1) obtain u c1 c2 u' where sp: "sql_savepoint ''honker_claim_batch'' c = (Inr u, c1)"
    and bd: "claim_batch_inner queue worker_id n timeout_s c1 = (Ok out, c2)" and rel: "sql_release ''honker_claim_batch'' c2 = (Inr u', c')"
    by (auto simp: claim_batch_def in_savepoint_def Let_def split: prod.splits sum.splits res.splits)
  have l1: "later c c1" using timely_savepoint assms(2) sp by (rule timelyD)
  have l2: "later c1 c2" using timely_claim_batch_inner later_forward [OF l1] bd by (rule timelyD)
  have "later c2 c'" using timely_release later_forward [OF l2] rel by (rule timelyD)
  with l1 l2 show ?thesis by (blast intro: later_trans)
qed

definition watchful :: "hconn \<Rightarrow> bool" where
  "watchful c \<longleftrightarrow> idle c \<and> forward c \<and> queue_wf (db c)"

lemma watchful_meanwhile: "watchful c \<Longrightarrow> (\<And>d. queue_wf d \<Longrightarrow> queue_wf (f d)) \<Longrightarrow> watchful (meanwhile f c) \<and> clock (meanwhile f c) = clock c"
  using meanwhile_idle [of c f] by (auto simp: watchful_def meanwhile_def forward_def)

lemma watchful_claim:
  assumes "binds ce" "watchful c" "claim_jobs ce name worker_id n timeout_s c = (Inr jobs, c')"
  shows "watchful c' \<and> clock c \<le> clock c'"
proof -
  from job_calls(1) [OF assms(1)] assms(3) [unfolded claim_jobs_def] obtain out where "claim_batch name worker_id n timeout_s c = (Ok out, c')"
    by (cases rule: json_call) auto
  then have "later c c'" using assms(2) by (intro claim_batch_later) (auto simp: watchful_def)
  with claim_jobs_effect [OF assms(1) _ _ assms(3)] assms(2) show ?thesis by (auto simp: watchful_def later_def)
qed

lemma lookup_call:
  assumes "binds ce" "watchful c" "query_row ce ''honker_queue_next_claim_at'' [VText name] col_i64 c = (Inr next_at, c')"
  shows "queue_next_claim_at name c = (Ok next_at, c') \<and> watchful c' \<and> clock c \<le> clock c' \<and> db c' = db c"
proof -
  from job_calls(4) [OF assms(1)] assms(3) have run: "queue_next_claim_at name c = (Ok next_at, c')"
    by (cases rule: int_call) auto
  have "timely (queue_next_claim_at name)"
    unfolding queue_next_claim_at_def by (intro timely_intros)
  then have "later c c'" using run assms(2) by (auto simp: watchful_def dest: timelyD)
  moreover obtain t c1 where n: "now_unix c = (Ok t, c1)" "query (\<lambda>t' d. Inr (next_claim_of name t (live d))) c1 = (Ok next_at, c')"
    using run unfolding queue_next_claim_at_def by (rule sbind_Ok)
  have "idle c1 \<and> db c1 = db c" using n(1) assms(2) query_idle unfolding now_unix_def watchful_def by blast
  with query_idle [OF n(2)] have "idle c' \<and> db c' = db c" by simp
  ultimately show ?thesis using run assms(2) by (auto simp: watchful_def later_def)
qed

text \<open>A worker that blocks has just looked the queue up and found no time to wait for.\<close>

lemma waker_blocked_lookup:
  assumes "binds ce" "watchful c" "waker_next ce name timeout_s worker_id rounds c = (WakerBlocked, c')"
    and "\<And>e d. e \<in> set rounds \<Longrightarrow> queue_wf d \<Longrightarrow> queue_wf (wr_before e d) \<and> queue_wf (wr_between e d)"
  obtains c1 next_at where "watchful c1" "clock c \<le> clock c1" "queue_next_claim_at name c1 = (Ok next_at, c')" "next_at \<le> 0" "db c' = db c1"
  using assms(2-4)
proof (induction rounds arbitrary: c thesis)
  case (Cons e es)
  let ?c = "meanwhile (wr_before e) c"
  have w: "watchful ?c" "clock ?c = clock c"
    using watchful_meanwhile [OF Cons.prems(2)] Cons.prems(4) by auto
  from Cons.prems(3) obtain c1 next_at c2 where cl: "claim_jobs ce name worker_id 1 timeout_s ?c = (Inr [], c1)"
    and lk: "query_row ce ''honker_queue_next_claim_at'' [VText name] col_i64 (meanwhile (wr_between e) c1) = (Inr next_at, c2)"
    and rest: "waker_next ce name timeout_s worker_id es c2 = (WakerBlocked, c') \<or> (next_at \<le> 0 \<and> c' = c2)"
    by (auto split: prod.splits sum.splits list.splits if_splits until_res.splits simp: recv_until_def split: recv_res.splits)
  have w1: "watchful c1" "clock c \<le> clock c1"
    using watchful_claim [OF assms(1) w(1) cl] w(2) by auto
  have w2: "watchful (meanwhile (wr_between e) c1)" "clock (meanwhile (wr_between e) c1) = clock c1"
    using watchful_meanwhile [OF w1(1)] Cons.prems(4) by auto
  note lk' = lookup_call [OF assms(1) w2(1) lk]
  from rest show ?case
  proof
    assume "next_at \<le> 0 \<and> c' = c2"
    with lk' w2 w1 show ?thesis by (intro Cons.prems(1)) auto
  next
    assume next_round: "waker_next ce name timeout_s worker_id es c2 = (WakerBlocked, c')"
    have c2: "watchful c2" "clock c \<le> clock c2"
      using lk' w1(2) w2(2) by auto
    show ?thesis
    proof (rule Cons.IH [OF _ c2(1) next_round])
      show "queue_wf (wr_before e' d) \<and> queue_wf (wr_between e' d)" if "e' \<in> set es" "queue_wf d" for e' d
        using Cons.prems(4) that by simp
      show ?thesis if "watchful c3" "clock c2 \<le> clock c3" "queue_next_claim_at name c3 = (Ok na, c')" "na \<le> 0" "db c' = db c3" for c3 na
        using Cons.prems(1) [OF that(1) order_trans [OF c2(2) that(2)] that(3-5)] .
    qed
  qed
qed simp

text \<open>
  C32. A waiting worker does not sleep through a job: when \<^verbatim>\<open>next\<close> waits without a deadline, and while it looked no lease of the queue had lapsed and no
  row was pending before its time, then no later claim on the tables as they are returns a job; so only a
  commit, which the watcher announces, can bring one.
\<close>

theorem waker_blocks_only_without_jobs:
  assumes "binds ce" "watchful c" "0 < clock c"
    and "\<And>e d. e \<in> set rounds \<Longrightarrow> queue_wf d \<Longrightarrow> queue_wf (wr_before e d) \<and> queue_wf (wr_between e d)"
    and "waker_next ce name timeout_s worker_id rounds c = (WakerBlocked, c')"
    and "\<And>now. clock c \<le> now \<Longrightarrow> now \<le> clock c' \<Longrightarrow> settled name now (live (db c'))"
    and "forward c2" "db c2 = db c'" "clock c' \<le> clock c2" "claim_batch name w n to c2 = (Ok (JArr jobs), c3)"
  shows "jobs = []"
proof (rule ccontr)
  assume "jobs \<noteq> []"
  then obtain job rest where jobs: "jobs = job # rest" by (cases jobs) auto
  obtain c1 next_at where c1: "watchful c1" "clock c \<le> clock c1" "queue_next_claim_at name c1 = (Ok next_at, c')" "next_at \<le> 0" "db c' = db c1"
    using waker_blocked_lookup [OF assms(1,2,5,4)] by metis
  have "0 < next_at \<and> next_at \<le> clock c3"
  proof (rule lookup_in_time [OF _ _ _ _ c1(3)])
    show "settled name now (live (db c1))" if "clock c1 \<le> now" "now \<le> clock c'" for now
      using assms(6) [of now] that c1 by simp
    show "claim_batch name w n to c2 = (Ok (JArr (job # rest)), c3)" using assms(10) jobs by simp
  qed (use c1 assms in \<open>auto simp: watchful_def idle_def\<close>)
  with c1(4) show False by simp
qed

text \<open>Nothing in the queue, and nothing later.\<close>

definition still_round :: wake_round where
  "still_round = \<lparr>wr_before = (\<lambda>d. d), wr_between = (\<lambda>d. d), wr_now = 131, wr_recv = Blocks\<rparr>"

theorem waker_blocks_only_without_jobs_witness:
  "fst (waker_next demo_client ''other'' 30 ''w2'' [still_round] (fresh_conn sample_db 100 [])) = WakerBlocked
   \<and> jelems (case fst (claim_batch ''other'' ''w2'' 1 30 (fresh_conn sample_db 200 [])) of Ok v \<Rightarrow> v | _ \<Rightarrow> JNull) = []"
proof -
  let ?c = "fresh_conn sample_db 100 []" and ?c2 = "fresh_conn sample_db 200 []"
  let ?run = "waker_next demo_client ''other'' 30 ''w2'' [still_round] ?c" and ?claim = "claim_batch ''other'' ''w2'' 1 30 ?c2"
  have out: "fst ?run = WakerBlocked" by code_simp
  have after: "db (snd ?run) = sample_db" "clock (snd ?run) = 100" by code_simp+
  obtain jobs where cl: "fst ?claim = Ok (JArr jobs)"
  proof -
    have "(case fst ?claim of Ok (JArr xs) \<Rightarrow> True | _ \<Rightarrow> False)" by code_simp
    then show thesis using that by (auto split: res.splits json.splits)
  qed
  have "jobs = []"
  proof (rule waker_blocks_only_without_jobs [OF demo_client_binds _ _ _ run_pair [OF out] _ _ _ _ run_pair [OF cl]])
    show "watchful ?c" using sample_db_wf by (simp add: watchful_def idle_def)
    show "queue_wf (wr_before e d) \<and> queue_wf (wr_between e d)" if "e \<in> set [still_round]" "queue_wf d" for e d
      using that by (simp add: still_round_def)
    show "settled ''other'' now (live (db (snd ?run)))" for now
      unfolding after by (simp add: settled_def sample_db_def sample_job_def held_job_def new_job_def)
  qed (simp_all add: after del: waker_next.simps)
  with out cl show ?thesis by (simp del: waker_next.simps)
qed

section \<open>A worker that sleeps on\<close>

text \<open>
  The claim runs at second 130, when the lease of the job is still valid; the lookup runs at second 131, when it has lapsed, and
  names no time. So the worker waits for good, although a claim at that moment returns the job.
\<close>

definition lapse_conn :: hconn where
  "lapse_conn = fresh_conn (empty_db\<lparr>live := [held_job 1 130], live_seq := 1\<rparr>) 130
     (replicate 8 \<lparr>tick = 0, fault = None\<rparr> @ [\<lparr>tick = 1, fault = None\<rparr>])"

theorem waker_sleeps_through_lapsed_lease:
  "let (r, c) = waker_next demo_client ''q'' 30 ''w2'' [still_round] lapse_conn in
     r = WakerBlocked \<and> clock c = 131 \<and> (\<exists>job. fst (claim_jobs demo_client ''q'' ''w2'' 1 30 c) = Inr [job])"
proof -
  let ?run = "waker_next demo_client ''q'' 30 ''w2'' [still_round] lapse_conn"
  have "fst ?run = WakerBlocked" "clock (snd ?run) = 131" by code_simp+
  moreover have "fst (claim_jobs demo_client ''q'' ''w2'' 1 30 (snd ?run))
      = Inr [\<lparr>cj_id = 1, cj_queue = ''q'', cj_payload = ''p'', cj_worker_id = ''w2'', cj_attempts = 2\<rparr>]" by code_simp
  ultimately show ?thesis by (simp add: split_beta Let_def del: waker_next.simps)
qed

end
