(* ===== verification/Leader.thy ===== *)
theory Leader
  imports Feeds
begin

text \<open>
  \<^verbatim>\<open>Scheduler::run\<close> of the Rust client: leader election over the lock \<^verbatim>\<open>honker-scheduler\<close>, and the loop of the leader, which renews the lock, ticks
  and waits. Both loops read the flag \<^verbatim>\<open>stop\<close> at their head. A round gives that value, what others commit before
  each call, the clocks the client reads and what the channel brings; both loops take their rounds from one list. The log
  says what was done, in order.
\<close>

record lead_round =
  lr_stop :: bool
  lr_others :: "honker_db \<Rightarrow> honker_db"
  lr_before_tick :: "honker_db \<Rightarrow> honker_db"
  lr_before_soonest :: "honker_db \<Rightarrow> honker_db"
  lr_tick_now :: int
  lr_elapsed_ms :: int
  lr_now :: int
  lr_recv :: recv_res

datatype lead_event = AcquireFailed | Declined | Acquired | Renewed | Ticked "scheduled_fire list" | Waits int | Released "client_err + bool"

definition SCHEDULER_LOCK :: string where "SCHEDULER_LOCK = ''honker-scheduler''"
definition LOCK_TTL :: int where "LOCK_TTL = 60"
definition HEARTBEAT_MS :: int where "HEARTBEAT_MS = 20000"

text \<open>\<^verbatim>\<open>wait_for\<close>: what is left of the heartbeat, or the time until the soonest task if that is less.\<close>

definition leader_wait :: "int \<Rightarrow> int \<Rightarrow> int \<Rightarrow> int" where
  "leader_wait elapsed_ms soonest now =
     (let wait_for = max 0 (HEARTBEAT_MS - elapsed_ms) in
      if soonest > 0 then
        (let until_soonest = (if soonest \<le> now then 0 else (soonest - now) * 1000) in
         if until_soonest < wait_for then until_soonest else wait_for)
      else wait_for)"

text \<open>A result of \<open>None\<close>: the rounds are used up and the loop goes on.\<close>

fun leader_loop :: "client_env \<Rightarrow> string \<Rightarrow> lead_round list \<Rightarrow> hconn \<Rightarrow> (client_err + unit) option \<times> lead_round list \<times> hconn \<times> lead_event list" where
  "leader_loop ce owner [] c = (None, [], c, [])"
| "leader_loop ce owner (e # es) c =
     (if lr_stop e then (Some (Inr ()), es, c, [])
      else case query_row ce ''honker_lock_renew'' [VText SCHEDULER_LOCK, VText owner, VInt LOCK_TTL] col_i64 (meanwhile (lr_others e) c) of
        (Inl err, c1) \<Rightarrow> (Some (Inl err), es, c1, [])
      | (Inr still_ours, c1) \<Rightarrow>
          if still_ours = 0 then (Some (Inr ()), es, c1, [])
          else (case client_tick ce (lr_tick_now e) (meanwhile (lr_before_tick e) c1) of
             (Inl err, c2) \<Rightarrow> (Some (Inl err), es, c2, [Renewed])
           | (Inr fires, c2) \<Rightarrow>
               (case client_soonest ce (meanwhile (lr_before_soonest e) c2) of
                  (Inl err, c3) \<Rightarrow> (Some (Inl err), es, c3, [Renewed, Ticked fires])
                | (Inr soonest, c3) \<Rightarrow>
                    (let log = [Renewed, Ticked fires, Waits (leader_wait (lr_elapsed_ms e) soonest (lr_now e))] in
                     if lr_recv e = Disconnected then (Some (Inr ()), es, c3, log)
                     else (case leader_loop ce owner es c3 of (r, rest, c4, log') \<Rightarrow> (r, rest, c4, log @ log'))))))"

lemma leader_loop_rest: "leader_loop ce owner es c = (r, rest, c', log) \<Longrightarrow> length rest \<le> length es"
proof (induction es arbitrary: c r rest c' log)
  case (Cons e es)
  then show ?case
    by (fastforce simp: Let_def split: if_splits prod.splits sum.splits dest: le_SucI)
qed simp

text \<open>The closure of \<^verbatim>\<open>run\<close>; taking the subscription back afterwards is \<open>unsubscribe\<close> of the watcher.\<close>

function scheduler_run :: "client_env \<Rightarrow> string \<Rightarrow> lead_round list \<Rightarrow> hconn \<Rightarrow> (client_err + unit) option \<times> hconn \<times> lead_event list" where
  "scheduler_run ce owner [] c = (None, c, [])"
| "scheduler_run ce owner (e # es) c =
     (if lr_stop e then (Some (Inr ()), c, [])
      else case lock_try_acquire ce SCHEDULER_LOCK owner LOCK_TTL (meanwhile (lr_others e) c) of
        (Inl err, c1) \<Rightarrow> (Some (Inl err), c1, [AcquireFailed])
      | (Inr acquired, c1) \<Rightarrow>
          if \<not> acquired then
            (if lr_recv e = Disconnected then (Some (Inr ()), c1, [Declined])
             else (case scheduler_run ce owner es c1 of (r, c2, log) \<Rightarrow> (r, c2, Declined # log)))
          else (case leader_loop ce owner es c1 of (leader_result, rest, c2, log) \<Rightarrow>
            (case leader_result of
               None \<Rightarrow> (None, c2, Acquired # log)
             | Some r \<Rightarrow>
                 (case client_lock_release ce SCHEDULER_LOCK owner c2 of (released, c3) \<Rightarrow>
                    (case r of
                       Inl err \<Rightarrow> (Some (Inl err), c3, Acquired # log @ [Released released])
                     | Inr _ \<Rightarrow> (case scheduler_run ce owner rest c3 of (r', c4, log') \<Rightarrow>
                         (r', c4, Acquired # log @ [Released released] @ log')))))))"
  by pat_completeness auto
termination
  by (relation "measure (\<lambda>(ce, owner, rounds, c). length rounds)") (auto dest!: leader_loop_rest [OF sym])

end
