(* ===== verification/Leader_Thms.thy ===== *)
theory Leader_Thms
  imports Leader Feeds_Thms
begin

text \<open>
  What a scheduler that runs for the leadership does: it ticks only right after it has renewed the lock, it does not stop leading without
  giving the lock back, and it comes back to renew the lock before the lock runs out.
\<close>

section \<open>The life of a leader\<close>

datatype standing = Follower | Leading | Confirmed | Paced

fun lead_next :: "standing \<Rightarrow> lead_event \<Rightarrow> standing option" where
  "lead_next Follower AcquireFailed = Some Follower"
| "lead_next Follower Declined = Some Follower"
| "lead_next Follower Acquired = Some Leading"
| "lead_next Leading Renewed = Some Confirmed"
| "lead_next Confirmed (Ticked fires) = Some Paced"
| "lead_next Paced (Waits ms) = Some Leading"
| "lead_next Leading (Released r) = Some Follower"
| "lead_next Confirmed (Released r) = Some Follower"
| "lead_next Paced (Released r) = Some Follower"
| "lead_next _ _ = None"

fun lead_path :: "standing \<Rightarrow> lead_event list \<Rightarrow> standing option" where
  "lead_path s [] = Some s"
| "lead_path s (e # es) = Option.bind (lead_next s e) (\<lambda>s'. lead_path s' es)"

lemma lead_path_append: "lead_path s (xs @ ys) = Option.bind (lead_path s xs) (\<lambda>s'. lead_path s' ys)"
  by (induction xs arbitrary: s) (auto split: bind_splits)

lemma lead_next_released: "s \<noteq> Follower \<Longrightarrow> lead_next s (Released r) = Some Follower"
  by (cases s) simp_all

lemma leader_loop_path:
  assumes "leader_loop ce owner rounds c = (r, rest, c', log)"
  shows "\<exists>s. lead_path Leading log = Some s \<and> s \<noteq> Follower \<and> (\<forall>e. last log \<noteq> Released e \<or> log = [])"
  using assms
proof (induction rounds arbitrary: c r rest c' log)
  case (Cons e es)
  then show ?case
    by (fastforce simp: Let_def split: if_splits prod.splits sum.splits)
qed simp

lemma release_frees:
  assumes "binds ce" "client_lock_release ce name owner c = (Inr b, c')"
  shows "\<not> list_ex (owned_by name owner) (locks (db c'))"
proof -
  obtain n where q: "query_row ce ''honker_lock_release'' [VText name, VText owner] col_i64 c = (Inr n, c')"
    using assms(2) unfolding client_lock_release_def by (elim cbind_Inr) simp
  from lock_calls(3) [OF assms(1)] q have "lock_release name owner c = (Ok n, c')"
    by (cases rule: int_call) auto
  then have "locks (db c') = del_where (owned_by name owner) (locks (db c))"
    unfolding lock_release_def by (elim exec_Ok) auto
  then show ?thesis by (auto simp: list_ex_iff del_where_def)
qed

lemma quiet_return: "scheduler_run ce owner rounds c = (r, c', []) \<Longrightarrow> r \<noteq> None \<Longrightarrow> c' = c"
  by (cases rounds) (auto split: if_splits sum.splits option.splits prod.splits)


text \<open>A leader for one tick, which then stops.\<close>

definition lead_demo_round :: "bool \<Rightarrow> lead_round" where
  "lead_demo_round s = \<lparr>lr_stop = s, lr_others = (\<lambda>d. d), lr_before_tick = (\<lambda>d. d), lr_before_soonest = (\<lambda>d. d), lr_tick_now = 100,
     lr_elapsed_ms = 5, lr_now = 100, lr_recv = Blocks\<rparr>"

definition lead_demo :: "env_step list \<Rightarrow> (client_err + unit) option \<times> hconn \<times> lead_event list" where
  "lead_demo s = scheduler_run demo_client ''me'' (map lead_demo_round [False, False, True, True]) (fresh_conn empty_db 100 s)"


text \<open>
  The leader comes back in time: a pass whose calls took \<open>elapsed\<close> milliseconds since the renewal waits so long that the next renewal is
  due within the heartbeat of 20 s, or at once if the calls took longer, so that calls of less than the time to live of the lock never let it expire;
  and it does not wait past the soonest task.
\<close>

theorem leader_wait_bounded:
  assumes "0 \<le> elapsed"
  shows "0 \<le> leader_wait elapsed soonest now \<and> elapsed + leader_wait elapsed soonest now \<le> max elapsed HEARTBEAT_MS
    \<and> (elapsed < LOCK_TTL * 1000 \<longrightarrow> elapsed + leader_wait elapsed soonest now < LOCK_TTL * 1000)
    \<and> (0 < soonest \<longrightarrow> leader_wait elapsed soonest now \<le> max 0 (soonest - now) * 1000)"
  using assms by (auto simp: leader_wait_def HEARTBEAT_MS_def LOCK_TTL_def Let_def)

theorem leader_wait_bounded_witness:
  "leader_wait 5000 107 100 = 7000 \<and> 5000 + leader_wait 5000 107 100 < LOCK_TTL * 1000 \<and> leader_wait 5000 107 100 \<le> max 0 (107 - 100) * 1000"
proof -
  have "leader_wait 5000 107 100 = 7000" by code_simp
  then show ?thesis using leader_wait_bounded [of 5000 107 100] by (simp add: LOCK_TTL_def)
qed

section \<open>A lock nobody holds\<close>

text \<open>
  The acquisition inserts the row and then reads it back in a statement of its own; when only the read fails the scheduler returns the error and leaves
  the lock to its owner until it expires, so no other process can lead for a minute.
\<close>

theorem failed_acquire_keeps_lock:
  "let (r, c, log) = lead_demo [\<lparr>tick = 0, fault = None\<rparr>, \<lparr>tick = 0, fault = None\<rparr>, \<lparr>tick = 0, fault = Some (FaultErr (SqliteFailure DatabaseBusy ''busy''))\<rparr>] in
     log = [AcquireFailed] \<and> lock_owner SCHEDULER_LOCK (locks (disk c)) = Some ''me''
     \<and> fst (lock_try_acquire demo_client SCHEDULER_LOCK ''you'' LOCK_TTL (fresh_conn (disk c) 150 [])) = Inr False"
  by code_simp

end
