(* ===== verification/Bindings.thy ===== *)
theory Bindings
  imports Streams Traces
begin

text \<open>
  The transactions of the two bindings that share one writer connection between many transaction objects:
  \<^verbatim>\<open>packages/honker\<close> (Python) and \<^verbatim>\<open>packages/honker-node\<close>. An object takes the connection out of the slot of
  \<^verbatim>\<open>Writer\<close>, begins, works on it and gives it back when it commits, rolls back or is collected. The slot is seen here
  from outside, one call at a time; its threads are in the theory \<open>Pools\<close>.
\<close>

section \<open>The writer slot, call by call\<close>

text \<open>
  \<open>sl_dropped\<close> is the connection once it was dropped instead of put back; SQLite rolls an open transaction back when it closes
  a connection.
\<close>

record 'd cslot =
  sl_closed :: bool
  sl_conn :: "'d conn option"
  sl_dropped :: "'d conn option"

definition slot_new :: "'d conn \<Rightarrow> 'd cslot" where
  "slot_new c = \<lparr>sl_closed = False, sl_conn = Some c, sl_dropped = None\<rparr>"

definition slot_try_acquire :: "'d cslot \<Rightarrow> 'd conn option \<times> 'd cslot" where
  "slot_try_acquire w = (if sl_closed w then (None, w) else (sl_conn w, w\<lparr>sl_conn := None\<rparr>))"

text \<open>\<open>SlotWaits\<close>: the call sits on the condition variable.\<close>

datatype 'd acquired = SlotGot "'d conn" "'d cslot" | SlotClosed | SlotWaits

definition slot_acquire :: "'d cslot \<Rightarrow> 'd acquired" where
  "slot_acquire w = (if sl_closed w then SlotClosed
     else case sl_conn w of None \<Rightarrow> SlotWaits | Some c \<Rightarrow> SlotGot c (w\<lparr>sl_conn := None\<rparr>))"

definition try_then_acquire :: "'d cslot \<Rightarrow> 'd acquired" where
  "try_then_acquire w = (case slot_try_acquire w of (Some c, w') \<Rightarrow> SlotGot c w' | (None, w') \<Rightarrow> slot_acquire w')"

definition slot_release :: "'d conn \<Rightarrow> 'd cslot \<Rightarrow> 'd cslot" where
  "slot_release c w = (if sl_closed w then w\<lparr>sl_dropped := Some (abort_tx c)\<rparr> else w\<lparr>sl_conn := Some c\<rparr>)"

definition slot_close :: "'d cslot \<Rightarrow> 'd cslot" where
  "slot_close w = (let w' = w\<lparr>sl_closed := True\<rparr> in case sl_conn w of
       None \<Rightarrow> w'
     | Some c \<Rightarrow> w'\<lparr>sl_conn := None, sl_dropped := Some (abort_tx c)\<rparr>)"

datatype binding_err = DatabaseClosed | NotInTransaction | SqlFailed sqlerr | NegativeMaxKeep

text \<open>An action of the core as a call; the panic of a SQL function comes back as an error of its statement.\<close>

definition as_call :: "('d, 'a) action \<Rightarrow> 'd conn \<Rightarrow> (sqlerr + 'a) \<times> 'd conn" where
  "as_call m c = (case m c of
       (Ok a, c') \<Rightarrow> (Inr a, c')
     | (Err e, c') \<Rightarrow> (Inl e, c')
     | (Panicked, c') \<Rightarrow> (Inl (SqliteFailure (OtherCode 1) ''unwinding panic''), c'))"

section \<open>Python\<close>

record 'd py_tx =
  px_conn :: "'d conn option"
  px_started :: bool
  px_released :: bool

definition py_transaction :: "'d py_tx" where
  "py_transaction = \<lparr>px_conn = None, px_started = False, px_released = False\<rparr>"

text \<open>\<^verbatim>\<open>__enter__\<close>; \<open>None\<close> while it waits for the connection.\<close>

definition py_enter :: "'d py_tx \<Rightarrow> 'd cslot \<Rightarrow> ((binding_err + unit) \<times> 'd py_tx \<times> 'd cslot) option" where
  "py_enter x w = (case try_then_acquire w of
       SlotWaits \<Rightarrow> None
     | SlotClosed \<Rightarrow> Some (Inl DatabaseClosed, x, w)
     | SlotGot c w' \<Rightarrow> Some (case sql_begin c of
          (Inr _, c') \<Rightarrow> (Inr (), \<lparr>px_conn = Some c', px_started = True, px_released = False\<rparr>, w')
        | (Inl e, c') \<Rightarrow> (Inl (SqlFailed e), x, slot_release c' w')))"

text \<open>\<open>raised\<close>: the body of the \<^verbatim>\<open>with\<close> block raised an exception.\<close>

definition py_exit :: "bool \<Rightarrow> 'd py_tx \<Rightarrow> 'd cslot \<Rightarrow> (binding_err + unit) \<times> 'd py_tx \<times> 'd cslot" where
  "py_exit raised x w =
     (if px_released x then (Inr (), x, w)
      else case px_conn x of
        None \<Rightarrow> (Inr (), x, w)
      | Some c \<Rightarrow>
          (case (if px_started x then
                   (if raised then sql_rollback c
                    else (case sql_commit c of
                            (Inr _, c1) \<Rightarrow> (Inr (), c1)
                          | (Inl e, c1) \<Rightarrow> (Inl e, snd (sql_rollback c1))))
                 else (Inr (), c)) of
             (err, c') \<Rightarrow>
               ((case err of Inl e \<Rightarrow> Inl (SqlFailed e) | Inr _ \<Rightarrow> Inr ()),
                \<lparr>px_conn = None, px_started = False, px_released = True\<rparr>, slot_release c' w)))"

definition py_drop :: "'d py_tx \<Rightarrow> 'd cslot \<Rightarrow> 'd cslot" where
  "py_drop x w =
     (if px_released x then w
      else case px_conn x of
        None \<Rightarrow> w
      | Some c \<Rightarrow> slot_release (if px_started x then snd (sql_rollback c) else c) w)"

text \<open>\<^verbatim>\<open>execute\<close> and \<^verbatim>\<open>query\<close>: what they run on the connection is the argument; \<^verbatim>\<open>notify\<close> of a payload that is already text.\<close>

definition py_execute :: "('d conn \<Rightarrow> (sqlerr + 'a) \<times> 'd conn) \<Rightarrow> 'd py_tx \<Rightarrow> (binding_err + 'a) \<times> 'd py_tx" where
  "py_execute stmt x = (case px_conn x of
       None \<Rightarrow> (Inl NotInTransaction, x)
     | Some c \<Rightarrow> (case stmt c of
          (Inl e, c') \<Rightarrow> (Inl (SqlFailed e), x\<lparr>px_conn := Some c'\<rparr>)
        | (Inr a, c') \<Rightarrow> (Inr a, x\<lparr>px_conn := Some c'\<rparr>)))"

definition py_notify :: "string \<Rightarrow> string \<Rightarrow> honker_db py_tx \<Rightarrow> (binding_err + int) \<times> honker_db py_tx" where
  "py_notify channel payload = py_execute (as_call (notify channel payload))"

section \<open>Node\<close>

record 'd node_tx =
  nx_conn :: "'d conn option"
  nx_started :: bool
  nx_finished :: bool

definition node_transaction :: "'d cslot \<Rightarrow> ((binding_err + 'd node_tx) \<times> 'd cslot) option" where
  "node_transaction w = (case try_then_acquire w of
       SlotWaits \<Rightarrow> None
     | SlotClosed \<Rightarrow> Some (Inl DatabaseClosed, w)
     | SlotGot c w' \<Rightarrow> Some (case sql_begin c of
          (Inr _, c') \<Rightarrow> (Inr \<lparr>nx_conn = Some c', nx_started = True, nx_finished = False\<rparr>, w')
        | (Inl e, c') \<Rightarrow> (Inl (SqlFailed e), slot_release c' w')))"

definition node_execute :: "('d conn \<Rightarrow> (sqlerr + 'a) \<times> 'd conn) \<Rightarrow> 'd node_tx \<Rightarrow> (binding_err + 'a) \<times> 'd node_tx" where
  "node_execute stmt x = (case nx_conn x of
       None \<Rightarrow> (Inl NotInTransaction, x)
     | Some c \<Rightarrow> (case stmt c of
          (Inl e, c') \<Rightarrow> (Inl (SqlFailed e), x\<lparr>nx_conn := Some c'\<rparr>)
        | (Inr a, c') \<Rightarrow> (Inr a, x\<lparr>nx_conn := Some c'\<rparr>)))"

definition node_notify :: "string \<Rightarrow> string \<Rightarrow> honker_db node_tx \<Rightarrow> (binding_err + int) \<times> honker_db node_tx" where
  "node_notify channel payload = node_execute (as_call (notify channel payload))"

definition node_commit :: "'d node_tx \<Rightarrow> 'd cslot \<Rightarrow> (binding_err + unit) \<times> 'd node_tx \<times> 'd cslot" where
  "node_commit x w =
     (if nx_finished x then (Inr (), x, w)
      else case nx_conn x of
        None \<Rightarrow> (Inl NotInTransaction, x, w)
      | Some c \<Rightarrow>
          (case (case sql_commit c of
                   (Inr _, c1) \<Rightarrow> (Inr (), c1)
                 | (Inl e, c1) \<Rightarrow> (Inl (SqlFailed e), snd (sql_rollback c1))) of
             (r, c') \<Rightarrow> (r, \<lparr>nx_conn = None, nx_started = False, nx_finished = True\<rparr>, slot_release c' w)))"

definition node_rollback :: "'d node_tx \<Rightarrow> 'd cslot \<Rightarrow> (binding_err + unit) \<times> 'd node_tx \<times> 'd cslot" where
  "node_rollback x w =
     (if nx_finished x then (Inr (), x, w)
      else case nx_conn x of
        None \<Rightarrow> (Inl NotInTransaction, x, w)
      | Some c \<Rightarrow> (Inr (), \<lparr>nx_conn = None, nx_started = False, nx_finished = True\<rparr>, slot_release (snd (sql_rollback c)) w))"

definition node_drop :: "'d node_tx \<Rightarrow> 'd cslot \<Rightarrow> 'd cslot" where
  "node_drop x w = (case nx_conn x of
       None \<Rightarrow> w
     | Some c \<Rightarrow> slot_release (if nx_started x \<and> \<not> nx_finished x then snd (sql_rollback c) else c) w)"

text \<open>
  \<^verbatim>\<open>prune_notifications\<close>: the conditions joined by \<open>OR\<close>, and the statement between \<open>BEGIN IMMEDIATE\<close> and \<open>COMMIT\<close>. Each of the three
  statements may fail, and then a \<open>ROLLBACK\<close> is tried. No notification is as old as \<open>NULL\<close>: with fewer rows than \<open>max_keep\<close>
  the subquery has no row and the condition holds of none.
\<close>

definition prune_condition :: "int option \<Rightarrow> int option \<Rightarrow> int \<Rightarrow> notification_row list \<Rightarrow> notification_row \<Rightarrow> bool" where
  "prune_condition older_than_s max_keep t ns r \<longleftrightarrow>
     (case older_than_s of None \<Rightarrow> False | Some secs \<Rightarrow> n_created_at r < t - secs)
     \<or> (case max_keep of None \<Rightarrow> False | Some k \<Rightarrow>
          (let ids = rev (sort (map n_id ns)) in nat k < length ids \<and> n_id r \<le> ids ! nat k))"

definition delete_notifications :: "int option \<Rightarrow> int option \<Rightarrow> nat haction" where
  "delete_notifications older_than_s max_keep = exec (\<lambda>t d.
     Inr (length (filter (prune_condition older_than_s max_keep t (notifications d)) (notifications d)),
          d\<lparr>notifications := filter (Not \<circ> prune_condition older_than_s max_keep t (notifications d)) (notifications d)\<rparr>))"

definition prune_tx :: "int option \<Rightarrow> int option \<Rightarrow> hconn \<Rightarrow> (sqlerr + nat) \<times> hconn" where
  "prune_tx older_than_s max_keep c = (case sql_begin c of
       (Inl e, c1) \<Rightarrow> (Inl e, c1)
     | (Inr _, c1) \<Rightarrow> (case as_call (delete_notifications older_than_s max_keep) c1 of
          (Inl e, c2) \<Rightarrow> (Inl e, c2)
        | (Inr n, c2) \<Rightarrow> (case sql_commit c2 of (Inl e, c3) \<Rightarrow> (Inl e, c3) | (Inr _, c3) \<Rightarrow> (Inr n, c3))))"

definition node_prune_notifications :: "int option \<Rightarrow> int option \<Rightarrow> honker_db cslot \<Rightarrow> ((binding_err + nat) \<times> honker_db cslot) option" where
  "node_prune_notifications older_than_s max_keep w =
     (if (case max_keep of None \<Rightarrow> False | Some k \<Rightarrow> k < 0) then Some (Inl NegativeMaxKeep, w)
      else if older_than_s = None \<and> max_keep = None then Some (Inr 0, w)
      else case slot_acquire w of
        SlotWaits \<Rightarrow> None
      | SlotClosed \<Rightarrow> Some (Inl DatabaseClosed, w)
      | SlotGot c w' \<Rightarrow> Some (case prune_tx older_than_s max_keep c of
           (Inr n, c') \<Rightarrow> (Inr n, slot_release c' w')
         | (Inl e, c') \<Rightarrow> (Inl (SqlFailed e), slot_release (snd (sql_rollback c')) w')))"

section \<open>The calls of a process\<close>

text \<open>The objects of one process, by number, and the slot they share; a call that waits has not returned and is no step.\<close>

record ('x, 'd) binding =
  b_slot :: "'d cslot"
  b_txs :: "nat \<Rightarrow> 'x option"

definition binding_new :: "'d conn \<Rightarrow> ('x, 'd) binding" where
  "binding_new c = \<lparr>b_slot = slot_new c, b_txs = (\<lambda>_. None)\<rparr>"

definition set_tx :: "nat \<Rightarrow> 'x option \<Rightarrow> 'd cslot \<Rightarrow> ('x, 'd) binding \<Rightarrow> ('x, 'd) binding" where
  "set_tx i x w s = s\<lparr>b_slot := w, b_txs := (b_txs s)(i := x)\<rparr>"

text \<open>The calls of both bindings, with what they returned.\<close>

datatype 'd tx_call =
    Begin nat "binding_err + unit"
  | Work nat "'d conn \<Rightarrow> (sqlerr + unit) \<times> 'd conn" "binding_err + unit"
  | Keep nat "binding_err + unit"
  | Discard nat "binding_err + unit"
  | Collect nat
  | Close

inductive py_step :: "('d py_tx, 'd) binding \<Rightarrow> 'd tx_call option \<Rightarrow> ('d py_tx, 'd) binding \<Rightarrow> bool" where
  py_creates: "b_txs s i = None \<Longrightarrow> py_step s None (set_tx i (Some py_transaction) (b_slot s) s)"
| py_enters: "b_txs s i = Some x \<Longrightarrow> py_enter x (b_slot s) = Some (r, x', w) \<Longrightarrow> py_step s (Some (Begin i r)) (set_tx i (Some x') w s)"
| py_works: "b_txs s i = Some x \<Longrightarrow> py_execute stmt x = (r, x') \<Longrightarrow> py_step s (Some (Work i stmt r)) (set_tx i (Some x') (b_slot s) s)"
| py_leaves: "b_txs s i = Some x \<Longrightarrow> py_exit False x (b_slot s) = (r, x', w) \<Longrightarrow> py_step s (Some (Keep i r)) (set_tx i (Some x') w s)"
| py_raises: "b_txs s i = Some x \<Longrightarrow> py_exit True x (b_slot s) = (r, x', w) \<Longrightarrow> py_step s (Some (Discard i r)) (set_tx i (Some x') w s)"
| py_collects: "b_txs s i = Some x \<Longrightarrow> py_step s (Some (Collect i)) (set_tx i None (py_drop x (b_slot s)) s)"
| py_closes: "py_step s (Some Close) (s\<lparr>b_slot := slot_close (b_slot s)\<rparr>)"

inductive node_step :: "('d node_tx, 'd) binding \<Rightarrow> 'd tx_call option \<Rightarrow> ('d node_tx, 'd) binding \<Rightarrow> bool" where
  node_begins: "b_txs s i = None \<Longrightarrow> node_transaction (b_slot s) = Some (Inr x, w) \<Longrightarrow> node_step s (Some (Begin i (Inr ()))) (set_tx i (Some x) w s)"
| node_refused: "b_txs s i = None \<Longrightarrow> node_transaction (b_slot s) = Some (Inl e, w) \<Longrightarrow> node_step s (Some (Begin i (Inl e))) (s\<lparr>b_slot := w\<rparr>)"
| node_works: "b_txs s i = Some x \<Longrightarrow> node_execute stmt x = (r, x') \<Longrightarrow> node_step s (Some (Work i stmt r)) (set_tx i (Some x') (b_slot s) s)"
| node_commits: "b_txs s i = Some x \<Longrightarrow> node_commit x (b_slot s) = (r, x', w) \<Longrightarrow> node_step s (Some (Keep i r)) (set_tx i (Some x') w s)"
| node_rolls_back: "b_txs s i = Some x \<Longrightarrow> node_rollback x (b_slot s) = (r, x', w) \<Longrightarrow> node_step s (Some (Discard i r)) (set_tx i (Some x') w s)"
| node_collects: "b_txs s i = Some x \<Longrightarrow> node_step s (Some (Collect i)) (set_tx i None (node_drop x (b_slot s)) s)"
| node_closes: "node_step s (Some Close) (s\<lparr>b_slot := slot_close (b_slot s)\<rparr>)"

end
