(* ===== verification/Bindings_Thms.thy ===== *)
theory Bindings_Thms
  imports Bindings
begin

text \<open>
  The transactions of the Python and the Node binding behave as if one process ran them one after another. The abstract machine has the durable tables
  and at most one transaction at work; a step of a binding is one of its moves (locale \<open>simulation\<close>, with the two bindings
  as its instances).
\<close>

section \<open>Simulation\<close>

locale simulation =
  fixes cstep :: "'s \<Rightarrow> 'l \<Rightarrow> 's \<Rightarrow> bool" and astep :: "'a \<Rightarrow> 'k \<Rightarrow> 'a \<Rightarrow> bool"
    and permitted :: "'l \<Rightarrow> bool" and explains :: "'l \<Rightarrow> 'k \<Rightarrow> bool" and related :: "'s \<Rightarrow> 'a \<Rightarrow> bool"
  assumes step_matched: "cstep s l s' \<Longrightarrow> permitted l \<Longrightarrow> related s a \<Longrightarrow> \<exists>k a'. astep a k a' \<and> explains l k \<and> related s' a'"
begin

lemma run_matched:
  "run cstep s ls s' \<Longrightarrow> list_all permitted ls \<Longrightarrow> related s a \<Longrightarrow> \<exists>ks a'. run astep a ks a' \<and> list_all2 explains ls ks \<and> related s' a'"
proof (induction arbitrary: a rule: run.induct)
  case (run_cons s l s' ls s'')
  then obtain k a' where k: "astep a k a'" "explains l k" "related s' a'"
    using step_matched by fastforce
  with run_cons.IH run_cons.prems obtain ks a'' where "run astep a' ks a''" "list_all2 explains ls ks" "related s'' a''"
    by (metis list.pred_inject(2))
  with k show ?case by (intro exI [of _ "k # ks"] exI [of _ a'']) auto
qed (auto intro: run_nil)

end

section \<open>One transaction at a time\<close>

text \<open>
  What is at work: the object that has the connection and the tables as it sees them, or no tables when SQLite rolled its transaction
  back under it. Without an object it is a transaction that could not be rolled back.
\<close>

record 'd serial =
  durable :: 'd
  working :: "(nat option \<times> 'd option) option"

datatype serial_event = Stays | Nothing nat | Begins nat | Works nat | Hollows nat | Autocommits nat | Commits nat | Aborts | Orphans nat

inductive serial_step :: "'d serial \<Rightarrow> serial_event \<Rightarrow> 'd serial \<Rightarrow> bool" where
  stays: "serial_step a Stays a"
| nothing: "(\<And>x. working a \<noteq> Some (Some i, x)) \<Longrightarrow> serial_step a (Nothing i) a"
| begins: "working a = None \<Longrightarrow> serial_step a (Begins i) (a\<lparr>working := Some (Some i, Some (durable a))\<rparr>)"
| works: "working a = Some (Some i, Some x) \<Longrightarrow> serial_step a (Works i) (a\<lparr>working := Some (Some i, Some y)\<rparr>)"
| hollows: "working a = Some (Some i, Some x) \<Longrightarrow> serial_step a (Hollows i) (a\<lparr>working := Some (Some i, None)\<rparr>)"
| autocommits: "working a = Some (Some i, None) \<Longrightarrow> serial_step a (Autocommits i) (a\<lparr>durable := y\<rparr>)"
| commits: "working a = Some (Some i, Some x) \<Longrightarrow> serial_step a (Commits i) \<lparr>durable = x, working = None\<rparr>"
| aborts: "serial_step a Aborts (a\<lparr>working := None\<rparr>)"
| orphans: "working a = Some (Some i, Some x) \<Longrightarrow> serial_step a (Orphans i) (a\<lparr>working := Some (None, Some x)\<rparr>)"

text \<open>Which move may stand behind a call and its result.\<close>

fun explains :: "'d tx_call option \<Rightarrow> serial_event \<Rightarrow> bool" where
  "explains None k \<longleftrightarrow> k = Stays"
| "explains (Some (Begin i (Inr _))) k \<longleftrightarrow> k = Begins i"
| "explains (Some (Begin i (Inl _))) k \<longleftrightarrow> k = Stays \<or> k = Aborts"
| "explains (Some (Work i _ (Inr _))) k \<longleftrightarrow> k = Works i \<or> k = Autocommits i"
| "explains (Some (Work i _ (Inl _))) k \<longleftrightarrow> k = Nothing i \<or> k = Works i \<or> k = Hollows i \<or> k = Autocommits i"
| "explains (Some (Keep i (Inr _))) k \<longleftrightarrow> k = Commits i \<or> k = Nothing i"
| "explains (Some (Keep i (Inl _))) k \<longleftrightarrow> k = Aborts \<or> k = Orphans i"
| "explains (Some (Discard i _)) k \<longleftrightarrow> k = Aborts \<or> k = Orphans i \<or> k = Nothing i"
| "explains (Some (Collect i)) k \<longleftrightarrow> k = Aborts \<or> k = Orphans i \<or> k = Nothing i"
| "explains (Some Close) k \<longleftrightarrow> k = Stays \<or> k = Aborts"

section \<open>Where the connection is\<close>

definition in_slot :: "'d conn \<Rightarrow> 'd cslot \<Rightarrow> (nat \<rightharpoonup> 'd conn) \<Rightarrow> bool" where
  "in_slot c w held \<longleftrightarrow> sl_conn w = Some c \<and> sl_dropped w = None \<and> \<not> sl_closed w \<and> held = Map.empty"

definition held_by :: "nat \<Rightarrow> 'd conn \<Rightarrow> 'd cslot \<Rightarrow> (nat \<rightharpoonup> 'd conn) \<Rightarrow> bool" where
  "held_by i c w held \<longleftrightarrow> sl_conn w = None \<and> sl_dropped w = None \<and> held = [i \<mapsto> c]"

definition gone :: "'d conn \<Rightarrow> 'd cslot \<Rightarrow> (nat \<rightharpoonup> 'd conn) \<Rightarrow> bool" where
  "gone c w held \<longleftrightarrow> sl_conn w = None \<and> sl_dropped w = Some c \<and> sl_closed w \<and> held = Map.empty"

definition sound :: "'d conn \<Rightarrow> bool" where
  "sound c \<longleftrightarrow> conn_ok c \<and> tx c \<noteq> Implicit"

definition at_work :: "'d conn \<Rightarrow> 'd option" where
  "at_work c = (if tx c = NoTx then None else Some (db c))"

text \<open>The connection is in exactly one place, and the abstract machine shows what is in it.\<close>

definition shows_up :: "'d cslot \<Rightarrow> (nat \<rightharpoonup> 'd conn) \<Rightarrow> 'd serial \<Rightarrow> bool" where
  "shows_up w held a \<longleftrightarrow> (\<exists>c. sound c \<and> durable a = disk c \<and>
     (in_slot c w held \<and> working a = map_option (\<lambda>x. (None, Some x)) (at_work c)
      \<or> gone c w held \<and> at_work c = None \<and> working a = None
      \<or> (\<exists>i. held_by i c w held \<and> working a = Some (Some i, at_work c))))"

lemmas places = in_slot_def held_by_def gone_def

section \<open>The statements\<close>

definition untouched :: "'d conn \<Rightarrow> 'd conn \<Rightarrow> bool" where
  "untouched c c' \<longleftrightarrow> same_tx c c' \<and> db c' = db c"

lemma control_result:
  assumes "control f c = (r, c')"
  obtains (kept) e where "r = Inl e" "untouched c c'"
    | (aborted) e where "r = Inl e" "rolled_back c c'"
    | (ran) c1 where "r = Inr ()" "untouched c c1" "f c1 = Inr c'"
proof -
  obtain ft c1 where n: "next_env c = (ft, c1)" by fastforce
  with next_env_Pair [OF n] assms show thesis
    by (auto simp: control_def untouched_def same_tx_def rolled_back_def split: option.splits fault.splits sum.splits
        intro: kept aborted ran [of c1])
qed

lemma sound_untouched: "sound c \<Longrightarrow> untouched c c' \<Longrightarrow> sound c'"
  by (simp add: sound_def conn_ok_def untouched_def same_tx_def)

lemma sound_rolled_back: "rolled_back c c' \<Longrightarrow> sound c'"
  by (simp add: sound_def conn_ok_def rolled_back_def)

lemma sound_abort [simp]: "sound (abort_tx c)" "at_work (abort_tx c) = None"
  by (simp_all add: sound_def conn_ok_def at_work_def)

text \<open>\<open>c'\<close> is still what \<open>c\<close> was, or SQLite rolled it back; nothing durable has changed.\<close>

definition stalled :: "'d conn \<Rightarrow> 'd conn \<Rightarrow> bool" where
  "stalled c c' \<longleftrightarrow> sound c' \<and> disk c' = disk c \<and> (at_work c' = at_work c \<or> at_work c' = None)"

lemma stalledI: "sound c \<Longrightarrow> untouched c c' \<Longrightarrow> stalled c c'" "rolled_back c c' \<Longrightarrow> stalled c c'"
  by (auto simp: stalled_def sound_untouched sound_rolled_back untouched_def rolled_back_def same_tx_def at_work_def)

lemma stalled_trans: "stalled a b \<Longrightarrow> stalled b c \<Longrightarrow> stalled a c"
  by (auto simp: stalled_def)

lemma begin_result:
  assumes "sql_begin c = (r, c')" "sound c"
  obtains (failed) e where "r = Inl e" "stalled c c'"
    | (begun) "r = Inr ()" "at_work c = None" "sound c'" "disk c' = disk c" "at_work c' = Some (disk c)"
  using assms(1) unfolding sql_begin_def
proof (cases rule: control_result)
  case (ran c1)
  with assms(2) show thesis
    by (intro begun) (auto simp: is_autocommit_def untouched_def same_tx_def sound_def conn_ok_def at_work_def split: if_splits)
qed (use assms(2) in \<open>auto intro: failed stalledI\<close>)

lemma rollback_result:
  assumes "sql_rollback c = (r, c')" "sound c"
  shows "stalled c c' \<and> (r = Inr () \<longrightarrow> at_work c' = None)"
  using assms(1) unfolding sql_rollback_def
proof (cases rule: control_result)
  case (ran c1)
  then show ?thesis
    by (auto simp: is_autocommit_def untouched_def same_tx_def stalled_def split: if_splits)
qed (use assms(2) in \<open>auto intro: stalledI\<close>)

lemma rollback_stalls: "sound c \<Longrightarrow> stalled c (snd (sql_rollback c))"
  using rollback_result by (metis prod.collapse)

lemma commit_result:
  assumes "sql_commit c = (r, c')" "sound c"
  obtains (failed) e where "r = Inl e" "stalled c c'"
    | (committed) x where "r = Inr ()" "at_work c = Some x" "sound c'" "disk c' = x" "at_work c' = None"
  using assms(1) unfolding sql_commit_def
proof (cases rule: control_result)
  case (ran c1)
  with assms(2) show thesis
    by (intro committed) (auto simp: is_autocommit_def untouched_def same_tx_def sound_def conn_ok_def at_work_def commit_tx_def split: if_splits)
qed (use assms(2) in \<open>auto intro: failed stalledI\<close>)

text \<open>What a caller may run in a transaction: statements, but no transaction control.\<close>

definition plain :: "('d conn \<Rightarrow> (sqlerr + 'a) \<times> 'd conn) \<Rightarrow> bool" where
  "plain stmt \<longleftrightarrow> (\<forall>c r c'. sound c \<longrightarrow> stmt c = (r, c') \<longrightarrow>
     sound c' \<and> (tx c = NoTx \<longrightarrow> tx c' = NoTx)
     \<and> (tx c \<noteq> NoTx \<longrightarrow> disk c' = disk c \<and> (tx c' \<noteq> NoTx \<or> (\<exists>e. r = Inl e))))"

lemma plainD:
  assumes "plain stmt" "sound c" "stmt c = (r, c')"
  shows "sound c'"
    and "at_work c = None \<Longrightarrow> at_work c' = None"
    and "at_work c \<noteq> None \<Longrightarrow> disk c' = disk c \<and> (at_work c' \<noteq> None \<or> (\<exists>e. r = Inl e))"
proof -
  have "sound c' \<and> (tx c = NoTx \<longrightarrow> tx c' = NoTx) \<and> (tx c \<noteq> NoTx \<longrightarrow> disk c' = disk c \<and> (tx c' \<noteq> NoTx \<or> (\<exists>e. r = Inl e)))"
    using assms unfolding plain_def by blast
  then show "sound c'" "at_work c = None \<Longrightarrow> at_work c' = None"
    "at_work c \<noteq> None \<Longrightarrow> disk c' = disk c \<and> (at_work c' \<noteq> None \<or> (\<exists>e. r = Inl e))"
    by (simp_all add: at_work_def split: if_splits)
qed

fun permitted :: "'d tx_call option \<Rightarrow> bool" where
  "permitted (Some (Work i stmt r)) \<longleftrightarrow> plain stmt"
| "permitted _ \<longleftrightarrow> True"


section \<open>Moves of the connection\<close>

text \<open>Who holds the connection is at work; nobody else is.\<close>

lemma holder:
  assumes "shows_up w held a" "held i = Some c"
  shows "sound c" "durable a = disk c" "held_by i c w held" "working a = Some (Some i, at_work c)"
  using assms by (auto simp: shows_up_def places split: if_splits)

lemma no_holder:
  assumes "shows_up w held a" "held i = None"
  shows "working a \<noteq> Some (Some i, x)"
  using assms by (auto simp: shows_up_def places)

lemma shows_up_held: "sound c \<Longrightarrow> held_by i c w held \<Longrightarrow> shows_up w held \<lparr>durable = disk c, working = Some (Some i, at_work c)\<rparr>"
  by (auto simp: shows_up_def)

lemma give_back:
  assumes "held_by i c w held" "sound c'"
  shows "shows_up (slot_release c' w) (held(i := None))
    \<lparr>durable = disk c', working = (if sl_closed w then None else map_option (\<lambda>x. (None, Some x)) (at_work c'))\<rparr>"
  using assms unfolding shows_up_def
  by (intro exI [of _ "if sl_closed w then abort_tx c' else c'"]) (auto simp: slot_release_def places)

text \<open>The end of a transaction that was not committed.\<close>

lemma stalled_move:
  assumes "shows_up w held a" "held i = Some c" "stalled c c'"
  shows "\<exists>k a'. serial_step a k a' \<and> (k = Aborts \<or> k = Orphans i) \<and> shows_up (slot_release c' w) (held(i := None)) a'"
proof -
  note h = holder [OF assms(1,2)]
  have s: "sound c'" "disk c' = durable a" using assms(3) h(2) by (auto simp: stalled_def)
  note given = give_back [OF h(3) s(1)]
  show ?thesis
  proof (cases "sl_closed w \<or> at_work c' = None")
    case True
    then have "a\<lparr>working := None\<rparr> = \<lparr>durable = disk c', working = (if sl_closed w then None else map_option (\<lambda>x. (None, Some x)) (at_work c'))\<rparr>"
      using s by auto
    then show ?thesis using given aborts [of a] by metis
  next
    case False
    then obtain x where x: "at_work c' = Some x" "at_work c = Some x" using assms(3) by (auto simp: stalled_def)
    then have "a\<lparr>working := Some (None, Some x)\<rparr> = \<lparr>durable = disk c', working = (if sl_closed w then None else map_option (\<lambda>x. (None, Some x)) (at_work c'))\<rparr>"
      using s False by auto
    then show ?thesis using given orphans [of a i x] h(4) x by metis
  qed
qed

text \<open>The end of one that was.\<close>

lemma commit_move:
  assumes "shows_up w held a" "held i = Some c" "at_work c = Some x" "sound c'" "disk c' = x" "at_work c' = None"
  shows "\<exists>a'. serial_step a (Commits i) a' \<and> shows_up (slot_release c' w) (held(i := None)) a'"
proof -
  note h = holder [OF assms(1,2)]
  have "serial_step a (Commits i) \<lparr>durable = disk c', working = None\<rparr>"
    using h(4) assms(3,5) commits by simp
  moreover have "shows_up (slot_release c' w) (held(i := None)) \<lparr>durable = disk c', working = None\<rparr>"
    using give_back [OF h(3) assms(4)] assms(6) by (simp split: if_splits)
  ultimately show ?thesis by blast
qed

text \<open>\<open>COMMIT\<close> with the \<open>ROLLBACK\<close> both bindings run when it fails.\<close>

definition commit_or_rollback :: "'d conn \<Rightarrow> (sqlerr + unit) \<times> 'd conn" where
  "commit_or_rollback c = (case sql_commit c of (Inr _, c1) \<Rightarrow> (Inr (), c1) | (Inl e, c1) \<Rightarrow> (Inl e, snd (sql_rollback c1)))"

lemma keep_move:
  assumes "shows_up w held a" "held i = Some c" "commit_or_rollback c = (r, c')"
  shows "\<exists>k a'. serial_step a k a' \<and> (case r of Inr _ \<Rightarrow> k = Commits i | Inl _ \<Rightarrow> k = Aborts \<or> k = Orphans i)
    \<and> shows_up (slot_release c' w) (held(i := None)) a'"
proof -
  note h = holder [OF assms(1,2)]
  obtain r1 c1 where cm: "sql_commit c = (r1, c1)" by fastforce
  from cm h(1) show ?thesis
  proof (cases rule: commit_result)
    case (failed e)
    then have r: "r = Inl e" "c' = snd (sql_rollback c1)" "sound c1"
      using assms(3) cm by (simp_all add: commit_or_rollback_def stalled_def)
    then have "stalled c c'"
      using failed(2) rollback_stalls stalled_trans by blast
    with r stalled_move [OF assms(1,2)] show ?thesis by auto
  next
    case (committed x)
    then have "c' = c1" "r = Inr ()" using assms(3) cm by (auto simp: commit_or_rollback_def)
    with commit_move [OF assms(1,2)] committed show ?thesis by auto
  qed
qed

text \<open>A statement.\<close>

lemma work_move:
  assumes "shows_up w held a" "held i = Some c" "plain stmt" "stmt c = (r, c')"
  shows "\<exists>k a'. serial_step a k a' \<and> (k = Works i \<or> k = Autocommits i \<or> (k = Hollows i \<and> (\<exists>e. r = Inl e))) \<and> shows_up w (held(i \<mapsto> c')) a'"
proof -
  note h = holder [OF assms(1,2)]
  note p = plainD [OF assms(3) h(1) assms(4)]
  have held': "held_by i c' w (held(i \<mapsto> c'))" using h(3) by (auto simp: places)
  note up = shows_up_held [OF p(1) held']
  have a: "\<lparr>durable = disk c', working = Some (Some i, at_work c')\<rparr> = a\<lparr>durable := disk c', working := Some (Some i, at_work c')\<rparr>" by simp
  show ?thesis
  proof (cases "at_work c")
    case None
    with p(2) h(4) have "a\<lparr>durable := disk c'\<rparr> = \<lparr>durable = disk c', working = Some (Some i, at_work c')\<rparr>" by simp
    with up autocommits [of a i "disk c'"] h(4) None show ?thesis by metis
  next
    case (Some x)
    with p(3) h(2) have d: "\<lparr>durable = disk c', working = Some (Some i, at_work c')\<rparr> = a\<lparr>working := Some (Some i, at_work c')\<rparr>" by simp
    show ?thesis
    proof (cases "at_work c'")
      case None
      with p(3) Some have "\<exists>e. r = Inl e" by simp
      with up d hollows [of a i x] h(4) Some None show ?thesis by metis
    next
      case (Some y)
      with up d works [of a i x y] h(4) \<open>at_work c = Some x\<close> show ?thesis by metis
    qed
  qed
qed

text \<open>Taking the connection, and the \<open>BEGIN\<close>.\<close>

lemma slot_taken:
  assumes "try_then_acquire w = SlotGot c w'" "shows_up w held a"
  shows "sound c" "durable a = disk c" "working a = map_option (\<lambda>x. (None, Some x)) (at_work c)"
    and "held = Map.empty" "w' = w\<lparr>sl_conn := None\<rparr>" "sl_dropped w = None" "\<not> sl_closed w"
  using assms
  by (auto simp: try_then_acquire_def slot_try_acquire_def slot_acquire_def shows_up_def places split: if_splits option.splits)

lemma begin_move:
  assumes "shows_up w held a" "try_then_acquire w = SlotGot c w'" "sql_begin c = (r, c')"
  shows "case r of
      Inr _ \<Rightarrow> \<exists>a'. serial_step a (Begins i) a' \<and> shows_up w' (held(i \<mapsto> c')) a'
    | Inl _ \<Rightarrow> \<exists>k a'. serial_step a k a' \<and> (k = Stays \<or> k = Aborts) \<and> shows_up (slot_release c' w') held a'"
proof -
  note t = slot_taken [OF assms(2,1)]
  from assms(3) t(1) show ?thesis
  proof (cases rule: begin_result)
    case (failed e)
    then have s: "sound c'" "disk c' = durable a" "at_work c' = at_work c \<or> at_work c' = None" using t(2) by (auto simp: stalled_def)
    have up: "shows_up (slot_release c' w') held \<lparr>durable = durable a, working = map_option (\<lambda>x. (None, Some x)) (at_work c')\<rparr>"
      unfolding shows_up_def using s(1,2) t(4-7) by (intro exI [of _ c']) (auto simp: slot_release_def places)
    from s(3) have "\<exists>k. (k = Stays \<or> k = Aborts) \<and> serial_step a k \<lparr>durable = durable a, working = map_option (\<lambda>x. (None, Some x)) (at_work c')\<rparr>"
    proof
      assume "at_work c' = at_work c"
      with t(3) have "\<lparr>durable = durable a, working = map_option (\<lambda>x. (None, Some x)) (at_work c')\<rparr> = a" by simp
      with stays show ?thesis by metis
    next
      assume "at_work c' = None"
      then have "\<lparr>durable = durable a, working = map_option (\<lambda>x. (None, Some x)) (at_work c')\<rparr> = a\<lparr>working := None\<rparr>" by simp
      with aborts show ?thesis by metis
    qed
    with up failed(1) show ?thesis by auto
  next
    case begun
    have "held_by i c' w' (held(i \<mapsto> c'))" using t(4-7) by (simp add: places)
    note up = shows_up_held [OF begun(3) this]
    have "a\<lparr>working := Some (Some i, Some (durable a))\<rparr> = \<lparr>durable = disk c', working = Some (Some i, at_work c')\<rparr>"
      using t(2) begun by simp
    moreover have "working a = None" using t(3) begun(2) by simp
    ultimately have "serial_step a (Begins i) \<lparr>durable = disk c', working = Some (Some i, at_work c')\<rparr>"
      using begins [of a i] by simp
    with up begun(1) show ?thesis by auto
  qed
qed

lemma close_move:
  assumes "shows_up w held a"
  shows "\<exists>k a'. serial_step a k a' \<and> (k = Stays \<or> k = Aborts) \<and> shows_up (slot_close w) held a'"
proof (cases "sl_conn w")
  case None
  with assms have "shows_up (slot_close w) held a"
    by (auto simp: slot_close_def shows_up_def places)
  with stays show ?thesis by blast
next
  case (Some c)
  with assms have "shows_up (slot_close w) held (a\<lparr>working := None\<rparr>)"
    by (auto simp: slot_close_def Let_def shows_up_def places intro!: exI [of _ "abort_tx c"])
  with aborts show ?thesis by blast
qed



section \<open>The objects of a process\<close>

text \<open>The connection of an object, and a condition on its flags while it has one.\<close>

definition holding :: "('x \<Rightarrow> 'd conn option) \<Rightarrow> ('x, 'd) binding \<Rightarrow> nat \<rightharpoonup> 'd conn" where
  "holding conn_of s = (\<lambda>i. case b_txs s i of None \<Rightarrow> None | Some x \<Rightarrow> conn_of x)"

definition related :: "('x \<Rightarrow> 'd conn option) \<Rightarrow> ('x \<Rightarrow> bool) \<Rightarrow> ('x, 'd) binding \<Rightarrow> 'd serial \<Rightarrow> bool" where
  "related conn_of fit s a \<longleftrightarrow> shows_up (b_slot s) (holding conn_of s) a \<and> (\<forall>i x. b_txs s i = Some x \<longrightarrow> fit x)"

lemma set_tx_simps [simp]: "b_slot (set_tx i x w s) = w" "b_txs (set_tx i x w s) = (b_txs s)(i := x)"
  by (simp_all add: set_tx_def)

lemma relatedD:
  assumes "related conn_of fit s a"
  shows "shows_up (b_slot s) (holding conn_of s) a" "b_txs s i = Some x \<Longrightarrow> holding conn_of s i = conn_of x \<and> fit x"
    "b_txs s i = None \<Longrightarrow> holding conn_of s i = None"
  using assms by (simp_all add: related_def holding_def)

lemma related_slot: "related conn_of fit s a \<Longrightarrow> shows_up w (holding conn_of s) a' \<Longrightarrow> related conn_of fit (s\<lparr>b_slot := w\<rparr>) a'"
  by (simp add: related_def holding_def)

lemma related_set:
  assumes "related conn_of fit s a" "shows_up w ((holding conn_of s)(i := Option.bind x conn_of)) a'" "\<And>y. x = Some y \<Longrightarrow> fit y"
  shows "related conn_of fit (set_tx i x w s) a'"
proof -
  have "holding conn_of (set_tx i x w s) = (holding conn_of s)(i := Option.bind x conn_of)"
    by (auto simp: holding_def fun_eq_iff split: option.split)
  with assms show ?thesis by (auto simp: related_def)
qed

text \<open>An object without the connection comes and goes.\<close>

lemma related_idle:
  assumes "related conn_of fit s a" "holding conn_of s i = None" "Option.bind x conn_of = None" "\<And>y. x = Some y \<Longrightarrow> fit y"
  shows "related conn_of fit (set_tx i x (b_slot s) s) a" "serial_step a (Nothing i) a"
proof -
  have "(holding conn_of s)(i := None) = holding conn_of s" using assms(2) by (simp add: fun_upd_idem)
  then show "related conn_of fit (set_tx i x (b_slot s) s) a"
    using assms relatedD(1) [OF assms(1)] by (intro related_set [OF assms(1)]) auto
  show "serial_step a (Nothing i) a"
    by (rule nothing) (rule no_holder [OF relatedD(1) [OF assms(1)] assms(2)])
qed

text \<open>The object with the connection works on it and gives it back.\<close>

lemma related_works:
  assumes "related conn_of fit s a" "b_txs s i = Some x" "conn_of x = Some c" "plain stmt" "stmt c = (r, c')" "conn_of x' = Some c'" "fit x'"
  shows "\<exists>k a'. serial_step a k a' \<and> (k = Works i \<or> k = Autocommits i \<or> (k = Hollows i \<and> (\<exists>e. r = Inl e)))
    \<and> related conn_of fit (set_tx i (Some x') (b_slot s) s) a'"
proof -
  note d = relatedD [OF assms(1)]
  from work_move [OF d(1) _ assms(4,5), of i] d(2) assms obtain k a' where
    "serial_step a k a'" "k = Works i \<or> k = Autocommits i \<or> (k = Hollows i \<and> (\<exists>e. r = Inl e))" "shows_up (b_slot s) ((holding conn_of s)(i \<mapsto> c')) a'"
    by auto
  moreover from this have "related conn_of fit (set_tx i (Some x') (b_slot s) s) a'"
    using assms(6,7) by (intro related_set [OF assms(1)]) auto
  ultimately show ?thesis by blast
qed

lemma related_stalled:
  assumes "related conn_of fit s a" "b_txs s i = Some x" "conn_of x = Some c" "stalled c c'"
    and "Option.bind x' conn_of = None" "\<And>y. x' = Some y \<Longrightarrow> fit y"
  shows "\<exists>k a'. serial_step a k a' \<and> (k = Aborts \<or> k = Orphans i) \<and> related conn_of fit (set_tx i x' (slot_release c' (b_slot s)) s) a'"
proof -
  note d = relatedD [OF assms(1)]
  from stalled_move [OF d(1) _ assms(4), of i] d(2) assms obtain k a' where
    "serial_step a k a'" "k = Aborts \<or> k = Orphans i" "shows_up (slot_release c' (b_slot s)) ((holding conn_of s)(i := None)) a'"
    by auto
  then show ?thesis using assms by (metis related_set)
qed

lemma related_keep:
  assumes "related conn_of fit s a" "b_txs s i = Some x" "conn_of x = Some c" "commit_or_rollback c = (r, c')"
    and "Option.bind x' conn_of = None" "\<And>y. x' = Some y \<Longrightarrow> fit y"
  shows "\<exists>k a'. serial_step a k a' \<and> (case r of Inr _ \<Rightarrow> k = Commits i | Inl _ \<Rightarrow> k = Aborts \<or> k = Orphans i)
    \<and> related conn_of fit (set_tx i x' (slot_release c' (b_slot s)) s) a'"
proof -
  note d = relatedD [OF assms(1)]
  from keep_move [OF d(1) _ assms(4), of i] d(2) assms obtain k a' where
    "serial_step a k a'" "case r of Inr _ \<Rightarrow> k = Commits i | Inl _ \<Rightarrow> k = Aborts \<or> k = Orphans i"
    "shows_up (slot_release c' (b_slot s)) ((holding conn_of s)(i := None)) a'" by auto
  then show ?thesis using assms by (metis related_set)
qed

lemma related_sound:
  assumes "related conn_of fit s a" "b_txs s i = Some x" "conn_of x = Some c"
  shows "sound c"
  using holder(1) [OF relatedD(1) [OF assms(1)], of i] relatedD(2) [OF assms(1,2)] assms(3) by simp

text \<open>Taking the connection: who has got it finds no other object with it.\<close>

lemma related_begin:
  assumes "related conn_of fit s a" "try_then_acquire (b_slot s) = SlotGot c w'" "sql_begin c = (r, c')"
  shows "holding conn_of s i = None"
    and "r = Inr u \<Longrightarrow> conn_of x' = Some c' \<Longrightarrow> fit x' \<Longrightarrow> \<exists>a'. serial_step a (Begins i) a' \<and> related conn_of fit (set_tx i (Some x') w' s) a'"
    and "r = Inl e \<Longrightarrow> \<exists>k a'. serial_step a k a' \<and> (k = Stays \<or> k = Aborts) \<and> related conn_of fit (s\<lparr>b_slot := slot_release c' w'\<rparr>) a'"
proof -
  note d = relatedD [OF assms(1)]
  show "holding conn_of s i = None" using slot_taken(4) [OF assms(2) d(1)] by simp
  have m: "case r of Inr _ \<Rightarrow> \<exists>a'. serial_step a (Begins i) a' \<and> shows_up w' ((holding conn_of s)(i \<mapsto> c')) a'
    | Inl _ \<Rightarrow> \<exists>k a'. serial_step a k a' \<and> (k = Stays \<or> k = Aborts) \<and> shows_up (slot_release c' w') (holding conn_of s) a'"
    by (rule begin_move [OF d(1) assms(2,3)])
  show "\<exists>a'. serial_step a (Begins i) a' \<and> related conn_of fit (set_tx i (Some x') w' s) a'"
    if "r = Inr u" "conn_of x' = Some c'" "fit x'"
    using m that by (auto intro!: related_set [OF assms(1)])
  show "\<exists>k a'. serial_step a k a' \<and> (k = Stays \<or> k = Aborts) \<and> related conn_of fit (s\<lparr>b_slot := slot_release c' w'\<rparr>) a'"
    if "r = Inl e"
    using m that by (auto intro: related_slot [OF assms(1)])
qed

lemma related_close:
  assumes "related conn_of fit s a"
  shows "\<exists>k a'. serial_step a k a' \<and> explains (Some Close) k \<and> related conn_of fit (s\<lparr>b_slot := slot_close (b_slot s)\<rparr>) a'"
  using close_move [OF relatedD(1) [OF assms]] related_slot [OF assms] by fastforce

lemma related_new:
  assumes "sound c" "tx c = NoTx"
  shows "related conn_of fit (binding_new c) \<lparr>durable = disk c, working = None\<rparr>"
  using assms unfolding related_def shows_up_def
  by (auto simp: binding_new_def slot_new_def holding_def places at_work_def)


section \<open>Python\<close>

definition py_fit :: "'d py_tx \<Rightarrow> bool" where
  "py_fit x \<longleftrightarrow> (px_conn x \<noteq> None \<longrightarrow> px_started x \<and> \<not> px_released x)"

text \<open>An exit is nothing, or the end of the transaction of the object.\<close>

lemma py_exit_cases:
  assumes "py_exit raised x w = (r, x', w')" "py_fit x"
  obtains (idle) "px_conn x = None" "r = Inr ()" "x' = x" "w' = w"
    | (ends) c c' r' where "px_conn x = Some c" "px_conn x' = None" "w' = slot_release c' w"
        "(if raised then sql_rollback c else commit_or_rollback c) = (r', c')" "(\<exists>e. r = Inl e) \<longleftrightarrow> (\<exists>e. r' = Inl e)"
proof (cases "px_conn x")
  case None
  with assms(1) show thesis by (intro idle) (auto simp: py_exit_def split: if_splits)
next
  case (Some c)
  obtain r' c' where e: "(if raised then sql_rollback c else commit_or_rollback c) = (r', c')" by fastforce
  with Some assms show thesis
    by (intro ends [OF Some _ _ e]) (auto simp: py_fit_def py_exit_def commit_or_rollback_def split: if_splits sum.splits prod.splits)
qed

lemma py_enter_matched:
  assumes "related px_conn py_fit s a" "b_txs s i = Some x" "py_enter x (b_slot s) = Some (r, x', w)"
  shows "\<exists>k a'. serial_step a k a' \<and> explains (Some (Begin i r)) k \<and> related px_conn py_fit (set_tx i (Some x') w s) a'"
proof (cases "try_then_acquire (b_slot s)")
  case (SlotGot c w')
  obtain r' c' where b: "sql_begin c = (r', c')" by fastforce
  note m = related_begin [OF assms(1) SlotGot b]
  have x: "px_conn x = None" using m(1) relatedD(2) [OF assms(1,2)] by simp
  show ?thesis
  proof (cases r')
    case (Inl e)
    from m(3) [OF Inl] obtain k a' where k: "serial_step a k a'" "k = Stays \<or> k = Aborts" "related px_conn py_fit (s\<lparr>b_slot := slot_release c' w'\<rparr>) a'" by blast
    have "set_tx i (Some x) (slot_release c' w') s = s\<lparr>b_slot := slot_release c' w'\<rparr>"
      using assms(2) by (simp add: set_tx_def fun_upd_idem)
    moreover have "r = Inl (SqlFailed e)" "x' = x" "w = slot_release c' w'"
      using Inl assms(3) SlotGot b by (auto simp: py_enter_def)
    ultimately show ?thesis using k by (metis explains.simps(3))
  next
    case (Inr u)
    have "\<exists>a'. serial_step a (Begins i) a' \<and> related px_conn py_fit (set_tx i (Some \<lparr>px_conn = Some c', px_started = True, px_released = False\<rparr>) w' s) a'"
      by (rule m(2) [OF Inr]) (simp_all add: py_fit_def)
    then show ?thesis using Inr assms(3) SlotGot b by (auto simp: py_enter_def)
  qed
next
  case SlotClosed
  have "set_tx i (Some x) (b_slot s) s = s" using assms(2) by (simp add: set_tx_def fun_upd_idem)
  moreover have "r = Inl DatabaseClosed" "x' = x" "w = b_slot s"
    using SlotClosed assms(3) by (simp_all add: py_enter_def)
  ultimately show ?thesis using assms(1) stays [of a] by (metis explains.simps(3))
qed (use assms(3) in \<open>auto simp: py_enter_def\<close>)

lemma py_work_matched:
  assumes "related px_conn py_fit s a" "b_txs s i = Some x" "py_execute stmt x = (r, x')" "plain stmt"
  shows "\<exists>k a'. serial_step a k a' \<and> explains (Some (Work i stmt r)) k \<and> related px_conn py_fit (set_tx i (Some x') (b_slot s) s) a'"
proof (cases "px_conn x")
  case None
  then have "x' = x" "r = Inl NotInTransaction" using assms(3) by (simp_all add: py_execute_def)
  moreover have "explains (Some (Work i stmt (Inl NotInTransaction))) (Nothing i)" by simp
  ultimately show ?thesis
    using related_idle [OF assms(1), of i "Some x"] relatedD(2) [OF assms(1,2)] None by (metis Option.bind.bind_lunit option.sel)
next
  case (Some c)
  obtain r' c' where st: "stmt c = (r', c')" by fastforce
  with assms(3) Some have e: "x' = x\<lparr>px_conn := Some c'\<rparr>" "(\<exists>e. r = Inl e) \<longleftrightarrow> (\<exists>e. r' = Inl e)"
    by (auto simp: py_execute_def split: sum.splits)
  have "py_fit x'" using relatedD(2) [OF assms(1,2)] Some by (simp add: e py_fit_def)
  with related_works [OF assms(1,2) Some assms(4) st, of x'] obtain k a'
    where k: "serial_step a k a'" "k = Works i \<or> k = Autocommits i \<or> (k = Hollows i \<and> (\<exists>e. r' = Inl e))"
      "related px_conn py_fit (set_tx i (Some x') (b_slot s) s) a'"
    by (auto simp: e)
  then have "explains (Some (Work i stmt r)) k" using e(2) by (cases r) auto
  with k show ?thesis by blast
qed

lemma py_exit_matched:
  assumes "related px_conn py_fit s a" "b_txs s i = Some x" "py_exit raised x (b_slot s) = (r, x', w)"
  shows "\<exists>k a'. serial_step a k a' \<and> explains (Some (if raised then Discard i r else Keep i r)) k \<and> related px_conn py_fit (set_tx i (Some x') w s) a'"
  using assms(3) conjunct2 [OF relatedD(2) [OF assms(1,2)]]
proof (cases rule: py_exit_cases)
  case idle
  with related_idle [OF assms(1), of i "Some x"] relatedD(2) [OF assms(1,2)] show ?thesis by auto
next
  case (ends c c' r')
  have fit: "py_fit x'" using ends(2) by (simp add: py_fit_def)
  show ?thesis
  proof (cases raised)
    case True
    then have "stalled c c'" using ends(4) rollback_result related_sound [OF assms(1,2) ends(1)] by auto
    from related_stalled [OF assms(1,2) ends(1) this, of "Some x'"] ends(2,3) fit True show ?thesis by auto
  next
    case False
    with related_keep [OF assms(1,2) ends(1), of r' c' "Some x'"] ends fit obtain k a' where k: "serial_step a k a'"
      "case r' of Inr _ \<Rightarrow> k = Commits i | Inl _ \<Rightarrow> k = Aborts \<or> k = Orphans i" "related px_conn py_fit (set_tx i (Some x') w s) a'" by auto
    then have "explains (Some (Keep i r)) k" using ends(5) by (cases r; cases r') auto
    with k False show ?thesis by auto
  qed
qed

lemma py_drop_matched:
  assumes "related px_conn py_fit s a" "b_txs s i = Some x"
  shows "\<exists>k a'. serial_step a k a' \<and> explains (Some (Collect i)) k \<and> related px_conn py_fit (set_tx i None (py_drop x (b_slot s)) s) a'"
proof (cases "px_conn x")
  case None
  with related_idle [OF assms(1), of i None] relatedD(2) [OF assms] show ?thesis by (auto simp: py_drop_def)
next
  case (Some c)
  then have "py_drop x (b_slot s) = slot_release (snd (sql_rollback c)) (b_slot s)"
    using relatedD(2) [OF assms] by (simp add: py_drop_def py_fit_def)
  with related_stalled [OF assms Some rollback_stalls [OF related_sound [OF assms Some]], of None] show ?thesis by auto
qed

interpretation python: simulation py_step serial_step permitted explains "related px_conn py_fit"
proof
  fix s s' :: "('d py_tx, 'd) binding" and l and a :: "'d serial"
  assume "py_step s l s'" "permitted l" "related px_conn py_fit s a"
  then show "\<exists>k a'. serial_step a k a' \<and> explains l k \<and> related px_conn py_fit s' a'"
  proof cases
    case (py_creates i)
    then show ?thesis
      using related_idle(1) [OF \<open>related px_conn py_fit s a\<close>, of i "Some py_transaction"] relatedD(3) [OF \<open>related px_conn py_fit s a\<close>]
      by (auto simp: py_transaction_def py_fit_def intro: stays)
  next
    case (py_leaves i x r x' w)
    with py_exit_matched [OF \<open>related px_conn py_fit s a\<close>, of i x False] show ?thesis by simp
  next
    case (py_raises i x r x' w)
    with py_exit_matched [OF \<open>related px_conn py_fit s a\<close>, of i x True] show ?thesis by simp
  next
    case py_collects
    with py_drop_matched [OF \<open>related px_conn py_fit s a\<close>] show ?thesis by blast
  next
    case py_closes
    with related_close [OF \<open>related px_conn py_fit s a\<close>] show ?thesis by blast
  qed (use \<open>permitted l\<close> \<open>related px_conn py_fit s a\<close> in \<open>auto intro: py_enter_matched py_work_matched\<close>)
qed


section \<open>Node\<close>

definition node_fit :: "'d node_tx \<Rightarrow> bool" where
  "node_fit x \<longleftrightarrow> (case nx_conn x of None \<Rightarrow> nx_finished x | Some _ \<Rightarrow> nx_started x \<and> \<not> nx_finished x)"

lemma node_begin_matched:
  assumes "related nx_conn node_fit s a" "node_transaction (b_slot s) = Some (r, w)"
  shows "case r of
      Inr x \<Rightarrow> \<exists>k a'. serial_step a k a' \<and> explains (Some (Begin i (Inr ()))) k \<and> related nx_conn node_fit (set_tx i (Some x) w s) a'
    | Inl e \<Rightarrow> \<exists>k a'. serial_step a k a' \<and> explains (Some (Begin i (Inl e))) k \<and> related nx_conn node_fit (s\<lparr>b_slot := w\<rparr>) a'"
proof (cases "try_then_acquire (b_slot s)")
  case (SlotGot c w')
  obtain r' c' where b: "sql_begin c = (r', c')" by fastforce
  note m = related_begin [OF assms(1) SlotGot b]
  show ?thesis
  proof (cases r')
    case (Inl e)
    with m(3) [OF Inl] assms(2) SlotGot b show ?thesis by (fastforce simp: node_transaction_def)
  next
    case (Inr u)
    have "\<exists>a'. serial_step a (Begins i) a' \<and> related nx_conn node_fit (set_tx i (Some \<lparr>nx_conn = Some c', nx_started = True, nx_finished = False\<rparr>) w' s) a'"
      by (rule m(2) [OF Inr]) (simp_all add: node_fit_def)
    with Inr assms(2) SlotGot b show ?thesis by (auto simp: node_transaction_def)
  qed
next
  case SlotClosed
  have "s\<lparr>b_slot := b_slot s\<rparr> = s" by simp
  with SlotClosed assms stays [of a] show ?thesis by (fastforce simp: node_transaction_def)
qed (use assms(2) in \<open>auto simp: node_transaction_def\<close>)

lemma node_work_matched:
  assumes "related nx_conn node_fit s a" "b_txs s i = Some x" "node_execute stmt x = (r, x')" "plain stmt"
  shows "\<exists>k a'. serial_step a k a' \<and> explains (Some (Work i stmt r)) k \<and> related nx_conn node_fit (set_tx i (Some x') (b_slot s) s) a'"
proof (cases "nx_conn x")
  case None
  then have "x' = x" "r = Inl NotInTransaction" using assms(3) by (simp_all add: node_execute_def)
  moreover have "explains (Some (Work i stmt (Inl NotInTransaction))) (Nothing i)" by simp
  ultimately show ?thesis
    using related_idle [OF assms(1), of i "Some x"] relatedD(2) [OF assms(1,2)] None by (metis Option.bind.bind_lunit option.sel)
next
  case (Some c)
  obtain r' c' where st: "stmt c = (r', c')" by fastforce
  with assms(3) Some have e: "x' = x\<lparr>nx_conn := Some c'\<rparr>" "(\<exists>e. r = Inl e) \<longleftrightarrow> (\<exists>e. r' = Inl e)"
    by (auto simp: node_execute_def split: sum.splits)
  have "node_fit x'" using relatedD(2) [OF assms(1,2)] Some by (simp add: e node_fit_def)
  with related_works [OF assms(1,2) Some assms(4) st, of x'] obtain k a'
    where k: "serial_step a k a'" "k = Works i \<or> k = Autocommits i \<or> (k = Hollows i \<and> (\<exists>e. r' = Inl e))"
      "related nx_conn node_fit (set_tx i (Some x') (b_slot s) s) a'"
    by (auto simp: e)
  then have "explains (Some (Work i stmt r)) k" using e(2) by (cases r) auto
  with k show ?thesis by blast
qed

lemma node_commit_matched:
  assumes "related nx_conn node_fit s a" "b_txs s i = Some x" "node_commit x (b_slot s) = (r, x', w)"
  shows "\<exists>k a'. serial_step a k a' \<and> explains (Some (Keep i r)) k \<and> related nx_conn node_fit (set_tx i (Some x') w s) a'"
proof (cases "nx_conn x")
  case None
  with related_idle [OF assms(1), of i "Some x"] relatedD(2) [OF assms(1,2)] assms(3) show ?thesis
    by (fastforce simp: node_commit_def node_fit_def)
next
  case (Some c)
  obtain r' c' where cr: "commit_or_rollback c = (r', c')" by fastforce
  have fin: "\<not> nx_finished x" using relatedD(2) [OF assms(1,2)] Some by (simp add: node_fit_def)
  with assms(3) Some cr have e: "nx_conn x' = None" "node_fit x'" "w = slot_release c' (b_slot s)" "(\<exists>e. r = Inl e) \<longleftrightarrow> (\<exists>e. r' = Inl e)"
    by (auto simp: node_commit_def commit_or_rollback_def node_fit_def split: sum.splits prod.splits)
  with related_keep [OF assms(1,2) Some cr, of "Some x'"] obtain k a' where k: "serial_step a k a'"
    "case r' of Inr _ \<Rightarrow> k = Commits i | Inl _ \<Rightarrow> k = Aborts \<or> k = Orphans i" "related nx_conn node_fit (set_tx i (Some x') w s) a'" by auto
  then have "explains (Some (Keep i r)) k" using e(4) by (cases r; cases r') auto
  with k show ?thesis by blast
qed

lemma node_end_matched:
  assumes "related nx_conn node_fit s a" "b_txs s i = Some x"
  shows "node_rollback x (b_slot s) = (r, x', w) \<Longrightarrow>
      \<exists>k a'. serial_step a k a' \<and> explains (Some (Discard i r)) k \<and> related nx_conn node_fit (set_tx i (Some x') w s) a'"
    and "\<exists>k a'. serial_step a k a' \<and> explains (Some (Collect i)) k \<and> related nx_conn node_fit (set_tx i None (node_drop x (b_slot s)) s) a'"
proof -
  have fit: "node_fit x" using relatedD(2) [OF assms] by simp
  have done': "node_fit \<lparr>nx_conn = None, nx_started = False, nx_finished = True\<rparr>" by (simp add: node_fit_def)
  note idle = related_idle [OF assms(1)]
  note ends = related_stalled [OF assms _ rollback_stalls [OF related_sound [OF assms]]]
  show "\<exists>k a'. serial_step a k a' \<and> explains (Some (Discard i r)) k \<and> related nx_conn node_fit (set_tx i (Some x') w s) a'"
    if "node_rollback x (b_slot s) = (r, x', w)"
  proof (cases "nx_conn x")
    case None
    with that fit idle [of i "Some x"] relatedD(2) [OF assms] show ?thesis by (fastforce simp: node_rollback_def node_fit_def)
  next
    case (Some c)
    with that fit done' ends [OF Some Some, of "Some x'"] show ?thesis by (fastforce simp: node_rollback_def node_fit_def)
  qed
  show "\<exists>k a'. serial_step a k a' \<and> explains (Some (Collect i)) k \<and> related nx_conn node_fit (set_tx i None (node_drop x (b_slot s)) s) a'"
  proof (cases "nx_conn x")
    case None
    with idle [of i None] relatedD(2) [OF assms] show ?thesis by (fastforce simp: node_drop_def)
  next
    case (Some c)
    with fit ends [OF Some Some, of None] show ?thesis by (fastforce simp: node_drop_def node_fit_def)
  qed
qed

interpretation node: simulation node_step serial_step permitted explains "related nx_conn node_fit"
proof
  fix s s' :: "('d node_tx, 'd) binding" and l and a :: "'d serial"
  assume "node_step s l s'" "permitted l" and R: "related nx_conn node_fit s a"
  then show "\<exists>k a'. serial_step a k a' \<and> explains l k \<and> related nx_conn node_fit s' a'"
  proof cases
    case (node_begins i x w)
    with node_begin_matched [OF R, of "Inr x"] show ?thesis by simp
  next
    case (node_refused i e w)
    with node_begin_matched [OF R, of "Inl e"] show ?thesis by simp
  next
    case node_rolls_back
    with node_end_matched(1) [OF R] show ?thesis by blast
  next
    case node_collects
    with node_end_matched(2) [OF R] show ?thesis by blast
  next
    case node_closes
    with related_close [OF R] show ?thesis by blast
  qed (use \<open>permitted l\<close> R in \<open>auto intro: node_work_matched node_commit_matched\<close>)
qed


section \<open>The bindings are serial\<close>


text \<open>
  The same of the Node binding, whose transactions begin with their object.
\<close>

theorem node_transactions_serial:
  assumes "conn_ok c" "tx c = NoTx" "run node_step (binding_new c) ls s" "list_all permitted ls"
  shows "\<exists>ks a. run serial_step \<lparr>durable = disk c, working = None\<rparr> ks a \<and> list_all2 explains ls ks
    \<and> shows_up (b_slot s) (holding nx_conn s) a"
  using node.run_matched [OF assms(3,4) related_new [of c]] assms(1,2)
  by (fastforce simp: sound_def related_def)

text \<open>A transaction that adds one to a table with one number, twice in a row.\<close>

definition add_one :: "int conn \<Rightarrow> (sqlerr + unit) \<times> int conn" where
  "add_one = as_call (exec (\<lambda>t d. Inr ((), d + 1)))"

text \<open>Every single statement is one the callers may run.\<close>

lemma plain_exec: "plain (as_call (exec stmt))"
  by (auto simp: plain_def as_call_def exec_def sound_def conn_ok_def dest!: next_env_Pair
      split: prod.splits option.splits fault.splits sum.splits)

lemma plain_add_one: "plain add_one"
  unfolding add_one_def by (rule plain_exec)

definition one_number :: "env_step list \<Rightarrow> int conn" where
  "one_number = fresh_conn 0 100"

definition py_add :: "nat \<Rightarrow> int tx_call option list" where
  "py_add i = [Some (Begin i (Inr ())), Some (Work i add_one (Inr ())), Some (Keep i (Inr ()))]"

lemma quiet_control [simp]:
  "script c = [] \<Longrightarrow> sql_begin c = (if tx c = NoTx then (Inr (), c\<lparr>tx := Explicit\<rparr>)
     else (Inl (SqliteFailure (OtherCode 1) ''cannot start a transaction within a transaction''), c))"
  "script c = [] \<Longrightarrow> sql_commit c = (if tx c = NoTx then (Inl (SqliteFailure (OtherCode 1) ''cannot commit - no transaction is active''), c)
     else (Inr (), commit_tx c))"
  by (simp_all add: sql_begin_def sql_commit_def control_def is_autocommit_def)


lemmas slot_evals = try_then_acquire_def slot_try_acquire_def slot_acquire_def slot_release_def slot_new_def binding_new_def
  one_number_def py_transaction_def py_enter_def py_exit_def py_execute_def node_transaction_def node_execute_def node_commit_def
  add_one_def as_call_def commit_tx_def put_db_def is_autocommit_def fresh_conn_def

lemma py_add_run: "\<exists>s. run py_step (binding_new (one_number [])) ((None # py_add 0) @ py_add 0) s"
  unfolding py_add_def append.simps
  apply (rule exI)
  apply (rule run_cons, rule py_creates [of _ 0], simp add: binding_new_def)
  apply (rule run_cons, rule py_enters, simp, simp add: slot_evals)
  apply (rule run_cons, rule py_works, simp, simp add: slot_evals)
  apply (rule run_cons, rule py_leaves, simp, simp add: slot_evals)
  apply (rule run_cons, rule py_enters, simp, simp add: slot_evals)
  apply (rule run_cons, rule py_works, simp, simp add: slot_evals)
  apply (rule run_cons, rule py_leaves, simp, simp add: slot_evals)
  apply (rule run_nil)
  done


lemma node_add_run: "\<exists>s. run node_step (binding_new (one_number [])) (py_add 0 @ py_add 1) s"
  unfolding py_add_def append.simps
  apply (rule exI)
  apply (rule run_cons, rule node_begins, simp add: binding_new_def, simp add: slot_evals)
  apply (rule run_cons, rule node_works, simp, simp add: slot_evals)
  apply (rule run_cons, rule node_commits, simp, simp add: slot_evals)
  apply (rule run_cons, rule node_begins, simp add: binding_new_def, simp add: slot_evals)
  apply (rule run_cons, rule node_works, simp, simp add: slot_evals)
  apply (rule run_cons, rule node_commits, simp, simp add: slot_evals)
  apply (rule run_nil)
  done

theorem node_transactions_serial_witness:
  "\<exists>s ks a. run node_step (binding_new (one_number [])) (py_add 0 @ py_add 1) s
    \<and> run serial_step \<lparr>durable = 0, working = None\<rparr> ks a \<and> list_all2 explains (py_add 0 @ py_add 1) ks
    \<and> shows_up (b_slot s) (holding nx_conn s) a"
proof -
  obtain s where s: "run node_step (binding_new (one_number [])) (py_add 0 @ py_add 1) s" using node_add_run by blast
  have "list_all permitted (py_add 0 @ py_add 1)" by (simp add: py_add_def plain_add_one)
  from node_transactions_serial [OF _ _ s this] s show ?thesis by (auto simp: one_number_def)
qed

section \<open>Two failures\<close>

definition failing :: "nat \<Rightarrow> fault \<Rightarrow> env_step list" where
  "failing n f = replicate n \<lparr>tick = 0, fault = None\<rparr> @ [\<lparr>tick = 0, fault = Some f\<rparr>]"

definition full :: sqlerr where "full = SqliteFailure (OtherCode 13) ''database or disk is full''"

text \<open>
  When SQLite rolls the transaction back under a statement and the block goes on, its next statement commits on its own: it is durable
  although the block ends with an error.
\<close>

theorem swallowed_rollback_autocommits:
  "case py_enter py_transaction (slot_new (one_number (failing 1 (FaultRollback full)))) of
     Some (r0, x0, w0) \<Rightarrow> (case py_execute add_one x0 of (r1, x1) \<Rightarrow> (case py_execute add_one x1 of (r2, x2) \<Rightarrow>
       (case py_exit False x2 w0 of (r3, x3, w3) \<Rightarrow>
         r0 = Inr () \<and> r1 = Inl (SqlFailed full) \<and> r2 = Inr () \<and> (\<exists>e. r3 = Inl e) \<and> map_option disk (sl_conn w3) = Some 1)))
   | None \<Rightarrow> False"
  by (simp add: slot_evals failing_def full_def sql_begin_def sql_commit_def sql_rollback_def control_def next_env_def exec_def abort_tx_def)

text \<open>
  \<^verbatim>\<open>rollback\<close> of the Node binding reports success although the \<open>ROLLBACK\<close> failed; the connection goes back with the transaction open, and
  no transaction can begin on it.
\<close>

theorem node_rollback_hides_failure:
  "case node_transaction (slot_new (one_number (failing 1 (FaultErr full)))) of
     Some (Inr x, w) \<Rightarrow> (case node_rollback x w of (r, x', w') \<Rightarrow>
       r = Inr () \<and> map_option tx (sl_conn w') = Some Explicit
       \<and> (case node_transaction w' of Some (Inl e, w'') \<Rightarrow> map_option tx (sl_conn w'') = Some Explicit | _ \<Rightarrow> False))
   | _ \<Rightarrow> False"
  by (simp add: slot_evals node_rollback_def failing_def full_def sql_begin_def sql_commit_def sql_rollback_def control_def next_env_def)


end
