(* ===== verification/Prune_Thms.thy ===== *)
theory Prune_Thms
  imports Bindings_Thms
begin

text \<open>
  What \<^verbatim>\<open>pruneNotifications\<close> of the Node binding removes, from the k-th largest id of its subquery to the rows that are kept.
\<close>

section \<open>Pruning\<close>

text \<open>In a list that falls strictly, what comes before an element is what is greater.\<close>

lemma greater_in_falling:
  assumes "sorted_wrt (\<lambda>x y. x > (y :: int)) xs" "j < length xs"
  shows "filter (\<lambda>y. xs ! j < y) xs = take j xs"
proof -
  have "filter (\<lambda>y. xs ! j < y) (take j xs) = take j xs"
    using sorted_wrt_nth_less [OF assms(1)] assms(2) by (auto simp: filter_id_conv in_set_conv_nth)
  moreover have "\<not> xs ! j < y" if "y \<in> set (drop j xs)" for y
  proof -
    from that obtain k where k: "k < length xs" "j \<le> k" "y = xs ! k"
      by (auto simp: in_set_conv_nth) (metis add.commute le_add1 less_diff_conv nth_drop)
    then show ?thesis using sorted_wrt_nth_less [OF assms(1), of j k] by (cases "j = k") auto
  qed
  then have "filter (\<lambda>y. xs ! j < y) (drop j xs) = []" by (auto simp: filter_empty_conv)
  ultimately show ?thesis by (metis append_Nil2 append_take_drop_id filter_append)
qed

lemma kth_largest:
  fixes ids :: "int list"
  assumes "distinct ids" "x \<in> set ids"
  shows "(k < length ids \<and> x \<le> rev (sort ids) ! k) \<longleftrightarrow> k \<le> length (filter (\<lambda>y. x < y) ids)"
proof -
  let ?xs = "rev (sort ids)"
  have "sorted_wrt (<) (sort ids)" using assms(1) by (simp add: strict_sorted_iff)
  then have fall: "sorted_wrt (\<lambda>x y. x > y) ?xs" by (simp add: sorted_wrt_rev)
  obtain j where j: "j < length ids" "?xs ! j = x"
    using assms(2) by (metis in_set_conv_nth length_rev length_sort set_rev set_sort)
  have "mset (filter (\<lambda>y. x < y) ids) = mset (filter (\<lambda>y. x < y) ?xs)" by simp
  then have len: "length (filter (\<lambda>y. x < y) ids) = j"
    using greater_in_falling [OF fall, of j] j by (metis length_rev length_sort length_take min.absorb2 nat_less_le size_mset)
  have "x \<le> ?xs ! k \<longleftrightarrow> k \<le> j" if "k < length ids"
    using sorted_wrt_nth_less [OF fall, of k j] sorted_wrt_nth_less [OF fall, of j k] j that
    by (cases k j rule: linorder_cases) auto
  with len j(1) show ?thesis by auto
qed

text \<open>A row is kept when it is young enough and fewer than \<open>max_keep\<close> rows are newer.\<close>

definition worth_keeping :: "int option \<Rightarrow> int option \<Rightarrow> int \<Rightarrow> notification_row list \<Rightarrow> notification_row \<Rightarrow> bool" where
  "worth_keeping older_than_s max_keep t ns r \<longleftrightarrow>
     (\<forall>secs. older_than_s = Some secs \<longrightarrow> t - secs \<le> n_created_at r)
     \<and> (\<forall>k. max_keep = Some k \<longrightarrow> int (length (filter (\<lambda>q. n_id r < n_id q) ns)) < k)"

lemma prune_condition_iff:
  assumes "distinct (map n_id ns)" "r \<in> set ns" "\<And>k. max_keep = Some k \<Longrightarrow> 0 \<le> k"
  shows "\<not> prune_condition older_than_s max_keep t ns r \<longleftrightarrow> worth_keeping older_than_s max_keep t ns r"
proof -
  have k: "(nat k < length (map n_id ns) \<and> n_id r \<le> rev (sort (map n_id ns)) ! nat k) \<longleftrightarrow> nat k \<le> length (filter (\<lambda>q. n_id r < n_id q) ns)" for k
    using kth_largest [OF assms(1), of "n_id r" "nat k"] assms(2) by (simp add: filter_map comp_def)
  show ?thesis
    using assms(3) k by (cases older_than_s; cases max_keep) (auto simp: prune_condition_def worth_keeping_def Let_def not_less not_le)
qed

lemma prune_tx_effect:
  assumes "prune_tx older_than_s max_keep c = (r, c')" "sound c" "tx c = NoTx"
  shows "case r of
      Inl e \<Rightarrow> sound c' \<and> disk c' = disk c
    | Inr n \<Rightarrow> sound c' \<and> tx c' = NoTx \<and> (\<exists>t. let gone = prune_condition older_than_s max_keep t (notifications (disk c)) in
        disk c' = (disk c)\<lparr>notifications := filter (Not \<circ> gone) (notifications (disk c))\<rparr> \<and> n = length (filter gone (notifications (disk c))))"
proof -
  obtain r1 c1 where b: "sql_begin c = (r1, c1)" by fastforce
  from b assms(2) show ?thesis
  proof (cases rule: begin_result)
    case (failed e)
    with assms(1) b show ?thesis by (auto simp: prune_tx_def stalled_def)
  next
    case begun
    then have c1: "tx c1 \<noteq> NoTx" "db c1 = disk c" "disk c1 = disk c" by (auto simp: at_work_def split: if_splits)
    obtain r2 c2 where d: "delete_notifications older_than_s max_keep c1 = (r2, c2)" by fastforce
    have s2: "sound c2" "disk c2 = disk c"
      using tameD [OF tame_exec c1(1) d [unfolded delete_notifications_def]] begun(3) c1
        exec_conn_ok [of c1] d [unfolded delete_notifications_def]
      by (auto simp: sound_def same_tx_def rolled_back_def conn_ok_def)
    show ?thesis
    proof (cases r2)
      case (Ok n)
      have t: "db c2 = (disk c)\<lparr>notifications := filter (Not \<circ> prune_condition older_than_s max_keep (clock c2) (notifications (disk c))) (notifications (disk c))\<rparr>"
        "n = length (filter (prune_condition older_than_s max_keep (clock c2) (notifications (disk c))) (notifications (disk c)))"
        using exec_OkD [OF d [unfolded Ok delete_notifications_def]] by (simp_all add: c1)
      obtain r3 c3 where cm: "sql_commit c2 = (r3, c3)" by fastforce
      from cm s2(1) show ?thesis
      proof (cases rule: commit_result)
        case (failed e)
        with assms(1) b begun(1) d Ok cm s2 show ?thesis by (auto simp: prune_tx_def as_call_def stalled_def)
      next
        case (committed x)
        then have "x = db c2" "tx c3 = NoTx" by (auto simp: at_work_def split: if_splits)
        with committed assms(1) b begun(1) d Ok cm t show ?thesis by (auto simp: prune_tx_def as_call_def Let_def)
      qed
    qed (use assms(1) b begun(1) d s2 in \<open>auto simp: prune_tx_def as_call_def\<close>)
  qed
qed



text \<open>Five notifications, of which the first is too old and the newest two are to be kept.\<close>

definition crowded :: "honker_db cslot" where
  "crowded = slot_new (fresh_conn (empty_db\<lparr>notifications := map (\<lambda>i. \<lparr>n_id = i, n_channel = ''c'', n_payload = ''p'', n_created_at = 90 + i\<rparr>) [1, 2, 3, 4, 5]\<rparr>) 100 [])"


end
