(* ===== verification/Extension.thy ===== *)
theory Extension
  imports Watcher
begin

text \<open>
  The loadable extension \<^verbatim>\<open>honker-extension\<close>: its entry point, the registry of watchers that SQL code opens by number, and the
  C interface to the same watchers. The registry is one map of the process under a mutex; a waiting call takes its watcher
  out of the map for as long as it waits. Messages that leave through C go into a buffer of the caller.
\<close>

section \<open>The entry point\<close>

text \<open>What a step of the initialisation does: it succeeds, returns an error or panics, with a message.\<close>

datatype init_step = Fine | Fails string | PanicsWith string

definition SQLITE_ERROR :: int where "SQLITE_ERROR = 1"
definition SQLITE_OK_LOAD_PERMANENTLY :: int where "SQLITE_OK_LOAD_PERMANENTLY = 256"

definition panic_error :: "string \<Rightarrow> string" where
  "panic_error msg = ''honker extension initialization panicked: '' @ msg"

text \<open>\<^verbatim>\<open>attach_notify\<close>, \<^verbatim>\<open>attach_honker_functions\<close> and \<^verbatim>\<open>attach_watcher_sql_functions\<close> in this order; a panic becomes an error.\<close>

fun extension_init :: "init_step list \<Rightarrow> string + bool" where
  "extension_init [] = Inr True"
| "extension_init (Fine # steps) = extension_init steps"
| "extension_init (Fails e # steps) = Inl e"
| "extension_init (PanicsWith msg # steps) = Inl (panic_error msg)"

text \<open>The code SQLite gets and the message, from the API table (absent or not), \<^verbatim>\<open>rusqlite\<close>'s own set-up and the steps.\<close>

definition extension_init2 :: "bool \<Rightarrow> init_step \<Rightarrow> init_step list \<Rightarrow> int \<times> string option" where
  "extension_init2 has_api rusqlite_init steps =
     (if \<not> has_api then (SQLITE_ERROR, None)
      else case (case rusqlite_init of Fine \<Rightarrow> extension_init steps | Fails e \<Rightarrow> Inl e | PanicsWith msg \<Rightarrow> Inl (panic_error msg)) of
        Inr _ \<Rightarrow> (SQLITE_OK_LOAD_PERMANENTLY, None)
      | Inl e \<Rightarrow> (SQLITE_ERROR, Some e))"

section \<open>Messages in the caller's memory\<close>

text \<open>\<^verbatim>\<open>buf\<close> is null or the bytes from its address on.\<close>

definition write_error :: "int list option \<Rightarrow> nat \<Rightarrow> int list \<Rightarrow> int list option" where
  "write_error buf len message = (case buf of
       None \<Rightarrow> None
     | Some b \<Rightarrow>
         if len = 0 then Some b
         else (let copy_len = min (length message) (len - 1) in Some (take copy_len message @ 0 # drop (Suc copy_len) b)))"

text \<open>\<open>malloc\<close> gives a block of the size asked for or nothing; the size has to fit a C \<open>int\<close>.\<close>

definition set_error_msg :: "bool \<Rightarrow> (int \<Rightarrow> int list option) option \<Rightarrow> int list \<Rightarrow> int list option" where
  "set_error_msg has_pointers malloc message =
     (if \<not> has_pointers then None
      else case malloc of
        None \<Rightarrow> None
      | Some m \<Rightarrow>
          (let len = int (length message) + 1 in
           if len > 2 ^ 31 - 1 then None
           else case m len of None \<Rightarrow> None | Some b \<Rightarrow> Some (message @ 0 # drop (Suc (length message)) b)))"

section \<open>Opening a watcher\<close>

datatype ext_err = BackendError backend_err | ProbeError string | ZeroInterval | NullPath | BadUtf8

record ext_handle =
  eh_config :: watcher_config
  eh_shared :: shared
  eh_sub_id :: "64 word"
  eh_rx :: nat

definition open_watcher_handle ::
  "features \<Rightarrow> (watcher_backend \<Rightarrow> string \<Rightarrow> string + unit) \<Rightarrow> string \<Rightarrow> string option \<Rightarrow> int option \<Rightarrow> ext_err + ext_handle" where
  "open_watcher_handle fs probe db_path backend poll_ms =
     (case parse_backend fs (case backend of Some [] \<Rightarrow> None | b \<Rightarrow> b) of
        Inl e \<Rightarrow> Inl (BackendError e)
      | Inr b \<Rightarrow> (case probe b db_path of
           Inl e \<Rightarrow> Inl (ProbeError e)
         | Inr _ \<Rightarrow> (case (case poll_ms of None \<Rightarrow> Some (with_backend b) | Some ms \<Rightarrow> with_poll_interval ms (with_backend b)) of
              None \<Rightarrow> Inl ZeroInterval
            | Some config \<Rightarrow> (case subscribe new_shared of ((sub_id, rx), sh) \<Rightarrow>
                Inr \<lparr>eh_config = config, eh_shared = sh, eh_sub_id = sub_id, eh_rx = rx\<rparr>))))"

definition close_handle :: "ext_handle \<Rightarrow> ext_handle" where
  "close_handle h = h\<lparr>eh_shared := close_take (close_clear (unsubscribe (eh_sub_id h) (eh_shared h)))\<rparr>"

section \<open>The C interface\<close>

text \<open>A C string: null, or bytes that are UTF-8 or not.\<close>

definition cstr_to_string :: "(int list \<Rightarrow> string option) \<Rightarrow> int list option \<Rightarrow> ext_err + string option" where
  "cstr_to_string utf8 ptr = (case ptr of
       None \<Rightarrow> Inr None
     | Some bs \<Rightarrow> (case utf8 bs of None \<Rightarrow> Inl BadUtf8 | Some s \<Rightarrow> Inr (if s = [] then None else Some s)))"

definition honker_watcher_open_v2 ::
  "(int list \<Rightarrow> string option) \<Rightarrow> features \<Rightarrow> (watcher_backend \<Rightarrow> string \<Rightarrow> string + unit) \<Rightarrow> int list option \<Rightarrow> int list option \<Rightarrow> int option \<Rightarrow> ext_err + ext_handle" where
  "honker_watcher_open_v2 utf8 fs probe db_path backend poll_ms = (case db_path of
       None \<Rightarrow> Inl NullPath
     | Some p \<Rightarrow> (case utf8 p of
          None \<Rightarrow> Inl BadUtf8
        | Some path \<Rightarrow> (case cstr_to_string utf8 backend of
             Inl e \<Rightarrow> Inl e
           | Inr b \<Rightarrow> open_watcher_handle fs probe path b poll_ms)))"

definition honker_watcher_open ::
  "(int list \<Rightarrow> string option) \<Rightarrow> features \<Rightarrow> (watcher_backend \<Rightarrow> string \<Rightarrow> string + unit) \<Rightarrow> int list option \<Rightarrow> int list option \<Rightarrow> ext_err + ext_handle" where
  "honker_watcher_open utf8 fs probe db_path backend = honker_watcher_open_v2 utf8 fs probe db_path backend None"

text \<open>What a receive with a timeout comes back with: a receive that would block has run into its timeout.\<close>

definition wait_code :: "recv_res \<Rightarrow> int" where
  "wait_code r = (case r of Tick \<Rightarrow> 1 | Blocks \<Rightarrow> 0 | Disconnected \<Rightarrow> -1)"

definition honker_watcher_wait :: "ext_handle option \<Rightarrow> int \<times> ext_handle option" where
  "honker_watcher_wait ptr = (case ptr of
       None \<Rightarrow> (-1, None)
     | Some h \<Rightarrow> (case recv (eh_rx h) (eh_shared h) of (r, sh) \<Rightarrow> (wait_code r, Some (h\<lparr>eh_shared := sh\<rparr>))))"

definition honker_watcher_close :: "ext_handle option \<Rightarrow> ext_handle option" where
  "honker_watcher_close ptr = map_option close_handle ptr"

section \<open>The registry\<close>

text \<open>
  The map, the next number, the calls that wait with the watcher they took out, by thread, how many watchers were opened so far and
  what has been closed.
\<close>

record ext =
  sql_watchers :: "64 word \<rightharpoonup> ext_handle"
  next_sql_watcher_id :: "64 word"
  in_wait :: "nat \<rightharpoonup> 64 word \<times> ext_handle"
  opened :: nat
  closed_handles :: "ext_handle list"

definition ext_new :: ext where
  "ext_new = \<lparr>sql_watchers = Map.empty, next_sql_watcher_id = 1, in_wait = Map.empty, opened = 0, closed_handles = []\<rparr>"

text \<open>The SQL functions take a negative interval as zero, which is refused.\<close>

definition sql_watcher_handle ::
  "features \<Rightarrow> (watcher_backend \<Rightarrow> string \<Rightarrow> string + unit) \<Rightarrow> string \<Rightarrow> string option \<Rightarrow> int option \<Rightarrow> ext_err + ext_handle" where
  "sql_watcher_handle fs probe db_path backend poll_ms = open_watcher_handle fs probe db_path backend (map_option (max 0) poll_ms)"

text \<open>The number goes out as a signed integer and comes back as one.\<close>

definition update_watcher_open :: "ext_handle \<Rightarrow> ext \<Rightarrow> int \<times> ext" where
  "update_watcher_open h s = (let i = next_sql_watcher_id s in
     (sint i, s\<lparr>next_sql_watcher_id := i + 1, sql_watchers := (sql_watchers s)(i \<mapsto> h), opened := Suc (opened s)\<rparr>))"

text \<open>The start of a wait; a result means that the call returns at once.\<close>

definition update_watcher_take :: "nat \<Rightarrow> int \<Rightarrow> ext \<Rightarrow> int option \<times> ext" where
  "update_watcher_take t wid s = (case sql_watchers s (word_of_int wid) of
       None \<Rightarrow> (Some (-1), s)
     | Some h \<Rightarrow> (None, s\<lparr>sql_watchers := (sql_watchers s)(word_of_int wid := None), in_wait := (in_wait s)(t \<mapsto> (word_of_int wid, h))\<rparr>))"

definition update_watcher_wait :: "nat \<Rightarrow> 64 word \<Rightarrow> ext_handle \<Rightarrow> ext \<Rightarrow> int \<times> ext" where
  "update_watcher_wait t i h s = (case recv (eh_rx h) (eh_shared h) of (r, sh) \<Rightarrow>
     (let h' = h\<lparr>eh_shared := sh\<rparr>; s' = s\<lparr>in_wait := (in_wait s)(t := None)\<rparr>; code = wait_code r in
      (code, if code \<noteq> -1 then s'\<lparr>sql_watchers := (sql_watchers s)(i \<mapsto> h')\<rparr>
             else s'\<lparr>closed_handles := close_handle h' # closed_handles s\<rparr>)))"

definition update_watcher_close :: "int \<Rightarrow> ext \<Rightarrow> int \<times> ext" where
  "update_watcher_close wid s = (1, case sql_watchers s (word_of_int wid) of
       None \<Rightarrow> s
     | Some h \<Rightarrow> s\<lparr>sql_watchers := (sql_watchers s)(word_of_int wid := None), closed_handles := close_handle h # closed_handles s\<rparr>)"

text \<open>The calls of all threads and the watcher threads of the open watchers, in any order.\<close>

datatype ext_event = Opens int | WaitMisses int | WaitTakes nat int | WaitReturns nat int | Closes int | Watches

inductive ext_step :: "ext \<Rightarrow> ext_event \<Rightarrow> ext \<Rightarrow> bool" where
  ext_opens: "sql_watcher_handle fs probe p b ms = Inr h \<Longrightarrow> update_watcher_open h s = (n, s') \<Longrightarrow> ext_step s (Opens n) s'"
| ext_misses: "update_watcher_take t wid s = (Some r, s') \<Longrightarrow> ext_step s (WaitMisses wid) s'"
| ext_takes: "in_wait s t = None \<Longrightarrow> update_watcher_take t wid s = (None, s') \<Longrightarrow> ext_step s (WaitTakes t wid) s'"
| ext_returns: "in_wait s t = Some (i, h) \<Longrightarrow> update_watcher_wait t i h s = (n, s') \<Longrightarrow> ext_step s (WaitReturns t n) s'"
| ext_closes: "update_watcher_close wid s = (n, s') \<Longrightarrow> ext_step s (Closes wid) s'"
| ext_watches: "sql_watchers s i = Some h \<Longrightarrow> shared_step (eh_shared h) e sh \<Longrightarrow>
    ext_step s Watches (s\<lparr>sql_watchers := (sql_watchers s)(i \<mapsto> h\<lparr>eh_shared := sh\<rparr>)\<rparr>)"
| ext_watches_waiting: "in_wait s t = Some (i, h) \<Longrightarrow> shared_step (eh_shared h) e sh \<Longrightarrow>
    ext_step s Watches (s\<lparr>in_wait := (in_wait s)(t \<mapsto> (i, h\<lparr>eh_shared := sh\<rparr>))\<rparr>)"

end
