(* ===== verification/Extension_Thms.thy ===== *)
theory Extension_Thms
  imports Extension
begin

text \<open>
  The registry of the extension over every interleaving of its calls: a watcher is in the map, with a waiting call or closed; a number
  means one watcher and is never given out twice; what is closed stays closed. And the bounds of the messages.
\<close>

section \<open>The registry keeps its watchers apart\<close>

lemmas ext_defs = update_watcher_open_def update_watcher_take_def update_watcher_wait_def update_watcher_close_def Let_def

text \<open>As long as the numbers have not wrapped around, those in use were given out and belong to one watcher each.\<close>

definition given_out :: "64 word \<Rightarrow> ext \<Rightarrow> bool" where
  "given_out i s \<longleftrightarrow> 0 < unat i \<and> unat i \<le> opened s"

definition apart :: "ext \<Rightarrow> bool" where
  "apart s \<longleftrightarrow> unat (next_sql_watcher_id s) = Suc (opened s)
     \<and> (\<forall>i h. sql_watchers s i = Some h \<longrightarrow> given_out i s)
     \<and> (\<forall>t i h. in_wait s t = Some (i, h) \<longrightarrow> given_out i s \<and> sql_watchers s i = None)
     \<and> (\<forall>t u i h k. in_wait s t = Some (i, h) \<longrightarrow> in_wait s u = Some (i, k) \<longrightarrow> t = u)"

lemma apartI:
  assumes "unat (next_sql_watcher_id s) = Suc (opened s)" "\<And>i h. sql_watchers s i = Some h \<Longrightarrow> given_out i s"
    "\<And>t i h. in_wait s t = Some (i, h) \<Longrightarrow> given_out i s \<and> sql_watchers s i = None"
    "\<And>t u i h k. in_wait s t = Some (i, h) \<Longrightarrow> in_wait s u = Some (i, k) \<Longrightarrow> t = u"
  shows "apart s"
  using assms unfolding apart_def by blast

lemma apartD:
  assumes "apart s"
  shows "unat (next_sql_watcher_id s) = Suc (opened s)" "sql_watchers s i = Some h \<Longrightarrow> given_out i s"
    "in_wait s t = Some (i, h) \<Longrightarrow> given_out i s" "in_wait s t = Some (i, h) \<Longrightarrow> sql_watchers s i = None"
    "in_wait s t = Some (i, h) \<Longrightarrow> in_wait s u = Some (i, k) \<Longrightarrow> t = u"
  using assms unfolding apart_def by blast+

definition unwrapped :: "ext \<Rightarrow> bool" where
  "unwrapped s \<longleftrightarrow> Suc (opened s) < 2 ^ 64"

lemma next_number:
  assumes "unat (next_sql_watcher_id s) = Suc (opened s)" "Suc (Suc (opened s)) < 2 ^ 64"
  shows "unat (next_sql_watcher_id s + 1) = Suc (Suc (opened s))"
  using assms by (subst unat_word_ariths) simp

lemma ext_step_opened: "ext_step s e s' \<Longrightarrow> opened s' = (case e of Opens _ \<Rightarrow> Suc (opened s) | _ \<Rightarrow> opened s)"
  by (induction rule: ext_step.induct) (auto simp: ext_defs split: option.splits prod.splits)

lemma apart_open:
  assumes "apart s" "update_watcher_open h s = (n, s')" "unwrapped s'"
  shows "apart s'"
proof -
  let ?i = "next_sql_watcher_id s"
  have s': "s' = s\<lparr>next_sql_watcher_id := ?i + 1, sql_watchers := (sql_watchers s)(?i \<mapsto> h), opened := Suc (opened s)\<rparr>"
    using assms(2) by (simp add: ext_defs)
  have fresh: "\<not> given_out ?i s" and now: "given_out ?i s'" and old: "given_out i s \<Longrightarrow> given_out i s'" for i
    using assms(1) by (auto simp: apart_def given_out_def s')
  have "unat (?i + 1) = Suc (Suc (opened s))"
    using next_number [of s] assms(1,3) by (simp add: apart_def unwrapped_def s')
  moreover have "i \<noteq> ?i" if "in_wait s t = Some (i, k)" for t i k
    using apartD(3) [OF assms(1) that] fresh by blast
  ultimately show ?thesis
    using now old apartD [OF assms(1)] by (intro apartI) (auto simp: s' split: if_splits)
qed

lemma apart_take:
  assumes "apart s" "in_wait s t = None" "update_watcher_take t wid s = (None, s')"
  shows "apart s'"
proof -
  obtain h where h: "sql_watchers s (word_of_int wid) = Some h"
    and s': "s' = s\<lparr>sql_watchers := (sql_watchers s)(word_of_int wid := None), in_wait := (in_wait s)(t \<mapsto> (word_of_int wid, h))\<rparr>"
    using assms(3) by (auto simp: ext_defs split: option.splits)
  note d = apartD [OF assms(1)]
  show ?thesis
  proof (rule apartI)
    show "u = v" if "in_wait s' u = Some (i, k)" "in_wait s' v = Some (i, l)" for u v i k l
      using that h d(4) [of u i k] d(4) [of v i l] d(5) [of u i k v l] by (auto simp: s' split: if_splits)
  qed (use d h in \<open>auto simp: s' given_out_def split: if_splits\<close>)
qed

lemma apart_return:
  assumes "apart s" "in_wait s t = Some (i, h)" "update_watcher_wait t i h s = (n, s')"
  shows "apart s'"
proof -
  note d = apartD [OF assms(1)]
  have other: "j \<noteq> i" if "in_wait s u = Some (j, k)" "u \<noteq> t" for u j k
    using d(5) [OF assms(2), of u k] that by auto
  obtain r sh where rc: "recv (eh_rx h) (eh_shared h) = (r, sh)" by fastforce
  have w: "in_wait s' = (in_wait s)(t := None)" "next_sql_watcher_id s' = next_sql_watcher_id s" "opened s' = opened s"
    and m: "sql_watchers s' = sql_watchers s \<or> (\<exists>k. sql_watchers s' = (sql_watchers s)(i \<mapsto> k))"
    using assms(3) rc by (auto simp: ext_defs split: if_splits)
  show ?thesis
  proof (rule apartI)
    show "given_out j s'" if "sql_watchers s' j = Some k" for j k
      using m that d(2) [of j] d(3) [OF assms(2)] w(3) by (auto simp: given_out_def split: if_splits)
    show "given_out j s' \<and> sql_watchers s' j = None" if "in_wait s' u = Some (j, k)" for u j k
      using m that d(3,4) [of u j k] other [of u j k] w by (auto simp: given_out_def split: if_splits)
  qed (use d w in \<open>auto split: if_splits\<close>)
qed

lemma apart_same:
  assumes "apart s" "next_sql_watcher_id s' = next_sql_watcher_id s" "opened s' = opened s" "dom (sql_watchers s') \<subseteq> dom (sql_watchers s)"
    "\<And>t. map_option fst (in_wait s' t) = map_option fst (in_wait s t)"
  shows "apart s'"
proof -
  note d = apartD [OF assms(1)]
  have w: "\<exists>k'. in_wait s t = Some (i, k')" if "in_wait s' t = Some (i, k)" for t i k
    using assms(5) [of t] that by (cases "in_wait s t") auto
  have m: "sql_watchers s' i = None" if "sql_watchers s i = None" for i
    using assms(4) that by blast
  show ?thesis
  proof (rule apartI)
    show "given_out i s'" if "sql_watchers s' i = Some k" for i k
      using d(2) that assms(3,4) by (auto simp: given_out_def dom_def)
    show "given_out i s' \<and> sql_watchers s' i = None" if "in_wait s' t = Some (i, k)" for t i k
      using w [OF that] d(3,4) m assms(3) by (auto simp: given_out_def)
    show "t = u" if "in_wait s' t = Some (i, k)" "in_wait s' u = Some (i, l)" for t u i k l
      using w [OF that(1)] w [OF that(2)] d(5) by blast
  qed (use d assms(2,3) in simp)
qed

lemma apart_step:
  assumes "ext_step s e s'" "unwrapped s'" "apart s"
  shows "apart s'"
  using assms(1)
proof cases
  case ext_opens
  with apart_open assms show ?thesis by blast
next
  case ext_takes
  with apart_take assms(3) show ?thesis by blast
next
  case ext_returns
  with apart_return assms(3) show ?thesis by blast
next
  case ext_misses
  with assms(3) show ?thesis by (auto simp: ext_defs split: option.splits)
qed (rule apart_same [OF assms(3)]; auto simp: ext_defs split: option.splits if_splits)+

text \<open>The count of opened watchers only grows, so a bound at the end is one throughout.\<close>

lemma unwrapped_before: "ext_step s e s' \<Longrightarrow> unwrapped s' \<Longrightarrow> unwrapped s"
  by (auto dest!: ext_step_opened simp: unwrapped_def split: ext_event.splits)

interpretation registry: kept_by_steps ext_step "\<lambda>_. True" "\<lambda>s. unwrapped s \<longrightarrow> apart s"
  by unfold_locales (auto intro: apart_step unwrapped_before)

definition retired :: "64 word \<Rightarrow> ext \<Rightarrow> bool" where
  "retired i s \<longleftrightarrow> apart s \<and> given_out i s \<and> sql_watchers s i = None \<and> (\<forall>t h. in_wait s t \<noteq> Some (i, h))"

lemma retired_step:
  assumes "ext_step s e s'" "unwrapped s'" "retired i s"
  shows "retired i s'"
proof -
  have a: "apart s'" using assms apart_step by (auto simp: retired_def)
  have g: "given_out i s'" using assms ext_step_opened [OF assms(1)] by (auto simp: retired_def given_out_def split: ext_event.splits)
  have n: "i \<noteq> next_sql_watcher_id s" using assms(3) by (auto simp: retired_def apart_def given_out_def)
  from assms(1) have "sql_watchers s' i = None \<and> (\<forall>t h. in_wait s' t \<noteq> Some (i, h))"
    using assms(3) n by cases (auto simp: retired_def ext_defs split: option.splits prod.splits if_splits)
  with a g show ?thesis by (simp add: retired_def)
qed

interpretation retirement: kept_by_steps ext_step "\<lambda>_. True" "\<lambda>s. unwrapped s \<longrightarrow> retired i s" for i
  by unfold_locales (auto intro: retired_step unwrapped_before)

text \<open>
  C24. A watcher that is closed while no call waits on it stays closed: over every further interleaving of calls, while fewer than \<open>2\<^sup>6\<^sup>4 - 1\<close>
  watchers were opened, a wait on its number returns \<open>-1\<close> at once, and the number is not given out again.
\<close>

theorem closed_watcher_stays_closed:
  assumes "run ext_step ext_new ls s" "sql_watchers s (word_of_int wid) = Some h"
    and "update_watcher_close wid s = (n, s1)" "run ext_step s1 ks s2" "Suc (opened s2) < 2 ^ 64"
  shows "update_watcher_take t wid s2 = (Some (-1), s2) \<and> next_sql_watcher_id s2 \<noteq> word_of_int wid
    \<and> close_handle h \<in> set (closed_handles s1)"
proof -
  have "run ext_step s1 ks s2 \<Longrightarrow> unwrapped s2 \<Longrightarrow> unwrapped s1" for s1 ks s2
    by (induction rule: run.induct) (auto dest: unwrapped_before)
  then have u: "unwrapped s1" "unwrapped s2" using assms(4,5) by (auto simp: unwrapped_def)
  have o: "opened s1 = opened s" using assms(2,3) by (auto simp: ext_defs)
  then have "apart s"
    using registry.run_keeps [OF assms(1)] u(1) by (auto simp: list_all_iff unwrapped_def ext_new_def apart_def)
  then have "retired (word_of_int wid) s1"
    using apart_step [OF ext_closes [OF assms(3)] u(1)] apartD [of s] assms(2,3)
    by (fastforce simp: retired_def ext_defs given_out_def)
  then have r: "retired (word_of_int wid) s2"
    using retirement.run_keeps [OF assms(4), of "word_of_int wid"] u by (simp add: list_all_iff)
  then have "next_sql_watcher_id s2 \<noteq> word_of_int wid"
    by (auto simp: retired_def apart_def given_out_def)
  with r assms(2,3) show ?thesis by (auto simp: retired_def ext_defs)
qed


text \<open>A watcher is opened and closed, and another one is opened.\<close>

definition plain_handle :: ext_handle where
  "plain_handle = (case subscribe new_shared of ((i, c), sh) \<Rightarrow> \<lparr>eh_config = default_config, eh_shared = sh, eh_sub_id = i, eh_rx = c\<rparr>)"

lemma plain_handle_opens: "sql_watcher_handle \<lparr>kernel_watcher = False, shm_fast_path = False\<rparr> (\<lambda>_ _. Inr ()) ''app.db'' None None = Inr plain_handle"
  by (simp add: sql_watcher_handle_def open_watcher_handle_def parse_backend_def with_backend_def default_config_def plain_handle_def split: prod.split)

definition one_open :: ext where
  "one_open = snd (update_watcher_open plain_handle ext_new)"

lemma one_open_run: "run ext_step ext_new [Opens 1] one_open"
proof -
  have "update_watcher_open plain_handle ext_new = (1, one_open)"
    by (simp add: one_open_def update_watcher_open_def ext_new_def)
  from ext_opens [OF plain_handle_opens this] show ?thesis by simp
qed

lemma open_again:
  "next_sql_watcher_id s = 2 \<Longrightarrow> ext_step s (Opens 2) (snd (update_watcher_open plain_handle s))"
  by (rule ext_opens [OF plain_handle_opens]) (simp add: update_watcher_open_def)

theorem closed_watcher_stays_closed_witness:
  "\<exists>s1 s2. update_watcher_close 1 one_open = (1, s1) \<and> run ext_step s1 [Opens 2] s2
    \<and> update_watcher_take 0 1 s2 = (Some (-1), s2) \<and> next_sql_watcher_id s2 \<noteq> word_of_int 1 \<and> close_handle plain_handle \<in> set (closed_handles s1)"
proof -
  let ?s1 = "snd (update_watcher_close 1 one_open)"
  let ?s2 = "snd (update_watcher_open plain_handle ?s1)"
  have o: "sql_watchers one_open (word_of_int 1) = Some plain_handle" "next_sql_watcher_id one_open = 2" "opened one_open = 1"
    by (simp_all add: one_open_def update_watcher_open_def ext_new_def Let_def)
  have c: "update_watcher_close 1 one_open = (1, ?s1)" by (simp add: update_watcher_close_def)
  have "next_sql_watcher_id ?s1 = 2" "opened ?s1 = 1" using o by (simp_all add: update_watcher_close_def split: option.split)
  then have r: "run ext_step ?s1 [Opens 2] ?s2" "Suc (opened ?s2) < 2 ^ 64"
    using open_again [of ?s1] by (simp, simp add: update_watcher_open_def Let_def)
  from closed_watcher_stays_closed [OF one_open_run o(1) c r] c r(1) show ?thesis by blast
qed

text \<open>
  A close that comes while a call waits finds nothing in the map: it reports success and closes nothing, and the call that waits puts
  the watcher back with its thread running. A second wait at that moment reports that the watcher has died.
\<close>

theorem close_during_wait_is_lost:
  "case update_watcher_take 0 1 one_open of (r0, s0) \<Rightarrow> (case update_watcher_close 1 s0 of (r1, s1) \<Rightarrow>
     (case update_watcher_take 1 1 s1 of (r2, s2) \<Rightarrow> (case update_watcher_wait 0 1 plain_handle s2 of (r3, s3) \<Rightarrow>
       r0 = None \<and> in_wait s2 0 = Some (1, plain_handle) \<and> r1 = 1 \<and> closed_handles s1 = [] \<and> r2 = Some (-1)
       \<and> r3 = 0 \<and> sql_watchers s3 1 = Some plain_handle \<and> thread (eh_shared plain_handle) = Running \<and> \<not> stop (eh_shared plain_handle))))"
  by (simp add: ext_defs one_open_def ext_new_def plain_handle_def subscribe_def new_shared_def recv_def wait_code_def)

section \<open>Messages stay in their buffer\<close>

text \<open>
  A message for C stays inside the buffer it is given: whatever its length, nothing at or past the given length is written, and what is
  written ends in a zero byte within that length, after the message or the part of it that fits. A message for SQLite fills exactly the block asked for.
\<close>

theorem write_error_in_bounds:
  assumes "write_error (Some b) len message = Some b'" "len \<le> length b" "0 \<notin> set message"
  shows "length b' = length b \<and> drop len b' = drop len b
    \<and> (0 < len \<longrightarrow> takeWhile (\<lambda>x. x \<noteq> 0) b' = take (len - 1) message \<and> length (takeWhile (\<lambda>x. x \<noteq> 0) b') < len)
    \<and> (\<forall>block out. set_error_msg True (Some (\<lambda>_. Some block)) message = Some out \<longrightarrow> length block = length message + 1 \<longrightarrow> out = message @ [0])"
proof -
  let ?n = "min (length message) (len - 1)"
  have out: "out = message @ [0]" if "set_error_msg True (Some (\<lambda>_. Some block)) message = Some out" "length block = length message + 1" for block out
    using that by (auto simp: set_error_msg_def Let_def split: if_splits)
  show ?thesis
  proof (cases "len = 0")
    case True
    with assms(1) out show ?thesis by (auto simp: write_error_def)
  next
    case False
    then have b': "b' = take ?n message @ 0 # drop (Suc ?n) b" using assms(1) by (simp add: write_error_def Let_def)
    have "Suc ?n \<le> len" using False by linarith
    then have "length b' = length b" "drop len b' = drop len b"
      using assms(2) False by (auto simp: b' drop_Cons' add.commute)
    moreover have "\<forall>x\<in>set (take ?n message). x \<noteq> 0" using assms(3) by (auto dest: in_set_takeD)
    then have "takeWhile (\<lambda>x. x \<noteq> 0) b' = take ?n message" by (simp add: b' takeWhile_append2)
    moreover have "take ?n message = take (len - 1) message" by (simp add: min_def)
    ultimately show ?thesis using out False by auto
  qed
qed

theorem write_error_in_bounds_witness:
  "write_error (Some [9, 9, 9, 9, 9]) 4 [7, 7, 7, 7, 7, 7] = Some [7, 7, 7, 0, 9] \<and> drop 4 [7, 7, 7, 0, 9 :: int] = drop 4 [9, 9, 9, 9, 9]
    \<and> length (takeWhile (\<lambda>x. x \<noteq> 0) [7, 7, 7, 0, 9 :: int]) < 4"
proof -
  have w: "write_error (Some [9, 9, 9, 9, 9]) 4 [7, 7, 7, 7, 7, 7] = Some [7, 7, 7, 0, 9]" by (simp add: write_error_def)
  from write_error_in_bounds [OF w] w show ?thesis by simp
qed

end
