(* ===== verification/Marshal.thy ===== *)
theory Marshal
  imports Sql_Api
begin

text \<open>
  How values cross the Python and the Node binding: parameters into SQLite and rows out of it. The text codec and what
  \<^verbatim>\<open>serde_json\<close> prints for an array or object are parameters.
\<close>

section \<open>Integers as floating point numbers\<close>

text \<open>The nearest \<^verbatim>\<open>f64\<close> of an integer, ties to even; \<open>None\<close> when it is out of range.\<close>

fun nbits :: "nat \<Rightarrow> nat" where
  "nbits n = (if n = 0 then 0 else Suc (nbits (n div 2)))"

declare nbits.simps [simp del]

definition f64_of_int :: "int \<Rightarrow> f64 option" where
  "f64_of_int n = (let b = nbits (nat \<bar>n\<bar>) in
     if b \<le> 53 then Some (Finite n 0)
     else (let e = b - 53; q = \<bar>n\<bar> div 2 ^ e; r = \<bar>n\<bar> mod 2 ^ e;
               m = (if 2 * r > 2 ^ e \<or> 2 * r = 2 ^ e \<and> odd q then q + 1 else q) in
           if m * 2 ^ e \<ge> 2 ^ 1024 then None else Some (Finite (sgn n * m) (int e))))"

section \<open>Python\<close>

text \<open>An object of another type has a type name and, if it defines them, an integer (\<^verbatim>\<open>__index__\<close>) and a float (\<^verbatim>\<open>__float__\<close>).\<close>

datatype py_obj = PyNone | PyBool bool | PyBytes "int list" | PyInt int | PyFloat f64 | PyStr string
  | PyOther string "int option" "f64 option"

datatype py_err = UnsupportedType string | ParamsAreDict | ParamsAreText | NotIterable

text \<open>\<^verbatim>\<open>extract::<i64>\<close> and \<^verbatim>\<open>extract::<f64>\<close>\<close>

fun extract_i64 :: "py_obj \<Rightarrow> int option" where
  "extract_i64 (PyInt n) = (if in_i64 n then Some n else None)"
| "extract_i64 (PyOther _ (Some n) _) = (if in_i64 n then Some n else None)"
| "extract_i64 _ = None"

fun extract_f64 :: "py_obj \<Rightarrow> f64 option" where
  "extract_f64 (PyFloat f) = Some f"
| "extract_f64 (PyInt n) = f64_of_int n"
| "extract_f64 (PyOther _ _ (Some f)) = Some f"
| "extract_f64 (PyOther _ (Some n) None) = f64_of_int n"
| "extract_f64 _ = None"

fun type_name :: "py_obj \<Rightarrow> string" where
  "type_name (PyOther name _ _) = name"
| "type_name (PyInt _) = ''int''"
| "type_name _ = ''object''"

definition py_to_value :: "py_obj \<Rightarrow> py_err + sqlval" where
  "py_to_value item = (case item of
       PyNone \<Rightarrow> Inr VNull
     | PyBool b \<Rightarrow> Inr (VInt (if b then 1 else 0))
     | PyBytes bs \<Rightarrow> Inr (VBlob bs)
     | _ \<Rightarrow>
         (case extract_i64 item of
            Some i \<Rightarrow> Inr (VInt i)
          | None \<Rightarrow> (case extract_f64 item of
               Some f \<Rightarrow> Inr (VReal f)
             | None \<Rightarrow> (case item of PyStr s \<Rightarrow> Inr (VText s) | _ \<Rightarrow> Inl (UnsupportedType (type_name item))))))"

datatype py_params = NoParams | ParamDict | ParamText | ParamSeq "py_obj list" | ParamOther

fun py_values :: "py_obj list \<Rightarrow> py_err + sqlval list" where
  "py_values [] = Inr []"
| "py_values (x # xs) = (case py_to_value x of
     Inl e \<Rightarrow> Inl e
   | Inr v \<Rightarrow> (case py_values xs of Inl e \<Rightarrow> Inl e | Inr vs \<Rightarrow> Inr (v # vs)))"

definition build_params :: "py_params \<Rightarrow> py_err + sqlval list" where
  "build_params p = (case p of
       NoParams \<Rightarrow> Inr []
     | ParamDict \<Rightarrow> Inl ParamsAreDict
     | ParamText \<Rightarrow> Inl ParamsAreText
     | ParamSeq xs \<Rightarrow> py_values xs
     | ParamOther \<Rightarrow> Inl NotIterable)"

text \<open>A cell of a row; the text of a cell is bytes that need not be UTF-8.\<close>

datatype cell = CNull | CInt int | CReal f64 | CText "int list" | CBlob "int list"

definition utf8_or_empty :: "(int list \<Rightarrow> string option) \<Rightarrow> int list \<Rightarrow> string" where
  "utf8_or_empty utf8 t = (case utf8 t of None \<Rightarrow> '''' | Some s \<Rightarrow> s)"

definition py_of_cell :: "(int list \<Rightarrow> string option) \<Rightarrow> cell \<Rightarrow> py_obj" where
  "py_of_cell utf8 v = (case v of
       CNull \<Rightarrow> PyNone
     | CInt i \<Rightarrow> PyInt i
     | CReal f \<Rightarrow> PyFloat f
     | CText t \<Rightarrow> PyStr (utf8_or_empty utf8 t)
     | CBlob b \<Rightarrow> PyBytes b)"

text \<open>A row as a dictionary: a later column of the same name replaces an earlier one.\<close>

fun row_dict :: "('v \<Rightarrow> 'w) \<Rightarrow> (string \<rightharpoonup> 'w) \<Rightarrow> (string \<times> 'v) list \<Rightarrow> string \<rightharpoonup> 'w" where
  "row_dict f d [] = d"
| "row_dict f d ((name, v) # cols) = row_dict f (d(name \<mapsto> f v)) cols"

definition run_query_row :: "(int list \<Rightarrow> string option) \<Rightarrow> (string \<times> cell) list \<Rightarrow> string \<rightharpoonup> py_obj" where
  "run_query_row utf8 cols = row_dict (py_of_cell utf8) Map.empty cols"

section \<open>Node\<close>

text \<open>A \<^verbatim>\<open>serde_json::Value\<close>: its integers are those of \<^verbatim>\<open>i64\<close> and \<^verbatim>\<open>u64\<close>, its floats are finite.\<close>

datatype node_val = NNull | NBool bool | NInt int | NFloat f64 | NStr string | NArr "node_val list" | NObj "(string \<times> node_val) list"

text \<open>A \<^verbatim>\<open>u64\<close> always has an \<^verbatim>\<open>f64\<close>, so the last branch of the source, the text of the number, is never taken.\<close>

definition json_to_sql :: "(node_val \<Rightarrow> string) \<Rightarrow> node_val \<Rightarrow> sqlval" where
  "json_to_sql print v = (case v of
       NNull \<Rightarrow> VNull
     | NBool b \<Rightarrow> VInt (if b then 1 else 0)
     | NInt i \<Rightarrow> if in_i64 i then VInt i else (case f64_of_int i of Some f \<Rightarrow> VReal f | None \<Rightarrow> VText (print v))
     | NFloat f \<Rightarrow> VReal f
     | NStr s \<Rightarrow> VText s
     | NArr _ \<Rightarrow> VText (print v)
     | NObj _ \<Rightarrow> VText (print v))"

definition sql_params_from_json :: "(node_val \<Rightarrow> string) \<Rightarrow> node_val list option \<Rightarrow> sqlval list" where
  "sql_params_from_json print arr = map (json_to_sql print) (case arr of None \<Rightarrow> [] | Some vs \<Rightarrow> vs)"

text \<open>\<^verbatim>\<open>{:02x}\<close> of each byte.\<close>

definition hex_digit :: "int \<Rightarrow> char" where
  "hex_digit d = ''0123456789abcdef'' ! nat d"

definition hex_bytes :: "int list \<Rightarrow> string" where
  "hex_bytes b = concat (map (\<lambda>x. [hex_digit (x div 16), hex_digit (x mod 16)]) b)"

text \<open>A float that is not finite has no JSON number and becomes null.\<close>

definition node_of_cell :: "(int list \<Rightarrow> string option) \<Rightarrow> cell \<Rightarrow> node_val" where
  "node_of_cell utf8 v = (case v of
       CNull \<Rightarrow> NNull
     | CInt i \<Rightarrow> NInt i
     | CReal f \<Rightarrow> (case f of Finite m e \<Rightarrow> NFloat f | _ \<Rightarrow> NNull)
     | CText t \<Rightarrow> NStr (utf8_or_empty utf8 t)
     | CBlob b \<Rightarrow> NStr (hex_bytes b))"

definition row_to_json :: "(int list \<Rightarrow> string option) \<Rightarrow> (string \<times> cell) list \<Rightarrow> string \<rightharpoonup> node_val" where
  "row_to_json utf8 cols = row_dict (node_of_cell utf8) Map.empty cols"

end
