(* ===== verification/Marshal_Thms.thy ===== *)
theory Marshal_Thms
  imports Marshal
begin

text \<open>
  What comes back of a parameter: the same value, with the exceptions of the two type systems, which the round trips state.
\<close>

section \<open>Rounding\<close>

lemma nbits_bounds: "0 < n \<Longrightarrow> 2 ^ (nbits n - 1) \<le> n \<and> n < 2 ^ nbits n \<and> 0 < nbits n"
proof (induction n rule: nbits.induct)
  case (1 n)
  show ?case
  proof (cases "n div 2 = 0")
    case True
    then have "n = 1" using 1(2) by auto
    then show ?thesis by (simp add: nbits.simps)
  next
    case False
    with 1 have IH: "2 ^ (nbits (n div 2) - 1) \<le> n div 2 \<and> n div 2 < 2 ^ nbits (n div 2) \<and> 0 < nbits (n div 2)" by simp
    then obtain k where k: "nbits (n div 2) = Suc k" by (cases "nbits (n div 2)") auto
    have "nbits n = Suc (Suc k)" using 1(2) k by (subst nbits.simps) simp
    with IH k show ?thesis by auto
  qed
qed

text \<open>The error of the conversion is at most half of the last place it has, and there is none up to 53 bits.\<close>

lemma f64_of_int_near:
  assumes "f64_of_int n = Some f"
  obtains m e where "f = Finite m e" "0 \<le> e" "2 * \<bar>m * 2 ^ nat e - n\<bar> \<le> 2 ^ nat e" "e = 0 \<Longrightarrow> m = n"
proof (cases "nbits (nat \<bar>n\<bar>) \<le> 53")
  case True
  with assms show thesis by (intro that [of n 0]) (auto simp: f64_of_int_def)
next
  case False
  define e q r where "e = nbits (nat \<bar>n\<bar>) - 53" and "q = \<bar>n\<bar> div 2 ^ e" and "r = \<bar>n\<bar> mod 2 ^ e"
  define m where "m = (if 2 * r > 2 ^ e \<or> 2 * r = 2 ^ e \<and> odd q then q + 1 else q)"
  have f: "f = Finite (sgn n * m) (int e)"
    using assms False unfolding f64_of_int_def Let_def e_def [symmetric] q_def [symmetric] r_def [symmetric] m_def [symmetric]
    by (simp split: if_splits)
  have n: "\<bar>n\<bar> = q * 2 ^ e + r" "0 \<le> r" "r < 2 ^ e" by (simp_all add: q_def r_def div_mult_mod_eq)
  have "2 * \<bar>m * 2 ^ e - \<bar>n\<bar>\<bar> \<le> 2 ^ e"
    using n unfolding m_def by (auto simp: algebra_simps abs_if)
  moreover have "sgn n * m * 2 ^ e - n = sgn n * (m * 2 ^ e - \<bar>n\<bar>)"
    by (simp add: algebra_simps abs_mult_sgn)
  then have "\<bar>sgn n * m * 2 ^ e - n\<bar> \<le> \<bar>m * 2 ^ e - \<bar>n\<bar>\<bar>"
    by (simp add: abs_mult abs_sgn_eq)
  ultimately have "2 * \<bar>sgn n * m * 2 ^ nat (int e) - n\<bar> \<le> 2 ^ nat (int e)" by simp
  then show thesis by (rule that [OF f of_nat_0_le_iff]) (use False in \<open>simp add: e_def\<close>)
qed


lemma f64_of_u64:
  assumes "0 \<le> n" "n < 2 ^ 64"
  shows "f64_of_int n \<noteq> None"
proof (cases "nbits (nat n) \<le> 53")
  case True
  with assms show ?thesis by (simp add: f64_of_int_def)
next
  case False
  define e where "e = nbits (nat n) - 53"
  have n: "0 < nat n" using False by (cases "nat n = 0") (auto simp: nbits.simps)
  then have "2 ^ (nbits (nat n) - 1) < (2 :: nat) ^ 64"
    using nbits_bounds [OF n] assms by (metis le_less_trans nat_less_numeral_power_cancel_iff)
  then have "nbits (nat n) - 1 < 64" by (rule power_less_imp_less_exp [rotated]) simp
  then have e: "e \<le> 11" by (simp add: e_def)
  have "n div 2 ^ e \<le> n" using assms(1) by (simp add: div_le_dividend zdiv_mono2 [of n 1 "2 ^ e", simplified])
  moreover have "(2 :: int) ^ e < 2 ^ 12" using e by (intro power_strict_increasing) auto
  ultimately have "(n div 2 ^ e + 1) * 2 ^ e < (2 ^ 64 + 1) * 2 ^ 12"
    using assms by (intro mult_le_less_imp_less) (auto simp: pos_imp_zdiv_nonneg_iff)
  also have "\<dots> < (2 :: int) ^ 1024" by simp
  finally have "(n div 2 ^ e + 1) * 2 ^ e < 2 ^ 1024" "n div 2 ^ e * 2 ^ e < (2 :: int) ^ 1024"
    by (auto simp: algebra_simps intro: le_less_trans [of _ "n div 2 ^ e * 2 ^ e + 2 ^ e"])
  with False assms show ?thesis by (auto simp: f64_of_int_def Let_def e_def)
qed

section \<open>Round trips\<close>

text \<open>What SQLite keeps of a bound value and gives back for it; it takes a NaN as NULL.\<close>

definition cell_of :: "(string \<Rightarrow> int list) \<Rightarrow> sqlval \<Rightarrow> cell" where
  "cell_of encode v = (case v of
       VNull \<Rightarrow> CNull
     | VInt i \<Rightarrow> CInt i
     | VReal f \<Rightarrow> if f = Nan then CNull else CReal f
     | VText s \<Rightarrow> CText (encode s)
     | VBlob b \<Rightarrow> CBlob b)"

definition rounds_to :: "int \<Rightarrow> f64 \<Rightarrow> bool" where
  "rounds_to n f \<longleftrightarrow> (\<exists>m e. f = Finite m e \<and> 0 \<le> e \<and> 2 * \<bar>m * 2 ^ nat e - n\<bar> \<le> 2 ^ nat e)"

lemma f64_of_int_rounds: "f64_of_int n = Some f \<Longrightarrow> rounds_to n f"
  by (erule f64_of_int_near) (auto simp: rounds_to_def)

lemma rounds_to_not_nan: "rounds_to n f \<Longrightarrow> f \<noteq> Nan"
  by (auto simp: rounds_to_def)

text \<open>
  C30. A parameter of the Python binding comes back as it went in: none, bytes, text, floats and the integers of 64 bits are the same value,
  truth values come back as 0 and 1 and a NaN as none; an integer beyond 64 bits comes back as the nearest float. A value that is refused is no number,
  or one too large for a float.
\<close>

theorem py_param_round_trip:
  assumes "\<And>s. utf8 (encode s) = Some s"
  shows "case py_to_value x of
      Inr v \<Rightarrow> (let y = py_of_cell utf8 (cell_of encode v) in case x of
          PyBool b \<Rightarrow> y = PyInt (if b then 1 else 0)
        | PyInt n \<Rightarrow> if in_i64 n then y = x else (\<exists>f. y = PyFloat f \<and> rounds_to n f)
        | PyFloat f \<Rightarrow> y = (if f = Nan then PyNone else x)
        | PyOther t i f \<Rightarrow> i \<noteq> None \<or> f \<noteq> None
        | _ \<Rightarrow> y = x)
    | Inl e \<Rightarrow> (\<exists>t i. x = PyOther t i None \<and> (\<forall>n. i = Some n \<longrightarrow> \<not> in_i64 n \<and> f64_of_int n = None)) \<or> (\<exists>n. x = PyInt n \<and> \<not> in_i64 n \<and> f64_of_int n = None)"
proof (cases x)
  case (PyInt n)
  show ?thesis
  proof (cases "in_i64 n")
    case False
    with PyInt show ?thesis
      by (cases "f64_of_int n") (auto simp: py_to_value_def py_of_cell_def cell_of_def Let_def dest: f64_of_int_rounds rounds_to_not_nan)
  qed (use PyInt in \<open>simp add: py_to_value_def py_of_cell_def cell_of_def Let_def\<close>)
next
  case (PyOther t i f)
  then show ?thesis
    by (cases i; cases f) (auto simp: py_to_value_def Let_def split: option.splits if_splits)
qed (use assms in \<open>auto simp: py_to_value_def py_of_cell_def cell_of_def utf8_or_empty_def Let_def\<close>)

text \<open>
  The same of the Node binding, where arrays and objects come back as the text they print to.
\<close>

theorem node_param_round_trip:
  assumes "\<And>s. utf8 (encode s) = Some s" "\<And>n. v = NInt n \<Longrightarrow> - (2 ^ 63) \<le> n \<and> n < 2 ^ 64" "\<And>f. v = NFloat f \<Longrightarrow> \<exists>m e. f = Finite m e"
  shows "let w = node_of_cell utf8 (cell_of encode (json_to_sql print v)) in case v of
      NBool b \<Rightarrow> w = NInt (if b then 1 else 0)
    | NInt n \<Rightarrow> if in_i64 n then w = v else (\<exists>f. w = NFloat f \<and> rounds_to n f)
    | NArr vs \<Rightarrow> w = NStr (print v)
    | NObj kvs \<Rightarrow> w = NStr (print v)
    | _ \<Rightarrow> w = v"
proof (cases v)
  case (NInt n)
  show ?thesis
  proof (cases "in_i64 n")
    case False
    then have "0 \<le> n" using assms(2) [OF NInt] by (auto simp: in_i64_def i64_min_def i64_max_def)
    then obtain f where f: "f64_of_int n = Some f" using f64_of_u64 [of n] assms(2) [OF NInt] by auto
    then obtain m e where "f = Finite m e" by (auto elim: f64_of_int_near)
    with f False NInt f64_of_int_rounds [OF f] show ?thesis by (auto simp: json_to_sql_def node_of_cell_def cell_of_def Let_def)
  qed (use NInt in \<open>simp add: json_to_sql_def node_of_cell_def cell_of_def Let_def\<close>)
next
  case (NFloat f)
  with assms(3) [OF NFloat] show ?thesis by (auto simp: json_to_sql_def node_of_cell_def cell_of_def Let_def)
qed (use assms(1) in \<open>auto simp: json_to_sql_def node_of_cell_def cell_of_def utf8_or_empty_def Let_def\<close>)

text \<open>The largest integer of 64 bits survives, the next one comes back as a float; the text codec is the one for 7-bit characters.\<close>

lemma nbits_of: "2 ^ k \<le> n \<Longrightarrow> n < 2 ^ Suc k \<Longrightarrow> nbits n = Suc k"
proof (induction k arbitrary: n)
  case (Suc k)
  then have "nbits (n div 2) = Suc k" by auto
  with Suc.prems show ?case by (subst nbits.simps) auto
qed (subst nbits.simps, auto simp: nbits.simps)

lemma big_int: "f64_of_int 9223372036854775808 = Some (Finite 4503599627370496 11)" "f64_of_int 9223372036854775809 = Some (Finite 4503599627370496 11)"
  using nbits_of [of 63 9223372036854775808] nbits_of [of 63 9223372036854775809] by (simp_all add: f64_of_int_def Let_def)

definition ascii_encode :: "string \<Rightarrow> int list" where "ascii_encode = map of_char"
definition ascii_decode :: "int list \<Rightarrow> string option" where "ascii_decode bs = Some (map char_of bs)"

theorem py_param_round_trip_witness:
  "(\<forall>s. ascii_decode (ascii_encode s) = Some s) \<and> py_to_value (PyInt (2 ^ 63 - 1)) = Inr (VInt (2 ^ 63 - 1))
    \<and> py_of_cell ascii_decode (cell_of ascii_encode (VInt (2 ^ 63 - 1))) = PyInt (2 ^ 63 - 1)
    \<and> (\<exists>f. py_to_value (PyInt (2 ^ 63 + 1)) = Inr (VReal f) \<and> rounds_to (2 ^ 63 + 1) f)"
proof -
  have a: "ascii_decode (ascii_encode s) = Some s" for s by (simp add: ascii_decode_def ascii_encode_def comp_def)
  have v: "py_to_value (PyInt (2 ^ 63 - 1)) = Inr (VInt (2 ^ 63 - 1))" by (simp add: py_to_value_def in_i64_def i64_min_def i64_max_def)
  have w: "py_to_value (PyInt (2 ^ 63 + 1)) = Inr (VReal (Finite (2 ^ 52) 11))"
    unfolding py_to_value_def by (simp add: in_i64_def i64_min_def i64_max_def big_int(2))
  from py_param_round_trip [of ascii_decode ascii_encode "PyInt (2 ^ 63 - 1)", OF a] v
    py_param_round_trip [of ascii_decode ascii_encode "PyInt (2 ^ 63 + 1)", OF a] w a
  show ?thesis by (auto simp: in_i64_def i64_min_def i64_max_def Let_def py_of_cell_def cell_of_def)
qed

text \<open>Two integers one apart become the same value.\<close>

theorem large_int_parameters_collide:
  "py_to_value (PyInt (2 ^ 63)) = Inr (VReal (Finite (2 ^ 52) 11)) \<and> py_to_value (PyInt (2 ^ 63 + 1)) = Inr (VReal (Finite (2 ^ 52) 11))
    \<and> json_to_sql print (NInt (2 ^ 63)) = json_to_sql print (NInt (2 ^ 63 + 1))"
  by (simp add: py_to_value_def json_to_sql_def in_i64_def i64_min_def i64_max_def big_int)

section \<open>Rows\<close>

lemma row_dict_map: "row_dict f d cols = d ++ map_of (rev (map (\<lambda>(n, v). (n, f v)) cols))"
  by (induction cols arbitrary: d rule: list.induct) (auto simp: map_add_upd_left map_add_assoc fun_eq_iff map_add_def split: option.splits)

end
