(* ===== verification/Facade.thy ===== *)
theory Facade
  imports Watcher
begin

text \<open>
  The database object of the Python and the Node binding: opening it, the one watcher it starts on demand and closes, and the iterator over update events of
  the Python binding, whose thread carries ticks from the channel of a subscription to the queue of an event loop.
\<close>

section \<open>Opening\<close>

datatype open_err = BadConfig backend_err | BadInterval | OpenFailed string | ProbeFailed string

definition parse_watcher_config :: "features \<Rightarrow> string option \<Rightarrow> int option \<Rightarrow> open_err + watcher_config" where
  "parse_watcher_config fs backend poll_ms = (case parse_backend fs backend of
       Inl e \<Rightarrow> Inl (BadConfig e)
     | Inr b \<Rightarrow> (case poll_ms of
          None \<Rightarrow> Inr (with_backend b)
        | Some ms \<Rightarrow> (case with_poll_interval ms (with_backend b) of None \<Rightarrow> Inl BadInterval | Some cfg \<Rightarrow> Inr cfg)))"

text \<open>
  The steps on the new connection (opening it, attaching the functions, in the Node binding also the bootstrap), each with its error, and
  the probe of the backend.
\<close>

fun open_steps :: "string option list \<Rightarrow> open_err option" where
  "open_steps [] = None"
| "open_steps (None # rest) = open_steps rest"
| "open_steps (Some e # rest) = Some (OpenFailed e)"

definition db_open :: "features \<Rightarrow> string option \<Rightarrow> int option \<Rightarrow> string option list \<Rightarrow> (watcher_backend \<Rightarrow> string + unit) \<Rightarrow> open_err + watcher_config" where
  "db_open fs backend poll_ms steps probe = (case parse_watcher_config fs backend poll_ms of
       Inl e \<Rightarrow> Inl e
     | Inr cfg \<Rightarrow> (case open_steps steps of
          Some e \<Rightarrow> Inl e
        | None \<Rightarrow> (case probe (cfg_backend cfg) of Inl reason \<Rightarrow> Inl (ProbeFailed reason) | Inr _ \<Rightarrow> Inr cfg)))"

text \<open>The client crate has its own options and the same order of steps.\<close>

definition opt_watcher_backend :: "features \<Rightarrow> string \<Rightarrow> watcher_config \<Rightarrow> open_err + watcher_config" where
  "opt_watcher_backend fs backend cfg = (case parse_backend fs (Some backend) of Inl e \<Rightarrow> Inl (BadConfig e) | Inr b \<Rightarrow> Inr (cfg\<lparr>cfg_backend := b\<rparr>))"

definition opt_watcher_poll_interval :: "int \<Rightarrow> watcher_config \<Rightarrow> open_err + watcher_config" where
  "opt_watcher_poll_interval interval cfg = (case with_poll_interval interval cfg of None \<Rightarrow> Inl BadInterval | Some c \<Rightarrow> Inr c)"

definition open_with_options :: "watcher_config \<Rightarrow> string option list \<Rightarrow> (watcher_backend \<Rightarrow> string + unit) \<Rightarrow> open_err + watcher_config" where
  "open_with_options cfg steps probe = (case open_steps steps of
       Some e \<Rightarrow> Inl e
     | None \<Rightarrow> (case probe (cfg_backend cfg) of Inl reason \<Rightarrow> Inl (ProbeFailed reason) | Inr _ \<Rightarrow> Inr cfg))"

text \<open>
  \<^verbatim>\<open>open_conn\<close>: the open itself, \<^verbatim>\<open>apply_default_pragmas\<close> with the busy timeout before the switch to WAL mode and the others after it, and
  the notifications for a writer. The first error ends it.
\<close>

definition apply_default_pragmas :: "string option \<Rightarrow> string option \<Rightarrow> string option \<Rightarrow> string option list" where
  "apply_default_pragmas busy_timeout wal defaults = [busy_timeout, wal, defaults]"

definition open_conn :: "bool \<Rightarrow> string option \<Rightarrow> string option list \<Rightarrow> string option \<Rightarrow> string option list" where
  "open_conn install_notify opened pragmas notify = opened # pragmas @ (if install_notify then [notify] else [])"

text \<open>\<^verbatim>\<open>WatcherBackend::probe\<close>: the polling backend needs no probe.\<close>

definition backend_probe :: "(string \<Rightarrow> string + unit) \<Rightarrow> (string \<Rightarrow> string + unit) \<Rightarrow> string \<Rightarrow> watcher_backend \<Rightarrow> string + unit" where
  "backend_probe kernel_probe shm_probe db_path b = (case b of Polling \<Rightarrow> Inr () | KernelWatch \<Rightarrow> kernel_probe db_path | ShmFastPath \<Rightarrow> shm_probe db_path)"

text \<open>\<^verbatim>\<open>max_readers.unwrap_or(8).max(1)\<close> of the Node binding.\<close>

definition node_max_readers :: "nat option \<Rightarrow> nat" where
  "node_max_readers n = max (case n of None \<Rightarrow> 8 | Some k \<Rightarrow> k) 1"

section \<open>The watcher of a database\<close>

text \<open>
  All watchers the object has started, the one its \<^verbatim>\<open>shared_watcher\<close> points to, and the flag \<^verbatim>\<open>closed\<close> that \<^verbatim>\<open>writer.close\<close> and
  \<^verbatim>\<open>readers.close\<close> set; what becomes of the connections is in the theories \<open>Pools\<close> and \<open>Bindings\<close>.
\<close>

record facade =
  fc_watchers :: "shared list"
  fc_current :: "nat option"
  fc_closed :: bool

definition facade_new :: facade where
  "facade_new = \<lparr>fc_watchers = [], fc_current = None, fc_closed = False\<rparr>"

text \<open>A subscription: the watcher, its number there and its channel.\<close>

definition update_events :: "facade \<Rightarrow> (nat \<times> 64 word \<times> nat) \<times> facade" where
  "update_events s =
     (case fc_current s of
        Some k \<Rightarrow> (case subscribe (fc_watchers s ! k) of ((i, c), sh) \<Rightarrow> ((k, i, c), s\<lparr>fc_watchers := (fc_watchers s)[k := sh]\<rparr>))
      | None \<Rightarrow> (let k = length (fc_watchers s) in
          case subscribe new_shared of ((i, c), sh) \<Rightarrow> ((k, i, c), s\<lparr>fc_watchers := fc_watchers s @ [sh], fc_current := Some k\<rparr>)))"

definition db_close :: "facade \<Rightarrow> facade" where
  "db_close s = (let s' = s\<lparr>fc_current := None, fc_closed := True\<rparr> in
     case fc_current s of
       None \<Rightarrow> s'
     | Some k \<Rightarrow> s'\<lparr>fc_watchers := (fc_watchers s)[k := close_take (close_clear (fc_watchers s ! k))]\<rparr>)"

datatype facade_event = Events | CloseDb | Inside nat

text \<open>What happens inside a watcher: its thread and its subscribers. Only \<open>close\<close> asks it to stop.\<close>

inductive facade_step :: "facade \<Rightarrow> facade_event \<Rightarrow> facade \<Rightarrow> bool" where
  fc_events: "update_events s = (r, s') \<Longrightarrow> facade_step s Events s'"
| fc_close: "facade_step s CloseDb (db_close s)"
| fc_inside: "k < length (fc_watchers s) \<Longrightarrow> shared_step (fc_watchers s ! k) e sh \<Longrightarrow> e \<noteq> Take \<Longrightarrow> e \<noteq> Clear \<Longrightarrow>
    facade_step s (Inside k) (s\<lparr>fc_watchers := (fc_watchers s)[k := sh]\<rparr>)"

section \<open>The bridge of the Python iterator\<close>

text \<open>
  The thread: in \<^verbatim>\<open>recv\<close>; with a tick, before it reads \<^verbatim>\<open>shutdown\<close>; about to put it into the queue; with an error of the channel,
  before it reads the flag; about to put the exception; over.
\<close>

datatype bridge_pc = BWaits | BGot | BPuts | BLost | BRaises | BEnds

datatype bridge_item = TickItem | DeathItem

text \<open>How far \<^verbatim>\<open>drop\<close> is: not begun, past the store of the flag, past \<^verbatim>\<open>unsubscribe\<close>, past the join.\<close>

datatype drop_stage = Alive | FlagSet | Unsubscribed | Joined

record events =
  ev_shared :: shared
  ev_sub_id :: "64 word"
  ev_rx :: nat
  ev_pc :: "bridge_pc option"
  ev_queue :: "bridge_item list"
  ev_loop_open :: bool
  ev_shutdown :: bool
  ev_drop :: drop_stage

definition events_new :: "shared \<Rightarrow> events" where
  "events_new s = (case subscribe s of ((i, c), sh) \<Rightarrow>
     \<lparr>ev_shared = sh, ev_sub_id = i, ev_rx = c, ev_pc = None, ev_queue = [], ev_loop_open = True, ev_shutdown = False, ev_drop = Alive\<rparr>)"

text \<open>\<^verbatim>\<open>ensure_started\<close>: the first call starts the thread, a later one finds the queue.\<close>

definition ensure_started :: "events \<Rightarrow> events" where
  "ensure_started s = (if ev_pc s = None then s\<lparr>ev_pc := Some BWaits\<rparr> else s)"

text \<open>\<^verbatim>\<open>call_soon_threadsafe\<close> with \<^verbatim>\<open>put_nowait\<close>: a loop that was closed refuses it, and the thread ignores that.\<close>

definition put_item :: "bridge_item \<Rightarrow> events \<Rightarrow> bridge_item list" where
  "put_item x s = (if ev_loop_open s then ev_queue s @ [x] else ev_queue s)"

text \<open>One step of the thread; \<open>None\<close> while it blocks in \<^verbatim>\<open>recv\<close> or when it is over.\<close>

definition bridge_step :: "events \<Rightarrow> events option" where
  "bridge_step s = (case ev_pc s of
       None \<Rightarrow> None
     | Some BWaits \<Rightarrow> (case recv (ev_rx s) (ev_shared s) of
          (Tick, sh) \<Rightarrow> Some (s\<lparr>ev_shared := sh, ev_pc := Some BGot\<rparr>)
        | (Disconnected, sh) \<Rightarrow> Some (s\<lparr>ev_pc := Some BLost\<rparr>)
        | (Blocks, sh) \<Rightarrow> None)
     | Some BGot \<Rightarrow> Some (s\<lparr>ev_pc := Some (if ev_shutdown s then BEnds else BPuts)\<rparr>)
     | Some BPuts \<Rightarrow> Some (s\<lparr>ev_queue := put_item TickItem s, ev_pc := Some BWaits\<rparr>)
     | Some BLost \<Rightarrow> Some (s\<lparr>ev_pc := Some (if ev_shutdown s then BEnds else BRaises)\<rparr>)
     | Some BRaises \<Rightarrow> Some (s\<lparr>ev_queue := put_item DeathItem s, ev_pc := Some BEnds\<rparr>)
     | Some BEnds \<Rightarrow> None)"

definition drop_step :: "events \<Rightarrow> events option" where
  "drop_step s = (case ev_drop s of
       Alive \<Rightarrow> Some (s\<lparr>ev_shutdown := True, ev_drop := FlagSet\<rparr>)
     | FlagSet \<Rightarrow> Some (s\<lparr>ev_shared := unsubscribe (ev_sub_id s) (ev_shared s), ev_drop := Unsubscribed\<rparr>)
     | Unsubscribed \<Rightarrow> if ev_pc s = None \<or> ev_pc s = Some BEnds then Some (s\<lparr>ev_drop := Joined\<rparr>) else None
     | Joined \<Rightarrow> None)"

datatype events_event = Iterate | Bridge | DropStep | LoopCloses | WatcherMoves shared_event

inductive events_step :: "events \<Rightarrow> events_event \<Rightarrow> events \<Rightarrow> bool" where
  ev_iterate: "ev_drop s = Alive \<Longrightarrow> events_step s Iterate (ensure_started s)"
| ev_bridge: "bridge_step s = Some s' \<Longrightarrow> events_step s Bridge s'"
| ev_drops: "drop_step s = Some s' \<Longrightarrow> events_step s DropStep s'"
| ev_loop_closes: "events_step s LoopCloses (s\<lparr>ev_loop_open := False\<rparr>)"
| ev_moves: "shared_step (ev_shared s) e sh \<Longrightarrow> e \<noteq> Recv (ev_rx s) \<Longrightarrow> events_step s (WatcherMoves e) (s\<lparr>ev_shared := sh\<rparr>)"

end
