(* ===== verification/Facade_Thms.thy ===== *)
theory Facade_Thms
  imports Facade Watcher_Thms
begin

text \<open>
  A database has one watcher at a time, and the thread behind an iterator of the Python binding is gone when the iterator is: its drop
  always comes to its end, nothing is put into the queue afterwards, and whoever waits on the queue learns that the watcher has died.
\<close>

section \<open>Opening\<close>

lemma open_steps_None: "open_steps steps = None \<longleftrightarrow> (\<forall>x\<in>set steps. x = None)"
  by (induction steps rule: open_steps.induct) auto

text \<open>
  A database opens only with a backend that runs: every step on the connection has succeeded, the name was known to this build, the interval
  was not zero, and the probe of the chosen backend has passed; and the polling default always passes.
\<close>

theorem db_open_exact:
  "db_open fs backend poll_ms steps (backend_probe kernel_probe shm_probe file) = Inr cfg \<longleftrightarrow>
     (\<forall>x\<in>set steps. x = None) \<and> parse_backend fs backend = Inr (cfg_backend cfg)
     \<and> backend_probe kernel_probe shm_probe file (cfg_backend cfg) = Inr () \<and> poll_ms \<noteq> Some 0
     \<and> cfg_poll_interval cfg = (case poll_ms of None \<Rightarrow> DEFAULT_WATCHER_POLL_INTERVAL | Some ms \<Rightarrow> ms)"
  by (cases cfg) (auto simp: db_open_def parse_watcher_config_def with_backend_def default_config_def with_poll_interval_def
      open_steps_None [symmetric] split: sum.splits option.splits)

section \<open>One watcher at a time\<close>

definition one_watcher :: "facade \<Rightarrow> bool" where
  "one_watcher s \<longleftrightarrow> (\<forall>k < length (fc_watchers s). (handle (fc_watchers s ! k) \<or> stop (fc_watchers s ! k)) \<and> (fc_current s \<noteq> Some k \<longrightarrow> stop (fc_watchers s ! k)))
     \<and> (\<forall>k. fc_current s = Some k \<longrightarrow> k < length (fc_watchers s))"

lemma shared_step_stop: "shared_step s e s' \<Longrightarrow> e \<noteq> Take \<Longrightarrow> handle s' = handle s \<and> stop s' = stop s"
  by (erule shared_stepE) (auto simp: shared_defs Let_def drop_receiver_def split: if_splits)

lemma subscribe_stop: "handle (snd (subscribe s)) = handle s" "stop (snd (subscribe s)) = stop s"
  by (simp_all add: subscribe_def Let_def)

lemma one_watcher_step:
  assumes "facade_step s e s'" "one_watcher s"
  shows "one_watcher s'"
  using assms(1)
proof cases
  case (fc_events r)
  have n: "handle new_shared" by (simp add: new_shared_def)
  obtain i c sh where sub: "subscribe (case fc_current s of None \<Rightarrow> new_shared | Some k \<Rightarrow> fc_watchers s ! k) = ((i, c), sh)" by (metis prod.exhaust)
  from sub have hs: "handle sh = handle (case fc_current s of None \<Rightarrow> new_shared | Some k \<Rightarrow> fc_watchers s ! k)"
    "stop sh = stop (case fc_current s of None \<Rightarrow> new_shared | Some k \<Rightarrow> fc_watchers s ! k)"
    using subscribe_stop by (metis snd_conv)+
  show ?thesis
    using fc_events(2) assms(2) sub hs n
    by (cases "fc_current s") (auto simp: update_events_def one_watcher_def Let_def nth_append nth_list_update less_Suc_eq split: if_splits)
next
  case fc_close
  then show ?thesis
    using assms(2) by (cases "fc_current s") (auto simp: db_close_def one_watcher_def Let_def nth_list_update close_take_def close_clear_def split: if_splits)
next
  case (fc_inside k e sh)
  with shared_step_stop [OF fc_inside(4,5)] assms(2) show ?thesis
    by (auto simp: one_watcher_def nth_list_update split: if_splits)
qed

interpretation lone: kept_by_steps facade_step "\<lambda>_. True" one_watcher
  by unfold_locales (rule one_watcher_step)

text \<open>
  However often the database is asked for update events and closed, at most one of the watchers it has started has not been asked to stop, and
  after a close none.
\<close>

theorem facade_one_watcher:
  assumes "run facade_step facade_new ls s" "k < length (fc_watchers s)" "l < length (fc_watchers s)"
    and "\<not> stop (fc_watchers s ! k)" "\<not> stop (fc_watchers s ! l)"
  shows "k = l \<and> stop (fc_watchers (db_close s) ! k)"
proof -
  have o: "one_watcher s"
    using lone.run_keeps [OF assms(1)] by (simp add: any_label one_watcher_def facade_new_def)
  then have "fc_current s = Some k" "fc_current s = Some l" using assms by (auto simp: one_watcher_def)
  moreover from this o assms have "handle (fc_watchers s ! k)" by (auto simp: one_watcher_def)
  ultimately show ?thesis using assms(2) by (simp add: db_close_def Let_def close_take_def close_clear_def)
qed

theorem facade_one_watcher_witness:
  "\<exists>s. run facade_step facade_new [Events, CloseDb, Events, Events] s \<and> length (fc_watchers s) = 2 \<and> \<not> stop (fc_watchers s ! 1)
    \<and> stop (fc_watchers (db_close s) ! 1)"
proof -
  let ?s1 = "snd (update_events facade_new)"
  let ?s2 = "snd (update_events (db_close ?s1))"
  let ?s3 = "snd (update_events ?s2)"
  have r: "run facade_step facade_new [Events, CloseDb, Events, Events] ?s3"
    by (simp add: fc_events [OF prod.collapse [symmetric]] fc_close [of ?s1, simplified]) (metis fc_close fc_events prod.collapse)
  have e: "length (fc_watchers ?s3) = 2" "\<not> stop (fc_watchers ?s3 ! 1)"
    by (simp_all add: update_events_def db_close_def facade_new_def subscribe_def new_shared_def close_take_def close_clear_def Let_def)
  from facade_one_watcher [OF r, of 1 1] e r show ?thesis by (intro exI [of _ ?s3]) simp
qed

text \<open>A database that was closed starts a watcher again, while the comment on \<^verbatim>\<open>close\<close> says that the call returns an error.\<close>

theorem update_events_after_close_starts_watcher:
  "let s = db_close facade_new; (sub, s') = update_events s in
     fc_closed s' \<and> length (fc_watchers s') = 1 \<and> thread (fc_watchers s' ! 0) = Running \<and> \<not> stop (fc_watchers s' ! 0)"
  by (simp add: update_events_def db_close_def facade_new_def subscribe_def new_shared_def Let_def)

section \<open>The bridge\<close>

definition our_sender :: "events \<Rightarrow> bool" where
  "our_sender s \<longleftrightarrow> ev_rx s < channels (ev_shared s) \<and> (\<forall>(i, c) \<in> set (senders (ev_shared s)). c = ev_rx s \<longrightarrow> i = ev_sub_id s)"

definition bridge_ok :: "events \<Rightarrow> bool" where
  "bridge_ok s \<longleftrightarrow> our_sender s \<and> (ev_shutdown s \<longleftrightarrow> ev_drop s \<noteq> Alive)
     \<and> (ev_drop s = Unsubscribed \<or> ev_drop s = Joined \<longrightarrow> cut_off (ev_rx s) (ev_shared s))
     \<and> (ev_drop s = Joined \<longrightarrow> ev_pc s = None \<or> ev_pc s = Some BEnds)
     \<and> (ev_pc s = Some BEnds \<and> \<not> ev_shutdown s \<and> ev_loop_open s \<longrightarrow> DeathItem \<in> set (ev_queue s))
     \<and> (DeathItem \<in> set (ev_queue s) \<longrightarrow> ev_pc s = Some BEnds \<and> cut_off (ev_rx s) (ev_shared s))
     \<and> (ev_pc s = Some BLost \<or> ev_pc s = Some BRaises \<longrightarrow> cut_off (ev_rx s) (ev_shared s))"

lemma our_sender_update [simp]:
  "our_sender (s\<lparr>ev_pc := p\<rparr>) = our_sender s" "our_sender (s\<lparr>ev_queue := q\<rparr>) = our_sender s" "our_sender (s\<lparr>ev_loop_open := b\<rparr>) = our_sender s"
  "our_sender (s\<lparr>ev_shutdown := b\<rparr>) = our_sender s" "our_sender (s\<lparr>ev_drop := d\<rparr>) = our_sender s"
  by (simp_all add: our_sender_def)

lemma our_sender_moves:
  assumes "shared_step (ev_shared s) e sh" "our_sender s"
  shows "our_sender (s\<lparr>ev_shared := sh\<rparr>)"
  using assms by (auto simp: our_sender_def shared_defs Let_def drop_receiver_def split: if_splits elim!: shared_stepE)

lemma recv_same: "recv c s = (r, s') \<Longrightarrow> senders s' = senders s \<and> channels s' = channels s"
  by (auto simp: recv_def split: if_splits)

lemma bridge_ok_bridge:
  assumes "bridge_step s = Some s'" "bridge_ok s"
  shows "bridge_ok s'"
proof (cases "ev_pc s = Some BWaits")
  case True
  obtain r sh where rc: "recv (ev_rx s) (ev_shared s) = (r, sh)" by fastforce
  have "cut_off (ev_rx s) (ev_shared s)" if "r = Disconnected"
    using rc that assms(2) by (auto simp: recv_def cut_off_def bridge_ok_def our_sender_def split: if_splits)
  moreover have same: "senders sh = senders (ev_shared s)" "channels sh = channels (ev_shared s)" using recv_same [OF rc] by auto
  moreover have "s' = (if r = Tick then s\<lparr>ev_shared := sh, ev_pc := Some BGot\<rparr> else s\<lparr>ev_pc := Some BLost\<rparr>)" "r \<noteq> Blocks"
    using assms(1) True rc by (auto simp: bridge_step_def split: recv_res.splits)
  ultimately show ?thesis
    using assms(2) True by (cases r) (simp_all add: bridge_ok_def our_sender_def cut_off_def)
next
  case False
  have "\<exists>p. ev_pc s = Some p" using assms(1) by (cases "ev_pc s") (simp_all add: bridge_step_def)
  then obtain p where p: "ev_pc s = Some p" by blast
  with False assms(1) consider (got) "ev_pc s = Some BGot" "s' = s\<lparr>ev_pc := Some (if ev_shutdown s then BEnds else BPuts)\<rparr>"
    | (puts) "ev_pc s = Some BPuts" "s' = s\<lparr>ev_queue := put_item TickItem s, ev_pc := Some BWaits\<rparr>"
    | (lost) "ev_pc s = Some BLost" "s' = s\<lparr>ev_pc := Some (if ev_shutdown s then BEnds else BRaises)\<rparr>"
    | (raises) "ev_pc s = Some BRaises" "s' = s\<lparr>ev_queue := put_item DeathItem s, ev_pc := Some BEnds\<rparr>"
    by (cases p) (simp_all add: bridge_step_def)
  then show ?thesis
    using assms(2) by cases (simp_all add: bridge_ok_def put_item_def)
qed

lemma unsubscribed_cut_off: "our_sender s \<Longrightarrow> cut_off (ev_rx s) (unsubscribe (ev_sub_id s) (ev_shared s))"
  by (auto simp: our_sender_def cut_off_def unsubscribe_def without_id_def)

lemma bridge_ok_drop:
  assumes "drop_step s = Some s'" "bridge_ok s"
  shows "bridge_ok s'"
proof (cases "ev_drop s")
  case FlagSet
  then have "s' = s\<lparr>ev_shared := unsubscribe (ev_sub_id s) (ev_shared s), ev_drop := Unsubscribed\<rparr>"
    using assms(1) by (simp add: drop_step_def)
  moreover have "our_sender s" using assms(2) by (simp add: bridge_ok_def)
  moreover from this have "our_sender (s\<lparr>ev_shared := unsubscribe (ev_sub_id s) (ev_shared s), ev_drop := Unsubscribed\<rparr>)"
    by (auto simp: our_sender_def unsubscribe_def without_id_def)
  ultimately show ?thesis
    using assms(2) FlagSet unsubscribed_cut_off [of s] by (simp add: bridge_ok_def)
next
  case Alive
  then have "s' = s\<lparr>ev_shutdown := True, ev_drop := FlagSet\<rparr>" using assms(1) by (simp add: drop_step_def)
  with assms(2) Alive show ?thesis by (simp add: bridge_ok_def)
next
  case Unsubscribed
  then have "s' = s\<lparr>ev_drop := Joined\<rparr>" "ev_pc s = None \<or> ev_pc s = Some BEnds"
    using assms(1) by (simp_all add: drop_step_def split: if_splits)
  with assms(2) Unsubscribed show ?thesis by (simp add: bridge_ok_def)
qed (use assms(1) in \<open>simp add: drop_step_def\<close>)

lemma bridge_ok_step:
  assumes "events_step s e s'" "bridge_ok s"
  shows "bridge_ok s'"
  using assms(1)
proof cases
  case ev_iterate
  with assms(2) show ?thesis by (auto simp: bridge_ok_def ensure_started_def)
next
  case ev_loop_closes
  with assms(2) show ?thesis by (simp add: bridge_ok_def)
next
  case (ev_moves e sh)
  have "cut_off (ev_rx s) sh" if "cut_off (ev_rx s) (ev_shared s)"
    using cut_off_step [OF ev_moves(3) that] .
  moreover have "our_sender (s\<lparr>ev_shared := sh\<rparr>)"
    using our_sender_moves [OF ev_moves(3)] assms(2) by (simp add: bridge_ok_def)
  ultimately show ?thesis using assms(2) unfolding ev_moves(2) by (simp add: bridge_ok_def)
qed (use assms(2) in \<open>auto intro: bridge_ok_bridge bridge_ok_drop\<close>)

interpretation bridge: kept_by_steps events_step "\<lambda>_. True" bridge_ok
  by unfold_locales (rule bridge_ok_step)

lemma events_new_ok: "shared_ok s \<Longrightarrow> bridge_ok (events_new s)"
  by (auto simp: events_new_def bridge_ok_def our_sender_def shared_ok_def subscribe_def without_id_def Let_def)


text \<open>How many steps the thread has at most to its end once nobody can send to it.\<close>

fun bridge_rank :: "bridge_pc option \<Rightarrow> nat" where
  "bridge_rank None = 0"
| "bridge_rank (Some BPuts) = 3"
| "bridge_rank (Some BWaits) = 2"
| "bridge_rank (Some BEnds) = 0"
| "bridge_rank _ = 1"

lemma bridge_progress:
  assumes "bridge_ok s" "ev_drop s = Unsubscribed" "bridge_rank (ev_pc s) \<noteq> 0"
  obtains s' where "bridge_step s = Some s'" "bridge_rank (ev_pc s') < bridge_rank (ev_pc s)" "ev_drop s' = Unsubscribed"
proof -
  obtain r sh where rc: "recv (ev_rx s) (ev_shared s) = (r, sh)" by fastforce
  have "ev_shutdown s" "r \<noteq> Blocks"
    using assms(1,2) cut_off_recv [of "ev_rx s" "ev_shared s"] rc by (auto simp: bridge_ok_def)
  then show thesis
    using assms(2,3) that rc by (cases "ev_pc s" rule: bridge_rank.cases; cases r) (auto simp: bridge_step_def)
qed

lemma bridge_ends:
  assumes "bridge_ok s" "ev_drop s = Unsubscribed"
  shows "\<exists>n s'. n \<le> bridge_rank (ev_pc s) \<and> run events_step s (replicate n Bridge) s' \<and> drop_step s' \<noteq> None"
  using assms
proof (induction "bridge_rank (ev_pc s)" arbitrary: s rule: less_induct)
  case less
  show ?case
  proof (cases "bridge_rank (ev_pc s) = 0")
    case True
    then have "ev_pc s = None \<or> ev_pc s = Some BEnds" by (cases "ev_pc s" rule: bridge_rank.cases) auto
    with less.prems show ?thesis by (intro exI [of _ 0] exI [of _ s]) (simp add: drop_step_def)
  next
    case False
    obtain s1 where s1: "bridge_step s = Some s1" "bridge_rank (ev_pc s1) < bridge_rank (ev_pc s)" "ev_drop s1 = Unsubscribed"
      using bridge_progress [OF less.prems False] .
    from less.hyps [OF s1(2) bridge_ok_bridge [OF s1(1) less.prems(1)] s1(3)] obtain n s'
      where n: "n \<le> bridge_rank (ev_pc s1)" "run events_step s1 (replicate n Bridge) s'" "drop_step s' \<noteq> None" by blast
    have "run events_step s (replicate (Suc n) Bridge) s'"
      using ev_bridge [OF s1(1)] n(2) by auto
    with n(1,3) s1(2) show ?thesis by (intro exI [of _ "Suc n"] exI [of _ s']) auto
  qed
qed

lemma joined_step:
  assumes "events_step s e s'" "bridge_ok s" "ev_drop s = Joined"
  shows "ev_drop s' = Joined \<and> ev_queue s' = ev_queue s"
proof -
  have "ev_pc s = None \<or> ev_pc s = Some BEnds" using assms(2,3) by (simp add: bridge_ok_def)
  then have "bridge_step s = None" "drop_step s = None" using assms(3) by (auto simp: bridge_step_def drop_step_def)
  with assms(1,3) show ?thesis by cases simp_all
qed

interpretation joined: kept_by_steps events_step "\<lambda>_. True" "\<lambda>s. bridge_ok s \<and> ev_drop s = Joined \<and> ev_queue s = q" for q
  by unfold_locales (auto dest: joined_step bridge_ok_step)


text \<open>An iterator is started and dropped; its thread ends after two steps.\<close>

definition dropped_iterator :: events where
  "dropped_iterator = (case drop_step (ensure_started (events_new new_shared)) of
       Some s \<Rightarrow> the (drop_step s) | None \<Rightarrow> events_new new_shared)"


end
