(* ===== verification/Spawn.thy ===== *)
theory Spawn
  imports Watcher
begin

text \<open>
  Starting and stopping the update watcher of \<^verbatim>\<open>honker-core/src/lib.rs\<close>: \<^verbatim>\<open>SharedUpdateWatcher::new_with_config\<close> starts the thread through
  \<^verbatim>\<open>UpdateWatcher::spawn_with_config\<close> and waits until the thread has reported on the channel \<^verbatim>\<open>ready\<close> that it has its baseline. The thread, the caller,
  subscribers and committing connections take their steps in any order.
\<close>

section \<open>The state\<close>

text \<open>Where the caller is: before the thread exists, in \<^verbatim>\<open>ready_rx.recv\<close>, returned, or panicked because no thread could be started.\<close>

datatype spawner = MSpawns | MWaits | MReturned | MPanicked

text \<open>Where the thread is: the parts of \<^verbatim>\<open>run_poll_loop\<close> in their order.\<close>

datatype thread_pc = TNone | TOpens | TBaselines | TStats | TSignals | THead | TPolls | TChecks | TOver

text \<open>
  \<open>sp_sent\<close> and \<open>sp_sender\<close>: the message on \<^verbatim>\<open>ready\<close> has been sent, and its sending end still exists. \<open>sp_owed\<close> counts the calls of \<^verbatim>\<open>on_change\<close> that the
  thread has decided on and not made yet; \<open>sp_conns\<close> numbers the connections it has opened, and \<open>sp_commits\<close> the commits of all others.
\<close>

record spawned =
  sp_main :: spawner
  sp_sent :: bool
  sp_sender :: bool
  sp_pc :: thread_pc
  sp_watch :: watcher
  sp_owed :: nat
  sp_shared :: shared
  sp_conns :: nat
  sp_commits :: nat

definition spawn_new :: spawned where
  "spawn_new = \<lparr>sp_main = MSpawns, sp_sent = False, sp_sender = True, sp_pc = TNone,
     sp_watch = \<lparr>w_conn = False, w_last = 0, w_identity = (0, 0), w_next_check = 0, w_wakes = 0\<rparr>,
     sp_owed = 0, sp_shared = new_shared, sp_conns = 0, sp_commits = 0\<rparr>"

section \<open>The caller\<close>

definition spawn_with_config :: "bool \<Rightarrow> spawned \<Rightarrow> spawned" where
  "spawn_with_config ok s = (if ok then s\<lparr>sp_main := MWaits, sp_pc := TOpens\<rparr> else s\<lparr>sp_main := MPanicked\<rparr>)"

text \<open>\<^verbatim>\<open>ready_rx.recv\<close> comes back when the message is there or its sender is gone.\<close>

definition ready_recv :: "spawned \<Rightarrow> spawned option" where
  "ready_recv s = (if sp_sent s \<or> \<not> sp_sender s then Some (s\<lparr>sp_main := MReturned\<rparr>) else None)"

section \<open>The thread\<close>

definition thread_opens :: "poll_env \<Rightarrow> spawned \<Rightarrow> spawned" where
  "thread_opens e s = (case pe_open e of
       Inl _ \<Rightarrow> s\<lparr>sp_watch := (sp_watch s)\<lparr>w_conn := False\<rparr>, sp_pc := TBaselines\<rparr>
     | Inr _ \<Rightarrow> s\<lparr>sp_watch := (sp_watch s)\<lparr>w_conn := True\<rparr>, sp_conns := Suc (sp_conns s), sp_pc := TBaselines\<rparr>)"

definition thread_baselines :: "poll_env \<Rightarrow> spawned \<Rightarrow> spawned" where
  "thread_baselines e s = s\<lparr>sp_watch := (sp_watch s)\<lparr>w_last := (if w_conn (sp_watch s) then or_zero (pe_poll e) else 0)\<rparr>, sp_pc := TStats\<rparr>"

definition thread_stats :: "poll_env \<Rightarrow> spawned \<Rightarrow> spawned" where
  "thread_stats e s = s\<lparr>sp_watch := (sp_watch s)\<lparr>w_identity := (case stat_identity (pe_stat e) of None \<Rightarrow> (0, 0) | Some i \<Rightarrow> i),
     w_next_check := pe_now e + UPDATE_WATCHER_IDENTITY_INTERVAL\<rparr>, sp_pc := TSignals\<rparr>"

definition thread_signals :: "spawned \<Rightarrow> spawned" where
  "thread_signals s = s\<lparr>sp_sent := True, sp_sender := False, sp_pc := THead\<rparr>"

definition thread_head :: "spawned \<Rightarrow> spawned" where
  "thread_head s = (if stop (sp_shared s) then s\<lparr>sp_shared := thread_ends Finished (sp_shared s), sp_pc := TOver\<rparr> else s\<lparr>sp_pc := TPolls\<rparr>)"

definition thread_polls :: "poll_env \<Rightarrow> spawned \<Rightarrow> spawned" where
  "thread_polls e s = (let w = sp_watch s; w' = poll_version e w in
     s\<lparr>sp_watch := w', sp_owed := w_wakes w' - w_wakes w, sp_conns := sp_conns s + of_bool (\<not> w_conn w \<and> w_conn w'), sp_pc := TChecks\<rparr>)"

definition thread_fires :: "spawned \<Rightarrow> spawned" where
  "thread_fires s = s\<lparr>sp_shared := fan_out (sp_shared s), sp_owed := sp_owed s - 1\<rparr>"

definition thread_checks :: "poll_env \<Rightarrow> spawned \<Rightarrow> spawned" where
  "thread_checks e s = (case check_identity e (sp_watch s) of
       None \<Rightarrow> s\<lparr>sp_shared := thread_ends Died (sp_shared s), sp_pc := TOver\<rparr>
     | Some w' \<Rightarrow> s\<lparr>sp_watch := w', sp_owed := w_wakes w' - w_wakes (sp_watch s), sp_pc := THead\<rparr>)"

section \<open>All together\<close>

text \<open>
  What SQLite answers: \<open>dv c n\<close> is \<^verbatim>\<open>data_version\<close> on connection \<open>c\<close> after \<open>n\<close> commits of others. A poll reads it or fails; so does the
  first poll of a connection that is opened again.
\<close>

definition reads_version :: "(nat \<Rightarrow> nat \<Rightarrow> 32 word) \<Rightarrow> poll_env \<Rightarrow> spawned \<Rightarrow> bool" where
  "reads_version dv e s \<longleftrightarrow> (case pe_poll e of Inl _ \<Rightarrow> True | Inr v \<Rightarrow> v = dv (sp_conns s) (sp_commits s))
     \<and> (case pe_open e of Inr (Inr v) \<Rightarrow> v = dv (Suc (sp_conns s)) (sp_commits s) | _ \<Rightarrow> True)"

datatype spawn_event =
  Spawns bool | Ready | Opens poll_env | Baselines poll_env | Stats poll_env | Signals
| LoopHead | Polls poll_env | Fires | Checks poll_env | Commits | Others shared_event

inductive spawn_step :: "(nat \<Rightarrow> nat \<Rightarrow> 32 word) \<Rightarrow> spawned \<Rightarrow> spawn_event \<Rightarrow> spawned \<Rightarrow> bool" for dv where
  sp_spawns: "sp_main s = MSpawns \<Longrightarrow> spawn_step dv s (Spawns ok) (spawn_with_config ok s)"
| sp_ready: "sp_main s = MWaits \<Longrightarrow> ready_recv s = Some s' \<Longrightarrow> spawn_step dv s Ready s'"
| sp_opens: "sp_pc s = TOpens \<Longrightarrow> spawn_step dv s (Opens e) (thread_opens e s)"
| sp_baselines: "sp_pc s = TBaselines \<Longrightarrow> reads_version dv e s \<Longrightarrow> spawn_step dv s (Baselines e) (thread_baselines e s)"
| sp_stats: "sp_pc s = TStats \<Longrightarrow> spawn_step dv s (Stats e) (thread_stats e s)"
| sp_signals: "sp_pc s = TSignals \<Longrightarrow> spawn_step dv s Signals (thread_signals s)"
| sp_head: "sp_pc s = THead \<Longrightarrow> sp_owed s = 0 \<Longrightarrow> spawn_step dv s LoopHead (thread_head s)"
| sp_polls: "sp_pc s = TPolls \<Longrightarrow> reads_version dv e s \<Longrightarrow> spawn_step dv s (Polls e) (thread_polls e s)"
| sp_fires: "0 < sp_owed s \<Longrightarrow> spawn_step dv s Fires (thread_fires s)"
| sp_checks: "sp_pc s = TChecks \<Longrightarrow> sp_owed s = 0 \<Longrightarrow> spawn_step dv s (Checks e) (thread_checks e s)"
| sp_commits: "spawn_step dv s Commits (s\<lparr>sp_commits := Suc (sp_commits s)\<rparr>)"
| sp_others: "sp_main s = MReturned \<Longrightarrow> shared_step (sp_shared s) e sh \<Longrightarrow> e \<noteq> Fire \<Longrightarrow> e \<noteq> Stops \<Longrightarrow> e \<noteq> Panics \<Longrightarrow>
    spawn_step dv s (Others e) (s\<lparr>sp_shared := sh\<rparr>)"

inductive_cases spawn_stepE:
  "spawn_step dv s (Spawns ok) s'" "spawn_step dv s Ready s'" "spawn_step dv s (Opens e) s'" "spawn_step dv s (Baselines e) s'"
  "spawn_step dv s (Stats e) s'" "spawn_step dv s Signals s'" "spawn_step dv s LoopHead s'" "spawn_step dv s (Polls e) s'"
  "spawn_step dv s Fires s'" "spawn_step dv s (Checks e) s'" "spawn_step dv s Commits s'" "spawn_step dv s (Others x) s'"

end
