(* ===== verification/Spawn_Thms.thy ===== *)
theory Spawn_Thms
  imports Spawn Watcher_Thms
begin

text \<open>
  Starting and stopping the watcher: the caller gets its watcher only when the baseline is taken, so no commit after that is missed;
  the start and the close both come to an end.
\<close>

lemmas thread_defs = thread_opens_def thread_baselines_def thread_stats_def thread_signals_def thread_head_def thread_polls_def
  thread_fires_def thread_checks_def

section \<open>The parts of the start and the start of the loop\<close>

text \<open>The three parts, when nothing happens between them, are \<open>poll_start\<close> of the theory \<open>Watcher\<close>.\<close>

lemma start_parts:
  assumes "\<And>v. pe_open e = Inr v \<Longrightarrow> pe_poll e = v" "w_wakes (sp_watch s) = 0"
  shows "sp_watch (thread_stats e (thread_baselines e (thread_opens e s))) = poll_start e"
  using assms by (auto simp: thread_defs poll_start_def split: sum.splits)

section \<open>Where everybody is\<close>

definition looping :: "spawned \<Rightarrow> bool" where
  "looping s \<longleftrightarrow> sp_pc s \<in> {THead, TPolls, TChecks}"

text \<open>Ids of subscribers are their channels, as long as fewer than \<open>2 ^ 64\<close> have been handed out.\<close>

definition ids_ok :: "shared \<Rightarrow> bool" where
  "ids_ok sh \<longleftrightarrow> next_id sh = of_nat (channels sh) \<and> (\<forall>(i, c) \<in> set (senders sh). i = of_nat c \<and> c < channels sh)"

lemma ids_ok_new: "ids_ok new_shared"
  by (simp add: ids_ok_def new_shared_def)

lemma ids_ok_step: "shared_step sh e sh' \<Longrightarrow> ids_ok sh \<Longrightarrow> ids_ok sh'"
  by (induction rule: shared_step.induct) (auto simp: ids_ok_def shared_defs without_id_def drop_receiver_def Let_def)

text \<open>The places of caller and thread fit together: a caller that has returned was told so.\<close>

definition places_ok :: "spawned \<Rightarrow> bool" where
  "places_ok s \<longleftrightarrow>
     (sp_sent s \<longleftrightarrow> sp_pc s \<in> {THead, TPolls, TChecks, TOver}) \<and> (sp_sender s \<longleftrightarrow> \<not> sp_sent s)
     \<and> (sp_main s = MReturned \<longrightarrow> sp_sent s) \<and> (sp_main s = MWaits \<longrightarrow> sp_pc s \<noteq> TNone) \<and> (sp_main s = MSpawns \<longrightarrow> sp_pc s = TNone)
     \<and> (sp_pc s = TOver \<longleftrightarrow> thread (sp_shared s) \<noteq> Running)
     \<and> (stop (sp_shared s) \<longrightarrow> sp_main s = MReturned)
     \<and> sp_owed s \<le> (if sp_pc s \<in> {THead, TChecks} then 1 else 0)"

text \<open>The version the thread remembers is one that its connection had, or the 0 of a poll that failed.\<close>

definition known_version :: "(nat \<Rightarrow> nat \<Rightarrow> 32 word) \<Rightarrow> spawned \<Rightarrow> bool" where
  "known_version dv s \<longleftrightarrow> w_last (sp_watch s) = 0 \<or> (\<exists>k \<le> sp_commits s. w_last (sp_watch s) = dv (sp_conns s) k)"

definition baseline_ok :: "(nat \<Rightarrow> nat \<Rightarrow> 32 word) \<Rightarrow> spawned \<Rightarrow> bool" where
  "baseline_ok dv s \<longleftrightarrow> (sp_pc s \<in> {TStats, TSignals, THead, TPolls, TChecks} \<and> w_conn (sp_watch s) \<longrightarrow> known_version dv s)"

definition spawn_ok :: "(nat \<Rightarrow> nat \<Rightarrow> 32 word) \<Rightarrow> spawned \<Rightarrow> bool" where
  "spawn_ok dv s \<longleftrightarrow> places_ok s \<and> baseline_ok dv s \<and> ids_ok (sp_shared s)"

lemma spawn_ok_new: "spawn_ok dv spawn_new"
  by (simp add: spawn_ok_def places_ok_def baseline_ok_def spawn_new_def ids_ok_new) (simp add: new_shared_def)

lemma others_keep:
  "shared_step sh e sh' \<Longrightarrow> e \<noteq> Fire \<Longrightarrow> e \<noteq> Stops \<Longrightarrow> e \<noteq> Panics \<Longrightarrow> thread sh' = thread sh \<and> (stop sh \<longrightarrow> stop sh')"
  by (induction rule: shared_step.induct) (auto simp: shared_defs without_id_def drop_receiver_def Let_def)

lemma fan_out_fields [simp]: "thread (fan_out sh) = thread sh" "stop (fan_out sh) = stop sh" "channels (fan_out sh) = channels sh"
  by (simp_all add: fan_out_def Let_def)

lemma ids_ok_fan_out [simp]: "ids_ok sh \<Longrightarrow> ids_ok (fan_out sh)"
  by (auto simp: ids_ok_def fan_out_def Let_def)

lemma thread_ends_fields [simp]:
  "thread (thread_ends t sh) = t" "stop (thread_ends t sh) = stop sh" "ids_ok sh \<Longrightarrow> ids_ok (thread_ends t sh)"
  "ticks (thread_ends t sh) = ticks sh" "channels (thread_ends t sh) = channels sh"
  by (simp_all add: thread_ends_def ids_ok_def)

lemma check_identity_cases:
  "check_identity e w = Some w' \<Longrightarrow> w_wakes w' \<le> Suc (w_wakes w) \<and> (w_conn w' \<longrightarrow> w_conn w) \<and> w_last w' = w_last w"
  by (auto simp: check_identity_def on_change_def Let_def split: if_splits option.splits)

lemma poll_version_wakes: "w_wakes (poll_version e w) \<le> Suc (w_wakes w)"
  by (auto simp: poll_version_def on_change_def split: sum.splits)

lemma places_ok_step: "spawn_step dv s l s' \<Longrightarrow> places_ok s \<Longrightarrow> places_ok s'"
proof (induction rule: spawn_step.induct)
  case (sp_polls s e)
  then show ?case
    using poll_version_wakes [of e "sp_watch s"] by (simp add: places_ok_def thread_polls_def Let_def)
next
  case (sp_checks s e)
  then show ?case
    using check_identity_cases [of e "sp_watch s"]
    by (cases "check_identity e (sp_watch s)") (simp_all add: places_ok_def thread_checks_def le_diff_conv)
next
  case (sp_others s e sh)
  then show ?case
    using others_keep [of "sp_shared s" e sh] unfolding places_ok_def by auto
next
  case (sp_ready s s')
  then show ?case by (simp add: places_ok_def ready_recv_def split: if_splits) auto
next
  case (sp_fires s)
  then show ?case by (auto simp: places_ok_def thread_fires_def split: if_splits)
qed (simp_all add: places_ok_def thread_opens_def thread_baselines_def thread_stats_def thread_signals_def thread_head_def spawn_with_config_def
      split: sum.splits, auto)

lemma known_version_polls:
  assumes "reads_version dv e s" "w_conn (sp_watch s) \<longrightarrow> known_version dv s" "w_conn (sp_watch (thread_polls e s))"
  shows "known_version dv (thread_polls e s)"
proof (cases "w_conn (sp_watch s)")
  case True
  then show ?thesis
    using assms by (cases "pe_poll e") (simp_all add: known_version_def thread_polls_def poll_version_def reads_version_def on_change_def Let_def, blast)
next
  case False
  have "\<exists>v. pe_open e = Inr v"
    using assms(3) False by (cases "pe_open e") (simp_all add: thread_polls_def poll_version_def)
  then obtain v where v: "pe_open e = Inr v" ..
  then show ?thesis
    using assms(1) False
    by (cases v) (simp_all add: known_version_def thread_polls_def poll_version_def reads_version_def or_zero_def Let_def, blast)
qed

lemma owed_polls: "places_ok s \<Longrightarrow> sp_pc s = TPolls \<Longrightarrow> sp_owed s = 0"
  by (simp add: places_ok_def)

lemma spawns_first: "places_ok s \<Longrightarrow> sp_main s = MSpawns \<Longrightarrow> sp_pc s = TNone \<and> sp_owed s = 0"
  by (auto simp: places_ok_def)

lemma baseline_ok_step: "spawn_step dv s l s' \<Longrightarrow> places_ok s \<Longrightarrow> baseline_ok dv s \<Longrightarrow> baseline_ok dv s'"
proof (induction rule: spawn_step.induct)
  case (sp_polls s e)
  then show ?case
    using known_version_polls [of dv e s] by (simp add: baseline_ok_def)
next
  case (sp_checks s e)
  then show ?case
    using check_identity_cases [of e "sp_watch s"]
    by (cases "check_identity e (sp_watch s)") (simp_all add: baseline_ok_def known_version_def thread_checks_def)
next
  case (sp_baselines s e)
  then show ?case
    by (auto simp: baseline_ok_def known_version_def thread_baselines_def reads_version_def or_zero_def split: sum.splits)
next
  case (sp_commits s)
  then show ?case by (auto simp: baseline_ok_def known_version_def intro: le_SucI)
qed (simp_all add: baseline_ok_def known_version_def thread_opens_def thread_stats_def thread_signals_def thread_head_def thread_fires_def
      spawn_with_config_def ready_recv_def split: if_splits sum.splits, force?)

lemma shared_ids_step: "spawn_step dv s l s' \<Longrightarrow> ids_ok (sp_shared s) \<Longrightarrow> ids_ok (sp_shared s')"
proof (induction rule: spawn_step.induct)
  case (sp_others s e sh)
  then show ?case using ids_ok_step by simp
qed (auto simp: thread_defs spawn_with_config_def ready_recv_def Let_def split: if_splits sum.splits option.splits)

lemma spawn_ok_step: "spawn_step dv s l s' \<Longrightarrow> spawn_ok dv s \<Longrightarrow> spawn_ok dv s'"
  using places_ok_step baseline_ok_step shared_ids_step unfolding spawn_ok_def by blast

interpretation spawning: kept_by_steps "spawn_step dv" "\<lambda>_. True" "spawn_ok dv" for dv
  by unfold_locales (rule spawn_ok_step)

lemma spawn_ok_run: "run (spawn_step dv) spawn_new es s \<Longrightarrow> spawn_ok dv s"
  using spawning.run_keeps spawn_ok_new any_label by blast

section \<open>No commit after the start is missed\<close>

text \<open>A failure that makes the thread give up its connection and with it the version it compares with.\<close>

fun gives_up :: "spawn_event \<Rightarrow> bool" where
  "gives_up (Polls e) \<longleftrightarrow> (case pe_poll e of Inl err \<Rightarrow> \<not> is_transient_lock_error err | Inr _ \<Rightarrow> False)"
| "gives_up (Checks e) \<longleftrightarrow> stat_identity (pe_stat e) = None"
| "gives_up _ \<longleftrightarrow> False"

text \<open>What takes a subscriber's tick or takes the subscriber off the list.\<close>

definition takes_off :: "nat \<Rightarrow> spawn_event \<Rightarrow> bool" where
  "takes_off c l \<longleftrightarrow> l \<in> Others ` {Recv c, Unsubscribe (of_nat c), DropRecv c, Clear}"

definition fair_to :: "nat \<Rightarrow> spawn_event \<Rightarrow> bool" where
  "fair_to c l \<longleftrightarrow> \<not> gives_up l \<and> \<not> takes_off c l"

definition on_list :: "nat \<Rightarrow> spawned \<Rightarrow> bool" where
  "on_list c s \<longleftrightarrow> (of_nat c, c) \<in> set (senders (sp_shared s)) \<and> \<not> dropped (sp_shared s) c"

text \<open>Within the limits: \<open>N\<close> commits, and ids that have not wrapped around.\<close>

definition within :: "nat \<Rightarrow> spawned \<Rightarrow> bool" where
  "within N s \<longleftrightarrow> sp_commits s \<le> N \<and> channels (sp_shared s) < 2 ^ 64"

lemma shared_channels: "shared_step sh e sh' \<Longrightarrow> channels sh \<le> channels sh'"
  by (induction rule: shared_step.induct) (auto simp: shared_defs without_id_def drop_receiver_def Let_def)

lemma within_step: "spawn_step dv s l s' \<Longrightarrow> within N s' \<Longrightarrow> within N s"
proof (induction rule: spawn_step.induct)
  case (sp_others s e sh)
  then show ?case using shared_channels [of "sp_shared s" e sh] by (simp add: within_def)
qed (auto simp: within_def thread_defs spawn_with_config_def ready_recv_def Let_def split: if_splits sum.splits option.splits)

lemma ids_apart:
  assumes "ids_ok sh" "(of_nat c, c) \<in> set (senders sh)" "channels sh < 2 ^ 64"
  shows "next_id sh \<noteq> of_nat c"
proof -
  have "c < channels sh"
    using assms(1,2) by (auto simp: ids_ok_def)
  then have "unat (of_nat (channels sh) :: 64 word) \<noteq> unat (of_nat c :: 64 word)"
    using assms(3) by (simp add: unat_of_nat)
  then show ?thesis
    using assms(1) by (auto simp: ids_ok_def)
qed

lemma on_list_others:
  assumes "shared_step sh e sh'" "(of_nat c, c) \<in> set (senders sh)" "\<not> dropped sh c" "\<not> takes_off c (Others e)"
    "e \<noteq> Stops" "e \<noteq> Panics" "ids_ok sh" "channels sh < 2 ^ 64"
  shows "(of_nat c, c) \<in> set (senders sh') \<and> \<not> dropped sh' c"
  using assms(1) ids_apart [OF assms(7,2,8)] assms(2-6)
  by (cases rule: shared_step.cases) (auto simp: shared_defs without_id_def drop_receiver_def Let_def takes_off_def split: if_splits)

lemma ticks_others: "shared_step sh e sh' \<Longrightarrow> ticks sh c \<Longrightarrow> \<not> takes_off c (Others e) \<Longrightarrow> ticks sh' c"
  by (rule tick_stays_step) (auto simp: takes_off_def)

text \<open>
  Commit number \<open>n\<close> and a subscriber: it has its tick, or the thread owes one to all, or it compares with a version from before the commit.
\<close>

definition will_wake :: "(nat \<Rightarrow> nat \<Rightarrow> 32 word) \<Rightarrow> nat \<Rightarrow> nat \<Rightarrow> spawned \<Rightarrow> bool" where
  "will_wake dv n c s \<longleftrightarrow> ticks (sp_shared s) c \<or> sp_pc s = TOver \<or>
     on_list c s \<and> looping s \<and> w_conn (sp_watch s) \<and> n \<le> sp_commits s
     \<and> (0 < sp_owed s \<or> (\<exists>k < n. w_last (sp_watch s) = dv (sp_conns s) k) \<or> w_last (sp_watch s) = 0)"

text \<open>The law of \<^verbatim>\<open>data_version\<close>, for \<open>N\<close> commits: it differs before and after a commit, and it is not 0.\<close>

definition versions_differ :: "(nat \<Rightarrow> nat \<Rightarrow> 32 word) \<Rightarrow> nat \<Rightarrow> bool" where
  "versions_differ dv N \<longleftrightarrow> (\<forall>g. inj_on (dv g) {..N} \<and> 0 \<notin> dv g ` {..N})"

lemma polls_owe:
  assumes "versions_differ dv N" "sp_commits s \<le> N" "reads_version dv e s" "pe_poll e = Inr v" "w_conn (sp_watch s)"
    "(\<exists>k < n. w_last (sp_watch s) = dv (sp_conns s) k) \<or> w_last (sp_watch s) = 0" "n \<le> sp_commits s"
  shows "0 < sp_owed (thread_polls e s)"
proof -
  have v: "v = dv (sp_conns s) (sp_commits s)"
    using assms(3,4) by (simp add: reads_version_def)
  have "dv (sp_conns s) k \<noteq> v" if "k < n" for k
    using assms(1,2,7) that unfolding v versions_differ_def by (metis atMost_iff inj_onD le_trans less_imp_le not_less)
  moreover have "v \<noteq> 0"
    using assms(1,2) unfolding v versions_differ_def by (metis atMost_iff imageI)
  ultimately have "v \<noteq> w_last (sp_watch s)"
    using assms(6) by metis
  then show ?thesis
    using assms(4,5) by (simp add: thread_polls_def poll_version_def on_change_def Let_def)
qed

lemma polls_wake:
  assumes "versions_differ dv N" "within N s" "spawn_ok dv s" "sp_pc s = TPolls" "reads_version dv e s" "pe_poll e = Inr v" "will_wake dv n c s"
  shows "ticks (sp_shared s) c \<or> on_list c s \<and> n \<le> sp_commits s \<and> w_conn (sp_watch s) \<and> 0 < sp_owed (thread_polls e s)"
proof -
  have "sp_owed s = 0"
    using assms(3,4) by (simp add: spawn_ok_def owed_polls)
  then consider "ticks (sp_shared s) c" | "on_list c s" "n \<le> sp_commits s" "w_conn (sp_watch s)"
    "(\<exists>k < n. w_last (sp_watch s) = dv (sp_conns s) k) \<or> w_last (sp_watch s) = 0"
    using assms(4,7) unfolding will_wake_def by auto
  then show ?thesis
  proof cases
    case 2
    then show ?thesis
      using polls_owe [OF assms(1) _ assms(5,6) 2(3,4,2)] assms(2) by (simp add: within_def)
  qed simp
qed

lemma will_wake_polls:
  assumes "versions_differ dv N" "within N s" "spawn_ok dv s" "sp_pc s = TPolls" "reads_version dv e s" "\<not> gives_up (Polls e)" "will_wake dv n c s"
  shows "will_wake dv n c (thread_polls e s)"
proof (cases "pe_poll e")
  case (Inl err)
  then have "w_conn (sp_watch s) \<Longrightarrow> poll_version e (sp_watch s) = sp_watch s"
    using assms(6) by (simp add: poll_version_def)
  then show ?thesis
    using assms(4,7) owed_polls [of s] assms(3) by (auto simp: will_wake_def on_list_def looping_def thread_polls_def spawn_ok_def Let_def)
next
  case (Inr v)
  then show ?thesis
    using polls_wake [OF assms(1-5) Inr assms(7)]
    by (auto simp: will_wake_def on_list_def looping_def thread_polls_def poll_version_def on_change_def Let_def)
qed

lemma will_wake_step:
  assumes "spawn_step dv s l s'" "versions_differ dv N" "spawn_ok dv s" "will_wake dv n c s" "fair_to c l" "within N s"
  shows "will_wake dv n c s'"
  using assms
proof (induction rule: spawn_step.induct)
  case (sp_polls s e)
  then show ?case by (auto simp: fair_to_def intro: will_wake_polls)
next
  case (sp_fires s)
  have "looping s \<Longrightarrow> on_list c s \<Longrightarrow> ticks (fan_out (sp_shared s)) c"
    using fan_out_tick by (auto simp: on_list_def)
  then show ?case
    using sp_fires fan_out_keeps [of "sp_shared s" c 1] by (auto simp: will_wake_def thread_fires_def)
next
  case (sp_checks s e)
  then show ?case
    by (auto simp: will_wake_def thread_checks_def fair_to_def check_identity_def on_list_def looping_def Let_def split: option.splits if_splits)
next
  case (sp_others s e sh)
  then show ?case
    using on_list_others [of "sp_shared s" e sh c] ticks_others [of "sp_shared s" e sh c]
    by (auto simp: will_wake_def on_list_def looping_def fair_to_def spawn_ok_def within_def)
next
  case (sp_spawns s ok)
  then show ?case
    using spawns_first [of s] by (auto simp: will_wake_def looping_def spawn_with_config_def spawn_ok_def)
qed (auto simp: will_wake_def on_list_def looping_def thread_opens_def thread_baselines_def thread_stats_def thread_signals_def thread_head_def
    spawn_with_config_def ready_recv_def spawn_ok_def split: if_splits sum.splits)

lemma within_run: "run (spawn_step dv) s es s' \<Longrightarrow> within N s' \<Longrightarrow> within N s"
  by (induction rule: run.induct) (auto dest: within_step)

lemma will_wake_run:
  assumes "run (spawn_step dv) s es s'" "versions_differ dv N" "spawn_ok dv s" "will_wake dv n c s" "list_all (fair_to c) es" "within N s'"
  shows "will_wake dv n c s' \<and> spawn_ok dv s'"
  using assms
proof (induction rule: run.induct)
  case (run_cons s l s' ls s'')
  have "within N s" "spawn_ok dv s'"
    using run_cons within_run within_step spawn_ok_step by blast+
  then show ?case
    using run_cons will_wake_step by simp
qed simp

lemma ticked_step:
  assumes "spawn_step dv s l s'" "fair_to c l" "ticks (sp_shared s) c"
  shows "ticks (sp_shared s') c"
  using assms
proof (induction rule: spawn_step.induct)
  case (sp_fires s)
  then show ?case
    using fan_out_keeps [of "sp_shared s" c 1] by (simp add: thread_fires_def)
next
  case (sp_others s e sh)
  then show ?case
    using ticks_others [of "sp_shared s" e sh c] by (simp add: fair_to_def)
qed (auto simp: thread_defs spawn_with_config_def ready_recv_def Let_def split: if_splits sum.splits option.splits)

interpretation ticked: kept_by_steps "spawn_step dv" "fair_to c" "\<lambda>s. ticks (sp_shared s) c" for dv c
  by unfold_locales (rule ticked_step)

lemma will_wake_commit:
  assumes "spawn_ok dv s" "sp_main s = MReturned" "w_conn (sp_watch s)" "on_list c s"
  shows "will_wake dv (Suc (sp_commits s)) c (s\<lparr>sp_commits := Suc (sp_commits s)\<rparr>)"
proof -
  have "sp_pc s = TOver \<or> looping s"
    using assms(1,2) by (auto simp: spawn_ok_def places_ok_def looping_def)
  moreover have "looping s \<Longrightarrow> known_version dv s"
    using assms(1,3) by (auto simp: spawn_ok_def baseline_ok_def looping_def)
  then have "looping s \<Longrightarrow> w_last (sp_watch s) = 0 \<or> (\<exists>k < Suc (sp_commits s). w_last (sp_watch s) = dv (sp_conns s) k)"
    unfolding known_version_def less_Suc_eq_le .
  ultimately show ?thesis
    using assms(3,4) by (simp add: will_wake_def on_list_def looping_def) blast
qed

text \<open>Once the thread has read a version after the commit, it owes the tick until it is there.\<close>

definition tick_due :: "nat \<Rightarrow> spawned \<Rightarrow> bool" where
  "tick_due c s \<longleftrightarrow> ticks (sp_shared s) c \<or> on_list c s \<and> 0 < sp_owed s"

lemma tick_due_step:
  assumes "spawn_step dv s l s'" "spawn_ok dv s" "tick_due c s" "fair_to c l" "channels (sp_shared s) < 2 ^ 64"
  shows "tick_due c s'"
  using assms
proof (induction rule: spawn_step.induct)
  case (sp_fires s)
  then show ?case
    using fan_out_tick fan_out_keeps [of "sp_shared s" c 1] by (auto simp: tick_due_def on_list_def thread_fires_def)
next
  case (sp_others s e sh)
  then show ?case
    using on_list_others [of "sp_shared s" e sh c] ticks_others [of "sp_shared s" e sh c]
    by (auto simp: tick_due_def on_list_def fair_to_def spawn_ok_def)
next
  case (sp_polls s e)
  then show ?case
    using owed_polls [of s] by (auto simp: tick_due_def on_list_def thread_polls_def spawn_ok_def Let_def)
qed (auto simp: tick_due_def on_list_def thread_defs spawn_with_config_def ready_recv_def spawn_ok_def Let_def
    split: if_splits sum.splits option.splits)

lemma tick_due_run:
  assumes "run (spawn_step dv) s es s'" "spawn_ok dv s" "tick_due c s" "list_all (fair_to c) es" "within N s'"
  shows "tick_due c s'"
  using assms
proof (induction rule: run.induct)
  case (run_cons s l s' ls s'')
  have "within N s" "spawn_ok dv s'"
    using run_cons within_run within_step spawn_ok_step by blast+
  then show ?case
    using run_cons tick_due_step by (simp add: within_def)
qed simp

lemma will_wake_due:
  assumes "spawn_step dv s (Polls e) s'" "versions_differ dv N" "spawn_ok dv s" "will_wake dv n c s" "pe_poll e = Inr v" "within N s"
  shows "tick_due c s'"
proof -
  have s: "sp_pc s = TPolls" "reads_version dv e s" "s' = thread_polls e s"
    using assms(1) by (auto elim: spawn_stepE)
  show ?thesis
    using polls_wake [OF assms(2,6,3) s(1,2) assms(5,4)]
    by (auto simp: s(3) tick_due_def on_list_def thread_polls_def Let_def)
qed

lemma commit_wakes_subscriber:
  assumes "run (spawn_step dv) spawn_new es0 s" "sp_main s = MReturned" "w_conn (sp_watch s)" "on_list c s"
    and "run (spawn_step dv) s (Commits # a @ Polls e # b @ LoopHead # d) s'" "pe_poll e = Inr v"
    and "list_all (fair_to c) (a @ Polls e # b @ LoopHead # d)"
    and "versions_differ dv (sp_commits s')" "channels (sp_shared s') < 2 ^ 64"
  shows "ticks (sp_shared s') c"
proof -
  let ?N = "sp_commits s'"
  let ?s0 = "s\<lparr>sp_commits := Suc (sp_commits s)\<rparr>"
  have fin: "within ?N s'"
    using assms(9) by (simp add: within_def)
  have rest: "run (spawn_step dv) ?s0 (a @ Polls e # b @ LoopHead # d) s'"
    using assms(5) by (auto elim: spawn_stepE)
  obtain s1 s2 s3 s4 where r: "run (spawn_step dv) ?s0 a s1" "spawn_step dv s1 (Polls e) s2" "run (spawn_step dv) s2 b s3"
    "spawn_step dv s3 LoopHead s4" "run (spawn_step dv) s4 d s'"
    using rest unfolding run_split run_simps by (elim exE conjE) (rule that)
  have w: "within ?N s3" "within ?N s1"
    using within_step [OF r(4) within_run [OF r(5) fin]] within_step [OF r(2) within_run [OF r(3)]] by simp_all
  have ok: "spawn_ok dv s"
    by (rule spawn_ok_run [OF assms(1)])
  then have ok0: "spawn_ok dv ?s0"
    using spawn_ok_step sp_commits by blast
  have "will_wake dv (Suc (sp_commits s)) c ?s0"
    using will_wake_commit [OF ok assms(2-4)] .
  from will_wake_run [OF r(1) assms(8) ok0 this _ w(2)] assms(7)
  have s1: "will_wake dv (Suc (sp_commits s)) c s1" "spawn_ok dv s1"
    by auto
  have ok2: "spawn_ok dv s2"
    by (rule spawn_ok_step [OF r(2) s1(2)])
  have "tick_due c s3"
    using tick_due_run [OF r(3) ok2 will_wake_due [OF r(2) assms(8) s1(2,1) assms(6) w(2)] _ w(1)] assms(7) by simp
  then have "ticks (sp_shared s4) c"
    using r(4) by (auto simp: tick_due_def thread_head_def elim!: spawn_stepE)
  from ticked.run_keeps [OF r(5) _ this] assms(7) show ?thesis
    by simp
qed

text \<open>
  C11. The watcher that \<^verbatim>\<open>SharedUpdateWatcher::new_with_config\<close> has returned misses no commit: take any moment after the return at which the thread has its
  connection and a subscriber is on the list, and let anyone commit. Once the thread has read a version and come to the head of its loop
  again, the subscriber has its tick, whatever happened in between and in whatever order: more commits, other subscribers, busy polls, a
  stop. Excluded are only failures that make the thread give up its connection, and that the subscriber itself leaves or
  takes the tick. That \<^verbatim>\<open>data_version\<close> changes with every commit of another connection is what SQLite documents.
\<close>

theorem commit_after_start_wakes:
  assumes "run (spawn_step dv) spawn_new es0 s" "sp_main s = MReturned" "w_conn (sp_watch s)" "on_list c s"
    and "run (spawn_step dv) s (Commits # a @ Polls e # b @ LoopHead # d) s'" "pe_poll e = Inr v"
    and "list_all (fair_to c) (a @ Polls e # b @ LoopHead # d)"
    and "versions_differ dv (sp_commits s')" "channels (sp_shared s') < 2 ^ 64"
  shows "ticks (sp_shared s') c"
  using assms by (rule commit_wakes_subscriber)

definition demo_env :: "32 word \<Rightarrow> poll_env" where
  "demo_env v = \<lparr>pe_poll = Inr v, pe_open = Inr (Inr v), pe_now = 0, pe_stat = Some (Inode 1 2)\<rparr>"

text \<open>A start, a subscriber, a commit and one more round.\<close>

definition demo_start :: "spawn_event list" where
  "demo_start = [Spawns True, Opens (demo_env 1), Baselines (demo_env 1), Stats (demo_env 1), Signals, Ready, Others Subscribe]"

definition demo_ready :: spawned where
  "demo_ready = spawn_new\<lparr>sp_main := MReturned, sp_sent := True, sp_sender := False, sp_pc := THead, sp_conns := 1,
     sp_watch := \<lparr>w_conn = True, w_last = 1, w_identity = (1, 2), w_next_check = 100, w_wakes = 0\<rparr>, sp_shared := snd (subscribe new_shared)\<rparr>"

lemmas demo_defs = demo_start_def demo_ready_def demo_env_def spawn_new_def spawn_with_config_def ready_recv_def reads_version_def or_zero_def
  stat_identity_def UPDATE_WATCHER_IDENTITY_INTERVAL_def

lemma sp_told: "sp_main s = MWaits \<Longrightarrow> sp_sent s \<Longrightarrow> spawn_step dv s Ready (s\<lparr>sp_main := MReturned\<rparr>)"
  by (rule sp_ready) (simp_all add: ready_recv_def)

lemma sp_subscribes: "sp_main s = MReturned \<Longrightarrow> spawn_step dv s (Others Subscribe) (s\<lparr>sp_shared := snd (subscribe (sp_shared s))\<rparr>)"
  by (rule sp_others) (auto intro: step_subscribe)

lemmas then_step = run_cons [where step = "spawn_step dv" for dv]

lemmas steps_of_run = run_done then_step [OF sp_spawns] then_step [OF sp_opens] then_step [OF sp_baselines] then_step [OF sp_stats] then_step [OF sp_signals]
  then_step [OF sp_told] then_step [OF sp_subscribes] then_step [OF sp_commits] then_step [OF sp_head] then_step [OF sp_polls] then_step [OF sp_fires]
  then_step [OF sp_checks]

lemma demo_start_run: "run (spawn_step (\<lambda>_ n. of_nat (Suc n))) spawn_new demo_start demo_ready"
  unfolding demo_start_def by (intro steps_of_run) (simp_all add: demo_defs thread_defs)

definition demo_woken :: spawned where
  "demo_woken = demo_ready\<lparr>sp_pc := TPolls, sp_commits := 1, sp_watch := (sp_watch demo_ready)\<lparr>w_last := 2, w_wakes := 1\<rparr>,
     sp_shared := fan_out (snd (subscribe new_shared))\<rparr>"

lemma demo_round_run:
  "run (spawn_step (\<lambda>_ n. of_nat (Suc n))) demo_ready (Commits # [LoopHead] @ Polls (demo_env 2) # [Fires, Checks (demo_env 2)] @ LoopHead # []) demo_woken"
  unfolding append_Cons append_Nil
  by (intro steps_of_run)
    (simp_all add: demo_defs thread_defs demo_woken_def poll_version_def check_identity_def on_change_def subscribe_def new_shared_def Let_def)

theorem commit_after_start_wakes_witness: "ticks (sp_shared demo_woken) 0"
proof (rule commit_after_start_wakes [OF demo_start_run _ _ _ demo_round_run])
  show "on_list 0 demo_ready"
    by (simp add: on_list_def demo_defs subscribe_def new_shared_def without_id_def)
  show "list_all (fair_to 0) ([LoopHead] @ Polls (demo_env 2) # [Fires, Checks (demo_env 2)] @ LoopHead # [])"
    by (auto simp: fair_to_def takes_off_def demo_defs)
  show "versions_differ (\<lambda>_ n. of_nat (Suc n)) (sp_commits demo_woken)"
    by (simp add: versions_differ_def demo_woken_def demo_ready_def inj_on_def atMost_Suc)
qed (simp_all add: demo_woken_def demo_defs subscribe_def new_shared_def)

section \<open>The start and the close come to an end\<close>

fun by_thread :: "spawn_event \<Rightarrow> bool" where
  "by_thread (Spawns _) = False"
| "by_thread Ready = False"
| "by_thread Commits = False"
| "by_thread (Others _) = False"
| "by_thread _ = True"

text \<open>What the thread has to do before it reports, and before it sees \<open>stop\<close>.\<close>

definition start_left :: "spawned \<Rightarrow> nat" where
  "start_left s = (case sp_pc s of TOpens \<Rightarrow> 4 | TBaselines \<Rightarrow> 3 | TStats \<Rightarrow> 2 | TSignals \<Rightarrow> 1 | _ \<Rightarrow> 0)"

definition stop_left :: "spawned \<Rightarrow> nat" where
  "stop_left s = (case sp_pc s of TPolls \<Rightarrow> 5 | TChecks \<Rightarrow> sp_owed s + 3 | THead \<Rightarrow> sp_owed s + 1 | _ \<Rightarrow> 0)"

definition started :: "spawned \<Rightarrow> bool" where
  "started s \<longleftrightarrow> places_ok s \<and> sp_main s \<in> {MWaits, MReturned}"

definition stopping :: "spawned \<Rightarrow> bool" where
  "stopping s \<longleftrightarrow> places_ok s \<and> stop (sp_shared s)"

lemma main_step: "spawn_step dv s l s' \<Longrightarrow> sp_main s \<in> {MWaits, MReturned} \<Longrightarrow> sp_main s' \<in> {MWaits, MReturned}"
  by (induction rule: spawn_step.induct)
    (auto simp: thread_defs ready_recv_def Let_def split: if_splits sum.splits option.splits)

lemma stop_step: "spawn_step dv s l s' \<Longrightarrow> stop (sp_shared s) \<Longrightarrow> stop (sp_shared s')"
proof (induction rule: spawn_step.induct)
  case (sp_others s e sh)
  then show ?case using others_keep by simp
qed (auto simp: thread_defs spawn_with_config_def ready_recv_def Let_def split: if_splits sum.splits option.splits)

lemma sent_step: "spawn_step dv s l s' \<Longrightarrow> sp_sent s \<Longrightarrow> sp_sent s'"
  by (induction rule: spawn_step.induct)
    (auto simp: thread_defs spawn_with_config_def ready_recv_def Let_def split: if_splits sum.splits option.splits)

lemma start_left_step:
  assumes "spawn_step dv s l s'" "started s" "\<not> sp_sent s"
  shows "sp_sent s' \<or> start_left s' + of_bool (by_thread l) \<le> start_left s"
  using assms
proof (induction rule: spawn_step.induct)
  case (sp_fires s)
  then show ?case by (simp add: started_def places_ok_def split: if_splits)
qed (auto simp: started_def places_ok_def start_left_def thread_opens_def thread_baselines_def thread_stats_def thread_signals_def
    ready_recv_def split: sum.splits if_splits)

interpretation starting: countdown "spawn_step dv" by_thread started sp_sent start_left for dv
proof
  show "0 < start_left s" if "started s" "\<not> sp_sent s" for s
    using that by (cases "sp_pc s") (auto simp: started_def places_ok_def start_left_def)
  show "started s'" if "spawn_step dv s l s'" "started s" for dv s l s'
    using that places_ok_step main_step unfolding started_def by blast
qed (use sent_step start_left_step in auto)

lemma thread_over_step: "spawn_step dv s l s' \<Longrightarrow> stopping s \<Longrightarrow> sp_pc s = TOver \<Longrightarrow> sp_pc s' = TOver"
  by (induction rule: spawn_step.induct) (auto simp: stopping_def places_ok_def thread_fires_def ready_recv_def split: if_splits)

lemma stop_left_step:
  assumes "spawn_step dv s l s'" "stopping s" "sp_pc s \<noteq> TOver"
  shows "sp_pc s' = TOver \<or> stop_left s' + of_bool (by_thread l) \<le> stop_left s"
  using assms
proof (induction rule: spawn_step.induct)
  case (sp_polls s e)
  then show ?case
    using poll_version_wakes [of e "sp_watch s"] by (simp add: stop_left_def thread_polls_def Let_def)
next
  case (sp_checks s e)
  then show ?case
    using check_identity_cases [of e "sp_watch s"]
    by (cases "check_identity e (sp_watch s)") (simp_all add: stop_left_def thread_checks_def le_diff_conv)
next
  case (sp_fires s)
  then show ?case
    by (cases "sp_pc s") (simp_all add: stopping_def places_ok_def stop_left_def thread_fires_def)
next
  case (sp_head s)
  then show ?case by (simp add: stopping_def thread_head_def)
qed (auto simp: stopping_def places_ok_def stop_left_def ready_recv_def split: if_splits)

interpretation closing: countdown "spawn_step dv" by_thread stopping "\<lambda>s. sp_pc s = TOver" stop_left for dv
proof
  show "0 < stop_left s" if "stopping s" "sp_pc s \<noteq> TOver" for s
    using that by (cases "sp_pc s") (auto simp: stopping_def places_ok_def stop_left_def)
  show "stopping s'" if "spawn_step dv s l s'" "stopping s" for dv s l s'
    using that places_ok_step stop_step unfolding stopping_def by blast
qed (use thread_over_step stop_left_step in auto)

lemma start_left_le: "start_left s \<le> 4"
  by (simp add: start_left_def split: thread_pc.splits)

lemma stop_left_le: "places_ok s \<Longrightarrow> stop_left s \<le> 5"
  by (cases "sp_pc s") (simp_all add: stop_left_def places_ok_def)

text \<open>The thread can always go on: none of its steps waits for anybody.\<close>

lemma thread_not_stuck:
  assumes "spawn_ok dv s" "sp_pc s \<noteq> TNone" "sp_pc s \<noteq> TOver"
  shows "\<exists>l s'. by_thread l \<and> \<not> gives_up l \<and> spawn_step dv s l s'"
proof -
  define e where "e = \<lparr>pe_poll = Inr (dv (sp_conns s) (sp_commits s)), pe_open = Inl QueryReturnedNoRows, pe_now = 0, pe_stat = Some (Inode 1 2)\<rparr>"
  have e: "reads_version dv e s" "\<not> gives_up (Polls e)" "\<not> gives_up (Checks e)"
    by (simp_all add: e_def reads_version_def stat_identity_def)
  show ?thesis
  proof (cases "0 < sp_owed s")
    case True
    then show ?thesis
      using sp_fires [of s dv] by (intro exI [of _ Fires] exI conjI) simp_all
  next
    case False
    then have "\<exists>l s'. spawn_step dv s l s' \<and> l \<in> {Opens e, Baselines e, Stats e, Signals, LoopHead, Polls e, Checks e}"
      using assms(2,3) e(1) sp_opens [of s dv e] sp_baselines [of s dv e] sp_stats [of s dv e] sp_signals [of s dv] sp_head [of s dv]
        sp_polls [of s dv e] sp_checks [of s dv e]
      by (cases "sp_pc s") (simp_all, blast+)
    then obtain l s' where l: "spawn_step dv s l s'" "l \<in> {Opens e, Baselines e, Stats e, Signals, LoopHead, Polls e, Checks e}"
      by blast
    then have "by_thread l \<and> \<not> gives_up l"
      using e(2,3) by auto
    with l(1) show ?thesis
      by blast
  qed
qed

text \<open>
  C35. \<^verbatim>\<open>SharedUpdateWatcher::new_with_config\<close> comes back: while its caller waits on \<^verbatim>\<open>ready\<close> the thread can always take a step, and once it has taken four
  the caller is told. And \<^verbatim>\<open>close\<close> comes back: once \<open>stop\<close> is set, the thread can always take a step until it is over, and it
  is over after five, whatever commits, subscribers and failures there are, so that \<^verbatim>\<open>join\<close> has a result.
\<close>

theorem start_and_close_return:
  assumes "run (spawn_step dv) spawn_new es s" "run (spawn_step dv) s es' s'"
  shows "(sp_main s = MWaits \<and> sp_main s' = MWaits \<longrightarrow>
      (\<exists>l s''. (by_thread l \<or> l = Ready) \<and> spawn_step dv s' l s'') \<and> (4 \<le> length (filter by_thread es') \<longrightarrow> ready_recv s' \<noteq> None))
    \<and> (stop (sp_shared s) \<longrightarrow>
      (close_join (sp_shared s') = None \<longrightarrow> (\<exists>l s''. by_thread l \<and> spawn_step dv s' l s''))
      \<and> (5 \<le> length (filter by_thread es') \<longrightarrow> close_join (sp_shared s') \<noteq> None))"
proof (intro conjI impI)
  have ok: "spawn_ok dv s"
    by (rule spawn_ok_run [OF assms(1)])
  then have ok': "spawn_ok dv s'"
    using spawning.run_keeps [OF assms(2) any_label] by simp
  note places = ok [unfolded spawn_ok_def, THEN conjunct1] and places' = ok' [unfolded spawn_ok_def, THEN conjunct1]
  {
    assume w: "sp_main s = MWaits \<and> sp_main s' = MWaits"
    have "sp_pc s' \<noteq> TNone"
      using w places' by (simp add: places_ok_def)
    moreover have "sp_pc s' = TOver \<Longrightarrow> spawn_step dv s' Ready (s'\<lparr>sp_main := MReturned\<rparr>)"
      using w places' by (intro sp_told) (simp_all add: places_ok_def)
    ultimately show "\<exists>l s''. (by_thread l \<or> l = Ready) \<and> spawn_step dv s' l s''"
      using thread_not_stuck [OF ok'] by blast
    assume "4 \<le> length (filter by_thread es')"
    then have "sp_sent s'"
      using starting.ends [OF assms(2)] start_left_le [of s] w places by (simp add: started_def)
    then show "ready_recv s' \<noteq> None"
      by (simp add: ready_recv_def)
  next
    assume st: "stop (sp_shared s)"
    then have v: "stopping s"
      using places by (simp add: stopping_def)
    assume "close_join (sp_shared s') = None"
    then have "sp_pc s' \<noteq> TOver"
      using places' by (simp add: places_ok_def close_join_def split: thread_state.splits)
    moreover have "sp_pc s' \<noteq> TNone"
      using closing.valid_run [OF assms(2) v] by (auto simp: stopping_def places_ok_def)
    ultimately show "\<exists>l s''. by_thread l \<and> spawn_step dv s' l s''"
      using thread_not_stuck [OF ok'] by blast
  next
    assume "stop (sp_shared s)" "5 \<le> length (filter by_thread es')"
    then have "sp_pc s' = TOver"
      using closing.ends [OF assms(2)] stop_left_le [OF places] places by (simp add: stopping_def)
    then show "close_join (sp_shared s') \<noteq> None"
      using places' by (cases "thread (sp_shared s')") (simp_all add: places_ok_def close_join_def)
  }
qed

text \<open>The watcher of before is asked to stop in the middle of a round in which the file cannot be found.\<close>

definition demo_stopping :: spawned where
  "demo_stopping = demo_ready\<lparr>sp_pc := TPolls, sp_shared := close_take (snd (subscribe new_shared))\<rparr>"

definition demo_lost :: poll_env where
  "demo_lost = (demo_env 2)\<lparr>pe_now := 100, pe_stat := None\<rparr>"

definition demo_over :: spawned where
  "demo_over = demo_stopping\<lparr>sp_pc := TOver, sp_commits := 1,
     sp_watch := \<lparr>w_conn = False, w_last = 2, w_identity = (1, 2), w_next_check = 200, w_wakes = 2\<rparr>,
     sp_shared := thread_ends Finished (fan_out (fan_out (sp_shared demo_stopping)))\<rparr>"

lemma sp_takes: "sp_main s = MReturned \<Longrightarrow> spawn_step dv s (Others Take) (s\<lparr>sp_shared := close_take (sp_shared s)\<rparr>)"
  by (rule sp_others) (auto intro: step_take)

lemma demo_stopping_run: "run (spawn_step (\<lambda>_ n. of_nat (Suc n))) spawn_new (demo_start @ [LoopHead, Others Take]) demo_stopping"
  by (rule run_append [OF demo_start_run], intro steps_of_run then_step [OF sp_takes])
    (simp_all add: demo_defs thread_defs demo_stopping_def subscribe_def new_shared_def)

lemma demo_over_run:
  "run (spawn_step (\<lambda>_ n. of_nat (Suc n))) demo_stopping [Commits, Polls (demo_env 2), Fires, Checks demo_lost, Fires, LoopHead] demo_over"
  by (intro steps_of_run)
    (simp_all add: demo_defs thread_defs demo_stopping_def demo_lost_def demo_over_def poll_version_def check_identity_def on_change_def
      close_take_def subscribe_def new_shared_def Let_def)

theorem start_and_close_return_witness:
  "stop (sp_shared demo_stopping) \<and> close_join (sp_shared demo_over) \<noteq> None"
proof -
  have "stop (sp_shared demo_stopping)"
    by (simp add: demo_stopping_def close_take_def subscribe_def new_shared_def)
  then show ?thesis
    using start_and_close_return [OF demo_stopping_run demo_over_run] by simp
qed

end
