(* ===== verification/Queries.thy ===== *)
theory Queries
  imports Marshal Bindings Watcher
begin

text \<open>
  \<^verbatim>\<open>Database::query\<close> of the Python and the Node binding: a connection out of \<^verbatim>\<open>Readers\<close>, the statement with its parameters, its rows as
  objects of the language, and the connection back. And the subscription object of the Node binding. The pool is seen from outside, one call at a
  time; its threads are in the theory \<open>Pools\<close>.
\<close>

section \<open>The reader pool, call by call\<close>

text \<open>The vector of the source is a stack here: \<^verbatim>\<open>push\<close> and \<^verbatim>\<open>pop\<close> are at the head.\<close>

record 'd reader_pool =
  rp_pool :: "'d conn list"
  rp_outstanding :: nat
  rp_max :: nat
  rp_closed :: bool

definition pool_new :: "nat \<Rightarrow> 'd reader_pool" where
  "pool_new n = \<lparr>rp_pool = [], rp_outstanding = 0, rp_max = max n 1, rp_closed = False\<rparr>"

definition closed_err :: sqlerr where
  "closed_err = SqliteFailure (OtherCode 21) ''Database is closed''"

text \<open>\<open>opened\<close> is what \<^verbatim>\<open>open_conn\<close> comes back with; \<open>PoolWaits\<close>: the call sits on the condition variable.\<close>

datatype 'd reader_res = PoolGot "'d conn" "'d reader_pool" | PoolErr sqlerr "'d reader_pool" | PoolWaits

definition pool_acquire :: "sqlerr + 'd conn \<Rightarrow> 'd reader_pool \<Rightarrow> 'd reader_res" where
  "pool_acquire opened p =
     (if rp_closed p then PoolErr closed_err p
      else case rp_pool p of
        c # cs \<Rightarrow> PoolGot c (p\<lparr>rp_pool := cs\<rparr>)
      | [] \<Rightarrow>
          if rp_outstanding p < rp_max p then
            (let p1 = p\<lparr>rp_outstanding := rp_outstanding p + 1\<rparr> in
             case opened of
               Inr c \<Rightarrow> PoolGot c p1
             | Inl e \<Rightarrow> PoolErr e (p1\<lparr>rp_outstanding := rp_outstanding p1 - 1\<rparr>))
          else PoolWaits)"

definition pool_release :: "'d conn \<Rightarrow> 'd reader_pool \<Rightarrow> 'd reader_pool" where
  "pool_release c p = (if rp_closed p then p else p\<lparr>rp_pool := c # rp_pool p\<rparr>)"

definition pool_close :: "'d reader_pool \<Rightarrow> 'd reader_pool" where
  "pool_close p = p\<lparr>rp_closed := True, rp_pool := []\<rparr>"

section \<open>Running a statement\<close>

text \<open>
  What \<^verbatim>\<open>prepare_cached\<close>, \<^verbatim>\<open>query\<close> and the calls of \<^verbatim>\<open>next\<close> give for a statement with its parameters: an error, or the names of the columns and the
  rows one after the other, each of which may be an error.
\<close>

type_synonym 'd statement = "sqlval list \<Rightarrow> 'd conn \<Rightarrow> (sqlerr + string list \<times> (sqlerr + cell list) list) \<times> 'd conn"

fun fetch_rows :: "(cell list \<Rightarrow> 'r) \<Rightarrow> (sqlerr + cell list) list \<Rightarrow> sqlerr + 'r list" where
  "fetch_rows f [] = Inr []"
| "fetch_rows f (Inl e # rows) = Inl e"
| "fetch_rows f (Inr r # rows) = (case fetch_rows f rows of Inl e \<Rightarrow> Inl e | Inr out \<Rightarrow> Inr (f r # out))"

datatype query_err = BadParams py_err | QueryFailed sqlerr

definition py_run_query ::
  "(int list \<Rightarrow> string option) \<Rightarrow> 'd statement \<Rightarrow> py_params \<Rightarrow> 'd conn \<Rightarrow> (query_err + (string \<rightharpoonup> py_obj) list) \<times> 'd conn" where
  "py_run_query utf8 stmt params c = (case build_params params of
       Inl e \<Rightarrow> (Inl (BadParams e), c)
     | Inr values \<Rightarrow> (case stmt values c of
          (Inl e, c') \<Rightarrow> (Inl (QueryFailed e), c')
        | (Inr (columns, rows), c') \<Rightarrow>
            (case fetch_rows (\<lambda>r. run_query_row utf8 (zip columns r)) rows of
               Inl e \<Rightarrow> (Inl (QueryFailed e), c')
             | Inr out \<Rightarrow> (Inr out, c'))))"

definition node_run_query :: "(int list \<Rightarrow> string option) \<Rightarrow> 'd statement \<Rightarrow> sqlval list \<Rightarrow> 'd conn \<Rightarrow> (sqlerr + (string \<rightharpoonup> node_val) list) \<times> 'd conn" where
  "node_run_query utf8 stmt values c = (case stmt values c of
       (Inl e, c') \<Rightarrow> (Inl e, c')
     | (Inr (columns, rows), c') \<Rightarrow> (fetch_rows (\<lambda>r. row_to_json utf8 (zip columns r)) rows, c'))"

section \<open>\<^verbatim>\<open>Database::query\<close>\<close>

text \<open>\<open>None\<close> while the call waits for a connection.\<close>

definition py_query ::
  "(int list \<Rightarrow> string option) \<Rightarrow> 'd statement \<Rightarrow> py_params \<Rightarrow> sqlerr + 'd conn \<Rightarrow> 'd reader_pool
    \<Rightarrow> ((query_err + (string \<rightharpoonup> py_obj) list) \<times> 'd reader_pool) option" where
  "py_query utf8 stmt params opened p = (case pool_acquire opened p of
       PoolWaits \<Rightarrow> None
     | PoolErr e p1 \<Rightarrow> Some (Inl (QueryFailed e), p1)
     | PoolGot c p1 \<Rightarrow> (case py_run_query utf8 stmt params c of (result, c') \<Rightarrow> Some (result, pool_release c' p1)))"

definition node_query ::
  "(node_val \<Rightarrow> string) \<Rightarrow> (int list \<Rightarrow> string option) \<Rightarrow> 'd statement \<Rightarrow> node_val list option \<Rightarrow> sqlerr + 'd conn \<Rightarrow> 'd reader_pool
    \<Rightarrow> ((sqlerr + (string \<rightharpoonup> node_val) list) \<times> 'd reader_pool) option" where
  "node_query print utf8 stmt params opened p = (let values = sql_params_from_json print params in
     case pool_acquire opened p of
       PoolWaits \<Rightarrow> None
     | PoolErr e p1 \<Rightarrow> Some (Inl e, p1)
     | PoolGot c p1 \<Rightarrow> (case node_run_query utf8 stmt values c of (result, c') \<Rightarrow> Some (result, pool_release c' p1)))"

text \<open>The calls of one thread on the pool.\<close>

datatype 'd reader_call =
  PyQuery "int list \<Rightarrow> string option" "'d statement" py_params "sqlerr + 'd conn"
| NodeQuery "node_val \<Rightarrow> string" "int list \<Rightarrow> string option" "'d statement" "node_val list option" "sqlerr + 'd conn"
| ClosePool

fun pool_call :: "'d reader_call \<Rightarrow> 'd reader_pool \<Rightarrow> 'd reader_pool option" where
  "pool_call (PyQuery utf8 stmt params opened) p = map_option snd (py_query utf8 stmt params opened p)"
| "pool_call (NodeQuery print utf8 stmt params opened) p = map_option snd (node_query print utf8 stmt params opened p)"
| "pool_call ClosePool p = Some (pool_close p)"

text \<open>A call that waits would wait forever when no other thread is there.\<close>

fun pool_calls :: "'d reader_call list \<Rightarrow> 'd reader_pool \<Rightarrow> 'd reader_pool option" where
  "pool_calls [] p = Some p"
| "pool_calls (x # xs) p = (case pool_call x p of None \<Rightarrow> None | Some p' \<Rightarrow> pool_calls xs p')"

section \<open>Subscriptions of the Node binding\<close>

text \<open>\<^verbatim>\<open>next\<close> blocks in \<^verbatim>\<open>recv\<close> on a thread of its own; \<open>None\<close> while it does. An error means that the channel is closed.\<close>

definition node_next :: "nat \<Rightarrow> shared \<Rightarrow> ((string + unit) \<times> shared) option" where
  "node_next rx s = (case recv rx s of
       (Tick, s') \<Rightarrow> Some (Inr (), s')
     | (Disconnected, s') \<Rightarrow> Some (Inl ''honker update watcher died or was closed (subscription channel closed)'', s')
     | (Blocks, s') \<Rightarrow> None)"

definition node_events_close :: "64 word \<Rightarrow> shared \<Rightarrow> shared" where
  "node_events_close sub_id s = unsubscribe sub_id s"

text \<open>The drop of the object does the same; its receiver goes with the last call of \<^verbatim>\<open>next\<close> that holds it.\<close>

definition node_events_drop :: "64 word \<Rightarrow> shared \<Rightarrow> shared" where
  "node_events_drop sub_id s = unsubscribe sub_id s"

end
