(* ===== verification/Query_Thms.thy ===== *)
theory Query_Thms
  imports Queries Watcher_Thms
begin

text \<open>
  The queries of the bindings: what they return, that they keep the pool of readers intact, and that a closed subscription of the Node binding does
  not block.
\<close>

section \<open>Rows\<close>

text \<open>The rows up to the first error, which the query then returns instead.\<close>

definition first_error :: "(sqlerr + cell list) list \<Rightarrow> sqlerr option" where
  "first_error rows = (case filter isl rows of [] \<Rightarrow> None | r # _ \<Rightarrow> Some (projl r))"

lemma fetch_rows_exact:
  "fetch_rows f rows = (case first_error rows of None \<Rightarrow> Inr (map (f \<circ> projr) rows) | Some e \<Rightarrow> Inl e)"
  by (induction f rows rule: fetch_rows.induct) (auto simp: first_error_def split: list.splits)

section \<open>The pool\<close>

text \<open>Between calls every connection the pool has opened is in it.\<close>

definition pool_ok :: "'d reader_pool \<Rightarrow> bool" where
  "pool_ok p \<longleftrightarrow> 0 < rp_max p \<and> rp_outstanding p \<le> rp_max p \<and> (rp_closed p \<or> length (rp_pool p) = rp_outstanding p)"

lemmas pool_defs = pool_ok_def pool_acquire_def pool_release_def pool_close_def Let_def

lemma pool_ok_new: "pool_ok (pool_new n)"
  by (simp add: pool_ok_def pool_new_def)

text \<open>The part the two queries share: whatever is done with the connection, the pool is in order after it.\<close>

lemma acquire_release:
  assumes "pool_ok p"
  shows "case pool_acquire opened p of
      PoolWaits \<Rightarrow> False
    | PoolErr e p1 \<Rightarrow> p1 = p \<and> (rp_closed p \<and> e = closed_err \<or> rp_pool p = [] \<and> opened = Inl e)
    | PoolGot c p1 \<Rightarrow> \<not> rp_closed p \<and> (rp_pool p \<noteq> [] \<and> c = hd (rp_pool p) \<or> rp_pool p = [] \<and> opened = Inr c)
        \<and> (\<forall>c'. pool_ok (pool_release c' p1) \<and> rp_pool (pool_release c' p1) = c' # tl (rp_pool p) \<and> rp_max p1 = rp_max p \<and> rp_closed p1 = rp_closed p)"
  using assms by (cases "rp_pool p") (auto simp: pool_defs split: sum.splits)

definition keeps_pool :: "'d reader_pool \<Rightarrow> 'd reader_pool \<Rightarrow> bool" where
  "keeps_pool p p' \<longleftrightarrow> pool_ok p' \<and> rp_max p' = rp_max p \<and> (rp_closed p \<longrightarrow> rp_closed p')"

lemma py_query_ok:
  assumes "pool_ok p"
  shows "\<exists>r p'. py_query utf8 stmt params opened p = Some (r, p') \<and> keeps_pool p p'"
  using acquire_release [OF assms, of opened] assms
  by (auto simp: py_query_def keeps_pool_def pool_release_def split: reader_res.splits prod.splits)

lemma node_query_ok:
  assumes "pool_ok p"
  shows "\<exists>r p'. node_query print utf8 stmt params opened p = Some (r, p') \<and> keeps_pool p p'"
  using acquire_release [OF assms, of opened] assms
  by (auto simp: node_query_def keeps_pool_def pool_release_def Let_def split: reader_res.splits prod.splits)

lemma pool_call_ok:
  assumes "pool_ok p"
  shows "\<exists>p'. pool_call x p = Some p' \<and> keeps_pool p p'"
proof (cases x)
  case (PyQuery utf8 stmt params opened)
  then show ?thesis
    using py_query_ok [OF assms] by fastforce
next
  case (NodeQuery print utf8 stmt params opened)
  then show ?thesis
    using node_query_ok [OF assms] by fastforce
next
  case ClosePool
  then show ?thesis
    using assms by (simp add: keeps_pool_def pool_ok_def pool_close_def)
qed

lemma pool_calls_ok: "pool_ok p \<Longrightarrow> \<exists>p'. pool_calls xs p = Some p' \<and> keeps_pool p p'"
proof (induction xs arbitrary: p)
  case Nil
  then show ?case by (simp add: keeps_pool_def)
next
  case (Cons x xs)
  obtain p1 where p1: "pool_call x p = Some p1" "keeps_pool p p1"
    using pool_call_ok [OF Cons.prems] by blast
  then have "pool_ok p1"
    by (simp add: keeps_pool_def)
  then obtain p' where "pool_calls xs p1 = Some p'" "keeps_pool p1 p'"
    using Cons.IH by blast
  with p1 show ?case
    by (auto simp: keeps_pool_def)
qed

text \<open>
  Queries never exhaust the pool of readers: after any sequence of queries of either binding, whatever statements, parameters and failures they
  had, a further one finds a connection or a place for one, so none waits forever; at most \<^verbatim>\<open>max\<close> connections are open and, until the pool is closed,
  all of them are back in it.
\<close>

theorem queries_never_exhaust_pool:
  "\<exists>p. pool_calls xs (pool_new n) = Some p \<and> rp_outstanding p \<le> max n 1 \<and> (rp_closed p \<or> length (rp_pool p) = rp_outstanding p)
    \<and> (\<forall>x. pool_call x p \<noteq> None)"
proof -
  obtain p where p: "pool_calls xs (pool_new n) = Some p" "keeps_pool (pool_new n) p"
    using pool_calls_ok [OF pool_ok_new, of xs n] by blast
  then have "pool_ok p" "rp_max p = max n 1"
    by (simp_all add: keeps_pool_def pool_new_def)
  then show ?thesis
    using p pool_call_ok [of p] by (intro exI [of _ p]) (auto simp: pool_ok_def)
qed

section \<open>Subscriptions\<close>

definition only_sender :: "64 word \<Rightarrow> nat \<Rightarrow> shared \<Rightarrow> bool" where
  "only_sender i c s \<longleftrightarrow> c < channels s \<and> (\<forall>j. (j, c) \<in> set (senders s) \<longrightarrow> j = i)"

lemma only_sender_step: "shared_step s e s' \<Longrightarrow> only_sender i c s \<Longrightarrow> only_sender i c s'"
  by (erule shared_stepE) (auto simp: only_sender_def shared_defs Let_def split: if_splits)

interpretation sender: kept_by_steps shared_step "\<lambda>_. True" "only_sender i c" for i c
  by unfold_locales (rule only_sender_step)

text \<open>
  After \<^verbatim>\<open>close\<close> of a subscription of the Node binding, or after its drop, \<^verbatim>\<open>next\<close> never waits again, whatever happened to the watcher before and happens later: it
  returns a tick that was left or the error that says so.
\<close>

theorem node_closed_next_returns:
  assumes "run shared_step new_shared es0 s0" "subscribe s0 = ((i, c), s1)" "run shared_step s1 es s" "s2 = node_events_close i s \<or> s2 = node_events_drop i s"
    and "run shared_step s2 es' s'"
  shows "node_next c s' \<noteq> None"
proof -
  have "shared_ok s0"
    using ok.run_keeps [OF assms(1) any_label shared_ok_new] .
  then have "only_sender i c s1"
    using assms(2) by (force simp: only_sender_def shared_ok_def subscribe_def without_id_def Let_def)
  then have "only_sender i c s"
    by (rule sender.run_keeps [OF assms(3) any_label])
  then have "cut_off c (unsubscribe i s)"
    by (auto simp: only_sender_def cut_off_def unsubscribe_def without_id_def)
  then have "fst (recv c s') \<noteq> Blocks"
    using cut_off_recv [OF cut.run_keeps [OF assms(5) any_label]] assms(4) by (auto simp: node_events_close_def node_events_drop_def)
  then show ?thesis
    by (auto simp: node_next_def split: prod.splits recv_res.splits)
qed

end
