(* ===== verification/Delivery_Thms.thy ===== *)
theory Delivery_Thms
  imports Workers_Thms Spawn_Thms
begin

text \<open>
  From a commit to the worker: a claim through the client finds the job that is ready, and a worker that waited goes on when the watcher wakes it.
\<close>

section \<open>A claim that finds a job\<close>

definition leased_to :: "string \<Rightarrow> string \<Rightarrow> job \<Rightarrow> bool" where
  "leased_to queue worker_id j \<longleftrightarrow> j_queue j = queue \<and> j_state j = Processing \<and> j_worker_id j = Some worker_id"

lemma claimed_rows_leased:
  assumes "distinct (map j_id (live d))" "j \<in> set (claimed_rows queue worker_id n timeout_s now d)"
  shows "j \<in> set (live (claim_upd queue worker_id n timeout_s now d)) \<and> leased_to queue worker_id j"
proof -
  obtain j0 where j0: "j0 \<in> set (live d)" "id_in (claim_ids queue n now (live d)) j0" "j = claim_row worker_id timeout_s now j0"
    using assms(2) by (auto simp: claimed_rows_def)
  have "j_queue j0 = queue"
    using j0(1,2) id_in_pick [OF assms(1), of j0 n claim_key "claimable queue now"]
    by (auto simp: claim_ids_pick [OF assms(1)] claim_pick_def claimable_def)
  then show ?thesis
    using j0 by (auto simp: claim_upd_def set_upd_where leased_to_def claim_row_def)
qed

lemma claim_jobs_ready:
  assumes "binds ce" "script c = []" "idle c" "queue_wf (db c)" "n \<noteq> 0"
    and "j \<in> set (live (db c))" "ready queue (clock c) j" "length (due_scheduled queue (clock c) (live (db c))) \<le> 1000"
    and "claim_jobs ce queue worker_id n timeout_s c = (r, c')"
  shows "r \<noteq> Inr []"
    and "\<forall>k\<in>set (live (db c')). job_fits k \<Longrightarrow>
      \<exists>job jobs k. r = Inr (job # jobs) \<and> k \<in> set (live (db c')) \<and> job = job_of k \<and> leased_to queue worker_id k"
proof -
  define h where "h = housekeep queue (clock c) (db c)"
  define rows where "rows = claimed_rows queue worker_id n timeout_s (clock c) h"
  have ok: "conn_ok c"
    using assms(3) by (simp add: idle_def)
  obtain c1 where c1: "claim_batch queue worker_id n timeout_s c = (Ok (JArr (map claim_json rows)), c1)"
    "db c1 = claim_upd queue worker_id n timeout_s (clock c) h"
    using claim_batch_quiet [OF assms(2) ok assms(4), of queue worker_id n timeout_s] unfolding rows_def h_def by blast
  have dist: "distinct (map j_id (live h))"
    unfolding h_def using assms(4) by (intro distinct_housekeep queue_wf_distinct)
  note leased = claimed_rows_leased [OF dist, of _ queue worker_id n timeout_s "clock c", folded rows_def c1(2)]
  have "rows \<noteq> []"
    using claimed_rows_ready [OF assms(4-8)] unfolding rows_def h_def .
  then obtain k ks where k: "rows = k # ks"
    by (cases rows) auto
  have r: "c' = c1 \<and> r = (case as_vec raw_job (JArr (map claim_json rows)) of None \<Rightarrow> Inl JsonError | Some a \<Rightarrow> Inr a)"
    using job_calls(1) [OF assms(1)] assms(9) [unfolded claim_jobs_def] by (cases rule: json_call) (use c1(1) in auto)
  then show "r \<noteq> Inr []"
    using k by (auto simp: bind_eq_Some_conv split: option.splits)
  assume fits: "\<forall>k\<in>set (live (db c')). job_fits k"
  have "raw_job (claim_json x) = Some (job_of x)" if "x \<in> set rows" for x
    using leased [OF that] fits that r
    by (intro raw_job_exact) (auto simp: leased_to_def rows_def claimed_rows_def claim_row_def)
  then have "as_vec raw_job (JArr (map claim_json rows)) = Some (map job_of rows)"
    by (rule as_vec_map)
  then show "\<exists>job jobs k. r = Inr (job # jobs) \<and> k \<in> set (live (db c')) \<and> job = job_of k \<and> leased_to queue worker_id k"
    using r leased [of k] k by auto
qed

section \<open>A worker that is woken\<close>

text \<open>Rounds after which the loop goes on can be run first.\<close>

lemma waker_append:
  "waker_next ce name timeout_s worker_id es c = (WakerUnfinished, c1) \<Longrightarrow>
    waker_next ce name timeout_s worker_id (es @ es') c = waker_next ce name timeout_s worker_id es' c1"
proof (induction es arbitrary: c)
  case (Cons e es)
  from Cons.prems show ?case
    by (auto split: prod.splits sum.splits list.splits if_splits until_res.splits intro: Cons.IH)
qed simp

text \<open>A worker that would wait for good goes on with a tick.\<close>

lemma waker_tick:
  "waker_next ce name timeout_s worker_id [e\<lparr>wr_recv := Blocks\<rparr>] c = (WakerBlocked, c1) \<Longrightarrow> wr_recv e = Tick \<Longrightarrow>
    waker_next ce name timeout_s worker_id [e] c = (WakerUnfinished, c1)"
  by (auto simp: recv_until_def split: prod.splits sum.splits list.splits if_splits)

lemma meanwhile_fields: "idle c \<Longrightarrow> db (meanwhile f c) = f (db c) \<and> clock (meanwhile f c) = clock c \<and> script (meanwhile f c) = script c"
  by (auto simp: meanwhile_def idle_def is_autocommit_def)

lemma woken_waker_claims:
  assumes "binds ce" "script c = []" "idle c" "queue_wf (wr_before e (db c))"
    and "j \<in> set (live (wr_before e (db c)))" "ready name (clock c) j"
    and "length (due_scheduled name (clock c) (live (wr_before e (db c)))) \<le> 1000"
    and "waker_next ce name timeout_s worker_id [e] c = (r, c')" "\<forall>k\<in>set (live (db c')). job_fits k"
  shows "\<exists>job k. r = GotJob job \<and> k \<in> set (live (db c')) \<and> job = job_of k \<and> leased_to name worker_id k"
proof -
  let ?c = "meanwhile (wr_before e) c"
  note f = meanwhile_fields [OF assms(3), of "wr_before e"]
  obtain r1 c1 where cl: "claim_jobs ce name worker_id 1 timeout_s ?c = (r1, c1)"
    by fastforce
  note ready = claim_jobs_ready [OF assms(1) _ _ _ _ _ _ _ cl, of j]
  have "r1 \<noteq> Inr []" "\<forall>k\<in>set (live (db c1)). job_fits k \<Longrightarrow>
      \<exists>job jobs k. r1 = Inr (job # jobs) \<and> k \<in> set (live (db c1)) \<and> job = job_of k \<and> leased_to name worker_id k"
    using ready f assms(2-7) meanwhile_idle [OF assms(3)] by simp_all
  moreover have "c' = c1"
    using assms(8) cl calculation(1) by (auto split: sum.splits list.splits)
  ultimately show ?thesis
    using assms(8,9) cl by fastforce
qed

end
