(* ===== verification/Spec2Isabelle.thy ===== *)
theory Spec2Isabelle
  imports Wake_Thms Streams Locks Rate_Limits Cron_Props History Lifecycle Arg_Thms Watcher_Thms Pools_Thms Bootstrap_Thms Shm_Thms Kernel_Thms
    Client_Thms Listener_Thms Workers_Thms Leader_Thms Prune_Thms Extension_Thms Marshal_Thms Facade_Thms Spawn_Thms Query_Thms Delivery_Thms
begin

text \<open>
  Honker puts a job queue, streams, notifications, named locks, rate limits, task results and a cron scheduler into a SQLite
  database. This is a model of its Rust code, translated function by function, with the theorems that make it correct.

  \<^bold>\<open>The parts of the program and how they interact.\<close> Under \<^verbatim>\<open>src/\<close>:

  \<^item> \<^verbatim>\<open>honker-core/src/honker_ops.rs\<close> holds the operations as sequences of SQL statements on one connection, and registers them as SQL
    functions. What has to be atomic runs in the savepoint of \<^verbatim>\<open>in_savepoint\<close>.
  \<^item> \<^verbatim>\<open>honker-core/src/lib.rs\<close> holds the schema with its migration, the opening of a connection, the pools (\<^verbatim>\<open>Writer\<close>, \<^verbatim>\<open>Readers\<close>), and the
    update watcher: a thread that notices commits of any process and wakes the subscribers, who then read the tables again. Its polling
    loop is there; \<^verbatim>\<open>shm_watcher.rs\<close> and \<^verbatim>\<open>kernel_watcher.rs\<close> are two other backends.
  \<^item> \<^verbatim>\<open>honker-core/src/cron.rs\<close> parses schedules and finds the next boundary for the scheduler.
  \<^item> \<^verbatim>\<open>packages/honker-rs\<close> is the client crate: typed calls on the SQL functions, blocking readers that wait for the watcher, the
    outbox, the waiting worker and the scheduler with its leader election.
  \<^item> \<^verbatim>\<open>packages/honker\<close> (Python), \<^verbatim>\<open>packages/honker-node\<close> and \<^verbatim>\<open>honker-extension\<close> give the core to other languages.

  \<^bold>\<open>The environment.\<close> A connection (theory \<open>Sqlite_Conn\<close>) has the tables as its transaction sees them, the durable tables, the open
  savepoints, a clock and a \<^emph>\<open>script\<close> with one entry per statement: how far the clock moves before it, and whether it fails, fails and rolls the
  transaction back, or whether the Rust code around it panics. No theorem restricts the script unless its statement says so, so every statement of
  every operation may fail. Other processes appear as functions on the tables between two calls (\<open>meanwhile\<close>), as interleaved
  statements (\<open>Locks\<close>) or as other threads of a step relation (\<open>Pools\<close>, \<open>Extension\<close>). Loops that wait take a list of
  \<^emph>\<open>rounds\<close>, which say what the clock, the channel and the others do in each; a result for the case that the list is used up stands for a loop
  that goes on. What the crates \<^verbatim>\<open>chrono\<close>, \<^verbatim>\<open>rusqlite\<close> and \<^verbatim>\<open>serde_json\<close> do is a parameter; the laws the theorems need of it are named
  hypotheses or the assumptions of a locale (\<open>calendar\<close>, which the Gregorian calendar of the theory \<open>Gregorian\<close> satisfies; \<open>binds\<close>, which
  says how values are bound and read).

  \<^bold>\<open>The theories and what they model.\<close>

  \<^item> \<open>Honker_Base\<close>, \<open>Text\<close>, \<open>Json\<close>, \<open>Traces\<close>: errors and results, 64-bit bounds, strings, JSON values, runs of step relations and the locales
    \<open>kept_by_steps\<close>, through which an invariant of the steps becomes one of the runs, and \<open>countdown\<close>, which bounds them.
  \<^item> \<open>Sqlite_Conn\<close>, \<open>Savepoint\<close>: connections; \<^verbatim>\<open>in_savepoint\<close>, \<^verbatim>\<open>undo_savepoint\<close>, \<^verbatim>\<open>UnwindUndo\<close>. The locales \<open>savepoint_body\<close> and \<open>atomic_action\<close> are the
    interface between the savepoint and the operations in it.
  \<^item> \<open>Schema\<close>: the tables of \<^verbatim>\<open>BOOTSTRAP_HONKER_SQL\<close>, one record per row and one field per column.
  \<^item> \<open>Queue_Claim\<close>, \<open>Queue_Ops\<close>: \<^verbatim>\<open>claim_batch\<close> with its housekeeping, \<^verbatim>\<open>sweep_expired\<close>, \<^verbatim>\<open>enqueue\<close>, \<^verbatim>\<open>ack\<close>, \<^verbatim>\<open>retry\<close>, \<^verbatim>\<open>fail\<close>, \<^verbatim>\<open>heartbeat\<close> and their fenced forms,
    \<^verbatim>\<open>cancel\<close>, \<^verbatim>\<open>get_job\<close>, \<^verbatim>\<open>queue_next_claim_at\<close>. \<open>Queue_Inv\<close> has the moves of a queue as a locale, \<open>Queue_Thms\<close>, \<open>Job_Thms\<close> and \<open>Wake_Thms\<close> the
    behaviour of each operation on every branch.
  \<^item> \<open>Streams\<close>, \<open>Locks\<close>, \<open>Rate_Limits\<close>: publishing, reading, offsets and \<^verbatim>\<open>notify\<close>; named locks; windows and results.
  \<^item> \<open>Cron\<close>, \<open>Cron_Thms\<close>, \<open>Gregorian\<close>, \<open>Cron_Props\<close>: \<^verbatim>\<open>cron.rs\<close> and what its search finds. \<open>Scheduler\<close>, \<open>Scheduler_Thms\<close>: the tick with its catch-up, registration and maintenance.
  \<^item> \<open>Sql_Api\<close>, \<open>Sql_Thms\<close>, \<open>Arg_Thms\<close>: \<^verbatim>\<open>attach_honker_functions\<close>, name by name, and how arguments are read. \<open>History\<close> and \<open>Lifecycle\<close>
    run any sequence of SQL calls and refine it to the life of one job.
  \<^item> \<open>Watcher\<close>, \<open>Watcher_Thms\<close>, \<open>Shm\<close>, \<open>Shm_Thms\<close>, \<open>Kernel\<close>, \<open>Kernel_Thms\<close>: the three watcher loops and \<^verbatim>\<open>SharedUpdateWatcher\<close>; the loop over \<^verbatim>\<open>kqueue\<close> has
    the table of descriptors it shares with SQLite.
  \<^item> \<open>Spawn\<close>, \<open>Spawn_Thms\<close>: the start of a watcher with its channel \<^verbatim>\<open>ready\<close> and its close, as one step relation of the thread, its caller, the
    subscribers and the connections that commit.
  \<^item> \<open>Pools\<close>, \<open>Pools_Thms\<close>: the threads of \<^verbatim>\<open>Writer\<close> and \<^verbatim>\<open>Readers\<close>. \<open>Bootstrap\<close>, \<open>Bootstrap_Thms\<close>: \<^verbatim>\<open>bootstrap_honker_schema\<close> and \<^verbatim>\<open>migrate_claim_v2\<close>.
  \<^item> \<open>Client\<close>, \<open>Client_Thms\<close>: the calls of the client crate. \<open>Feeds\<close>, \<open>Feeds_Thms\<close>, \<open>Listener_Thms\<close>: \<^verbatim>\<open>StreamSubscription\<close>, \<^verbatim>\<open>Subscription\<close>, \<^verbatim>\<open>UpdateEvents\<close>; a reader
    with a cursor and a buffer is the locale \<open>cursor_feed\<close>. \<open>Workers\<close>, \<open>Workers_Thms\<close>: \<^verbatim>\<open>ClaimWaker\<close> and \<^verbatim>\<open>Outbox\<close>. \<open>Leader\<close>, \<open>Leader_Thms\<close>: \<^verbatim>\<open>Scheduler::run\<close>.
    \<open>Delivery_Thms\<close> and the section below join the watcher, the subscription and the worker.
  \<^item> \<open>Bindings\<close>, \<open>Bindings_Thms\<close>, \<open>Prune_Thms\<close>: the transaction objects of Python and Node over the one writer connection, both instances of the locale
    \<open>simulation\<close>. \<open>Marshal\<close>, \<open>Marshal_Thms\<close>: parameters and rows. \<open>Facade\<close>, \<open>Facade_Thms\<close>: \<^verbatim>\<open>Database\<close> and the Python iterator.
    \<open>Queries\<close>, \<open>Query_Thms\<close>: \<^verbatim>\<open>Database::query\<close> over the reader pool and the subscription object of Node.
    \<open>Extension\<close>, \<open>Extension_Thms\<close>: the registry of SQL watchers and the C interface.

  \<^bold>\<open>What the theorems show.\<close> A savepoint keeps all or nothing. Over every sequence of SQL calls the tables stay well formed, no job is lost, no fencing
  token is handed out twice and an old token changes nothing; each job follows an abstract life cycle. Each operation does on
  every branch what its contract says. A watcher that has been started passes over no commit, up to the gaps that the findings name; its start and its close come
  to an end, and the loop over \<^verbatim>\<open>kqueue\<close> closes exactly the descriptors it opened. Pools are exclusive and bounded, and lose no wake-up. A job that is committed reaches the worker that waits for it. Readers of the client are given everything once and in order, and wait only when there is nothing left. A job leaves
  the outbox only when it was delivered. The leader ticks only under its lock. The transactions of a binding are those
  of a serial machine. The theorems with a name but no claim number are findings, or facts about the same definitions.

  \<^bold>\<open>Bounds and fuel.\<close> The numbers of the source are kept: 64 catch-up fires, 1000 rows of housekeeping, buffers of 100 events and 1000 notifications, 256 retained
  descriptors, 200 tries for the first header. The switch to WAL mode is a \<open>partial_function\<close>, and 106 attempts are proved to be enough; the searches
  of \<open>Cron\<close> are total functions with a measure. Lists of rounds are of any length. Integers in the tables are
  unbounded: where SQLite would turn an overflowing sum into a REAL the model goes on with the sum. Keys and counters of the watcher, the registry of the
  extension, the saturating arithmetic of the outbox and the arguments of SQL functions have their width.

  \<^bold>\<open>Not modelled.\<close> The text of the PRAGMAs other than \<^verbatim>\<open>journal_mode\<close>; prepared-statement caches, which do not change results; \<^verbatim>\<open>honker_bootstrap\<close> as a SQL function, since its effect on a file is the theory \<open>Bootstrap\<close>;
  the arguments of the system call \<^verbatim>\<open>kevent\<close> and the memory map below \<open>Shm\<close>; the start of the two other backends, whose threads report on
  \<^verbatim>\<open>ready\<close> in the same place; accessors that return a field. JSON that the core prints is the value
  itself (\<open>SJson\<close>) and not its text. The wrappers in other languages load the extension and run its SQL functions; the benchmarks and tests keep no state.
\<close>

section \<open>From a commit to the worker\<close>

text \<open>
  C6. A job that another process commits reaches the worker that waits for it. Let a watcher have been started and the worker be on its list, and let
  \<^verbatim>\<open>ClaimWaker::next\<close> have come to the point where it waits for good. Someone commits; when the thread of the watcher has read a version and come
  back to the head of its loop, whatever else happened in between, the worker's wait ends, and if then a job of its queue is ready and its
  statements do not fail, \<^verbatim>\<open>next\<close> returns a job of the queue, which is leased to this worker in the database.
\<close>

theorem worker_gets_committed_job:
  assumes "run (spawn_step dv) spawn_new es0 s" "sp_main s = MReturned" "w_conn (sp_watch s)" "on_list ch s"
    and "run (spawn_step dv) s (Commits # a @ Polls e # b @ LoopHead # d) s'" "pe_poll e = Inr v"
    and "list_all (fair_to ch) (a @ Polls e # b @ LoopHead # d)"
    and "versions_differ dv (sp_commits s')" "channels (sp_shared s') < 2 ^ 64"
    and "binds ce" "waker_next ce name timeout_s worker_id before c = (WakerUnfinished, c0)"
    and "waker_next ce name timeout_s worker_id [e1\<lparr>wr_recv := Blocks\<rparr>] c0 = (WakerBlocked, c1)"
    and "wr_recv e1 = fst (recv ch (sp_shared s'))"
    and "script c1 = []" "idle c1" "queue_wf (wr_before e2 (db c1))"
    and "j \<in> set (live (wr_before e2 (db c1)))" "ready name (clock c1) j"
    and "length (due_scheduled name (clock c1) (live (wr_before e2 (db c1)))) \<le> 1000"
    and "waker_next ce name timeout_s worker_id (before @ [e1, e2]) c = (r, c')" "\<forall>k\<in>set (live (db c')). job_fits k"
  shows "\<exists>job k. r = GotJob job \<and> k \<in> set (live (db c')) \<and> job = job_of k \<and> leased_to name worker_id k"
proof -
  have "ticks (sp_shared s') ch"
    using assms(1-9) by (rule commit_wakes_subscriber)
  then have "wr_recv e1 = Tick"
    using assms(13) by (simp add: recv_def)
  from waker_tick [OF assms(12) this] have "waker_next ce name timeout_s worker_id ([e1] @ [e2]) c0 = waker_next ce name timeout_s worker_id [e2] c1"
    by (rule waker_append)
  then have "waker_next ce name timeout_s worker_id [e2] c1 = (r, c')"
    using waker_append [OF assms(11), of "[e1, e2]"] assms(20) by simp
  from woken_waker_claims [OF assms(10,14-19) this assms(21)] show ?thesis .
qed

text \<open>The watcher of the theory \<open>Spawn_Thms\<close>, and a worker on an empty queue into which one job is put.\<close>

definition demo_wait :: wake_round where
  "demo_wait = \<lparr>wr_before = (\<lambda>d. d), wr_between = (\<lambda>d. d), wr_now = 100, wr_recv = Tick\<rparr>"

definition demo_arrival :: wake_round where
  "demo_arrival = demo_wait\<lparr>wr_before := (\<lambda>d. d\<lparr>live := [sample_job 2 5], live_seq := 2\<rparr>)\<rparr>"

theorem worker_gets_committed_job_witness:
  "\<exists>job. fst (waker_next demo_client ''q'' 30 ''w2'' [demo_wait, demo_arrival] (fresh_conn empty_db 100 [])) = GotJob job \<and> cj_worker_id job = ''w2''"
proof -
  let ?c = "fresh_conn empty_db 100 []"
  let ?wait = "waker_next demo_client ''q'' 30 ''w2'' [demo_wait\<lparr>wr_recv := Blocks\<rparr>] ?c"
  let ?run = "waker_next demo_client ''q'' 30 ''w2'' ([] @ [demo_wait, demo_arrival]) ?c"
  let ?d = "wr_before demo_arrival (db (snd ?wait))"
  have wait: "?wait = (WakerBlocked, snd ?wait)"
    by (rule run_pair) code_simp
  have "\<exists>job k. fst ?run = GotJob job \<and> k \<in> set (live (db (snd ?run))) \<and> job = job_of k \<and> leased_to ''q'' ''w2'' k"
  proof (rule worker_gets_committed_job [OF demo_start_run _ _ _ demo_round_run _ _ _ _ demo_client_binds _ wait _ _ _ _ _ _ _ prod.collapse [symmetric, of ?run]])
    show "on_list 0 demo_ready"
      by (simp add: on_list_def demo_defs subscribe_def new_shared_def without_id_def)
    show "list_all (fair_to 0) ([LoopHead] @ Polls (demo_env 2) # [Fires, Checks (demo_env 2)] @ LoopHead # [])"
      by (auto simp: fair_to_def takes_off_def demo_defs)
    show "versions_differ (\<lambda>_ n. of_nat (Suc n)) (sp_commits demo_woken)"
      by (simp add: versions_differ_def demo_woken_def demo_ready_def inj_on_def atMost_Suc)
    show "wr_recv demo_wait = fst (recv 0 (sp_shared demo_woken))"
      by (simp add: demo_wait_def demo_woken_def demo_ready_def recv_def fan_out_def subscribe_def new_shared_def Let_def)
    show "script (snd ?wait) = []" "sample_job 2 5 \<in> set (live ?d)" "ready ''q'' (clock (snd ?wait)) (sample_job 2 5)"
      "length (due_scheduled ''q'' (clock (snd ?wait)) (live ?d)) \<le> 1000" "\<forall>k\<in>set (live (db (snd ?run))). job_fits k"
      by code_simp+
    show "idle (snd ?wait)"
      unfolding idle_def by code_simp
    show "queue_wf ?d"
      by (simp add: demo_arrival_def) code_simp
  qed (simp_all add: demo_woken_def demo_defs subscribe_def new_shared_def)
  then show ?thesis
    by (auto simp: job_of_def leased_to_def)
qed

end
